(* ===== verification/Prelude.thy ===== *)
theory Prelude
  imports Main "HOL-Library.Word"
begin

text \<open>
  Shared base of the development: the machine integers of the C sources, errno values,
  byte buffers as lists with the two memory operations the code uses (a read of a slice, and
  a copy into a slice), the little-endian layout of integers in memory, and the word and list
  lemmas the component theories share.
\<close>

unbundle bit_operations_syntax

section \<open>Machine integers and errno\<close>

type_synonym u8 = "8 word"
type_synonym u16 = "16 word"
type_synonym u32 = "32 word"
type_synonym u64 = "64 word"
type_synonym bytes = "8 word list"

text \<open>
  The errno constants of the Linux headers the sources return negated; a C \<open>int\<close> return
  code is an \<open>int\<close> here, since the code only compares and returns such codes.
\<close>

definition EIO :: int where "EIO = 5"
definition ENOMEM :: int where "ENOMEM = 12"
definition ENODEV :: int where "ENODEV = 19"
definition EINVAL :: int where "EINVAL = 22"
definition EROFS :: int where "EROFS = 30"
definition EBADMSG :: int where "EBADMSG = 74"
definition EUCLEAN :: int where "EUCLEAN = 117"
definition ENOTSUPP :: int where "ENOTSUPP = 524"

named_theorems errno_simps

lemmas [errno_simps] = EIO_def ENOMEM_def ENODEV_def EINVAL_def EROFS_def EBADMSG_def
  EUCLEAN_def ENOTSUPP_def

section \<open>Words\<close>

lemma unat_lt_two_power: "unat (x :: 'a::len word) < 2 ^ LENGTH('a)"
  by (rule unsigned_less)

lemma unat_add_one_below:
  assumes "(x :: 'a::len word) < y"
  shows "unat (x + 1) = Suc (unat x)"
proof -
  have "Suc (unat x) < 2 ^ LENGTH('a)"
    using assms unat_lt_two_power [of y] unfolding word_less_nat_alt by linarith
  then show ?thesis
    by (simp add: unat_word_ariths)
qed

lemma unat_sub_one_above: "(y :: 'a::len word) < x \<Longrightarrow> unat (x - 1) = unat x - 1"
  by (rule unat_minus_one) (auto simp: word_less_nat_alt)

lemma unat_add_one_le: "(x :: 'a::len word) < y \<Longrightarrow> x + 1 \<le> y"
  by (simp add: word_le_nat_alt word_less_nat_alt unat_add_one_below)

lemma word_le_sub_one: "(y :: 'a::len word) < x \<Longrightarrow> y \<le> x - 1"
  by (simp add: word_le_nat_alt word_less_nat_alt unat_sub_one_above)

lemma unat_add_no_wrap:
  "unat (x :: 'a::len word) + unat y < 2 ^ LENGTH('a) \<Longrightarrow> unat (x + y) = unat x + unat y"
  by (simp add: unat_word_ariths)

lemma unat_of_nat_small: "n < 2 ^ LENGTH('a) \<Longrightarrow> unat (of_nat n :: 'a::len word) = n"
  by (simp add: unat_of_nat)

lemma u32_less_2p32: "unat (x :: u32) < 2 ^ 32"
  using unsigned_less [of x, where ?'a = nat] by simp

lemma unat_u32_le [simp]: "unat (x :: u32) \<le> 4294967296"
  using u32_less_2p32 [of x] by simp

lemma unat_ucast_u32_u64 [simp]: "unat (ucast (x :: u32) :: u64) = unat x"
  using u32_less_2p32 [of x] by (simp add: unsigned_ucast_eq take_bit_nat_eq_self)

lemma unat_ucast_u64_u32: "unat (ucast (x :: u64) :: u32) = unat x mod 2 ^ 32"
  by (simp add: unsigned_ucast_eq take_bit_eq_mod)

lemma unat_two_power: "k < LENGTH('a) \<Longrightarrow> unat (2 ^ k :: 'a::len word) = 2 ^ k"
  using unat_of_nat_small [of "2 ^ k", where 'a = 'a] by simp

lemma two_power_le: "k \<le> n \<Longrightarrow> (2 :: nat) ^ k \<le> 2 ^ n"
  by (rule power_increasing) simp_all

lemma upt_split: "i \<le> k \<Longrightarrow> k < n \<Longrightarrow> [i..<n] = [i..<k] @ k # [Suc k..<n]"
  using upt_add_eq_append [of i k "n - k"] by (simp add: upt_conv_Cons)

lemma xor_cancel:
  "a XOR c = b XOR c \<longleftrightarrow> a = b" "c XOR a = c XOR b \<longleftrightarrow> a = b" for a b c :: "'a::len word"
  by (auto simp: bit_eq_iff bit_xor_iff)

section \<open>Byte buffers\<close>

text \<open>
  A pointer into memory is the list of bytes from it to the end of its allocation.
  \<open>buf_get off n b\<close> is what a copy of \<open>n\<close> bytes from \<open>b + off\<close> reads, and
  \<open>buf_put off xs b\<close> is \<open>b\<close> after \<open>memcpy(b + off, xs, length xs)\<close>; the
  code keeps \<open>off + length xs\<close> within the allocation, and then the length is kept.
\<close>

definition buf_get :: "nat \<Rightarrow> nat \<Rightarrow> 'a list \<Rightarrow> 'a list" where
  "buf_get off n b = take n (drop off b)"

definition buf_put :: "nat \<Rightarrow> 'a list \<Rightarrow> 'a list \<Rightarrow> 'a list" where
  "buf_put off xs b = take off b @ xs @ drop (off + length xs) b"

definition memset :: "nat \<Rightarrow> 'a \<Rightarrow> nat \<Rightarrow> 'a list \<Rightarrow> 'a list" where
  "memset off c n b = buf_put off (replicate n c) b"

lemma length_buf_get [simp]: "length (buf_get off n b) = min n (length b - off)"
  by (simp add: buf_get_def min.commute)

lemma length_buf_put:
  "off + length xs \<le> length b \<Longrightarrow> length (buf_put off xs b) = length b"
  by (simp add: buf_put_def)

lemma length_memset: "off + n \<le> length b \<Longrightarrow> length (memset off c n b) = length b"
  by (simp add: memset_def length_buf_put)

lemma buf_get_put_same:
  "off \<le> length b \<Longrightarrow> n = length xs \<Longrightarrow> buf_get off n (buf_put off xs b) = xs"
  by (simp add: buf_get_def buf_put_def)

lemma buf_get_put_before:
  assumes "off + n \<le> off'" "off' \<le> length b"
  shows "buf_get off n (buf_put off' xs b) = buf_get off n b"
  using assms by (simp add: buf_get_def buf_put_def drop_take take_append)

lemma buf_get_put_after:
  assumes "off' + length xs \<le> off" "off' \<le> length b"
  shows "buf_get off n (buf_put off' xs b) = buf_get off n b"
proof -
  have "drop off (buf_put off' xs b) = drop (off - off' - length xs) (drop (off' + length xs) b)"
    using assms by (simp add: buf_put_def drop_append)
  then show ?thesis
    using assms by (simp add: buf_get_def)
qed

lemma buf_put_put_same:
  "off \<le> length b \<Longrightarrow> length xs = length ys \<Longrightarrow> buf_put off xs (buf_put off ys b) = buf_put off xs b"
  by (simp add: buf_put_def)

lemma buf_get_0_take: "buf_get 0 n b = take n b"
  by (simp add: buf_get_def)

section \<open>Little-endian layout\<close>

text \<open>The targets (arm64) are little-endian; an integer in memory is the list of its bytes.\<close>

definition u32_bytes :: "u32 \<Rightarrow> bytes" where
  "u32_bytes x = [ucast x, ucast (drop_bit 8 x), ucast (drop_bit 16 x), ucast (drop_bit 24 x)]"

definition u64_bytes :: "u64 \<Rightarrow> bytes" where
  "u64_bytes x = u32_bytes (ucast x) @ u32_bytes (ucast (drop_bit 32 x))"

definition bytes_u32 :: "bytes \<Rightarrow> u32" where
  "bytes_u32 b = ucast (b ! 0) OR push_bit 8 (ucast (b ! 1)) OR push_bit 16 (ucast (b ! 2))
     OR push_bit 24 (ucast (b ! 3))"

definition bytes_u64 :: "bytes \<Rightarrow> u64" where
  "bytes_u64 b = ucast (bytes_u32 b) OR push_bit 32 (ucast (bytes_u32 (drop 4 b)))"

lemma length_u32_bytes [simp]: "length (u32_bytes x) = 4"
  by (simp add: u32_bytes_def)

lemma length_u64_bytes [simp]: "length (u64_bytes x) = 8"
  by (simp add: u64_bytes_def)

lemma bytes_u32_u32_bytes [simp]: "bytes_u32 (u32_bytes x @ r) = x"
proof (rule bit_word_eqI)
  fix n assume n: "n < LENGTH(32)"
  show "bit (bytes_u32 (u32_bytes x @ r)) n = bit x n"
  proof -
    consider "n < 8" | "8 \<le> n" "n < 16" | "16 \<le> n" "n < 24" | "24 \<le> n" "n < 32"
      using n by fastforce
    then show ?thesis
      by cases (auto simp: bytes_u32_def u32_bytes_def bit_simps)
  qed
qed

lemma bytes_u32_cong: "take 4 b = take 4 c \<Longrightarrow> 4 \<le> length b \<Longrightarrow> 4 \<le> length c \<Longrightarrow> bytes_u32 b = bytes_u32 c"
  unfolding bytes_u32_def
  by (smt (verit, best) nth_take numeral_less_iff one_less_numeral_iff semiring_norm zero_less_numeral)

end
