(* ===== verification/Nmbm_Types.thy ===== *)
theory Nmbm_Types
  imports Prelude
begin

text \<open>
  The data of the NAND mapped-block manager (\<open>include/nmbm/nmbm.h\<close> and
  \<open>drivers/mtd/nmbm/nmbm-private.h\<close>): constants, the lower device with its function
  pointers, the on-flash headers, and the instance structure.

  A lower device is the environment of NMBM. The object \<open>arg\<close> points to is the value
  \<open>arg\<close> of type \<open>'d\<close>, and a function pointer is an optional function (\<open>None\<close>
  is NULL) from that state and its arguments to its return code and the new state. A buffer
  argument is \<open>None\<close> for NULL; \<open>read_page\<close> also returns the new contents of the
  two buffers, which matter only where a buffer was given. \<open>logprint\<close> is left out.
\<close>

section \<open>Constants\<close>

definition NMBM_MAGIC_SIGNATURE :: u32 where "NMBM_MAGIC_SIGNATURE = 0x304d4d4e"
definition NMBM_MAGIC_INFO_TABLE :: u32 where "NMBM_MAGIC_INFO_TABLE = 0x314d4d4e"

definition NMBM_VERSION_MAKE :: "u32 \<Rightarrow> u32 \<Rightarrow> u32" where
  "NMBM_VERSION_MAKE major minor = (major AND 0xffff) OR push_bit 16 (minor AND 0xffff)"

definition NMBM_VERSION_MAJOR_GET :: "u32 \<Rightarrow> u32" where
  "NMBM_VERSION_MAJOR_GET ver = drop_bit 0 ver AND 0xffff"

definition NMBM_VERSION_MINOR_GET :: "u32 \<Rightarrow> u32" where
  "NMBM_VERSION_MINOR_GET ver = drop_bit 16 ver AND 0xffff"

definition NMBM_VER :: u32 where "NMBM_VER = NMBM_VERSION_MAKE 1 0"

definition NMBM_BITMAP_UNIT_SIZE :: u32 where "NMBM_BITMAP_UNIT_SIZE = 4"
definition NMBM_BITMAP_BITS_PER_BLOCK :: u32 where "NMBM_BITMAP_BITS_PER_BLOCK = 2"
definition NMBM_BITMAP_BITS_PER_UNIT :: u32 where "NMBM_BITMAP_BITS_PER_UNIT = 8 * 4"
definition NMBM_BITMAP_BLOCKS_PER_UNIT :: u32 where
  "NMBM_BITMAP_BLOCKS_PER_UNIT = NMBM_BITMAP_BITS_PER_UNIT div NMBM_BITMAP_BITS_PER_BLOCK"

definition NMBM_SPARE_BLOCK_MULTI :: u32 where "NMBM_SPARE_BLOCK_MULTI = 1"
definition NMBM_SPARE_BLOCK_DIV :: u32 where "NMBM_SPARE_BLOCK_DIV = 2"
definition NMBM_SPARE_BLOCK_MIN :: u32 where "NMBM_SPARE_BLOCK_MIN = 2"

definition NMBM_MGMT_DIV :: u32 where "NMBM_MGMT_DIV = 16"
definition NMBM_MGMT_BLOCKS_MIN :: u32 where "NMBM_MGMT_BLOCKS_MIN = 32"

definition NMBM_TRY_COUNT :: nat where "NMBM_TRY_COUNT = 3"

definition BLOCK_ST_BAD :: u32 where "BLOCK_ST_BAD = 0"
definition BLOCK_ST_NEED_REMAP :: u32 where "BLOCK_ST_NEED_REMAP = 2"
definition BLOCK_ST_GOOD :: u32 where "BLOCK_ST_GOOD = 3"
definition BLOCK_ST_MASK :: u32 where "BLOCK_ST_MASK = 3"

definition NMBM_F_CREATE :: u32 where "NMBM_F_CREATE = 1"
definition NMBM_F_EMPTY_PAGE_ECC_OK :: u32 where "NMBM_F_EMPTY_PAGE_ECC_OK = 2"
definition NMBM_F_READ_ONLY :: u32 where "NMBM_F_READ_ONLY = 4"

named_theorems nmbm_consts

lemmas [nmbm_consts] = NMBM_BITMAP_UNIT_SIZE_def NMBM_BITMAP_BITS_PER_BLOCK_def
  NMBM_BITMAP_BITS_PER_UNIT_def NMBM_BITMAP_BLOCKS_PER_UNIT_def NMBM_SPARE_BLOCK_MULTI_def
  NMBM_SPARE_BLOCK_DIV_def NMBM_SPARE_BLOCK_MIN_def NMBM_MGMT_DIV_def NMBM_MGMT_BLOCKS_MIN_def
  BLOCK_ST_BAD_def BLOCK_ST_NEED_REMAP_def BLOCK_ST_GOOD_def BLOCK_ST_MASK_def

definition NMBM_ALIGN :: "u32 \<Rightarrow> u32 \<Rightarrow> u32" where
  "NMBM_ALIGN v a = (v + a - 1) AND NOT (a - 1)"

datatype nmbm_log_category =
  NMBM_LOG_DEBUG | NMBM_LOG_INFO | NMBM_LOG_WARN | NMBM_LOG_ERR | NMBM_LOG_EMERG | NMBM_LOG_MAX

datatype nmbm_oob_mode = NMBM_MODE_PLACE_OOB | NMBM_MODE_AUTO_OOB | NMBM_MODE_RAW | NMBM_MODE_MAX

section \<open>Structures\<close>

record 'd nmbm_lower_device =
  max_ratio :: u32
  max_reserved_blocks :: u32
  flags :: u32
  chip_size :: u64
  erasesize :: u32
  writesize :: u32
  oobsize :: u32
  oobavail :: u32
  arg :: 'd
  reset_chip :: "('d \<Rightarrow> 'd) option"
  read_page :: "('d \<Rightarrow> u64 \<Rightarrow> bytes option \<Rightarrow> bytes option \<Rightarrow> nmbm_oob_mode
                  \<Rightarrow> int \<times> bytes \<times> bytes \<times> 'd) option"
  write_page :: "('d \<Rightarrow> u64 \<Rightarrow> bytes option \<Rightarrow> bytes option \<Rightarrow> nmbm_oob_mode \<Rightarrow> int \<times> 'd) option"
  panic_write_page :: "('d \<Rightarrow> u64 \<Rightarrow> bytes \<Rightarrow> int \<times> 'd) option"
  erase_block :: "('d \<Rightarrow> u64 \<Rightarrow> int \<times> 'd) option"
  is_bad_block :: "('d \<Rightarrow> u64 \<Rightarrow> int \<times> 'd) option"
  mark_bad_block :: "('d \<Rightarrow> u64 \<Rightarrow> int \<times> 'd) option"

record nmbm_header =
  magic :: u32
  version :: u32
  hdr_size :: u32
  checksum :: u32

text \<open>
  \<open>sig_tail\<close> stands for the four bytes the C compiler adds after \<open>padding[3]\<close> to
  align the structure to eight bytes: they are part of what is checksummed and written.
\<close>

record nmbm_signature =
  sig_header :: nmbm_header
  nand_size :: u64
  block_size :: u32
  page_size :: u32
  spare_size :: u32
  mgmt_start_pb :: u32
  max_try_count :: u8
  padding :: bytes
  sig_tail :: bytes

record nmbm_info_table_header =
  ift_header :: nmbm_header
  write_count :: u32
  state_table_off :: u32
  mapping_table_off :: u32
  ift_padding :: u32

text \<open>
  The four arrays \<open>info_table_cache\<close>, \<open>block_state\<close>, \<open>block_mapping\<close> and
  \<open>page_cache\<close> are the lists of their elements. \<open>block_mapping\<close> holds \<open>int32_t\<close>
  values: an element is a 32-bit word that is read as a signed number with \<open>sint\<close>.
\<close>

record 'd nmbm_instance =
  lower :: "'d nmbm_lower_device"
  rawpage_size :: u32
  rawblock_size :: u32
  rawchip_size :: u32
  writesize_mask :: u32
  erasesize_mask :: u32
  writesize_shift :: u16
  erasesize_shift :: u16
  signature :: nmbm_signature
  info_table_cache :: bytes
  info_table_size :: u32
  info_table_spare_blocks :: u32
  info_table :: nmbm_info_table_header
  block_state :: "u32 list"
  block_state_changed :: u32
  state_table_size :: u32
  block_mapping :: "u32 list"
  block_mapping_changed :: u32
  mapping_table_size :: u32
  page_cache :: bytes
  protected :: int
  block_count :: u32
  data_block_count :: u32
  mgmt_start_ba :: u32
  main_table_ba :: u32
  backup_table_ba :: u32
  mapping_blocks_ba :: u32
  mapping_blocks_top_ba :: u32
  signature_ba :: u32
  log_display_level :: nmbm_log_category

definition sizeof_nmbm_header :: u32 where "sizeof_nmbm_header = 16"
definition sizeof_nmbm_signature :: u32 where "sizeof_nmbm_signature = 48"
definition sizeof_nmbm_info_table_header :: u32 where "sizeof_nmbm_info_table_header = 32"

lemmas [nmbm_consts] = sizeof_nmbm_header_def sizeof_nmbm_signature_def
  sizeof_nmbm_info_table_header_def

abbreviation read_only_flag :: "'d nmbm_instance \<Rightarrow> bool" where
  "read_only_flag ni \<equiv> flags (lower ni) AND NMBM_F_READ_ONLY \<noteq> 0"

definition set_arg :: "'d \<Rightarrow> 'd nmbm_instance \<Rightarrow> 'd nmbm_instance" where
  "set_arg d ni = ni\<lparr>lower := (lower ni)\<lparr>arg := d\<rparr>\<rparr>"

text \<open>Storing a device state changes nothing else of the instance.\<close>

lemma set_arg_simps [simp]:
  "lower (set_arg d ni) = (lower ni)\<lparr>arg := d\<rparr>"
  "block_state (set_arg d ni) = block_state ni"
  "block_mapping (set_arg d ni) = block_mapping ni"
  "page_cache (set_arg d ni) = page_cache ni"
  "set_arg d (set_arg d' ni) = set_arg d ni"
  "set_arg (arg (lower ni)) ni = ni"
  by (simp_all add: set_arg_def)

section \<open>The structures in memory\<close>

definition header_bytes :: "nmbm_header \<Rightarrow> bytes" where
  "header_bytes h = u32_bytes (magic h) @ u32_bytes (version h) @ u32_bytes (hdr_size h)
     @ u32_bytes (checksum h)"

definition bytes_header :: "bytes \<Rightarrow> nmbm_header" where
  "bytes_header b = \<lparr>magic = bytes_u32 b, version = bytes_u32 (drop 4 b),
     hdr_size = bytes_u32 (drop 8 b), checksum = bytes_u32 (drop 12 b)\<rparr>"

definition signature_bytes :: "nmbm_signature \<Rightarrow> bytes" where
  "signature_bytes s = header_bytes (sig_header s) @ u64_bytes (nand_size s)
     @ u32_bytes (block_size s) @ u32_bytes (page_size s) @ u32_bytes (spare_size s)
     @ u32_bytes (mgmt_start_pb s) @ [max_try_count s] @ padding s @ sig_tail s"

definition bytes_signature :: "bytes \<Rightarrow> nmbm_signature" where
  "bytes_signature b = \<lparr>sig_header = bytes_header b, nand_size = bytes_u64 (drop 16 b),
     block_size = bytes_u32 (drop 24 b), page_size = bytes_u32 (drop 28 b),
     spare_size = bytes_u32 (drop 32 b), mgmt_start_pb = bytes_u32 (drop 36 b),
     max_try_count = b ! 40, padding = buf_get 41 3 b, sig_tail = buf_get 44 4 b\<rparr>"

definition info_table_header_bytes :: "nmbm_info_table_header \<Rightarrow> bytes" where
  "info_table_header_bytes t = header_bytes (ift_header t) @ u32_bytes (write_count t)
     @ u32_bytes (state_table_off t) @ u32_bytes (mapping_table_off t) @ u32_bytes (ift_padding t)"

definition bytes_info_table_header :: "bytes \<Rightarrow> nmbm_info_table_header" where
  "bytes_info_table_header b = \<lparr>ift_header = bytes_header b, write_count = bytes_u32 (drop 16 b),
     state_table_off = bytes_u32 (drop 20 b), mapping_table_off = bytes_u32 (drop 24 b),
     ift_padding = bytes_u32 (drop 28 b)\<rparr>"

text \<open>An array of \<open>uint32_t\<close> in memory, and the first \<open>n\<close> elements of one.\<close>

definition u32s_bytes :: "u32 list \<Rightarrow> bytes" where
  "u32s_bytes ws = concat (map u32_bytes ws)"

fun bytes_u32s :: "nat \<Rightarrow> bytes \<Rightarrow> u32 list" where
  "bytes_u32s 0 b = []"
| "bytes_u32s (Suc n) b = bytes_u32 b # bytes_u32s n (drop 4 b)"

lemma length_header_bytes [simp]: "length (header_bytes h) = 16"
  by (simp add: header_bytes_def)

lemma length_info_table_header_bytes [simp]: "length (info_table_header_bytes t) = 32"
  by (simp add: info_table_header_bytes_def)

lemma bytes_header_bytes [simp]: "bytes_header (header_bytes h @ r) = h"
  by (simp add: bytes_header_def header_bytes_def)

lemma bytes_u64_u64_bytes [simp]: "bytes_u64 (u64_bytes x @ r) = x"
proof -
  have "ucast (ucast x :: u32) OR push_bit 32 (ucast (ucast (drop_bit 32 x) :: u32)) = x"
    by (rule bit_word_eqI) (auto simp: bit_simps)
  then show ?thesis
    by (simp add: bytes_u64_def u64_bytes_def)
qed

lemma bytes_signature_bytes:
  assumes "length (padding s) = 3" "length (sig_tail s) = 4"
  shows "bytes_signature (signature_bytes s @ r) = s" "length (signature_bytes s) = 48"
  using assms
  by (simp_all add: bytes_signature_def signature_bytes_def nth_append buf_get_def)

lemma bytes_info_table_header_bytes [simp]:
  "bytes_info_table_header (info_table_header_bytes t @ r) = t"
  by (simp add: bytes_info_table_header_def info_table_header_bytes_def)

lemma length_u32s_bytes [simp]: "length (u32s_bytes ws) = 4 * length ws"
  by (induction ws) (simp_all add: u32s_bytes_def)

lemma bytes_u32s_u32s_bytes: "n = length ws \<Longrightarrow> bytes_u32s n (u32s_bytes ws @ r) = ws"
  by (induction ws arbitrary: n) (simp_all add: u32s_bytes_def)

lemma length_bytes_u32s [simp]: "length (bytes_u32s n b) = n"
  by (induction n arbitrary: b) simp_all

lemma nth_bytes_u32s: "i < n \<Longrightarrow> bytes_u32s n b ! i = bytes_u32 (drop (4 * i) b)"
proof (induction n arbitrary: i b)
  case 0
  then show ?case by simp
next
  case (Suc n)
  then show ?case by (cases i) (simp_all add: add.commute)
qed

end
