(* ===== verification/Nmbm_Sample.thy ===== *)
theory Nmbm_Sample
  imports Nmbm_Types
begin

text \<open>
  A small simulated NAND chip and an NMBM instance on it, at which the theorems of the
  development are instantiated: 32 blocks of two pages with 64 bytes of data and 16 bytes of OOB.
  The state of the device is the memory of its pages, by page address.
\<close>

type_synonym sim_nand = "u64 \<Rightarrow> bytes \<times> bytes"

definition sim_fill :: "bytes \<Rightarrow> bytes option \<Rightarrow> bytes" where
  "sim_fill page buf = (case buf of None \<Rightarrow> [] | Some b \<Rightarrow> buf_put 0 page b)"

definition sim_read ::
  "sim_nand \<Rightarrow> u64 \<Rightarrow> bytes option \<Rightarrow> bytes option \<Rightarrow> nmbm_oob_mode \<Rightarrow> int \<times> bytes \<times> bytes \<times> sim_nand" where
  "sim_read st addr data oob mode =
     (0, sim_fill (fst (st addr)) data, sim_fill (snd (st addr)) oob, st)"

definition sim_write ::
  "sim_nand \<Rightarrow> u64 \<Rightarrow> bytes option \<Rightarrow> bytes option \<Rightarrow> nmbm_oob_mode \<Rightarrow> int \<times> sim_nand" where
  "sim_write st addr data oob mode =
     (0, st(addr := (case data of None \<Rightarrow> fst (st addr) | Some d \<Rightarrow> take 64 d,
                     case oob of None \<Rightarrow> snd (st addr) | Some b \<Rightarrow> take 16 b)))"

definition sim_erase :: "sim_nand \<Rightarrow> u64 \<Rightarrow> int \<times> sim_nand" where
  "sim_erase st addr =
     (0, st(addr := (replicate 64 0xff, replicate 16 0xff),
            addr + 64 := (replicate 64 0xff, replicate 16 0xff)))"

definition sim_blank :: sim_nand where
  "sim_blank = (\<lambda>_. (replicate 64 0xff, replicate 16 0xff))"

definition sample_lower :: "sim_nand nmbm_lower_device" where
  "sample_lower = \<lparr>max_ratio = 8, max_reserved_blocks = 0, flags = NMBM_F_CREATE, chip_size = 4096,
     erasesize = 128, writesize = 64, oobsize = 16, oobavail = 16, arg = sim_blank,
     reset_chip = None, read_page = Some sim_read, write_page = Some sim_write,
     panic_write_page = None, erase_block = Some sim_erase, is_bad_block = Some (\<lambda>st _. (0, st)),
     mark_bad_block = Some (\<lambda>st _. (0, st))\<rparr>"

definition sample_header :: nmbm_header where
  "sample_header = \<lparr>magic = 0, version = 0, hdr_size = 0, checksum = 0\<rparr>"

definition sample_signature :: nmbm_signature where
  "sample_signature = \<lparr>sig_header = sample_header, nand_size = 0, block_size = 0, page_size = 0,
     spare_size = 0, mgmt_start_pb = 16, max_try_count = 0, padding = [0, 0, 0], sig_tail = [0, 0, 0, 0]\<rparr>"

text \<open>
  The tables in blocks 16 to 20, the spare blocks from 29 downwards, the signature in block 31.
\<close>

definition sample_ni :: "sim_nand nmbm_instance" where
  "sample_ni = \<lparr>lower = sample_lower, rawpage_size = 80, rawblock_size = 160, rawchip_size = 5120,
     writesize_mask = 63, erasesize_mask = 127, writesize_shift = 6, erasesize_shift = 7,
     signature = sample_signature, info_table_cache = replicate 256 0, info_table_size = 256,
     info_table_spare_blocks = 2,
     info_table = \<lparr>ift_header = sample_header, write_count = 0, state_table_off = 64,
       mapping_table_off = 128, ift_padding = 0\<rparr>,
     block_state = [0xffffffff, 0xffffffff], block_state_changed = 0, state_table_size = 8,
     block_mapping = map of_nat [0..<16] @ replicate 16 (- 1), block_mapping_changed = 0,
     mapping_table_size = 128, page_cache = replicate 80 0, protected = 0, block_count = 32,
     data_block_count = 16, mgmt_start_ba = 16, main_table_ba = 16, backup_table_ba = 20,
     mapping_blocks_ba = 22, mapping_blocks_top_ba = 29, signature_ba = 31,
     log_display_level = NMBM_LOG_INFO\<rparr>"

lemma sample_lower_sels [simp]:
  "max_ratio sample_lower = 8" "max_reserved_blocks sample_lower = 0"
  "flags sample_lower = NMBM_F_CREATE" "chip_size sample_lower = 4096"
  "erasesize sample_lower = 128" "writesize sample_lower = 64" "oobsize sample_lower = 16"
  "arg sample_lower = sim_blank" "reset_chip sample_lower = None"
  "read_page sample_lower = Some sim_read" "write_page sample_lower = Some sim_write"
  "panic_write_page sample_lower = None" "erase_block sample_lower = Some sim_erase"
  "is_bad_block sample_lower = Some (\<lambda>st _. (0, st))"
  "mark_bad_block sample_lower = Some (\<lambda>st _. (0, st))"
  by (simp_all add: sample_lower_def)

lemma sample_ni_sels [simp]:
  "lower sample_ni = sample_lower" "rawpage_size sample_ni = 80" "writesize_mask sample_ni = 63"
  "erasesize_mask sample_ni = 127" "writesize_shift sample_ni = 6" "erasesize_shift sample_ni = 7"
  "signature sample_ni = sample_signature" "info_table_cache sample_ni = replicate 256 0"
  "info_table_size sample_ni = 256" "info_table_spare_blocks sample_ni = 2"
  "state_table_off (info_table sample_ni) = 64" "mapping_table_off (info_table sample_ni) = 128"
  "write_count (info_table sample_ni) = 0"
  "block_state sample_ni = [0xffffffff, 0xffffffff]" "block_state_changed sample_ni = 0"
  "state_table_size sample_ni = 8" "block_mapping sample_ni = map of_nat [0..<16] @ replicate 16 (- 1)"
  "block_mapping_changed sample_ni = 0" "mapping_table_size sample_ni = 128"
  "page_cache sample_ni = replicate 80 0" "protected sample_ni = 0" "block_count sample_ni = 32"
  "data_block_count sample_ni = 16" "mgmt_start_ba sample_ni = 16" "main_table_ba sample_ni = 16"
  "backup_table_ba sample_ni = 20" "mapping_blocks_ba sample_ni = 22"
  "mapping_blocks_top_ba sample_ni = 29" "signature_ba sample_ni = 31"
  by (simp_all add: sample_ni_def)

end
