(* ===== verification/Nmbm_Addr.thy ===== *)
theory Nmbm_Addr
  imports Nmbm_Sample
begin

text \<open>
  Geometry of the chip: validation of the lower device, the sizes, masks and shifts that
  \<open>nmbm_init_structure\<close> derives from it, the size of the instance's memory, and the
  conversions between linear addresses and block addresses
  (\<open>nmbm-core.c\<close>, address conversion functions and \<open>nmbm_check_lower_members\<close> to
  \<open>nmbm_init_structure\<close>).
\<close>

section \<open>Address conversion\<close>

definition addr2ba :: "'d nmbm_instance \<Rightarrow> u64 \<Rightarrow> u32" where
  "addr2ba ni addr = ucast (drop_bit (unat (erasesize_shift ni)) addr)"

definition ba2addr :: "'d nmbm_instance \<Rightarrow> u32 \<Rightarrow> u64" where
  "ba2addr ni ba = push_bit (unat (erasesize_shift ni)) (ucast ba)"

definition size2blk :: "'d nmbm_instance \<Rightarrow> u64 \<Rightarrow> u32" where
  "size2blk ni sz =
     ucast (drop_bit (unat (erasesize_shift ni)) (sz + ucast (erasesize (lower ni)) - 1))"

section \<open>Validation of the lower device\<close>

text \<open>Kernel helpers (\<open>linux/log2.h\<close>, \<open>ffs\<close>) and the 64-bit copy in the code.\<close>

definition is_power_of_2 :: "u32 \<Rightarrow> bool" where
  "is_power_of_2 n \<longleftrightarrow> n \<noteq> 0 \<and> n AND (n - 1) = 0"

definition is_power_of_2_u64 :: "u64 \<Rightarrow> bool" where
  "is_power_of_2_u64 n \<longleftrightarrow> n \<noteq> 0 \<and> n AND (n - 1) = 0"

definition ffs :: "u32 \<Rightarrow> nat" where
  "ffs x = (case filter (\<lambda>i. bit x i) [0..<32] of [] \<Rightarrow> 0 | i # _ \<Rightarrow> Suc i)"

definition nmbm_lldiv :: "u64 \<Rightarrow> u32 \<Rightarrow> u32" where
  "nmbm_lldiv dividend divisor = ucast (dividend div ucast divisor)"

definition nmbm_check_lower_members :: "'d nmbm_lower_device \<Rightarrow> bool \<times> 'd nmbm_lower_device" where
  "nmbm_check_lower_members nld =
    (if chip_size nld = 0 \<or> \<not> is_power_of_2_u64 (chip_size nld) then (False, nld)
     else if erasesize nld = 0 \<or> \<not> is_power_of_2 (erasesize nld) then (False, nld)
     else if writesize nld = 0 \<or> \<not> is_power_of_2 (writesize nld) then (False, nld)
     else if oobsize nld = 0 then (False, nld)
     else if read_page nld = None then (False, nld)
     else if flags nld AND NMBM_F_READ_ONLY = 0 \<and> (write_page nld = None \<or> erase_block nld = None)
       then (False, nld)
     else
       let nld = (if max_ratio nld = 0 then nld\<lparr>max_ratio := 1\<rparr> else nld)
       in if max_ratio nld \<ge> NMBM_MGMT_DIV - 1 then (False, nld)
          else if max_reserved_blocks nld \<noteq> 0 \<and> max_reserved_blocks nld < NMBM_MGMT_BLOCKS_MIN
            then (False, nld)
          else (True, nld))"

section \<open>Sizes\<close>

text \<open>
  The bitmap macros are \<open>size_t\<close> expressions, so the size of the state table is computed
  in 64 bits and then truncated.
\<close>

definition state_table_bytes :: "u32 \<Rightarrow> u32" where
  "state_table_bytes block_cnt =
     ucast (((ucast block_cnt + ucast NMBM_BITMAP_BLOCKS_PER_UNIT - 1 :: u64)
             div ucast NMBM_BITMAP_BLOCKS_PER_UNIT) * ucast NMBM_BITMAP_UNIT_SIZE)"

definition nmbm_get_spare_block_count :: "u32 \<Rightarrow> u32" where
  "nmbm_get_spare_block_count block_cnt =
    (let val = (block_cnt + NMBM_SPARE_BLOCK_DIV div 2) div NMBM_SPARE_BLOCK_DIV;
         val = val * NMBM_SPARE_BLOCK_MULTI
     in if val < NMBM_SPARE_BLOCK_MIN then NMBM_SPARE_BLOCK_MIN else val)"

text \<open>\<open>sz_ni\<close> is \<open>sizeof(struct nmbm_instance)\<close>.\<close>

definition nmbm_calc_structure_size :: "u64 \<Rightarrow> 'd nmbm_lower_device \<Rightarrow> u64" where
  "nmbm_calc_structure_size sz_ni nld =
    (let block_cnt = nmbm_lldiv (chip_size nld) (erasesize nld);
         st_size = state_table_bytes block_cnt;
         mt_size = block_cnt * 4;
         ift_size = NMBM_ALIGN sizeof_nmbm_info_table_header (writesize nld);
         ift_size = ift_size + NMBM_ALIGN st_size (writesize nld);
         ift_size = ift_size + NMBM_ALIGN mt_size (writesize nld)
     in ucast (ift_size + st_size + mt_size + writesize nld + oobsize nld) + sz_ni)"

text \<open>
  \<open>mem\<close> is the memory that follows the structure, from which the arrays are cut; the code
  fills only the block state table.
\<close>

definition nmbm_init_structure :: "bytes \<Rightarrow> 'd nmbm_instance \<Rightarrow> 'd nmbm_instance" where
  "nmbm_init_structure mem ni =
    (let nld = lower ni;
         pages_per_block = erasesize nld div writesize nld;
         blocks_per_chip = nmbm_lldiv (chip_size nld) (erasesize nld);
         ni = ni\<lparr>rawpage_size := writesize nld + oobsize nld\<rparr>;
         ni = ni\<lparr>rawblock_size := pages_per_block * rawpage_size ni\<rparr>;
         ni = ni\<lparr>rawchip_size := blocks_per_chip * rawblock_size ni\<rparr>;
         ni = ni\<lparr>writesize_mask := writesize nld - 1, erasesize_mask := erasesize nld - 1\<rparr>;
         ni = ni\<lparr>writesize_shift := of_nat (ffs (writesize nld)) - 1,
                 erasesize_shift := of_nat (ffs (erasesize nld)) - 1\<rparr>;
         ni = ni\<lparr>block_count := ucast (drop_bit (unat (erasesize_shift ni)) (chip_size nld))\<rparr>;
         ni = ni\<lparr>state_table_size := state_table_bytes (block_count ni)\<rparr>;
         ni = ni\<lparr>mapping_table_size := block_count ni * 4\<rparr>;
         ni = ni\<lparr>info_table_size := NMBM_ALIGN sizeof_nmbm_info_table_header (writesize nld)\<rparr>;
         ni = ni\<lparr>info_table := (info_table ni)\<lparr>state_table_off := info_table_size ni\<rparr>\<rparr>;
         ni = ni\<lparr>info_table_size := info_table_size ni
                   + NMBM_ALIGN (state_table_size ni) (writesize nld)\<rparr>;
         ni = ni\<lparr>info_table := (info_table ni)\<lparr>mapping_table_off := info_table_size ni\<rparr>\<rparr>;
         ni = ni\<lparr>info_table_size := info_table_size ni
                   + NMBM_ALIGN (mapping_table_size ni) (writesize nld)\<rparr>;
         ni = ni\<lparr>info_table_spare_blocks :=
                   nmbm_get_spare_block_count (size2blk ni (ucast (info_table_size ni)))\<rparr>;
         cache_off = 0;
         state_off = cache_off + unat (info_table_size ni);
         mapping_off = state_off + unat (state_table_size ni);
         page_off = mapping_off + unat (mapping_table_size ni);
         ni = ni\<lparr>info_table_cache := buf_get cache_off (unat (info_table_size ni)) mem\<rparr>;
         ni = ni\<lparr>block_mapping :=
                   bytes_u32s (unat (mapping_table_size ni) div 4) (drop mapping_off mem)\<rparr>;
         ni = ni\<lparr>page_cache := buf_get page_off (unat (rawpage_size ni)) mem\<rparr>;
         ni = ni\<lparr>block_state_changed := 0,
                 block_state := replicate (unat (state_table_size ni) div 4) 0xffffffff\<rparr>
     in ni\<lparr>block_mapping_changed := 0\<rparr>)"

section \<open>Geometry\<close>

text \<open>What \<open>nmbm_init_structure\<close> establishes about the derived sizes of an accepted device.\<close>

definition nmbm_geom :: "'d nmbm_instance \<Rightarrow> bool" where
  "nmbm_geom ni \<longleftrightarrow>
     unat (erasesize_shift ni) < 32 \<and> erasesize (lower ni) = 2 ^ unat (erasesize_shift ni) \<and>
     unat (writesize_shift ni) < 32 \<and> writesize (lower ni) = 2 ^ unat (writesize_shift ni) \<and>
     erasesize_mask ni = erasesize (lower ni) - 1 \<and>
     writesize_mask ni = writesize (lower ni) - 1 \<and>
     rawpage_size ni = writesize (lower ni) + oobsize (lower ni) \<and>
     block_count ni = ucast (drop_bit (unat (erasesize_shift ni)) (chip_size (lower ni))) \<and>
     state_table_size ni = state_table_bytes (block_count ni) \<and>
     mapping_table_size ni = block_count ni * 4"

lemma pow2_cases:
  fixes n :: "'a::len word"
  assumes nz: "n \<noteq> 0" and a: "n AND (n - 1) = 0"
  obtains k where "k < LENGTH('a)" "n = 2 ^ k" "bit n k" "\<And>i. i < k \<Longrightarrow> \<not> bit n i"
proof -
  have "\<exists>i. bit n i"
    using nz by (metis bit_eqI bit_0_eq bot_apply bot_bool_def)
  then obtain k where k: "bit n k" and low: "\<And>i. i < k \<Longrightarrow> \<not> bit n i"
    using exists_least_iff [of "bit n"] by blast
  have kl: "k < LENGTH('a)"
    using k by (simp add: bit_imp_le_length)
  define q where "q = n AND NOT (mask (Suc k))"
  have qb: "bit q i \<longleftrightarrow> bit n i \<and> k < i" for i
    by (auto simp: q_def bit_simps simp del: mask_Suc_exp mask_Suc_double dest: bit_imp_le_length)
  have dis: "q AND 2 ^ k = 0" "q AND mask k = 0"
    by (auto intro!: bit_eqI simp: bit_and_iff qb bit_exp_iff bit_mask_iff)
  have n: "n = q OR 2 ^ k"
    by (rule bit_eqI) (metis bit_exp_iff bit_or_iff k linorder_neqE_nat low qb possible_bit_word kl)
  then have "n = q + 2 ^ k"
    using dis by (simp add: disjunctive_add_eq_or)
  then have "n - 1 = q + mask k"
    by (simp add: mask_eq_exp_minus_1)
  then have n1: "n - 1 = q OR mask k"
    using dis by (simp add: disjunctive_add_eq_or)
  have "q = 0"
  proof (rule bit_eqI)
    fix i
    have "\<not> bit (n AND (n - 1)) i" using a by simp
    then show "bit q i = bit 0 i"
      by (auto simp: n1 bit_and_iff bit_or_iff) (metis bit_or_iff n)
  qed
  with n have "n = 2 ^ k" by simp
  then show ?thesis by (rule that [OF kl _ k low])
qed

lemma ffs_pow2: "k < 32 \<Longrightarrow> ffs (2 ^ k) = Suc k"
proof -
  assume k: "k < 32"
  have b: "bit (2 ^ k :: u32) i \<longleftrightarrow> i = k" if "i < 32" for i
    using k that by (auto simp: bit_exp_iff)
  have f: "filter (bit (2 ^ k :: u32)) [0..<32] = [k]"
    unfolding upt_split [OF le0 k] using b k by (simp add: filter_empty_conv)
  show ?thesis
    unfolding ffs_def f by simp
qed

lemma is_power_of_2_ffs:
  assumes "is_power_of_2 n"
  shows "unat (of_nat (ffs n) - 1 :: u16) < 32" "n = 2 ^ unat (of_nat (ffs n) - 1 :: u16)"
proof -
  from assms obtain k where k: "k < 32" "n = 2 ^ k"
    by (auto simp: is_power_of_2_def elim!: pow2_cases)
  then have "unat (of_nat (ffs n) - 1 :: u16) = k"
    by (simp add: ffs_pow2 unat_of_nat)
  with k show "unat (of_nat (ffs n) - 1 :: u16) < 32" "n = 2 ^ unat (of_nat (ffs n) - 1 :: u16)"
    by simp_all
qed

lemma check_lower_members_accepts:
  assumes "nmbm_check_lower_members nld = (True, nld')"
  shows "is_power_of_2_u64 (chip_size nld')" "is_power_of_2 (erasesize nld')"
    "is_power_of_2 (writesize nld')" "oobsize nld' \<noteq> 0" "read_page nld' \<noteq> None"
    "0 < max_ratio nld'" "max_ratio nld' < 15"
    "flags nld' AND NMBM_F_READ_ONLY \<noteq> 0 \<or> write_page nld' \<noteq> None \<and> erase_block nld' \<noteq> None"
    "max_reserved_blocks nld' = 0 \<or> 32 \<le> max_reserved_blocks nld'"
  using assms
  by (auto simp: nmbm_check_lower_members_def Let_def nmbm_consts word_gt_0 not_le not_less
      split: if_splits)

lemma init_structure_geom:
  assumes "nmbm_check_lower_members nld = (True, lower ni)"
  shows "nmbm_geom (nmbm_init_structure mem ni)"
  using check_lower_members_accepts [OF assms]
    is_power_of_2_ffs [of "erasesize (lower ni)"] is_power_of_2_ffs [of "writesize (lower ni)"]
  by (simp add: nmbm_geom_def nmbm_init_structure_def Let_def)

lemma nmbm_geomD:
  assumes "nmbm_geom ni"
  shows "unat (erasesize (lower ni)) = 2 ^ unat (erasesize_shift ni)"
    "unat (writesize (lower ni)) = 2 ^ unat (writesize_shift ni)"
    "unat (erasesize_shift ni) < 32" "unat (writesize_shift ni) < 32"
    "erasesize_mask ni = mask (unat (erasesize_shift ni))"
    "writesize_mask ni = mask (unat (writesize_shift ni))"
  using assms unfolding nmbm_geom_def
  by (simp_all add: mask_eq_exp_minus_1 unat_two_power)


lemma unat_ba2addr:
  assumes "nmbm_geom ni"
  shows "unat (ba2addr ni ba) = unat ba * 2 ^ unat (erasesize_shift ni)"
proof -
  let ?s = "unat (erasesize_shift ni)"
  have s: "?s < 32" using assms by (rule nmbm_geomD)
  have "unat ba * 2 ^ ?s < 2 ^ 32 * 2 ^ 32"
    using two_power_le [of ?s 31] s u32_less_2p32 [of ba] by (intro mult_strict_mono) auto
  then have b: "unat ba * 2 ^ ?s < 2 ^ 64" by simp
  have "unat (ba2addr ni ba) = unat (ucast ba * 2 ^ ?s :: u64)"
    by (simp add: ba2addr_def push_bit_eq_mult)
  also have "\<dots> = unat ba * 2 ^ ?s"
    using s b by (simp add: unat_word_ariths(2) unat_two_power)
  finally show ?thesis .
qed

lemma unat_addr2ba:
  "unat (addr2ba ni addr) = unat addr div 2 ^ unat (erasesize_shift ni) mod 2 ^ 32"
  by (simp only: addr2ba_def unat_ucast_u64_u32 unat_drop_bit_eq) (simp add: drop_bit_eq_div)

lemma unat_block_offset:
  assumes "nmbm_geom ni"
  shows "unat ((addr :: u64) AND ucast (erasesize_mask ni)) = unat addr mod 2 ^ unat (erasesize_shift ni)"
proof -
  have s: "unat (erasesize_shift ni) < 32" using assms by (rule nmbm_geomD)
  have "ucast (mask (unat (erasesize_shift ni)) :: u32) = (mask (unat (erasesize_shift ni)) :: u64)"
    using s by (intro bit_word_eqI) (auto simp: bit_simps)
  then have "addr AND ucast (erasesize_mask ni) = take_bit (unat (erasesize_shift ni)) addr"
    unfolding nmbm_geomD(5) [OF assms] by (simp only: take_bit_eq_mask)
  then show ?thesis
    by (simp only: unsigned_take_bit_eq) (simp add: take_bit_eq_mod)
qed

text \<open>
  Block addresses and linear addresses correspond: the address of any byte of block
  \<open>ba\<close> converts back to \<open>ba\<close>; the 64-bit shift never loses bits.
\<close>

lemma addr2ba_ba2addr:
  assumes "nmbm_geom ni" "off < erasesize (lower ni)"
  shows "addr2ba ni (ba2addr ni ba + ucast off) = ba"
proof -
  let ?e = "2 ^ unat (erasesize_shift ni) :: nat"
  have s: "unat (erasesize_shift ni) < 32" and e: "unat (erasesize (lower ni)) = ?e"
    using assms(1) by (rule nmbm_geomD)+
  have off: "unat off < ?e" using assms(2) e by (simp add: word_less_nat_alt)
  have "unat ba * ?e + unat off < (unat ba + 1) * ?e"
    using off by simp
  also have "\<dots> \<le> 2 ^ 32 * 2 ^ 32"
    using two_power_le [of "unat (erasesize_shift ni)" 32] s u32_less_2p32 [of ba]
    by (intro mult_mono) auto
  finally have "unat (ba2addr ni ba + ucast off) = unat ba * ?e + unat off"
    by (subst unat_add_no_wrap) (simp_all add: unat_ba2addr [OF assms(1)])
  then have "unat (addr2ba ni (ba2addr ni ba + ucast off)) = unat ba"
    using off u32_less_2p32 [of ba] by (simp add: unat_addr2ba)
  then show ?thesis by (simp add: word_unat_eq_iff)
qed

lemma addr_split:
  assumes "nmbm_geom ni" "unat addr < 2 ^ (32 + unat (erasesize_shift ni))"
  shows "ba2addr ni (addr2ba ni addr) + (addr AND ucast (erasesize_mask ni)) = addr"
proof -
  let ?e = "2 ^ unat (erasesize_shift ni) :: nat"
  have "unat addr div ?e < 2 ^ 32"
    using assms(2) by (simp add: less_mult_imp_div_less power_add mult.commute)
  then have b: "unat (addr2ba ni addr) * ?e + unat addr mod ?e = unat addr"
    by (simp add: unat_addr2ba) (rule div_mult_mod_eq)
  have "unat addr < 2 ^ 64" using unat_lt_two_power [of addr] by simp
  with b show ?thesis
    unfolding word_unat_eq_iff
    by (subst unat_add_no_wrap) (simp_all add: unat_ba2addr unat_block_offset assms(1))
qed

lemma unat_size2blk:
  assumes "nmbm_geom ni" "unat sz < 2 ^ 32"
  shows "unat (size2blk ni sz) =
    (unat sz + unat (erasesize (lower ni)) - 1) div unat (erasesize (lower ni))"
proof -
  let ?s = "unat (erasesize_shift ni)"
  have e: "unat (erasesize (lower ni)) = 2 ^ ?s" and s: "?s < 32"
    using assms(1) by (rule nmbm_geomD)+
  have le: "(2 :: nat) ^ ?s \<le> 2 ^ 31" using s by (intro two_power_le) simp
  have "unat (sz + ucast (erasesize (lower ni))) = unat sz + 2 ^ ?s"
    by (subst unat_add_no_wrap) (use e le assms(2) in simp_all)
  moreover have "0 < unat sz + 2 ^ ?s" by simp
  ultimately have "unat (sz + ucast (erasesize (lower ni)) - 1) = unat sz + 2 ^ ?s - 1"
    by (subst unat_minus_one) auto
  moreover have "(unat sz + 2 ^ ?s - 1) div 2 ^ ?s < 2 ^ 32"
  proof -
    have "unat sz + 2 ^ ?s - 1 < 2 ^ 32 * 2 ^ ?s"
    proof (cases "?s = 0")
      case True
      then show ?thesis using assms(2) by simp
    next
      case False
      then have "(2 :: nat) ^ 1 \<le> 2 ^ ?s" by (intro two_power_le) simp
      with le assms(2) show ?thesis by simp
    qed
    then show ?thesis by (simp add: less_mult_imp_div_less)
  qed
  ultimately show ?thesis
    using e by (simp only: size2blk_def unat_ucast_u64_u32 unat_drop_bit_eq)
      (simp add: drop_bit_eq_div)
qed

lemma unat_NMBM_ALIGN:
  assumes "a = 2 ^ k" "k < 32" "unat v + unat a \<le> 2 ^ 32"
  shows "unat (NMBM_ALIGN v a) = (unat v + unat a - 1) div unat a * unat a"
proof -
  have a: "unat a = 2 ^ k" using assms by (simp add: unat_two_power)
  have v: "unat (v + a - 1) = unat v + unat a - 1"
  proof (cases "unat v + unat a = 2 ^ 32")
    case True
    then have "v + a = 0" by (simp add: word_unat_eq_iff unat_word_ariths)
    then have "v + a - 1 = - 1" by simp
    then show ?thesis using True by (simp add: unsigned_minus_1_eq_mask mask_eq_exp_minus_1)
  next
    case False
    then have va: "unat (v + a) = unat v + unat a"
      using assms by (intro unat_add_no_wrap) simp
    moreover have "v + a \<noteq> 0" using va a by auto
    ultimately show ?thesis by (simp add: unat_minus_one)
  qed
  have "NMBM_ALIGN v a = (v + a - 1) AND NOT (mask k)"
    using assms by (simp add: NMBM_ALIGN_def mask_eq_exp_minus_1)
  also have "\<dots> = push_bit k (drop_bit k (v + a - 1))"
    by (rule bit_word_eqI) (auto simp: bit_simps)
  finally have "NMBM_ALIGN v a = push_bit k (drop_bit k (v + a - 1))" .
  moreover have "unat (push_bit k (drop_bit k x) :: u32) = unat x div 2 ^ k * 2 ^ k" for x :: u32
  proof -
    have "unat x div 2 ^ k * 2 ^ k \<le> unat x" by (simp add: div_times_less_eq_dividend)
    then have "unat x div 2 ^ k * 2 ^ k < 2 ^ 32"
      using u32_less_2p32 [of x] by linarith
    moreover have "unat (drop_bit k x) = unat x div 2 ^ k"
      by (simp only: unat_drop_bit_eq) (simp add: drop_bit_eq_div)
    moreover have "push_bit k (drop_bit k x) = drop_bit k x * 2 ^ k"
      by (simp add: push_bit_eq_mult)
    ultimately show ?thesis
      using assms(2) by (simp add: unat_word_ariths(2) unat_two_power)
  qed
  ultimately show ?thesis using v a by simp
qed

lemma unat_state_table_bytes:
  "unat (state_table_bytes bc) = (unat bc + 15) div 16 * 4"
proof -
  have "unat (15 + ucast bc :: u64) = unat bc + 15"
    by (subst unat_add_no_wrap) (use u32_less_2p32 [of bc] in simp_all)
  then have d: "unat ((15 + ucast bc :: u64) div 16) = (unat bc + 15) div 16"
    by (simp add: unat_div)
  have le: "(unat bc + 15) div 16 * 4 < 2 ^ 32"
    using u32_less_2p32 [of bc] by simp
  have "unat ((15 + ucast bc :: u64) div 16 * 4) = (unat bc + 15) div 16 * 4"
    using d le by (simp add: unat_word_ariths(2))
  then show ?thesis
    using le by (simp add: state_table_bytes_def nmbm_consts unat_ucast_u64_u32)
qed

lemma lldiv_block_count:
  assumes "is_power_of_2 es"
  shows "nmbm_lldiv sz es = ucast (drop_bit (unat (of_nat (ffs es) - 1 :: u16)) sz)"
proof -
  let ?k = "unat (of_nat (ffs es) - 1 :: u16)"
  have k: "?k < 32" "es = 2 ^ ?k" using is_power_of_2_ffs [OF assms] by simp_all
  have "ucast (2 ^ ?k :: u32) = (2 ^ ?k :: u64)"
    using k(1) by (simp add: word_unat_eq_iff unat_two_power)
  then show ?thesis
    using k by (simp add: nmbm_lldiv_def drop_bit_eq_div)
qed

lemma calc_structure_size_init:
  assumes acc: "nmbm_check_lower_members nld = (True, lower ni)"
    and ni': "ni' = nmbm_init_structure mem ni"
  shows "nmbm_calc_structure_size sz (lower ni) =
    ucast (info_table_size ni' + state_table_size ni' + mapping_table_size ni' + rawpage_size ni') + sz"
  using lldiv_block_count [OF check_lower_members_accepts(2) [OF acc], of "chip_size (lower ni)"]
  by (simp add: ni' nmbm_calc_structure_size_def nmbm_init_structure_def Let_def add.assoc)

text \<open>
  C0. The memory that \<open>nmbm_calc_structure_size\<close> asks for is what \<open>nmbm_init_structure\<close>
  cuts up: with that many bytes after the structure (and sizes that fit 32 bits), the info table
  cache, the mapping table and the page cache all get their full length and the block state
  table has one two-bit slot for every block.
\<close>

theorem init_structure_memory:
  assumes acc: "nmbm_check_lower_members nld = (True, lower ni)"
    and ni': "ni' = nmbm_init_structure mem ni"
    and fit: "unat (info_table_size ni') + unat (state_table_size ni') + unat (mapping_table_size ni')
      + unat (rawpage_size ni') < 2 ^ 32" "unat (block_count ni') < 2 ^ 30"
    and mem: "unat (nmbm_calc_structure_size 0 (lower ni)) \<le> length mem"
  shows "length (info_table_cache ni') = unat (info_table_size ni') \<and>
    length (block_mapping ni') = unat (block_count ni') \<and>
    length (page_cache ni') = unat (rawpage_size ni') \<and>
    unat (block_count ni') \<le> 16 * length (block_state ni')"
proof -
  have geom: "nmbm_geom ni'"
    unfolding ni' by (rule init_structure_geom [OF acc])
  have mt: "unat (mapping_table_size ni') = unat (block_count ni') * 4"
    using geom fit(2) by (simp add: nmbm_geom_def unat_word_ariths(2))
  have st: "unat (state_table_size ni') = (unat (block_count ni') + 15) div 16 * 4"
    using geom by (simp add: nmbm_geom_def unat_state_table_bytes)
  have "unat (info_table_size ni' + state_table_size ni' + mapping_table_size ni' + rawpage_size ni')
      = unat (info_table_size ni') + unat (state_table_size ni') + unat (mapping_table_size ni')
        + unat (rawpage_size ni')"
    using fit(1) by (simp add: unat_word_ariths(1) mod_simps)
  then have len: "unat (info_table_size ni') + unat (state_table_size ni')
      + unat (mapping_table_size ni') + unat (rawpage_size ni') \<le> length mem"
    using mem by (simp add: calc_structure_size_init [OF acc ni'])
  have "info_table_cache ni' = buf_get 0 (unat (info_table_size ni')) mem"
    "length (block_mapping ni') = unat (mapping_table_size ni') div 4"
    "page_cache ni' = buf_get (unat (info_table_size ni') + unat (state_table_size ni')
       + unat (mapping_table_size ni')) (unat (rawpage_size ni')) mem"
    "length (block_state ni') = unat (state_table_size ni') div 4"
    unfolding ni' by (simp_all add: nmbm_init_structure_def Let_def)
  moreover have "unat (block_count ni') \<le> 16 * ((unat (block_count ni') + 15) div 16)"
    by linarith
  ultimately show ?thesis
    using len mt st by simp
qed

lemma sample_geom: "nmbm_geom sample_ni"
  by (simp add: nmbm_geom_def state_table_bytes_def NMBM_BITMAP_BLOCKS_PER_UNIT_def nmbm_consts)

lemma addr2ba_ba2addr_witness: "addr2ba sample_ni (ba2addr sample_ni 5 + 100) = 5"
  using addr2ba_ba2addr [OF sample_geom, of 100 5] by simp

lemma sample_accepted: "nmbm_check_lower_members sample_lower = (True, sample_lower)"
  by (simp add: nmbm_check_lower_members_def is_power_of_2_u64_def is_power_of_2_def nmbm_consts
      NMBM_F_READ_ONLY_def NMBM_F_CREATE_def Let_def)

lemma init_structure_memory_witness:
  "let ni' = nmbm_init_structure (replicate 1000 0) sample_ni in
    length (info_table_cache ni') = 256 \<and> length (block_mapping ni') = 32"
proof -
  have f: "ffs 128 = 8" "ffs 64 = 7" by (simp_all add: ffs_def upt_rec)
  have s: "info_table_size (nmbm_init_structure mem sample_ni) = 256"
    "state_table_size (nmbm_init_structure mem sample_ni) = 8"
    "mapping_table_size (nmbm_init_structure mem sample_ni) = 128"
    "rawpage_size (nmbm_init_structure mem sample_ni) = 80"
    "block_count (nmbm_init_structure mem sample_ni) = 32" for mem
    by (simp_all add: nmbm_init_structure_def Let_def f state_table_bytes_def nmbm_consts NMBM_ALIGN_def
        sizeof_nmbm_info_table_header_def)
  have c: "nmbm_calc_structure_size 0 sample_lower = 472"
    by (simp add: nmbm_calc_structure_size_def Let_def nmbm_lldiv_def state_table_bytes_def nmbm_consts
        NMBM_ALIGN_def sizeof_nmbm_info_table_header_def)
  show ?thesis
    using init_structure_memory [of sample_lower sample_ni _ "replicate 1000 0", OF _ refl]
    by (simp add: sample_accepted s c Let_def)
qed

end
