(* ===== verification/Nmbm_Phys.thy ===== *)
theory Nmbm_Phys
  imports Nmbm_Addr
begin

text \<open>
  High level NAND chip operations of \<open>nmbm-core.c\<close>: page read, page write, panic write
  and block erase, each with up to \<open>NMBM_TRY_COUNT\<close> attempts and a chip reset after a
  failed one; the check of a block's bad mark and the writing of one.

  Every operation takes the instance and returns its result with the new instance; on this
  level only the state of the device, the page cache and the log level change. The loops over
  the pages of a block visit the offsets \<open>page_offs\<close>.
\<close>

section \<open>Calls of the lower device\<close>

text \<open>
  A call through a function pointer. \<open>nmbm_check_lower_members\<close> requires
  \<open>read_page\<close>, and \<open>write_page\<close> and \<open>erase_block\<close> unless the device is
  read-only; the code checks the other pointers before a call.
\<close>

definition lower_read_page ::
  "'d nmbm_instance \<Rightarrow> u64 \<Rightarrow> bytes option \<Rightarrow> bytes option \<Rightarrow> nmbm_oob_mode
    \<Rightarrow> (int \<times> bytes \<times> bytes) \<times> 'd nmbm_instance" where
  "lower_read_page ni addr data oob mode =
     (case the (read_page (lower ni)) (arg (lower ni)) addr data oob mode of
       (ret, data', oob', d) \<Rightarrow> ((ret, data', oob'), set_arg d ni))"

definition lower_write_page ::
  "'d nmbm_instance \<Rightarrow> u64 \<Rightarrow> bytes option \<Rightarrow> bytes option \<Rightarrow> nmbm_oob_mode
    \<Rightarrow> int \<times> 'd nmbm_instance" where
  "lower_write_page ni addr data oob mode =
     (case the (write_page (lower ni)) (arg (lower ni)) addr data oob mode of
       (ret, d) \<Rightarrow> (ret, set_arg d ni))"

definition lower_panic_write_page :: "'d nmbm_instance \<Rightarrow> u64 \<Rightarrow> bytes \<Rightarrow> int \<times> 'd nmbm_instance" where
  "lower_panic_write_page ni addr data =
     (case the (panic_write_page (lower ni)) (arg (lower ni)) addr data of
       (ret, d) \<Rightarrow> (ret, set_arg d ni))"

definition lower_erase_block :: "'d nmbm_instance \<Rightarrow> u64 \<Rightarrow> int \<times> 'd nmbm_instance" where
  "lower_erase_block ni addr =
     (case the (erase_block (lower ni)) (arg (lower ni)) addr of (ret, d) \<Rightarrow> (ret, set_arg d ni))"

definition lower_is_bad_block :: "'d nmbm_instance \<Rightarrow> u64 \<Rightarrow> int \<times> 'd nmbm_instance" where
  "lower_is_bad_block ni addr =
     (case the (is_bad_block (lower ni)) (arg (lower ni)) addr of (ret, d) \<Rightarrow> (ret, set_arg d ni))"

definition lower_mark_bad_block :: "'d nmbm_instance \<Rightarrow> u64 \<Rightarrow> int \<times> 'd nmbm_instance" where
  "lower_mark_bad_block ni addr =
     (case the (mark_bad_block (lower ni)) (arg (lower ni)) addr of (ret, d) \<Rightarrow> (ret, set_arg d ni))"

section \<open>Operations with retry\<close>

definition nmbm_set_log_level ::
  "nmbm_log_category \<Rightarrow> 'd nmbm_instance option \<Rightarrow> nmbm_log_category \<times> 'd nmbm_instance option" where
  "nmbm_set_log_level level nip =
     (case nip of None \<Rightarrow> (NMBM_LOG_MAX, None)
      | Some ni \<Rightarrow> (log_display_level ni, Some (ni\<lparr>log_display_level := level\<rparr>)))"

definition nmbm_reset_chip :: "'d nmbm_instance \<Rightarrow> 'd nmbm_instance" where
  "nmbm_reset_chip ni =
     (case reset_chip (lower ni) of None \<Rightarrow> ni | Some f \<Rightarrow> set_arg (f (arg (lower ni))) ni)"

text \<open>The buffers keep what a failed attempt left in them.\<close>

fun read_phys_tries ::
  "nat \<Rightarrow> int \<Rightarrow> 'd nmbm_instance \<Rightarrow> u64 \<Rightarrow> bytes option \<Rightarrow> bytes option \<Rightarrow> nmbm_oob_mode
    \<Rightarrow> (int \<times> bytes option \<times> bytes option) \<times> 'd nmbm_instance" where
  "read_phys_tries 0 ret ni addr data oob mode = ((ret, data, oob), ni)"
| "read_phys_tries (Suc n) ret0 ni addr data oob mode =
     (let ((ret, data', oob'), ni) = lower_read_page ni addr data oob mode;
          data = map_option (\<lambda>_. data') data;
          oob = map_option (\<lambda>_. oob') oob
      in if ret \<ge> 0 then ((ret, data, oob), ni)
         else read_phys_tries n ret (nmbm_reset_chip ni) addr data oob mode)"

definition nmbm_read_phys_page ::
  "'d nmbm_instance \<Rightarrow> u64 \<Rightarrow> bytes option \<Rightarrow> bytes option \<Rightarrow> nmbm_oob_mode
    \<Rightarrow> (int \<times> bytes option \<times> bytes option) \<times> 'd nmbm_instance" where
  "nmbm_read_phys_page ni addr data oob mode =
     read_phys_tries NMBM_TRY_COUNT 0 ni addr data oob mode"

fun write_phys_tries ::
  "nat \<Rightarrow> 'd nmbm_instance \<Rightarrow> u64 \<Rightarrow> bytes option \<Rightarrow> bytes option \<Rightarrow> nmbm_oob_mode
    \<Rightarrow> bool \<times> 'd nmbm_instance" where
  "write_phys_tries 0 ni addr data oob mode = (False, ni)"
| "write_phys_tries (Suc n) ni addr data oob mode =
     (let (ret, ni) = lower_write_page ni addr data oob mode
      in if ret = 0 then (True, ni)
         else write_phys_tries n (nmbm_reset_chip ni) addr data oob mode)"

definition nmbm_write_phys_page ::
  "'d nmbm_instance \<Rightarrow> u64 \<Rightarrow> bytes option \<Rightarrow> bytes option \<Rightarrow> nmbm_oob_mode
    \<Rightarrow> bool \<times> 'd nmbm_instance" where
  "nmbm_write_phys_page ni addr data oob mode =
     (if read_only_flag ni then (False, ni)
      else write_phys_tries NMBM_TRY_COUNT ni addr data oob mode)"

fun panic_write_phys_tries :: "nat \<Rightarrow> 'd nmbm_instance \<Rightarrow> u64 \<Rightarrow> bytes \<Rightarrow> bool \<times> 'd nmbm_instance" where
  "panic_write_phys_tries 0 ni addr data = (False, ni)"
| "panic_write_phys_tries (Suc n) ni addr data =
     (let (ret, ni) = lower_panic_write_page ni addr data
      in if ret = 0 then (True, ni)
         else panic_write_phys_tries n (nmbm_reset_chip ni) addr data)"

definition nmbm_panic_write_phys_page :: "'d nmbm_instance \<Rightarrow> u64 \<Rightarrow> bytes \<Rightarrow> bool \<times> 'd nmbm_instance" where
  "nmbm_panic_write_phys_page ni addr data =
     (if read_only_flag ni then (False, ni)
      else panic_write_phys_tries NMBM_TRY_COUNT ni addr data)"

fun erase_phys_tries :: "nat \<Rightarrow> 'd nmbm_instance \<Rightarrow> u64 \<Rightarrow> bool \<times> 'd nmbm_instance" where
  "erase_phys_tries 0 ni addr = (False, ni)"
| "erase_phys_tries (Suc n) ni addr =
     (let (ret, ni) = lower_erase_block ni addr
      in if ret = 0 then (True, ni) else erase_phys_tries n (nmbm_reset_chip ni) addr)"

definition nmbm_erase_phys_block :: "'d nmbm_instance \<Rightarrow> u64 \<Rightarrow> bool \<times> 'd nmbm_instance" where
  "nmbm_erase_phys_block ni addr =
     (if read_only_flag ni then (False, ni) else erase_phys_tries NMBM_TRY_COUNT ni addr)"

section \<open>Bad marks\<close>

text \<open>
  The offsets of \<open>for (off = 0; off < erasesize; off += writesize)\<close>. A page size of
  zero, with which the C loop would not end, is refused by \<open>nmbm_check_lower_members\<close>.
\<close>

function page_offs_from :: "nat \<Rightarrow> nat \<Rightarrow> nat \<Rightarrow> nat list" where
  "page_offs_from off es ws = (if off < es \<and> 0 < ws then off # page_offs_from (off + ws) es ws else [])"
  by pat_completeness auto
termination
  by (relation "measure (\<lambda>(off, es, ws). es - off)") auto

declare page_offs_from.simps [simp del]

definition page_offs :: "'d nmbm_instance \<Rightarrow> u64 list" where
  "page_offs ni =
     map of_nat (page_offs_from 0 (unat (erasesize (lower ni))) (unat (writesize (lower ni))))"

definition page_cache_main :: "'d nmbm_instance \<Rightarrow> bytes" where
  "page_cache_main ni = take (unat (writesize (lower ni))) (page_cache ni)"

definition page_cache_oob :: "'d nmbm_instance \<Rightarrow> bytes" where
  "page_cache_oob ni = drop (unat (writesize (lower ni))) (page_cache ni)"

text \<open>Read the main data of a page into the page cache, with no OOB buffer.\<close>

definition read_page_to_cache :: "'d nmbm_instance \<Rightarrow> u64 \<Rightarrow> nmbm_oob_mode \<Rightarrow> int \<times> 'd nmbm_instance" where
  "read_page_to_cache ni addr mode =
     (let ((ret, data, _), ni) = nmbm_read_phys_page ni addr (Some (page_cache ni)) None mode
      in (ret, ni\<lparr>page_cache := the data\<rparr>))"

definition nmbm_check_bad_phys_block :: "'d nmbm_instance \<Rightarrow> u32 \<Rightarrow> bool \<times> 'd nmbm_instance" where
  "nmbm_check_bad_phys_block ni ba =
     (let addr = ba2addr ni ba
      in if is_bad_block (lower ni) \<noteq> None then
           (let (ret, ni) = lower_is_bad_block ni addr in (ret \<noteq> 0, ni))
         else
           (let ((ret, _, oob), ni) =
                  nmbm_read_phys_page ni addr None (Some (page_cache_oob ni)) NMBM_MODE_RAW;
                ni = ni\<lparr>page_cache := page_cache_main ni @ the oob\<rparr>
            in if ret < 0 \<and> ret \<noteq> - EBADMSG then (True, ni)
               else (page_cache ni ! unat (writesize (lower ni)) \<noteq> 0xff, ni)))"

fun mark_bad_pages :: "u64 list \<Rightarrow> 'd nmbm_instance \<Rightarrow> u64 \<Rightarrow> 'd nmbm_instance" where
  "mark_bad_pages [] ni addr = ni"
| "mark_bad_pages (off # offs) ni addr =
     (let (_, ni) = nmbm_write_phys_page ni (addr + off) (Some (page_cache ni))
                      (Some (page_cache_oob ni)) NMBM_MODE_RAW
      in mark_bad_pages offs ni addr)"

definition nmbm_mark_phys_bad_block :: "'d nmbm_instance \<Rightarrow> u32 \<Rightarrow> int \<times> 'd nmbm_instance" where
  "nmbm_mark_phys_bad_block ni ba =
     (let addr = ba2addr ni ba
      in if read_only_flag ni then (0, ni)
         else if mark_bad_block (lower ni) \<noteq> None then lower_mark_bad_block ni addr
         else
           let ni = ni\<lparr>page_cache := memset 0 0 (unat (rawpage_size ni)) (page_cache ni)\<rparr>;
               level = log_display_level ni;
               ni = ni\<lparr>log_display_level := NMBM_LOG_MAX\<rparr>;
               ni = mark_bad_pages (page_offs ni) ni addr
           in (0, ni\<lparr>log_display_level := level\<rparr>))"

section \<open>The retry loop\<close>

text \<open>
  Write, panic write and erase share one loop. The locale states what such a loop is; its
  lemma says that \<open>n\<close> tries succeed exactly if one of the first \<open>n\<close> attempts does,
  where every attempt but the first follows a failed attempt and a reset.
\<close>

locale retry_loop =
  fixes attempt :: "'s \<Rightarrow> int \<times> 's"
    and reset :: "'s \<Rightarrow> 's"
    and tries :: "nat \<Rightarrow> 's \<Rightarrow> bool \<times> 's"
  assumes tries_0: "tries 0 s = (False, s)"
    and tries_Suc: "tries (Suc n) s =
      (case attempt s of (ret, s') \<Rightarrow> if ret = 0 then (True, s') else tries n (reset s'))"
begin

definition before :: "nat \<Rightarrow> 's \<Rightarrow> 's" where
  "before k s = ((\<lambda>s. reset (snd (attempt s))) ^^ k) s"

lemma before_Suc: "before (Suc k) s = before k (reset (snd (attempt s)))"
  unfolding before_def by (simp only: funpow_Suc_right o_apply)

lemma tries_iff: "fst (tries n s) \<longleftrightarrow> (\<exists>k<n. fst (attempt (before k s)) = 0)"
proof (induction n arbitrary: s)
  case 0
  then show ?case by (simp add: tries_0)
next
  case (Suc n)
  have "(\<exists>k<Suc n. fst (attempt (before k s)) = 0) \<longleftrightarrow>
    fst (attempt s) = 0 \<or> (\<exists>k<n. fst (attempt (before (Suc k) s)) = 0)"
    by (simp add: Ex_less_Suc2 before_def)
  then show ?case
    using Suc [of "reset (snd (attempt s))"]
    by (auto simp: tries_Suc before_Suc split: prod.splits)
qed

lemma tries_fail_state: "\<not> fst (tries n s) \<Longrightarrow> snd (tries n s) = before n s"
proof (induction n arbitrary: s)
  case 0
  then show ?case by (simp add: tries_0 before_def)
next
  case (Suc n)
  then show ?case
    using Suc.IH [of "reset (snd (attempt s))"]
    by (auto simp: tries_Suc before_Suc split: prod.splits if_splits)
qed

lemma tries_keep:
  assumes "\<And>s. Q s \<Longrightarrow> Q (snd (attempt s))" "\<And>s. Q s \<Longrightarrow> Q (reset s)" "tries n s = (r, s')" "Q s"
  shows "Q s'"
  using assms(3,4)
proof (induction n arbitrary: s)
  case 0
  then show ?case by (simp add: tries_0)
next
  case (Suc n)
  then show ?case
    using assms(1) [of s] assms(2) by (auto simp: tries_Suc split: prod.splits if_splits)
qed

end

interpretation write_retry: retry_loop
  "\<lambda>ni. lower_write_page ni addr data oob mode" nmbm_reset_chip
  "\<lambda>n ni. write_phys_tries n ni addr data oob mode" for addr data oob mode
  by unfold_locales auto

interpretation panic_retry: retry_loop
  "\<lambda>ni. lower_panic_write_page ni addr data" nmbm_reset_chip
  "\<lambda>n ni. panic_write_phys_tries n ni addr data" for addr data
  by unfold_locales auto

interpretation erase_retry: retry_loop
  "\<lambda>ni. lower_erase_block ni addr" nmbm_reset_chip "\<lambda>n ni. erase_phys_tries n ni addr" for addr
  by unfold_locales auto

text \<open>
  A page write succeeds exactly if the device is not read-only and one of three attempts of
  the lower device returns 0, each attempt after the first on a chip reset after the failure
  before; a failed write leaves the state of three failed attempts.
\<close>

lemma write_phys_page_retry:
  "fst (nmbm_write_phys_page ni addr data oob mode) \<longleftrightarrow>
     \<not> read_only_flag ni \<and>
     (\<exists>k<3. fst (lower_write_page
        (((\<lambda>s. nmbm_reset_chip (snd (lower_write_page s addr data oob mode))) ^^ k) ni)
        addr data oob mode) = 0)"
  using write_retry.tries_iff [of 3 ni addr data oob mode, unfolded write_retry.before_def]
  by (auto simp: nmbm_write_phys_page_def NMBM_TRY_COUNT_def)

section \<open>Invariants of the device operations\<close>

text \<open>
  A property \<open>P\<close> of the instance that the steps of the lower device keep is kept by every
  operation built from them. Reads and resets may happen at any time; writes, erases and bad
  marks only when the device is not read-only, so \<open>P\<close> need not survive them on a read-only
  device. The components above extend these two locales with the fields they change.
\<close>

locale dev_reads =
  fixes P :: "'d nmbm_instance \<Rightarrow> bool"
  assumes P_reset: "P ni \<Longrightarrow> P (nmbm_reset_chip ni)"
    and P_read: "P ni \<Longrightarrow> P (snd (lower_read_page ni a d oob m))"
    and P_is_bad: "P ni \<Longrightarrow> is_bad_block (lower ni) \<noteq> None \<Longrightarrow> P (snd (lower_is_bad_block ni a))"
    and P_page_cache: "P ni \<Longrightarrow> P (ni\<lparr>page_cache := c\<rparr>)"
begin

lemma P_read_tries:
  "read_phys_tries n ret ni addr data oob mode = (r, ni') \<Longrightarrow> P ni \<Longrightarrow> P ni'"
proof (induction n arbitrary: ret ni data oob)
  case 0
  then show ?case by simp
next
  case (Suc n)
  obtain ret1 d1 o1 ni1 where l: "lower_read_page ni addr data oob mode = ((ret1, d1, o1), ni1)"
    by (metis prod.exhaust)
  have "P ni1" using P_read [OF Suc.prems(2), of addr data oob mode] l by simp
  then have "P ni1" "P (nmbm_reset_chip ni1)" by (simp_all add: P_reset)
  then show ?case
    using Suc.prems(1) l
      Suc.IH [of ret1 "nmbm_reset_chip ni1" "map_option (\<lambda>_. d1) data" "map_option (\<lambda>_. o1) oob"]
    by (auto simp: Let_def split: if_splits)
qed

lemma P_read_phys: "nmbm_read_phys_page ni addr data oob mode = (r, ni') \<Longrightarrow> P ni \<Longrightarrow> P ni'"
  unfolding nmbm_read_phys_page_def by (rule P_read_tries)

lemma P_read_to_cache: "read_page_to_cache ni addr mode = (r, ni') \<Longrightarrow> P ni \<Longrightarrow> P ni'"
  unfolding read_page_to_cache_def Let_def
  by (auto split: prod.splits dest!: P_read_phys intro!: P_page_cache)

lemma P_check_bad: "nmbm_check_bad_phys_block ni ba = (r, ni') \<Longrightarrow> P ni \<Longrightarrow> P ni'"
  using P_is_bad [of ni "ba2addr ni ba"]
  unfolding nmbm_check_bad_phys_block_def Let_def
  by (auto split: prod.splits if_splits dest!: P_read_phys intro!: P_page_cache)

end

locale dev_writes = dev_reads P for P :: "'d nmbm_instance \<Rightarrow> bool" +
  assumes P_write: "P ni \<Longrightarrow> \<not> read_only_flag ni \<Longrightarrow> P (snd (lower_write_page ni a d oob m))"
    and P_panic: "P ni \<Longrightarrow> \<not> read_only_flag ni \<Longrightarrow> P (snd (lower_panic_write_page ni a b))"
    and P_erase: "P ni \<Longrightarrow> \<not> read_only_flag ni \<Longrightarrow> P (snd (lower_erase_block ni a))"
    and P_mark: "P ni \<Longrightarrow> \<not> read_only_flag ni \<Longrightarrow> P (snd (lower_mark_bad_block ni a))"
    and P_log: "P ni \<Longrightarrow> P (ni\<lparr>log_display_level := l\<rparr>)"
begin

lemma flags_step:
  "flags (lower (snd (lower_write_page ni a d oob m))) = flags (lower ni)"
  "flags (lower (snd (lower_panic_write_page ni a b))) = flags (lower ni)"
  "flags (lower (snd (lower_erase_block ni a))) = flags (lower ni)"
  "flags (lower (nmbm_reset_chip ni)) = flags (lower ni)"
  by (simp_all add: lower_write_page_def lower_panic_write_page_def lower_erase_block_def
      nmbm_reset_chip_def split: prod.splits option.splits)

lemma P_write_phys: "nmbm_write_phys_page ni addr data oob mode = (r, ni') \<Longrightarrow> P ni \<Longrightarrow> P ni'"
proof (cases "read_only_flag ni")
  case True
  then show "nmbm_write_phys_page ni addr data oob mode = (r, ni') \<Longrightarrow> P ni \<Longrightarrow> P ni'"
    by (simp add: nmbm_write_phys_page_def)
next
  case False
  assume eq: "nmbm_write_phys_page ni addr data oob mode = (r, ni')" and P: "P ni"
  have "P ni' \<and> \<not> read_only_flag ni'"
  proof (rule write_retry.tries_keep [where Q = "\<lambda>ni. P ni \<and> \<not> read_only_flag ni"])
    show "write_phys_tries NMBM_TRY_COUNT ni addr data oob mode = (r, ni')"
      using eq False by (simp add: nmbm_write_phys_page_def)
  qed (use P False in \<open>simp_all only: flags_step P_write P_reset not_False_eq_True simp_thms\<close>)
  then show "P ni'" ..
qed

lemma P_panic_phys: "nmbm_panic_write_phys_page ni addr data = (r, ni') \<Longrightarrow> P ni \<Longrightarrow> P ni'"
proof (cases "read_only_flag ni")
  case True
  then show "nmbm_panic_write_phys_page ni addr data = (r, ni') \<Longrightarrow> P ni \<Longrightarrow> P ni'"
    by (simp add: nmbm_panic_write_phys_page_def)
next
  case False
  assume eq: "nmbm_panic_write_phys_page ni addr data = (r, ni')" and P: "P ni"
  have "P ni' \<and> \<not> read_only_flag ni'"
  proof (rule panic_retry.tries_keep [where Q = "\<lambda>ni. P ni \<and> \<not> read_only_flag ni"])
    show "panic_write_phys_tries NMBM_TRY_COUNT ni addr data = (r, ni')"
      using eq False by (simp add: nmbm_panic_write_phys_page_def)
  qed (use P False in \<open>simp_all only: flags_step P_panic P_reset not_False_eq_True simp_thms\<close>)
  then show "P ni'" ..
qed

lemma P_erase_phys: "nmbm_erase_phys_block ni addr = (r, ni') \<Longrightarrow> P ni \<Longrightarrow> P ni'"
proof (cases "read_only_flag ni")
  case True
  then show "nmbm_erase_phys_block ni addr = (r, ni') \<Longrightarrow> P ni \<Longrightarrow> P ni'"
    by (simp add: nmbm_erase_phys_block_def)
next
  case False
  assume eq: "nmbm_erase_phys_block ni addr = (r, ni')" and P: "P ni"
  have "P ni' \<and> \<not> read_only_flag ni'"
  proof (rule erase_retry.tries_keep [where Q = "\<lambda>ni. P ni \<and> \<not> read_only_flag ni"])
    show "erase_phys_tries NMBM_TRY_COUNT ni addr = (r, ni')"
      using eq False by (simp add: nmbm_erase_phys_block_def)
  qed (use P False in \<open>simp_all only: flags_step P_erase P_reset not_False_eq_True simp_thms\<close>)
  then show "P ni'" ..
qed

lemma P_mark_bad_pages: "P ni \<Longrightarrow> P (mark_bad_pages offs ni addr)"
  by (induction offs arbitrary: ni) (auto split: prod.splits dest: P_write_phys)

lemma P_mark_phys_bad: "nmbm_mark_phys_bad_block ni ba = (r, ni') \<Longrightarrow> P ni \<Longrightarrow> P ni'"
  using P_mark [of ni "ba2addr ni ba"]
  unfolding nmbm_mark_phys_bad_block_def Let_def
  by (auto split: if_splits intro!: P_log P_mark_bad_pages P_page_cache)

end


text \<open>
  What does not depend on the state of the device behind the function pointers is kept by every
  call of them.
\<close>

lemma lower_call_set_arg:
  "\<exists>x. snd (lower_read_page ni a d oob m) = set_arg x ni"
  "\<exists>x. snd (lower_write_page ni a d oob m) = set_arg x ni"
  "\<exists>x. snd (lower_panic_write_page ni a b) = set_arg x ni"
  "\<exists>x. snd (lower_erase_block ni a) = set_arg x ni"
  "\<exists>x. snd (lower_is_bad_block ni a) = set_arg x ni"
  "\<exists>x. snd (lower_mark_bad_block ni a) = set_arg x ni"
  "\<exists>x. nmbm_reset_chip ni = set_arg x ni"
  by (auto simp: lower_read_page_def lower_write_page_def lower_panic_write_page_def
      lower_erase_block_def lower_is_bad_block_def lower_mark_bad_block_def nmbm_reset_chip_def
      split: prod.split option.split) (metis set_arg_simps(6))

locale arg_free =
  fixes P :: "'d nmbm_instance \<Rightarrow> bool"
  assumes P_set_arg: "P ni \<Longrightarrow> P (set_arg x ni)"
    and P_cache: "P ni \<Longrightarrow> P (ni\<lparr>page_cache := c\<rparr>)"
    and P_log_level: "P ni \<Longrightarrow> P (ni\<lparr>log_display_level := l\<rparr>)"
begin

lemma keeps: "\<exists>x. s = set_arg x ni \<Longrightarrow> P ni \<Longrightarrow> P s"
  using P_set_arg by blast

end

sublocale arg_free \<subseteq> dev_writes P
proof unfold_locales
qed (rule keeps, rule lower_call_set_arg, assumption | erule P_cache | erule P_log_level)+

end
