(* ===== verification/Nmbm_State.thy ===== *)
theory Nmbm_State
  imports Nmbm_Phys
begin

text \<open>
  The block state table and the two things computed from it: walks over good blocks and the
  initial mapping table (\<open>nmbm-core.c\<close>, \<open>nmbm_get_block_state_raw\<close> to
  \<open>nmbm_build_mapping_table\<close>). A block's state is a two-bit slot of an array of 32-bit
  units.

  A loop over block addresses is a recursion over the list of the addresses it visits:
  \<open>bas a b\<close> for \<open>while (ba < b) ... ba++\<close> from \<open>a\<close>, and
  \<open>bas_down a b\<close> for \<open>while (ba > b) ... ba--\<close> from \<open>a\<close>.
\<close>

section \<open>Block addresses visited by a loop\<close>

definition bas :: "u32 \<Rightarrow> u32 \<Rightarrow> u32 list" where
  "bas a b = map of_nat [unat a..<unat b]"

definition bas_down :: "u32 \<Rightarrow> u32 \<Rightarrow> u32 list" where
  "bas_down a b = map of_nat (rev [Suc (unat b)..<Suc (unat a)])"

lemma bas_unfold: "bas a b = (if a < b then a # bas (a + 1) b else [])"
  by (simp add: bas_def word_less_nat_alt upt_conv_Cons unat_add_one_below [of a b])

lemma bas_down_unfold: "bas_down a b = (if b < a then a # bas_down (a - 1) b else [])"
proof (cases "b < a")
  case True
  then have "unat (a - 1) = unat a - 1" "unat b < unat a"
    by (simp_all add: unat_sub_one_above word_less_nat_alt)
  then have "rev [Suc (unat b)..<Suc (unat a)] = unat a # rev [Suc (unat b)..<Suc (unat (a - 1))]"
    by simp
  with True show ?thesis by (simp add: bas_down_def)
next
  case False
  then show ?thesis by (simp add: bas_down_def word_less_nat_alt)
qed

lemma set_bas: "set (bas a b) = {x. a \<le> x \<and> x < b}"
proof -
  have "x \<in> of_nat ` {unat a..<unat b}" if "a \<le> x" "x < b" for x :: u32
    using that by (intro image_eqI [of _ _ "unat x"]) (simp_all add: word_le_nat_alt word_less_nat_alt)
  moreover have "a \<le> of_nat n" "of_nat n < b" if "unat a \<le> n" "n < unat b" for n
    using that unat_of_nat_small [of n, where 'a = 32] u32_less_2p32 [of b]
    by (simp_all add: word_le_nat_alt word_less_nat_alt)
  ultimately show ?thesis by (auto simp: bas_def)
qed

lemma map_unat_bas: "map unat (bas a b) = [unat a..<unat b]"
proof -
  have "map unat (bas a b) = map (\<lambda>n. unat (of_nat n :: u32)) [unat a..<unat b]"
    by (simp add: bas_def o_def)
  also have "\<dots> = map id [unat a..<unat b]"
    using u32_less_2p32 [of b] by (intro map_cong refl) (simp add: unat_of_nat_small)
  finally show ?thesis by simp
qed

lemma distinct_bas: "distinct (bas a b)"
  using distinct_upt [of "unat a" "unat b"] unfolding map_unat_bas [symmetric] distinct_map by simp

lemma bas_down_rev: "b < a \<Longrightarrow> bas_down a b = rev (map of_nat [Suc (unat b)..<Suc (unat a)])"
  by (simp add: bas_down_def rev_map)

lemma map_unat_bas_down: "map unat (bas_down a b) = rev [Suc (unat b)..<Suc (unat a)]"
proof -
  have "map unat (bas_down a b) = map (\<lambda>n. unat (of_nat n :: u32)) (rev [Suc (unat b)..<Suc (unat a)])"
    by (simp only: bas_down_def map_map o_def)
  also have "\<dots> = map id (rev [Suc (unat b)..<Suc (unat a)])"
  proof (intro map_cong refl)
    fix x assume "x \<in> set (rev [Suc (unat b)..<Suc (unat a)])"
    then have "x < Suc (unat a)" unfolding set_rev set_upt by (rule conjunct2 [OF atLeastLessThan_iff [THEN iffD1]])
    then have "x < 2 ^ LENGTH(32)" using u32_less_2p32 [of a] by simp
    then show "unat (of_nat x :: u32) = id x" by (simp add: unat_of_nat_small)
  qed
  finally show ?thesis by simp
qed

lemma set_bas_down: "set (bas_down a b) = {x. b < x \<and> x \<le> a}"
proof -
  have u: "unat ` set (bas_down a b) = {Suc (unat b)..<Suc (unat a)}"
    using arg_cong [OF map_unat_bas_down [of a b], of set] by (simp only: set_map set_rev set_upt)
  have inj: "inj (unat :: u32 \<Rightarrow> nat)"
    by (rule injI) (simp add: word_unat_eq_iff)
  have m: "x \<in> set (bas_down a b) \<longleftrightarrow> unat x \<in> {Suc (unat b)..<Suc (unat a)}" for x
    unfolding u [symmetric] by (simp only: inj_image_mem_iff [OF inj])
  show ?thesis
    by (simp only: set_eq_iff m mem_Collect_eq word_le_nat_alt word_less_nat_alt
        atLeastLessThan_iff Suc_le_eq less_Suc_eq_le simp_thms)
qed

section \<open>The block state table\<close>

definition nmbm_get_block_state_raw :: "u32 list \<Rightarrow> u32 \<Rightarrow> u32" where
  "nmbm_get_block_state_raw bs ba =
     (let unit = ba div NMBM_BITMAP_BLOCKS_PER_UNIT;
          shift = (ba mod NMBM_BITMAP_BLOCKS_PER_UNIT) * NMBM_BITMAP_BITS_PER_BLOCK
      in drop_bit (unat shift) (bs ! unat unit) AND BLOCK_ST_MASK)"

definition nmbm_get_block_state :: "'d nmbm_instance \<Rightarrow> u32 \<Rightarrow> u32" where
  "nmbm_get_block_state ni ba = nmbm_get_block_state_raw (block_state ni) ba"

definition nmbm_set_block_state :: "'d nmbm_instance \<Rightarrow> u32 \<Rightarrow> u32 \<Rightarrow> bool \<times> 'd nmbm_instance" where
  "nmbm_set_block_state ni ba state =
     (let unit = ba div NMBM_BITMAP_BLOCKS_PER_UNIT;
          shift = (ba mod NMBM_BITMAP_BLOCKS_PER_UNIT) * NMBM_BITMAP_BITS_PER_BLOCK;
          orig = drop_bit (unat shift) (block_state ni ! unat unit) AND BLOCK_ST_MASK;
          state = state AND BLOCK_ST_MASK;
          uv = block_state ni ! unat unit AND NOT (push_bit (unat shift) BLOCK_ST_MASK);
          uv = uv OR push_bit (unat shift) state;
          ni = ni\<lparr>block_state := (block_state ni)[unat unit := uv]\<rparr>
      in if orig \<noteq> state then (True, ni\<lparr>block_state_changed := block_state_changed ni + 1\<rparr>)
         else (False, ni))"

section \<open>Walking over good blocks\<close>

text \<open>\<open>None\<close> is the result \<open>false\<close>, which leaves \<open>*nba\<close> alone.\<close>

fun walk_good :: "'d nmbm_instance \<Rightarrow> u32 list \<Rightarrow> int \<Rightarrow> u32 option" where
  "walk_good ni [] nblock = None"
| "walk_good ni (ba # rest) nblock =
     (let nblock = (if nmbm_get_block_state ni ba = BLOCK_ST_GOOD then nblock - 1 else nblock)
      in if nblock < 0 then Some ba else walk_good ni rest nblock)"

definition nmbm_block_walk_asc :: "'d nmbm_instance \<Rightarrow> u32 \<Rightarrow> u32 \<Rightarrow> u32 \<Rightarrow> u32 option" where
  "nmbm_block_walk_asc ni ba count limit =
     (let nblock = sint count;
          limit = (if limit \<ge> block_count ni then block_count ni - 1 else limit)
      in walk_good ni (bas ba limit) nblock)"

definition nmbm_block_walk_desc :: "'d nmbm_instance \<Rightarrow> u32 \<Rightarrow> u32 \<Rightarrow> u32 \<Rightarrow> u32 option" where
  "nmbm_block_walk_desc ni ba count limit =
     (let nblock = sint count;
          limit = (if limit \<ge> block_count ni then block_count ni - 1 else limit)
      in walk_good ni (bas_down ba limit) nblock)"

definition nmbm_block_walk :: "'d nmbm_instance \<Rightarrow> bool \<Rightarrow> u32 \<Rightarrow> u32 \<Rightarrow> u32 \<Rightarrow> u32 option" where
  "nmbm_block_walk ni ascending ba count limit =
     (if ascending then nmbm_block_walk_asc ni ba count limit
      else nmbm_block_walk_desc ni ba count limit)"

section \<open>Initial tables\<close>

fun scan_blocks :: "u32 list \<Rightarrow> 'd nmbm_instance \<Rightarrow> 'd nmbm_instance" where
  "scan_blocks [] ni = ni"
| "scan_blocks (ba # rest) ni =
     (let (bad, ni) = nmbm_check_bad_phys_block ni ba;
          ni = (if bad then snd (nmbm_set_block_state ni ba BLOCK_ST_BAD) else ni)
      in scan_blocks rest ni)"

definition nmbm_scan_badblocks :: "'d nmbm_instance \<Rightarrow> 'd nmbm_instance" where
  "nmbm_scan_badblocks ni = scan_blocks (bas 0 (block_count ni)) ni"

fun map_good_blocks :: "u32 list \<Rightarrow> u32 \<Rightarrow> 'd nmbm_instance \<Rightarrow> u32 \<times> 'd nmbm_instance" where
  "map_good_blocks [] lb ni = (lb, ni)"
| "map_good_blocks (pb # rest) lb ni =
     (if nmbm_get_block_state ni pb = BLOCK_ST_BAD then map_good_blocks rest lb ni
      else map_good_blocks rest (lb + 1) (ni\<lparr>block_mapping := (block_mapping ni)[unat lb := pb]\<rparr>))"

fun unmap_blocks :: "u32 list \<Rightarrow> 'd nmbm_instance \<Rightarrow> 'd nmbm_instance" where
  "unmap_blocks [] ni = ni"
| "unmap_blocks (pb # rest) ni =
     unmap_blocks rest (ni\<lparr>block_mapping := (block_mapping ni)[unat pb := - 1]\<rparr>)"

definition nmbm_build_mapping_table :: "'d nmbm_instance \<Rightarrow> 'd nmbm_instance" where
  "nmbm_build_mapping_table ni =
     (let (lb, ni) = map_good_blocks (bas 0 (mgmt_start_ba ni)) 0 ni;
          ni = ni\<lparr>data_block_count := lb\<rparr>
      in unmap_blocks (bas lb (block_count ni)) ni)"

section \<open>Slots of the block state table\<close>

lemma unat_slot_shift: "unat ((ba mod 16) * 2 :: u32) = 2 * (unat ba mod 16)"
proof -
  have "unat (ba mod 16) = unat ba mod 16" by (simp add: unat_mod)
  moreover have "unat ba mod 16 < 16" by simp
  ultimately show ?thesis by (simp add: unat_word_ariths(2))
qed

lemma get_block_state_raw_bits:
  "nmbm_get_block_state_raw bs ba = take_bit 2 (drop_bit (2 * (unat ba mod 16)) (bs ! (unat ba div 16)))"
  by (simp add: nmbm_get_block_state_raw_def nmbm_consts Let_def unat_slot_shift unat_div
      take_bit_eq_mask mask_eq_exp_minus_1)

lemma get_block_state_le_3: "nmbm_get_block_state_raw bs ba \<in> {0, 1, 2, 3}"
proof -
  have "unat (nmbm_get_block_state_raw bs ba) < 4"
    unfolding get_block_state_raw_bits by (simp only: unsigned_take_bit_eq) (simp add: take_bit_eq_mod)
  then consider "unat (nmbm_get_block_state_raw bs ba) = 0" | "unat (nmbm_get_block_state_raw bs ba) = 1"
    | "unat (nmbm_get_block_state_raw bs ba) = 2" | "unat (nmbm_get_block_state_raw bs ba) = 3"
    by linarith
  then show ?thesis by cases (auto simp: word_unat_eq_iff)
qed

lemma set_block_state_unfold:
  "nmbm_set_block_state ni ba st =
    (let s = 2 * (unat ba mod 16); u = unat ba div 16;
         ni' = ni\<lparr>block_state := (block_state ni)
           [u := (block_state ni ! u AND NOT (push_bit s 3)) OR push_bit s (take_bit 2 st)]\<rparr>
     in if nmbm_get_block_state ni ba \<noteq> take_bit 2 st
        then (True, ni'\<lparr>block_state_changed := block_state_changed ni + 1\<rparr>) else (False, ni'))"
  by (simp add: nmbm_set_block_state_def nmbm_get_block_state_def nmbm_get_block_state_raw_def
      nmbm_consts Let_def unat_slot_shift unat_div take_bit_eq_mask mask_eq_exp_minus_1)

lemma slot_update_same:
  fixes u st :: u32
  assumes "k < 16"
  shows "take_bit 2 (drop_bit (2 * k) (u AND NOT (push_bit (2 * k) 3) OR push_bit (2 * k) (take_bit 2 st)))
    = take_bit 2 st"
proof (rule bit_word_eqI)
  fix i :: nat assume "i < LENGTH(32)"
  have "i < 2 \<Longrightarrow> bit (3 :: u32) i" by (auto simp: less_Suc_eq numeral_2_eq_2)
  then show "bit (take_bit 2 (drop_bit (2 * k) (u AND NOT (push_bit (2 * k) 3)
      OR push_bit (2 * k) (take_bit 2 st)))) i = bit (take_bit 2 st) i"
    using assms by (auto simp: bit_take_bit_iff bit_drop_bit_eq bit_or_iff bit_and_iff bit_not_iff
        bit_push_bit_iff)
qed

lemma slot_update_other:
  fixes u st :: u32
  assumes "k \<noteq> m"
  shows "take_bit 2 (drop_bit (2 * m) (u AND NOT (push_bit (2 * k) 3) OR push_bit (2 * k) (take_bit 2 st)))
    = take_bit 2 (drop_bit (2 * m) u)"
proof (rule bit_word_eqI)
  fix i :: nat assume "i < LENGTH(32)"
  have m3: "3 = (mask 2 :: u32)" by (simp add: mask_eq_exp_minus_1)
  show "bit (take_bit 2 (drop_bit (2 * m) (u AND NOT (push_bit (2 * k) 3)
      OR push_bit (2 * k) (take_bit 2 st)))) i = bit (take_bit 2 (drop_bit (2 * m) u)) i"
    unfolding m3 using assms
    by (auto simp: bit_take_bit_iff bit_drop_bit_eq bit_or_iff bit_and_iff bit_not_iff
        bit_push_bit_iff bit_mask_iff dest: bit_imp_le_length)
qed

lemma get_set_state:
  assumes "unat ba < 16 * length (block_state ni)"
  shows "nmbm_get_block_state (snd (nmbm_set_block_state ni ba st)) =
    (nmbm_get_block_state ni)(ba := take_bit 2 st)"
proof
  fix x
  let ?k = "unat ba mod 16" and ?u = "unat ba div 16"
  have u: "?u < length (block_state ni)" using assms by simp
  have bs: "block_state (snd (nmbm_set_block_state ni ba st)) = (block_state ni)[?u :=
      block_state ni ! ?u AND NOT (push_bit (2 * ?k) 3) OR push_bit (2 * ?k) (take_bit 2 st)]"
    by (simp add: set_block_state_unfold Let_def)
  consider "x = ba" | "x \<noteq> ba" "unat x div 16 = ?u" | "unat x div 16 \<noteq> ?u" by blast
  then show "nmbm_get_block_state (snd (nmbm_set_block_state ni ba st)) x =
      ((nmbm_get_block_state ni)(ba := take_bit 2 st)) x"
  proof cases
    case 1
    then show ?thesis
      using u slot_update_same [of ?k "block_state ni ! ?u" st]
      by (simp add: nmbm_get_block_state_def get_block_state_raw_bits bs)
  next
    case 2
    then have "unat x mod 16 \<noteq> ?k"
      by (metis mod_mult_div_eq word_unat_eq_iff)
    then show ?thesis
      using 2 u slot_update_other [of ?k "unat x mod 16" "block_state ni ! ?u" st]
      by (simp add: nmbm_get_block_state_def get_block_state_raw_bits bs)
  next
    case 3
    then have "x \<noteq> ba" by auto
    with 3 show ?thesis
      by (simp add: nmbm_get_block_state_def get_block_state_raw_bits bs)
  qed
qed

text \<open>
  C27. The bitmap implements a table of one state per block: writing the state of block
  \<open>ba\<close> changes what is read for \<open>ba\<close> to the low two bits of the state written, and
  what is read for no other block.
\<close>

theorem get_set_block_state:
  assumes "unat ba < 16 * length (block_state ni)"
  shows "nmbm_get_block_state (snd (nmbm_set_block_state ni ba st)) =
    (nmbm_get_block_state ni)(ba := take_bit 2 st)"
  by (rule get_set_state [OF assms])

lemma set_block_state_frame:
  "block_count (snd (nmbm_set_block_state ni ba st)) = block_count ni"
  "lower (snd (nmbm_set_block_state ni ba st)) = lower ni"
  "length (block_state (snd (nmbm_set_block_state ni ba st))) = length (block_state ni)"
  "block_mapping (snd (nmbm_set_block_state ni ba st)) = block_mapping ni"
  "fst (nmbm_set_block_state ni ba st) \<longleftrightarrow> nmbm_get_block_state ni ba \<noteq> take_bit 2 st"
  "block_state_changed (snd (nmbm_set_block_state ni ba st)) = block_state_changed ni +
    (if nmbm_get_block_state ni ba \<noteq> take_bit 2 st then 1 else 0)"
  by (simp_all add: set_block_state_unfold Let_def)

section \<open>What a walk finds\<close>

abbreviation good_block :: "'d nmbm_instance \<Rightarrow> u32 \<Rightarrow> bool" where
  "good_block ni ba \<equiv> nmbm_get_block_state ni ba = BLOCK_ST_GOOD"

lemma bas_split: "a \<le> x \<Longrightarrow> x < b \<Longrightarrow> bas a b = bas a x @ x # bas (x + 1) b"
proof -
  assume "a \<le> x" "x < b"
  then have "[unat a..<unat b] = [unat a..<unat x] @ unat x # [Suc (unat x)..<unat b]"
    by (intro upt_split) (simp_all only: word_le_nat_alt word_less_nat_alt)
  then show ?thesis
    using \<open>x < b\<close> by (simp add: bas_def unat_add_one_below)
qed

lemma bas_down_split: "b < x \<Longrightarrow> x \<le> a \<Longrightarrow> bas_down a b = bas_down a x @ x # bas_down (x - 1) b"
proof -
  assume x: "b < x" "x \<le> a"
  have "Suc (unat b) \<le> unat x" "unat x < Suc (unat a)"
    using x unfolding word_le_nat_alt word_less_nat_alt by linarith+
  then have u: "[Suc (unat b)..<Suc (unat a)] =
      [Suc (unat b)..<unat x] @ unat x # [Suc (unat x)..<Suc (unat a)]"
    by (rule upt_split)
  have s: "Suc (unat (x - 1)) = unat x"
    using x(1) unat_sub_one_above [OF x(1)] unfolding word_less_nat_alt by linarith
  show ?thesis
    unfolding bas_down_def u s by (simp del: upt_Suc)
qed

lemma distinct_bas_down: "distinct (bas_down a b)"
proof -
  have "distinct (map unat (bas_down a b))"
    unfolding map_unat_bas_down by (simp only: distinct_rev distinct_upt)
  then show ?thesis by (simp only: distinct_map)
qed

lemma walk_good_iff:
  "0 \<le> n \<Longrightarrow> walk_good ni bs n = Some b \<longleftrightarrow>
    (\<exists>pre post. bs = pre @ b # post \<and> good_block ni b \<and> int (length (filter (good_block ni) pre)) = n)"
proof (induction bs arbitrary: n)
  case Nil
  then show ?case by simp
next
  case (Cons a bs)
  have split: "(\<exists>pre post. a # bs = pre @ b # post \<and> Q pre) \<longleftrightarrow>
      (a = b \<and> Q []) \<or> (\<exists>pre post. bs = pre @ b # post \<and> Q (a # pre))" for Q
    by (auto simp: Cons_eq_append_conv)
  show ?case
  proof (cases "good_block ni a")
    case False
    then show ?thesis
      using Cons.IH [OF Cons.prems] Cons.prems
        split [of "\<lambda>pre. good_block ni b \<and> int (length (filter (good_block ni) pre)) = n"]
      by auto
  next
    case True
    show ?thesis
    proof (cases "n = 0")
      case True
      with \<open>good_block ni a\<close> show ?thesis
        using split [of "\<lambda>pre. good_block ni b \<and> int (length (filter (good_block ni) pre)) = n"]
        by auto
    next
      case False
      with Cons.prems have "0 \<le> n - 1" by simp
      from Cons.IH [OF this] False Cons.prems \<open>good_block ni a\<close> show ?thesis
        using split [of "\<lambda>pre. good_block ni b \<and> int (length (filter (good_block ni) pre)) = n"]
        by (auto simp: algebra_simps)
    qed
  qed
qed

lemma walk_good_None:
  "0 \<le> n \<Longrightarrow> walk_good ni bs n = None \<longleftrightarrow> int (length (filter (good_block ni) bs)) \<le> n"
  by (induction bs arbitrary: n) (auto simp: Let_def)

lemma clamp_limit:
  "bc \<noteq> 0 \<Longrightarrow> (if limit \<ge> bc then bc - 1 else limit) = min limit (bc - 1 :: u32)"
  using unat_gt_0 [of bc] by (auto simp: min_def word_le_nat_alt unat_minus_one not_le)

lemma block_walk_asc_iff:
  assumes "0 \<le> sint count" "block_count ni \<noteq> 0" and lim: "lim = min limit (block_count ni - 1)"
  shows "(nmbm_block_walk ni True ba count limit = Some b \<longleftrightarrow>
      ba \<le> b \<and> b < lim \<and> good_block ni b \<and>
      int (length (filter (good_block ni) (bas ba b))) = sint count) \<and>
    (nmbm_block_walk ni True ba count limit = None \<longleftrightarrow>
      int (length (filter (good_block ni) (bas ba lim))) \<le> sint count)"
proof -
  have w: "nmbm_block_walk ni True ba count limit = walk_good ni (bas ba lim) (sint count)"
    by (simp only: nmbm_block_walk_def nmbm_block_walk_asc_def lim clamp_limit [OF assms(2)] Let_def if_True)
  have eq: "(\<exists>pre post. bas ba lim = pre @ b # post \<and> good_block ni b \<and>
        int (length (filter (good_block ni) pre)) = sint count) \<longleftrightarrow>
      ba \<le> b \<and> b < lim \<and> good_block ni b \<and>
      int (length (filter (good_block ni) (bas ba b))) = sint count" (is "?L \<longleftrightarrow> ?R")
  proof
    assume ?L
    then obtain pre post where pp: "bas ba lim = pre @ b # post" and g: "good_block ni b"
      "int (length (filter (good_block ni) pre)) = sint count" by blast
    then have "b \<in> set (bas ba lim)" by simp
    then have b: "ba \<le> b" "b < lim" by (simp_all add: set_bas)
    have "distinct (pre @ b # post)" using distinct_bas [of ba lim] pp by simp
    then have "b \<notin> set pre" "b \<notin> set post" by auto
    then have "pre = bas ba b"
      using bas_split [OF b] pp by (simp add: append_Cons_eq_iff)
    with g b show ?R by simp
  next
    assume ?R
    then show ?L using bas_split by blast
  qed
  show ?thesis
    unfolding w walk_good_iff [OF assms(1)] walk_good_None [OF assms(1)] eq by simp
qed

text \<open>
  C0. The ascending walk returns the block that has exactly \<open>count\<close> good blocks before it
  on the way from \<open>ba\<close>, is good itself and lies below the limit, the last block of the
  chip never being reached; it fails exactly if the range has no more than \<open>count\<close>
  good blocks.
\<close>

theorem block_walk_asc:
  assumes "0 \<le> sint count" "block_count ni \<noteq> 0" and lim: "lim = min limit (block_count ni - 1)"
  shows "(nmbm_block_walk ni True ba count limit = Some b \<longleftrightarrow>
      ba \<le> b \<and> b < lim \<and> good_block ni b \<and>
      int (length (filter (good_block ni) (bas ba b))) = sint count) \<and>
    (nmbm_block_walk ni True ba count limit = None \<longleftrightarrow>
      int (length (filter (good_block ni) (bas ba lim))) \<le> sint count)"
  by (rule block_walk_asc_iff [OF assms])

lemma block_walk_desc_iff:
  assumes "0 \<le> sint count" "block_count ni \<noteq> 0" and lim: "lim = min limit (block_count ni - 1)"
  shows "(nmbm_block_walk ni False ba count limit = Some b \<longleftrightarrow>
      lim < b \<and> b \<le> ba \<and> good_block ni b \<and>
      int (length (filter (good_block ni) (bas_down ba b))) = sint count) \<and>
    (nmbm_block_walk ni False ba count limit = None \<longleftrightarrow>
      int (length (filter (good_block ni) (bas_down ba lim))) \<le> sint count)"
proof -
  have w: "nmbm_block_walk ni False ba count limit = walk_good ni (bas_down ba lim) (sint count)"
    by (simp only: nmbm_block_walk_def nmbm_block_walk_desc_def lim clamp_limit [OF assms(2)] Let_def
        if_False)
  have eq: "(\<exists>pre post. bas_down ba lim = pre @ b # post \<and> good_block ni b \<and>
        int (length (filter (good_block ni) pre)) = sint count) \<longleftrightarrow>
      lim < b \<and> b \<le> ba \<and> good_block ni b \<and>
      int (length (filter (good_block ni) (bas_down ba b))) = sint count" (is "?L \<longleftrightarrow> ?R")
  proof
    assume ?L
    then obtain pre post where pp: "bas_down ba lim = pre @ b # post" and g: "good_block ni b"
      "int (length (filter (good_block ni) pre)) = sint count" by blast
    then have "b \<in> set (bas_down ba lim)" by simp
    then have b: "lim < b" "b \<le> ba" by (simp_all add: set_bas_down)
    have "distinct (pre @ b # post)" using distinct_bas_down [of ba lim] pp by simp
    then have "b \<notin> set pre" "b \<notin> set post" by auto
    then have "pre = bas_down ba b"
      using bas_down_split [OF b] pp by (simp add: append_Cons_eq_iff)
    with g b show ?R by simp
  next
    assume ?R
    then show ?L using bas_down_split by blast
  qed
  show ?thesis
    unfolding w walk_good_iff [OF assms(1)] walk_good_None [OF assms(1)] eq by simp
qed

text \<open>
  The descending walk, with which spare blocks are picked, is the mirror image: it returns
  the block with exactly \<open>count\<close> good blocks above it on the way down from \<open>ba\<close>.
\<close>

lemma block_walk_desc:
  assumes "0 \<le> sint count" "block_count ni \<noteq> 0" and lim: "lim = min limit (block_count ni - 1)"
  shows "(nmbm_block_walk ni False ba count limit = Some b \<longleftrightarrow>
      lim < b \<and> b \<le> ba \<and> good_block ni b \<and>
      int (length (filter (good_block ni) (bas_down ba b))) = sint count) \<and>
    (nmbm_block_walk ni False ba count limit = None \<longleftrightarrow>
      int (length (filter (good_block ni) (bas_down ba lim))) \<le> sint count)"
  by (rule block_walk_desc_iff [OF assms])

section \<open>The initial mapping table\<close>

abbreviation usable_blocks :: "'d nmbm_instance \<Rightarrow> u32 list" where
  "usable_blocks ni \<equiv>
     filter (\<lambda>pb. nmbm_get_block_state ni pb \<noteq> BLOCK_ST_BAD) (bas 0 (mgmt_start_ba ni))"

lemma buf_put_update:
  "i < length m \<Longrightarrow> i + length xs < length m \<Longrightarrow> buf_put (Suc i) xs (m[i := x]) = buf_put i (x # xs) m"
  by (simp add: buf_put_def take_Suc_conv_app_nth drop_update_cancel)

lemma map_good_blocks_eq:
  assumes "unat lb + length bs \<le> length (block_mapping ni)" "length (block_mapping ni) < 2 ^ 32"
  shows "map_good_blocks bs lb ni =
    (let gs = filter (\<lambda>pb. nmbm_get_block_state ni pb \<noteq> BLOCK_ST_BAD) bs
     in (lb + of_nat (length gs), ni\<lparr>block_mapping := buf_put (unat lb) gs (block_mapping ni)\<rparr>))"
  using assms
proof (induction bs arbitrary: lb ni)
  case Nil
  then show ?case by (simp add: buf_put_def)
next
  case (Cons pb bs)
  let ?ni = "ni\<lparr>block_mapping := (block_mapping ni)[unat lb := pb]\<rparr>"
  have u: "unat (lb + 1) = Suc (unat lb)"
    using Cons.prems by (subst unat_add_no_wrap) simp_all
  have len: "length (filter P bs) \<le> length bs" for P by simp
  show ?case
  proof (cases "nmbm_get_block_state ni pb = BLOCK_ST_BAD")
    case True
    then show ?thesis using Cons.IH [of lb ni] Cons.prems by simp
  next
    case False
    have st: "nmbm_get_block_state ?ni = nmbm_get_block_state ni"
      by (simp add: fun_eq_iff nmbm_get_block_state_def)
    show ?thesis
      using False Cons.IH [of "lb + 1" ?ni] Cons.prems u
        len [of "\<lambda>pb. nmbm_get_block_state ni pb \<noteq> BLOCK_ST_BAD"]
      by (simp add: st Let_def buf_put_update)
  qed
qed

lemma unmap_blocks_eq:
  assumes "i \<le> j" "j \<le> length (block_mapping ni)" "length (block_mapping ni) < 2 ^ 32"
  shows "unmap_blocks (map of_nat [i..<j]) ni =
    ni\<lparr>block_mapping := buf_put i (replicate (j - i) (- 1)) (block_mapping ni)\<rparr>"
  using assms
proof (induction "j - i" arbitrary: i ni)
  case 0
  then show ?case by (simp add: buf_put_def)
next
  case (Suc n)
  then have ij: "i < j" by simp
  have r: "replicate (j - i) (- 1) = - 1 # replicate (j - Suc i) (- 1 :: u32)"
    using ij by (simp add: Suc_diff_Suc flip: replicate_Suc)
  have "unmap_blocks (map of_nat [i..<j]) ni =
      unmap_blocks (map of_nat [Suc i..<j]) (ni\<lparr>block_mapping := (block_mapping ni)[i := - 1]\<rparr>)"
    using ij Suc.prems by (simp add: upt_conv_Cons unat_of_nat_small)
  also have "\<dots> = ni\<lparr>block_mapping := buf_put (Suc i) (replicate (j - Suc i) (- 1))
      ((block_mapping ni)[i := - 1])\<rparr>"
    using Suc.hyps(1) [of "Suc i" "ni\<lparr>block_mapping := (block_mapping ni)[i := - 1]\<rparr>"] Suc.prems ij
      Suc.hyps(2) by simp
  also have "\<dots> = ni\<lparr>block_mapping := buf_put i (replicate (j - i) (- 1)) (block_mapping ni)\<rparr>"
    unfolding r using ij Suc.prems by (subst buf_put_update) simp_all
  finally show ?case .
qed

text \<open>
  The initial mapping table maps the logical blocks, in order, to the blocks below the
  management area that are not bad, every other entry being -1; the number of data blocks is the
  number of such blocks, and no two logical blocks share a physical block.
\<close>

lemma build_mapping_table:
  assumes len: "length (block_mapping ni) = unat (block_count ni)"
    and mgmt: "mgmt_start_ba ni \<le> block_count ni"
    and n: "n = length (usable_blocks ni)"
  shows "nmbm_build_mapping_table ni =
      ni\<lparr>block_mapping := usable_blocks ni @ replicate (unat (block_count ni) - n) (- 1),
         data_block_count := of_nat n\<rparr> \<and> distinct (usable_blocks ni)"
proof -
  let ?gs = "usable_blocks ni"
  have lbas: "length (bas 0 (mgmt_start_ba ni)) = unat (mgmt_start_ba ni)"
    by (simp add: bas_def)
  have "n \<le> length (bas 0 (mgmt_start_ba ni))"
    unfolding n by (rule length_filter_le)
  then have nb: "n \<le> unat (mgmt_start_ba ni)" "n \<le> unat (block_count ni)"
    using mgmt by (simp_all add: lbas word_le_nat_alt)
  then have un: "unat (of_nat n :: u32) = n"
    using u32_less_2p32 [of "block_count ni"] by (simp add: unat_of_nat_small)
  have m: "map_good_blocks (bas 0 (mgmt_start_ba ni)) 0 ni =
      (of_nat n, ni\<lparr>block_mapping := buf_put 0 ?gs (block_mapping ni)\<rparr>)"
    using map_good_blocks_eq [of 0 "bas 0 (mgmt_start_ba ni)" ni] len mgmt
      u32_less_2p32 [of "block_count ni"]
    by (simp add: lbas word_le_nat_alt n Let_def)
  have l: "length (buf_put 0 ?gs (block_mapping ni)) = unat (block_count ni)"
    using nb(2) len by (simp add: length_buf_put n)
  have "buf_put n (replicate (unat (block_count ni) - n) (- 1)) (buf_put 0 ?gs (block_mapping ni))
      = ?gs @ replicate (unat (block_count ni) - n) (- 1)"
    using nb(2) len by (simp add: buf_put_def n)
  then have "nmbm_build_mapping_table ni =
      ni\<lparr>block_mapping := ?gs @ replicate (unat (block_count ni) - n) (- 1), data_block_count := of_nat n\<rparr>"
    unfolding nmbm_build_mapping_table_def m using nb l u32_less_2p32 [of "block_count ni"]
    by (simp add: bas_def un unmap_blocks_eq Let_def)
  then show ?thesis using distinct_bas by simp
qed

section \<open>Invariants of the state table operations\<close>

text \<open>
  \<open>P\<close> survives marking a block below \<open>N\<close> bad. With \<open>N = 2 ^ 32\<close> every block address
  is meant; with the number of blocks of the chip, the lemmas also show that no operation touches
  the state table out of its range.
\<close>

locale state_writes = dev_writes P for P :: "'d nmbm_instance \<Rightarrow> bool" +
  fixes N :: nat
  assumes P_bad: "P ni \<Longrightarrow> unat ba < N \<Longrightarrow> P (snd (nmbm_set_block_state ni ba BLOCK_ST_BAD))"
begin

lemma P_scan_blocks: "(\<forall>b\<in>set bs. unat b < N) \<Longrightarrow> P ni \<Longrightarrow> P (scan_blocks bs ni)"
  by (induction bs arbitrary: ni) (auto split: prod.splits dest!: P_check_bad intro: P_bad)

lemma P_scan_badblocks: "unat (block_count ni) \<le> N \<Longrightarrow> P ni \<Longrightarrow> P (nmbm_scan_badblocks ni)"
  unfolding nmbm_scan_badblocks_def
  by (intro P_scan_blocks ballI) (auto simp: set_bas word_less_nat_alt)

end

section \<open>Concrete instances\<close>

lemma all_ones_slot: "k < 16 \<Longrightarrow> take_bit 2 (drop_bit (2 * k) (- 1 :: u32)) = 3"
proof -
  assume k: "k < 16"
  have "take_bit 2 (drop_bit (2 * k) (- 1 :: u32)) = mask 2"
    using k by (intro bit_word_eqI) (auto simp: bit_take_bit_iff bit_drop_bit_eq bit_minus_1_iff bit_mask_iff)
  then show ?thesis by (simp add: mask_eq_exp_minus_1)
qed

lemma sample_good:
  assumes "unat x < 32"
  shows "nmbm_get_block_state sample_ni x = BLOCK_ST_GOOD"
proof -
  have "unat x div 16 = 0 \<or> unat x div 16 = 1" using assms by linarith
  moreover have "(0xffffffff :: u32) = - 1" by simp
  ultimately have "block_state sample_ni ! (unat x div 16) = - 1" by auto
  then show ?thesis
    unfolding nmbm_get_block_state_def get_block_state_raw_bits BLOCK_ST_GOOD_def
    by (simp only: all_ones_slot [OF mod_less_divisor [OF zero_less_numeral]])
qed

theorem get_set_block_state_witness:
  "nmbm_get_block_state (snd (nmbm_set_block_state sample_ni 20 BLOCK_ST_BAD)) =
    (nmbm_get_block_state sample_ni)(20 := take_bit 2 BLOCK_ST_BAD)"
  by (rule get_set_block_state) simp

lemma block_walk_asc_witness: "nmbm_block_walk sample_ni True 4 2 20 = Some 6"
proof -
  have "bas 4 6 = [4, 5]" by (simp add: bas_unfold [of 4] bas_unfold [of 5] bas_unfold [of 6])
  moreover have "min 20 (31 :: u32) = 20" by (simp add: min_def)
  ultimately show ?thesis
    using block_walk_asc [of 2 sample_ni 20 20 4 6] by (simp add: sample_good)
qed

lemma block_walk_desc_witness: "nmbm_block_walk sample_ni False 29 1 22 = Some 28"
proof -
  have "bas_down 29 28 = [29]" by (simp add: bas_down_unfold [of 29] bas_down_unfold [of 28])
  moreover have "min 22 (31 :: u32) = 22" by (simp add: min_def)
  ultimately show ?thesis
    using block_walk_desc [of 1 sample_ni 22 22 29 28] by (simp add: sample_good)
qed

lemma build_mapping_table_witness:
  "data_block_count (nmbm_build_mapping_table sample_ni) = 16"
proof -
  have l: "\<forall>x\<in>set (bas 0 16). nmbm_get_block_state sample_ni x \<noteq> BLOCK_ST_BAD"
    by (auto simp: set_bas word_less_nat_alt sample_good BLOCK_ST_GOOD_def BLOCK_ST_BAD_def)
  have "length (usable_blocks sample_ni) = 16"
    using l by (simp add: filter_id_conv [THEN iffD2] bas_def)
  then show ?thesis
    using build_mapping_table [of sample_ni "length (usable_blocks sample_ni)", OF _ _ refl]
    by (simp add: word_le_nat_alt)
qed

end
