(* ===== verification/Crc32.thy ===== *)
theory Crc32
  imports Prelude
begin

text \<open>
  The table-driven CRC-32 of the mtd tool (\<open>package/system/mtd/src/crc32.c\<close> and
  \<open>crc32.h\<close>), proved equal to the bit-by-bit division it optimises, and two contracts of
  a CRC that its callers rely on: a checksum can be computed piecewise, and one changed byte
  always changes it. The flash headers of NMBM use the kernel's \<open>crc32_le\<close>, which is a
  parameter there; the contracts are what is assumed of it, and they are discharged here for the
  CRC of the repository.
\<close>

section \<open>The code\<close>

definition crc32_table :: "u32 list" where
  "crc32_table = [
   0x00000000, 0x77073096, 0xee0e612c, 0x990951ba, 0x076dc419, 0x706af48f,
   0xe963a535, 0x9e6495a3, 0x0edb8832, 0x79dcb8a4, 0xe0d5e91e, 0x97d2d988,
   0x09b64c2b, 0x7eb17cbd, 0xe7b82d07, 0x90bf1d91, 0x1db71064, 0x6ab020f2,
   0xf3b97148, 0x84be41de, 0x1adad47d, 0x6ddde4eb, 0xf4d4b551, 0x83d385c7,
   0x136c9856, 0x646ba8c0, 0xfd62f97a, 0x8a65c9ec, 0x14015c4f, 0x63066cd9,
   0xfa0f3d63, 0x8d080df5, 0x3b6e20c8, 0x4c69105e, 0xd56041e4, 0xa2677172,
   0x3c03e4d1, 0x4b04d447, 0xd20d85fd, 0xa50ab56b, 0x35b5a8fa, 0x42b2986c,
   0xdbbbc9d6, 0xacbcf940, 0x32d86ce3, 0x45df5c75, 0xdcd60dcf, 0xabd13d59,
   0x26d930ac, 0x51de003a, 0xc8d75180, 0xbfd06116, 0x21b4f4b5, 0x56b3c423,
   0xcfba9599, 0xb8bda50f, 0x2802b89e, 0x5f058808, 0xc60cd9b2, 0xb10be924,
   0x2f6f7c87, 0x58684c11, 0xc1611dab, 0xb6662d3d, 0x76dc4190, 0x01db7106,
   0x98d220bc, 0xefd5102a, 0x71b18589, 0x06b6b51f, 0x9fbfe4a5, 0xe8b8d433,
   0x7807c9a2, 0x0f00f934, 0x9609a88e, 0xe10e9818, 0x7f6a0dbb, 0x086d3d2d,
   0x91646c97, 0xe6635c01, 0x6b6b51f4, 0x1c6c6162, 0x856530d8, 0xf262004e,
   0x6c0695ed, 0x1b01a57b, 0x8208f4c1, 0xf50fc457, 0x65b0d9c6, 0x12b7e950,
   0x8bbeb8ea, 0xfcb9887c, 0x62dd1ddf, 0x15da2d49, 0x8cd37cf3, 0xfbd44c65,
   0x4db26158, 0x3ab551ce, 0xa3bc0074, 0xd4bb30e2, 0x4adfa541, 0x3dd895d7,
   0xa4d1c46d, 0xd3d6f4fb, 0x4369e96a, 0x346ed9fc, 0xad678846, 0xda60b8d0,
   0x44042d73, 0x33031de5, 0xaa0a4c5f, 0xdd0d7cc9, 0x5005713c, 0x270241aa,
   0xbe0b1010, 0xc90c2086, 0x5768b525, 0x206f85b3, 0xb966d409, 0xce61e49f,
   0x5edef90e, 0x29d9c998, 0xb0d09822, 0xc7d7a8b4, 0x59b33d17, 0x2eb40d81,
   0xb7bd5c3b, 0xc0ba6cad, 0xedb88320, 0x9abfb3b6, 0x03b6e20c, 0x74b1d29a,
   0xead54739, 0x9dd277af, 0x04db2615, 0x73dc1683, 0xe3630b12, 0x94643b84,
   0x0d6d6a3e, 0x7a6a5aa8, 0xe40ecf0b, 0x9309ff9d, 0x0a00ae27, 0x7d079eb1,
   0xf00f9344, 0x8708a3d2, 0x1e01f268, 0x6906c2fe, 0xf762575d, 0x806567cb,
   0x196c3671, 0x6e6b06e7, 0xfed41b76, 0x89d32be0, 0x10da7a5a, 0x67dd4acc,
   0xf9b9df6f, 0x8ebeeff9, 0x17b7be43, 0x60b08ed5, 0xd6d6a3e8, 0xa1d1937e,
   0x38d8c2c4, 0x4fdff252, 0xd1bb67f1, 0xa6bc5767, 0x3fb506dd, 0x48b2364b,
   0xd80d2bda, 0xaf0a1b4c, 0x36034af6, 0x41047a60, 0xdf60efc3, 0xa867df55,
   0x316e8eef, 0x4669be79, 0xcb61b38c, 0xbc66831a, 0x256fd2a0, 0x5268e236,
   0xcc0c7795, 0xbb0b4703, 0x220216b9, 0x5505262f, 0xc5ba3bbe, 0xb2bd0b28,
   0x2bb45a92, 0x5cb36a04, 0xc2d7ffa7, 0xb5d0cf31, 0x2cd99e8b, 0x5bdeae1d,
   0x9b64c2b0, 0xec63f226, 0x756aa39c, 0x026d930a, 0x9c0906a9, 0xeb0e363f,
   0x72076785, 0x05005713, 0x95bf4a82, 0xe2b87a14, 0x7bb12bae, 0x0cb61b38,
   0x92d28e9b, 0xe5d5be0d, 0x7cdcefb7, 0x0bdbdf21, 0x86d3d2d4, 0xf1d4e242,
   0x68ddb3f8, 0x1fda836e, 0x81be16cd, 0xf6b9265b, 0x6fb077e1, 0x18b74777,
   0x88085ae6, 0xff0f6a70, 0x66063bca, 0x11010b5c, 0x8f659eff, 0xf862ae69,
   0x616bffd3, 0x166ccf45, 0xa00ae278, 0xd70dd2ee, 0x4e048354, 0x3903b3c2,
   0xa7672661, 0xd06016f7, 0x4969474d, 0x3e6e77db, 0xaed16a4a, 0xd9d65adc,
   0x40df0b66, 0x37d83bf0, 0xa9bcae53, 0xdebb9ec5, 0x47b2cf7f, 0x30b5ffe9,
   0xbdbdf21c, 0xcabac28a, 0x53b39330, 0x24b4a3a6, 0xbad03605, 0xcdd70693,
   0x54de5729, 0x23d967bf, 0xb3667a2e, 0xc4614ab8, 0x5d681b02, 0x2a6f2b94,
   0xb40bbe37, 0xc30c8ea1, 0x5a05df1b, 0x2d02ef8d]"

text \<open>\<open>while (--len >= 0)\<close> takes the first \<open>len\<close> bytes of \<open>ss\<close>.\<close>

definition crc32_byte :: "u32 \<Rightarrow> u8 \<Rightarrow> u32" where
  "crc32_byte val s = crc32_table ! unat ((val XOR ucast s) AND 0xff) XOR drop_bit 8 val"

definition crc32 :: "u32 \<Rightarrow> bytes \<Rightarrow> int \<Rightarrow> u32" where
  "crc32 val ss len = foldl crc32_byte val (take (nat len) ss)"

definition crc32buf :: "bytes \<Rightarrow> u32" where
  "crc32buf buf = crc32 0xFFFFFFFF buf (int (length buf))"

section \<open>Bit-by-bit reference\<close>

text \<open>Division by the reflected polynomial \<open>edb88320\<close>, one bit at a time.\<close>

definition crc_step :: "u32 \<Rightarrow> u32" where
  "crc_step x = (if bit x 0 then drop_bit 1 x XOR 0xedb88320 else drop_bit 1 x)"

definition crc_bits :: "u32 \<Rightarrow> u8 \<Rightarrow> u32" where
  "crc_bits val s = (crc_step ^^ 8) (val XOR ucast s)"

section \<open>The table is the reference division\<close>

lemma crc_step_xor: "crc_step (x XOR y) = crc_step x XOR crc_step y"
  by (rule bit_word_eqI) (auto simp: crc_step_def bit_simps)

lemma crc_steps_xor: "(crc_step ^^ n) (x XOR y) = (crc_step ^^ n) x XOR (crc_step ^^ n) y"
  by (induction n) (simp_all add: crc_step_xor)

lemma crc_steps_0: "(crc_step ^^ n) 0 = 0"
  by (induction n) (simp_all add: crc_step_def)

lemma funpow_8: "f ^^ 8 = (\<lambda>x. f (f (f (f (f (f (f (f x))))))))"
  by (simp add: fun_eq_iff eval_nat_numeral)

lemma crc32_table_powers: "k < 8 \<Longrightarrow> crc32_table ! (2 ^ k) = (crc_step ^^ 8) (2 ^ k)"
proof -
  assume "k < 8"
  then consider "k = 0" | "k = 1" | "k = 2" | "k = 3" | "k = 4" | "k = 5" | "k = 6" | "k = 7"
    by linarith
  then show ?thesis
    by cases (simp_all add: crc32_table_def funpow_8 crc_step_def)
qed

lemma crc32_table_blocks:
  "map (\<lambda>x. x XOR crc32_table ! (2 ^ k)) (take (2 ^ k) crc32_table) = take (2 ^ k) (drop (2 ^ k) crc32_table)"
  if "k < 8"
proof -
  from that consider "k = 0" | "k = 1" | "k = 2" | "k = 3" | "k = 4" | "k = 5" | "k = 6" | "k = 7"
    by linarith
  then show ?thesis
    by cases (simp_all add: crc32_table_def)
qed

lemma length_crc32_table: "length crc32_table = 256"
  by (simp add: crc32_table_def)

lemma of_nat_add_power_xor:
  assumes "j < 2 ^ k" "k < 8"
  shows "(of_nat (j + 2 ^ k) :: u32) = of_nat j XOR 2 ^ k"
proof -
  have "\<not> bit j k"
    using assms(1) by (simp add: bit_iff_odd)
  then have "(of_nat j :: u32) AND 2 ^ k = 0"
    by (intro bit_word_eqI) (auto simp: bit_simps bit_of_nat_iff_bit)
  then show ?thesis
    by (simp add: disjunctive_add_eq_xor)
qed

lemma crc32_table_upto: "k \<le> 8 \<Longrightarrow> i < 2 ^ k \<Longrightarrow> crc32_table ! i = (crc_step ^^ 8) (of_nat i)"
proof (induction k arbitrary: i)
  case 0
  then show ?case by (simp add: crc32_table_def crc_steps_0)
next
  case (Suc k)
  then have k: "k < 8" by simp
  show ?case
  proof (cases "i < 2 ^ k")
    case True
    then show ?thesis using Suc by simp
  next
    case False
    define j where "j = i - 2 ^ k"
    have j: "j < 2 ^ k" "i = j + 2 ^ k"
      using False Suc.prems by (simp_all add: j_def)
    have "(2 :: nat) ^ k * 2 \<le> 256"
      using two_power_le [of "Suc k" 8] k by simp
    then have len: "2 ^ k + j < length crc32_table" "j < length crc32_table"
      using j by (simp_all add: length_crc32_table)
    have "crc32_table ! i = take (2 ^ k) (drop (2 ^ k) crc32_table) ! j"
      using j len by (simp add: add.commute)
    also have "\<dots> = crc32_table ! j XOR crc32_table ! (2 ^ k)"
      unfolding crc32_table_blocks [OF k, symmetric] using j len by simp
    also have "\<dots> = (crc_step ^^ 8) (of_nat i)"
      using Suc.IH [of j] k j crc32_table_powers [OF k]
      by (simp only: of_nat_add_power_xor crc_steps_xor less_imp_le)
    finally show ?thesis .
  qed
qed

lemma crc_steps_shift: "take_bit n x = 0 \<Longrightarrow> (crc_step ^^ n) x = drop_bit n x"
proof (induction n arbitrary: x)
  case 0
  then show ?case by simp
next
  case (Suc n)
  have b: "\<not> bit x i" if "i < Suc n" for i
    using Suc.prems that by (metis bit_0_eq bit_take_bit_iff bot_apply bot_bool_def)
  then have "crc_step x = drop_bit 1 x" by (simp add: crc_step_def)
  moreover have "take_bit n (drop_bit 1 x) = 0"
    by (rule bit_word_eqI) (use b in \<open>simp add: bit_take_bit_iff bit_drop_bit_eq\<close>)
  ultimately show ?case
    using Suc.IH [of "drop_bit 1 x"] by (simp only: funpow_Suc_right o_apply drop_bit_drop_bit) simp
qed

lemma crc32_byte_bits: "crc32_byte v s = crc_bits v s"
proof -
  let ?x = "v XOR ucast s"
  have split: "?x = (?x AND 0xff) XOR (?x AND NOT 0xff)"
    by (rule bit_word_eqI) (auto simp: bit_simps)
  have m: "0xff = (mask 8 :: u32)" by (simp add: mask_eq_exp_minus_1)
  have "unat (?x AND 0xff) < 2 ^ 8"
    unfolding m take_bit_eq_mask [symmetric]
    by (simp only: unsigned_take_bit_eq) (simp add: take_bit_eq_mod)
  then have low: "crc32_table ! unat (?x AND 0xff) = (crc_step ^^ 8) (?x AND 0xff)"
    using crc32_table_upto [of 8 "unat (?x AND 0xff)"] by simp
  have "take_bit 8 (?x AND NOT 0xff) = 0"
    unfolding m by (rule bit_word_eqI) (auto simp: bit_simps)
  then have high: "(crc_step ^^ 8) (?x AND NOT 0xff) = drop_bit 8 (?x AND NOT 0xff)"
    by (rule crc_steps_shift)
  have "drop_bit 8 (?x AND NOT 0xff) = drop_bit 8 v"
    unfolding m by (rule bit_word_eqI) (auto simp: bit_simps dest: bit_imp_le_length)
  then have "(crc_step ^^ 8) ?x = crc32_table ! unat (?x AND 0xff) XOR drop_bit 8 v"
    by (subst split) (simp only: crc_steps_xor low high)
  then show ?thesis by (simp add: crc32_byte_def crc_bits_def)
qed

lemma crc32_byte_eq: "crc32_byte = crc_bits"
  by (intro ext) (rule crc32_byte_bits)

lemma crc32_bits_all: "crc32 val ss (int (length ss)) = foldl crc_bits val ss"
  by (simp add: crc32_def crc32_byte_eq)

text \<open>
  C29. The table lookup is equivalent to eight steps of the bit-by-bit division, for every
  value of the register and every byte, and so the CRC of any buffer is the one the polynomial
  defines.
\<close>

theorem crc32_bitwise: "crc32 val ss len = foldl crc_bits val (take (nat len) ss)"
  by (simp add: crc32_def crc32_byte_eq)

section \<open>Contracts of a CRC\<close>

text \<open>
  The checksum of a buffer can be computed piece by piece, the result of one piece being the
  seed of the next (the documented incremental use of \<open>crc32_le\<close>).
\<close>

locale crc_piecewise =
  fixes crc :: "u32 \<Rightarrow> bytes \<Rightarrow> u32"
  assumes crc_append: "crc (crc v xs) ys = crc v (xs @ ys)"
    and crc_Nil: "crc v [] = v"

text \<open>One changed byte changes the checksum, whatever the seed and the bytes around it.\<close>

locale crc_detects = crc_piecewise +
  assumes crc_inj_seed: "crc v xs = crc w xs \<Longrightarrow> v = w"
    and crc_inj_byte: "crc v [a] = crc v [b] \<Longrightarrow> a = b"
begin

lemma one_byte_detected:
  assumes "crc v (xs @ a # ys) = crc v (xs @ b # ys)"
  shows "a = b"
proof -
  have "crc v (xs @ c # ys) = crc (crc (crc v xs) [c]) ys" for c
    by (simp add: crc_append)
  with assms have "crc (crc v xs) [a] = crc (crc v xs) [b]"
    by (auto intro: crc_inj_seed)
  then show ?thesis by (rule crc_inj_byte)
qed

end

text \<open>The CRC of the repository over a whole buffer.\<close>

definition crc32_buf :: "u32 \<Rightarrow> bytes \<Rightarrow> u32" where
  "crc32_buf v b = crc32 v b (int (length b))"

lemma crc32_buf_bits: "crc32_buf v b = foldl crc_bits v b"
  by (simp add: crc32_buf_def crc32_bits_all)

lemma crc_step_inj: "crc_step x = crc_step y \<Longrightarrow> x = y"
proof -
  assume eq: "crc_step x = crc_step y"
  have top: "bit (crc_step z) 31 \<longleftrightarrow> bit z 0" for z
    by (auto simp: crc_step_def bit_simps dest: bit_imp_le_length)
  have "bit x 0 \<longleftrightarrow> bit y 0"
    using top [of x] top [of y] eq by simp
  then have d: "drop_bit 1 x = drop_bit 1 y"
    using eq by (auto simp: crc_step_def xor_cancel split: if_splits)
  show ?thesis
  proof (rule bit_word_eqI)
    fix n :: nat
    show "bit x n = bit y n"
      using \<open>bit x 0 \<longleftrightarrow> bit y 0\<close> arg_cong [OF d, of "\<lambda>z. bit z (n - 1)"]
      by (cases n) (simp_all add: bit_drop_bit_eq)
  qed
qed

lemma crc_steps_inj: "(crc_step ^^ n) x = (crc_step ^^ n) y \<Longrightarrow> x = y"
  by (induction n) (auto dest: crc_step_inj)

lemma crc_bits_inj_val: "crc_bits v s = crc_bits w s \<Longrightarrow> v = w"
  unfolding crc_bits_def by (drule crc_steps_inj) (simp only: xor_cancel)

lemma crc_bits_inj_byte: "crc_bits v s = crc_bits v t \<Longrightarrow> s = t"
proof -
  assume "crc_bits v s = crc_bits v t"
  then have "v XOR ucast s = v XOR ucast t"
    unfolding crc_bits_def by (rule crc_steps_inj)
  then have e: "(ucast s :: u32) = ucast t"
    by (simp only: xor_cancel)
  show ?thesis
  proof (rule bit_word_eqI)
    fix n assume "n < LENGTH(8)"
    then show "bit s n = bit t n"
      using arg_cong [OF e, of "\<lambda>z. bit z n"] by (simp add: bit_simps)
  qed
qed

interpretation repo_crc: crc_detects crc32_buf
proof
  show "crc32_buf (crc32_buf v xs) ys = crc32_buf v (xs @ ys)" for v xs ys
    by (simp add: crc32_buf_bits)
  show "crc32_buf v [] = v" for v
    by (simp add: crc32_buf_bits)
  show "crc32_buf v xs = crc32_buf w xs \<Longrightarrow> v = w" for v w xs
    unfolding crc32_buf_bits by (induction xs arbitrary: v w) (auto dest: crc_bits_inj_val)
  show "crc32_buf v [a] = crc32_buf v [b] \<Longrightarrow> a = b" for v a b
    unfolding crc32_buf_bits by (auto dest: crc_bits_inj_byte)
qed

text \<open>
  C30. The CRC detects every corruption of a single byte: two buffers that differ in one byte
  have different checksums, for any seed.
\<close>

theorem crc32_detects_byte:
  assumes "a \<noteq> b"
  shows "crc32 v (xs @ a # ys) (int (length (xs @ a # ys))) \<noteq> crc32 v (xs @ b # ys) (int (length (xs @ b # ys)))"
  using repo_crc.one_byte_detected [of v xs a ys b] assms by (auto simp: crc32_buf_def)

lemma crc32_detects_byte_witness:
  "(1 :: u8) \<noteq> 2 \<and> crc32 0 ([7] @ 1 # [9]) (int (length [7 :: u8, 1, 9]))
    \<noteq> crc32 0 ([7] @ 2 # [9]) (int (length [7 :: u8, 2, 9]))"
proof -
  have ne: "(1 :: u8) \<noteq> 2" by simp
  show ?thesis using crc32_detects_byte [OF ne, of 0 "[7]" "[9]"] ne by simp
qed

end
