(* ===== verification/Nmbm_Header.thy ===== *)
theory Nmbm_Header
  imports Nmbm_State Crc32
begin

text \<open>
  The checksummed headers of the structures NMBM keeps in flash (\<open>nmbm_check_header\<close>,
  \<open>nmbm_update_checksum\<close> of \<open>nmbm-core.c\<close>, \<open>nmbm_crc32\<close> of
  \<open>nmbm-os.h\<close>). The kernel's \<open>crc32_le\<close> is the parameter \<open>crc\<close> of every
  definition that computes a checksum; what is proved about it uses the contracts
  \<open>crc_piecewise\<close> and \<open>crc_detects\<close>.
\<close>

section \<open>The code\<close>

definition UINT_MAX :: nat where "UINT_MAX = 4294967295"

function nmbm_crc32 :: "(u32 \<Rightarrow> bytes \<Rightarrow> u32) \<Rightarrow> u32 \<Rightarrow> bytes \<Rightarrow> u32" where
  "nmbm_crc32 crc crcval buf =
     (if buf = [] then crcval
      else
        let chksz = (if length buf > UINT_MAX then UINT_MAX else length buf)
        in nmbm_crc32 crc (crc crcval (take chksz buf)) (drop chksz buf))"
  by pat_completeness auto
termination
  by (relation "measure (\<lambda>(crc, crcval, buf). length buf)") (auto simp: UINT_MAX_def)

declare nmbm_crc32.simps [simp del]

definition nmbm_check_header :: "(u32 \<Rightarrow> bytes \<Rightarrow> u32) \<Rightarrow> bytes \<Rightarrow> u32 \<Rightarrow> bool" where
  "nmbm_check_header crc data sz =
     (let header = bytes_header data
      in if hdr_size header > sz then False
         else
           let nhdr = header\<lparr>checksum := 0\<rparr>;
               new_checksum = nmbm_crc32 crc 0 (header_bytes nhdr);
               new_checksum =
                 (if hdr_size header > sizeof_nmbm_header
                  then nmbm_crc32 crc new_checksum
                    (buf_get 16 (unat (hdr_size header - sizeof_nmbm_header)) data)
                  else new_checksum)
           in checksum header = new_checksum)"

text \<open>The header and what it covers are the memory \<open>buf\<close>.\<close>

definition nmbm_update_checksum :: "(u32 \<Rightarrow> bytes \<Rightarrow> u32) \<Rightarrow> bytes \<Rightarrow> bytes" where
  "nmbm_update_checksum crc buf =
     (let header = (bytes_header buf)\<lparr>checksum := 0\<rparr>;
          buf = buf_put 0 (header_bytes header) buf;
          header = header\<lparr>checksum := nmbm_crc32 crc 0 (buf_get 0 (unat (hdr_size header)) buf)\<rparr>
      in buf_put 0 (header_bytes header) buf)"

section \<open>Checksums\<close>

context crc_piecewise
begin

lemma nmbm_crc32_eq: "nmbm_crc32 crc v b = crc v b"
proof (induction "length b" arbitrary: v b rule: less_induct)
  case less
  show ?case
  proof (cases "b = []")
    case True
    then show ?thesis by (simp add: nmbm_crc32.simps crc_Nil)
  next
    case False
    define n where "n = (if length b > UINT_MAX then UINT_MAX else length b)"
    have "length (drop n b) < length b" using False by (auto simp: n_def UINT_MAX_def)
    then have "nmbm_crc32 crc (crc v (take n b)) (drop n b) = crc (crc v (take n b)) (drop n b)"
      by (rule less)
    also have "\<dots> = crc v b" by (simp add: crc_append)
    finally show ?thesis
      using False by (simp add: nmbm_crc32.simps [of crc v b] Let_def n_def)
  qed
qed

lemma check_header_crc:
  assumes "16 \<le> unat (hdr_size (bytes_header data))" "unat (hdr_size (bytes_header data)) \<le> length data"
  shows "nmbm_check_header crc data sz \<longleftrightarrow> hdr_size (bytes_header data) \<le> sz \<and>
    checksum (bytes_header data) =
      crc 0 (header_bytes ((bytes_header data)\<lparr>checksum := 0\<rparr>)
        @ buf_get 16 (unat (hdr_size (bytes_header data)) - 16) data)"
proof -
  let ?n = "hdr_size (bytes_header data)"
  show ?thesis
  proof (cases "unat ?n = 16")
    case True
    then have "\<not> ?n > sizeof_nmbm_header" by (simp add: word_less_nat_alt sizeof_nmbm_header_def)
    with True show ?thesis
      by (auto simp: nmbm_check_header_def Let_def nmbm_crc32_eq not_less buf_get_def)
  next
    case False
    with assms have "?n > sizeof_nmbm_header"
      by (simp add: word_less_nat_alt sizeof_nmbm_header_def)
    moreover have "unat (?n - sizeof_nmbm_header) = unat ?n - 16"
      using assms(1) by (simp add: unat_sub_if' sizeof_nmbm_header_def)
    ultimately show ?thesis
      by (auto simp: nmbm_check_header_def Let_def nmbm_crc32_eq not_less crc_append)
  qed
qed

lemma bytes_header_put: "bytes_header (buf_put 0 (header_bytes h) b) = h"
  by (simp add: buf_put_def)

lemma update_checksum_bytes:
  assumes "16 \<le> length buf" "h = bytes_header buf" "16 \<le> unat (hdr_size h)"
  shows "nmbm_update_checksum crc buf =
    header_bytes (h\<lparr>checksum := crc 0 (header_bytes (h\<lparr>checksum := 0\<rparr>)
      @ buf_get 16 (unat (hdr_size h) - 16) buf)\<rparr>) @ drop 16 buf"
proof -
  have "buf_get 0 (unat (hdr_size h)) (buf_put 0 (header_bytes (h\<lparr>checksum := 0\<rparr>)) buf)
      = header_bytes (h\<lparr>checksum := 0\<rparr>) @ buf_get 16 (unat (hdr_size h) - 16) buf"
    using assms(3) by (simp add: buf_get_def buf_put_def)
  then show ?thesis
    using assms(1,2) by (simp add: nmbm_update_checksum_def Let_def nmbm_crc32_eq buf_put_def)
qed

lemma check_update:
  assumes "16 \<le> unat (hdr_size (bytes_header buf))" "unat (hdr_size (bytes_header buf)) \<le> length buf"
  shows "nmbm_check_header crc (nmbm_update_checksum crc buf) sz \<longleftrightarrow> hdr_size (bytes_header buf) \<le> sz"
proof -
  have len: "16 \<le> length buf" using assms by simp
  let ?u = "nmbm_update_checksum crc buf"
  have u: "bytes_header ?u = (bytes_header buf)\<lparr>checksum := checksum (bytes_header ?u)\<rparr>"
    "checksum (bytes_header ?u) = crc 0 (header_bytes ((bytes_header buf)\<lparr>checksum := 0\<rparr>)
      @ buf_get 16 (unat (hdr_size (bytes_header buf)) - 16) buf)"
    "drop 16 ?u = drop 16 buf" "length ?u = length buf"
    using len by (simp_all add: update_checksum_bytes [OF len refl assms(1)])
  have s: "hdr_size (bytes_header ?u) = hdr_size (bytes_header buf)"
    "(bytes_header ?u)\<lparr>checksum := 0\<rparr> = (bytes_header buf)\<lparr>checksum := 0\<rparr>"
    by (subst u(1), simp)+
  show ?thesis
    using assms by (subst check_header_crc) (simp_all add: s u(2-4) buf_get_def)
qed

end

text \<open>
  A structure whose checksum was written by \<open>nmbm_update_checksum\<close> is accepted by
  \<open>nmbm_check_header\<close>, in a buffer at least as large as its size field says, and is
  refused in a smaller one; checking the header and the rest piecewise agrees with the checksum
  of the whole.
\<close>

lemma check_header_after_update:
  assumes "crc_piecewise crc"
    and "16 \<le> unat (hdr_size (bytes_header buf))" "unat (hdr_size (bytes_header buf)) \<le> length buf"
  shows "nmbm_check_header crc (nmbm_update_checksum crc buf) sz \<longleftrightarrow> hdr_size (bytes_header buf) \<le> sz"
  by (rule crc_piecewise.check_update [OF assms])

text \<open>
  A structure that passes \<open>nmbm_check_header\<close> no longer does after one byte behind the
  header, within the checksummed size, has changed.
\<close>

lemma check_header_detects_byte:
  assumes crc: "crc_detects crc"
    and ok: "nmbm_check_header crc (hd16 @ xs @ a # ys) sz"
    and len: "length hd16 = 16" "16 + length xs < unat (hdr_size (bytes_header (hd16 @ xs @ a # ys)))"
      "unat (hdr_size (bytes_header (hd16 @ xs @ a # ys))) \<le> 16 + length (xs @ a # ys)"
    and ne: "a \<noteq> b"
  shows "\<not> nmbm_check_header crc (hd16 @ xs @ b # ys) sz"
proof
  let ?d = "\<lambda>c. hd16 @ xs @ c # ys"
  let ?h = "bytes_header (?d a)"
  have crc': "crc_piecewise crc" using crc by (simp add: crc_detects_def)
  have h: "bytes_header (?d b) = ?h"
    using len(1) by (simp add: bytes_header_def bytes_u32_def nth_append)
  define n where "n = unat (hdr_size ?h) - 16"
  obtain m where m: "n = length xs + Suc m"
    using len(2) less_iff_Suc_add [of "length xs" n] by (auto simp: n_def)
  have g: "buf_get 16 n (?d c) = xs @ c # take m ys" for c
    using len(1) m by (simp add: buf_get_def)
  assume "nmbm_check_header crc (?d b) sz"
  then have "crc 0 (header_bytes (?h\<lparr>checksum := 0\<rparr>) @ buf_get 16 n (?d a))
      = crc 0 (header_bytes (?h\<lparr>checksum := 0\<rparr>) @ buf_get 16 n (?d b))"
    using ok len crc_piecewise.check_header_crc [OF crc', of "?d a" sz]
      crc_piecewise.check_header_crc [OF crc', of "?d b" sz] h by (simp add: n_def)
  then have "a = b"
    unfolding g by (intro crc_detects.one_byte_detected [OF crc, of 0
          "header_bytes (?h\<lparr>checksum := 0\<rparr>) @ xs" a "take m ys" b]) simp
  with ne show False ..
qed

section \<open>Concrete instances\<close>

definition small_header :: bytes where
  "small_header = header_bytes \<lparr>magic = NMBM_MAGIC_SIGNATURE, version = 1, hdr_size = 18, checksum = 0\<rparr>"

lemma small_header: "hdr_size (bytes_header (small_header @ r)) = 18" "length small_header = 16"
  by (simp_all add: small_header_def)

lemma check_header_after_update_witness:
  "nmbm_check_header crc32_buf (nmbm_update_checksum crc32_buf (small_header @ [7, 8])) 20"
  using check_header_after_update [OF repo_crc.crc_piecewise_axioms, of "small_header @ [7, 8]" 20]
  by (simp add: small_header)

lemma check_header_detects_byte_witness:
  "\<exists>hd16 :: bytes. nmbm_check_header crc32_buf (hd16 @ [7, 8]) 18 \<and>
    \<not> nmbm_check_header crc32_buf (hd16 @ [7, 9]) 18"
proof -
  let ?b = "nmbm_update_checksum crc32_buf (small_header @ [7, 8])"
  have g: "16 \<le> length (small_header @ [7, 8])" "16 \<le> unat (hdr_size (bytes_header (small_header @ [7, 8])))"
    "unat (hdr_size (bytes_header (small_header @ [7, 8]))) \<le> length (small_header @ [7, 8])"
    by (simp_all add: small_header)
  obtain k where b: "?b = header_bytes ((bytes_header (small_header @ [7, 8]))\<lparr>checksum := k\<rparr>) @ [7, 8]"
    using repo_crc.update_checksum_bytes [OF g(1) refl g(2)] by (auto simp: small_header)
  let ?h = "header_bytes ((bytes_header (small_header @ [7, 8]))\<lparr>checksum := k\<rparr>)"
  have ok: "nmbm_check_header crc32_buf (?h @ [7, 8]) 18"
    using repo_crc.check_update [OF g(2,3), of 18] by (simp add: b [symmetric] small_header)
  have "\<not> nmbm_check_header crc32_buf (?h @ [7] @ 9 # []) 18"
    by (rule check_header_detects_byte [OF repo_crc.crc_detects_axioms, of _ _ 8])
      (use ok in \<open>simp_all add: small_header\<close>)
  with ok show ?thesis by auto
qed

end
