(* ===== verification/Nmbm_Mgmt.thy ===== *)
theory Nmbm_Mgmt
  imports Nmbm_Header
begin

text \<open>
  Reading and writing management data (\<open>nmbm-core.c\<close>, \<open>nmbm_erase_block_and_check\<close>
  to \<open>nmbm_write_mgmt_range\<close>): erasing a block and checking it, erasing the spare blocks
  of a range, writing the signature to every page of a block, and writing a table over the good
  blocks of a range, with every page verified by reading it back. A block that cannot be erased
  or written is marked bad, on the chip and in the block state table.
\<close>

section \<open>Erasing\<close>

fun check_empty_pages :: "u64 list \<Rightarrow> 'd nmbm_instance \<Rightarrow> u64 \<Rightarrow> bool \<times> 'd nmbm_instance" where
  "check_empty_pages [] ni addr = (True, ni)"
| "check_empty_pages (off # offs) ni addr =
     (let (ret, ni) = read_page_to_cache ni (addr + off) NMBM_MODE_PLACE_OOB
      in if ret = - EBADMSG then (False, ni) else check_empty_pages offs ni addr)"

definition nmbm_erase_block_and_check :: "'d nmbm_instance \<Rightarrow> u32 \<Rightarrow> bool \<times> 'd nmbm_instance" where
  "nmbm_erase_block_and_check ni ba =
     (let (success, ni) = nmbm_erase_phys_block ni (ba2addr ni ba)
      in if \<not> success then (False, ni)
         else if flags (lower ni) AND NMBM_F_EMPTY_PAGE_ECC_OK = 0 then (True, ni)
         else check_empty_pages (page_offs ni) ni (ba2addr ni ba))"

text \<open>\<open>nmbm_mark_phys_bad_block\<close> followed by \<open>nmbm_set_block_state\<close>.\<close>

definition mark_block_bad :: "'d nmbm_instance \<Rightarrow> u32 \<Rightarrow> 'd nmbm_instance" where
  "mark_block_bad ni ba =
     (let (_, ni) = nmbm_mark_phys_bad_block ni ba
      in snd (nmbm_set_block_state ni ba BLOCK_ST_BAD))"

fun erase_range_blocks :: "u32 list \<Rightarrow> 'd nmbm_instance \<Rightarrow> 'd nmbm_instance" where
  "erase_range_blocks [] ni = ni"
| "erase_range_blocks (ba # rest) ni =
     (if nmbm_get_block_state ni ba \<noteq> BLOCK_ST_GOOD then erase_range_blocks rest ni
      else
        let (bad, ni) = nmbm_check_bad_phys_block ni ba
        in if bad then erase_range_blocks rest (snd (nmbm_set_block_state ni ba BLOCK_ST_BAD))
           else
             let (success, ni) = nmbm_erase_block_and_check ni ba
             in if success then erase_range_blocks rest ni
                else erase_range_blocks rest (mark_block_bad ni ba))"

definition nmbm_erase_range :: "'d nmbm_instance \<Rightarrow> u32 \<Rightarrow> u32 \<Rightarrow> 'd nmbm_instance" where
  "nmbm_erase_range ni ba limit = erase_range_blocks (bas ba limit) ni"

section \<open>Writing the signature\<close>

fun write_repeated_pages ::
  "u64 list \<Rightarrow> 'd nmbm_instance \<Rightarrow> u64 \<Rightarrow> bytes \<Rightarrow> bool \<times> 'd nmbm_instance" where
  "write_repeated_pages [] ni addr data = (True, ni)"
| "write_repeated_pages (off # offs) ni addr data =
     (let sz = length data;
          ni = ni\<lparr>page_cache := buf_put 0 data (page_cache ni)\<rparr>;
          ni = ni\<lparr>page_cache := memset sz 0xff (unat (rawpage_size ni) - sz) (page_cache ni)\<rparr>;
          (success, ni) = nmbm_write_phys_page ni (addr + off) (Some (page_cache ni)) None
                            NMBM_MODE_PLACE_OOB
      in if \<not> success then (False, ni)
         else
           let (ret, ni) = read_page_to_cache ni (addr + off) NMBM_MODE_PLACE_OOB
           in if ret < 0 then (False, ni)
              else if take sz (page_cache ni) \<noteq> data then (False, ni)
              else write_repeated_pages offs ni addr data)"

definition nmbm_write_repeated_data :: "'d nmbm_instance \<Rightarrow> u32 \<Rightarrow> bytes \<Rightarrow> bool \<times> 'd nmbm_instance" where
  "nmbm_write_repeated_data ni ba data =
     (if length data > unat (writesize (lower ni)) then (False, ni)
      else write_repeated_pages (page_offs ni) ni (ba2addr ni ba) data)"

text \<open>\<open>Some ba\<close> is the result \<open>true\<close> with \<open>*signature_ba = ba\<close>.\<close>

fun write_signature_blocks ::
  "u32 list \<Rightarrow> 'd nmbm_instance \<Rightarrow> nmbm_signature \<Rightarrow> u32 option \<times> 'd nmbm_instance" where
  "write_signature_blocks [] ni sig = (None, ni)"
| "write_signature_blocks (ba # rest) ni sig =
     (if nmbm_get_block_state ni ba \<noteq> BLOCK_ST_GOOD then write_signature_blocks rest ni sig
      else
        let (bad, ni) = nmbm_check_bad_phys_block ni ba
        in if bad then write_signature_blocks rest (snd (nmbm_set_block_state ni ba BLOCK_ST_BAD)) sig
           else
             let (success, ni) = nmbm_erase_block_and_check ni ba
             in if \<not> success then write_signature_blocks rest (mark_block_bad ni ba) sig
                else
                  let (success, ni) = nmbm_write_repeated_data ni ba (signature_bytes sig)
                  in if success then (Some ba, ni)
                     else write_signature_blocks rest (mark_block_bad ni ba) sig)"

definition nmbm_write_signature ::
  "'d nmbm_instance \<Rightarrow> u32 \<Rightarrow> nmbm_signature \<Rightarrow> u32 option \<times> 'd nmbm_instance" where
  "nmbm_write_signature ni limit sig =
     write_signature_blocks (bas_down (block_count ni - 1) limit) ni sig"

section \<open>Reading and writing with page chunks\<close>

text \<open>
  A transfer of \<open>size\<close> bytes from address \<open>off\<close> is cut at page boundaries. The
  loops below are recursions on a bound for the number of chunks; every chunk has at least one
  byte, so the size is enough (\<open>chunk_size_pos\<close>).
\<close>

definition chunk_leading :: "'d nmbm_instance \<Rightarrow> u64 \<Rightarrow> nat" where
  "chunk_leading ni off = unat (off AND ucast (writesize_mask ni))"

definition chunk_size :: "'d nmbm_instance \<Rightarrow> u64 \<Rightarrow> nat \<Rightarrow> nat" where
  "chunk_size ni off sizeremain =
     min (unat (writesize (lower ni)) - chunk_leading ni off) sizeremain"

fun read_data_chunks ::
  "nat \<Rightarrow> 'd nmbm_instance \<Rightarrow> u64 \<Rightarrow> bytes \<Rightarrow> nat \<Rightarrow> nat \<Rightarrow> (int \<times> bytes) \<times> 'd nmbm_instance" where
  "read_data_chunks 0 ni off data pos sizeremain = ((0, data), ni)"
| "read_data_chunks (Suc n) ni off data pos sizeremain =
     (if sizeremain = 0 then ((0, data), ni)
      else
        let leading = chunk_leading ni off;
            chunksize = chunk_size ni off sizeremain
        in if chunksize = unat (writesize (lower ni)) then
             (let ((ret, ptr, _), ni) =
                    nmbm_read_phys_page ni (off - of_nat leading) (Some (drop pos data)) None
                      NMBM_MODE_PLACE_OOB;
                  data = take pos data @ the ptr
              in if ret < 0 then ((ret, data), ni)
                 else read_data_chunks n ni (off + of_nat chunksize) data (pos + chunksize)
                        (sizeremain - chunksize))
           else
             (let (ret, ni) = read_page_to_cache ni (off - of_nat leading) NMBM_MODE_PLACE_OOB
              in if ret < 0 then ((ret, data), ni)
                 else
                   let data = buf_put pos (buf_get leading chunksize (page_cache ni)) data
                   in read_data_chunks n ni (off + of_nat chunksize) data (pos + chunksize)
                        (sizeremain - chunksize)))"

text \<open>Read \<open>size\<close> bytes at \<open>addr\<close> into the buffer \<open>data\<close>.\<close>

definition nmbn_read_data ::
  "'d nmbm_instance \<Rightarrow> u64 \<Rightarrow> bytes \<Rightarrow> nat \<Rightarrow> (int \<times> bytes) \<times> 'd nmbm_instance" where
  "nmbn_read_data ni addr data sz = read_data_chunks sz ni addr data 0 sz"

fun write_verify_chunks ::
  "nat \<Rightarrow> 'd nmbm_instance \<Rightarrow> u64 \<Rightarrow> bytes \<Rightarrow> nat \<Rightarrow> bool \<times> 'd nmbm_instance" where
  "write_verify_chunks 0 ni off ptr sizeremain = (True, ni)"
| "write_verify_chunks (Suc n) ni off ptr sizeremain =
     (if sizeremain = 0 then (True, ni)
      else
        let leading = chunk_leading ni off;
            chunksize = chunk_size ni off sizeremain;
            ni = ni\<lparr>page_cache := memset 0 0xff (unat (rawpage_size ni)) (page_cache ni)\<rparr>;
            ni = ni\<lparr>page_cache := buf_put leading (take chunksize ptr) (page_cache ni)\<rparr>;
            (success, ni) = nmbm_write_phys_page ni (off - of_nat leading) (Some (page_cache ni))
                              None NMBM_MODE_PLACE_OOB
        in if \<not> success then (False, ni)
           else
             let (ret, ni) = read_page_to_cache ni (off - of_nat leading) NMBM_MODE_PLACE_OOB
             in if ret < 0 then (False, ni)
                else if buf_get leading chunksize (page_cache ni) \<noteq> take chunksize ptr then (False, ni)
                else write_verify_chunks n ni (off + of_nat chunksize) (drop chunksize ptr)
                       (sizeremain - chunksize))"

definition nmbn_write_verify_data :: "'d nmbm_instance \<Rightarrow> u64 \<Rightarrow> bytes \<Rightarrow> nat \<Rightarrow> bool \<times> 'd nmbm_instance" where
  "nmbn_write_verify_data ni addr data sz = write_verify_chunks sz ni addr data sz"

section \<open>Writing a table over a range of blocks\<close>

text \<open>
  \<open>n\<close> counts the addresses left below the limit, so \<open>n > 0\<close> is \<open>ba < limit\<close>.
  The result is \<open>None\<close> for false, and \<open>Some (start, end)\<close> for true with
  \<open>*actual_start_ba\<close> and \<open>*actual_end_ba\<close>.
\<close>

fun write_mgmt_blocks ::
  "nat \<Rightarrow> 'd nmbm_instance \<Rightarrow> u32 \<Rightarrow> bytes \<Rightarrow> nat \<Rightarrow> nat \<Rightarrow> u32
    \<Rightarrow> (u32 \<times> u32) option \<times> 'd nmbm_instance" where
  "write_mgmt_blocks n ni ba ptr sz sizeremain start_ba =
     (if sizeremain = 0 then (Some (start_ba, ba), ni)
      else case n of 0 \<Rightarrow> (None, ni)
      | Suc n \<Rightarrow>
        let chunksize = min sizeremain (unat (erasesize (lower ni)))
        in if nmbm_get_block_state ni ba \<noteq> BLOCK_ST_GOOD
           then write_mgmt_blocks n ni (ba + 1) ptr sz sizeremain start_ba
           else
             let (bad, ni) = nmbm_check_bad_phys_block ni ba
             in if bad then write_mgmt_blocks n (snd (nmbm_set_block_state ni ba BLOCK_ST_BAD))
                              (ba + 1) ptr sz sizeremain start_ba
                else
                  let (success, ni) = nmbm_erase_block_and_check ni ba
                  in if \<not> success
                     then write_mgmt_blocks n (mark_block_bad ni ba) (ba + 1) ptr sz sizeremain start_ba
                     else
                       let (success, ni) = nmbn_write_verify_data ni (ba2addr ni ba) ptr chunksize
                       in if \<not> success
                          then write_mgmt_blocks n (mark_block_bad ni ba) (ba + 1) ptr sz sizeremain
                                 start_ba
                          else write_mgmt_blocks n ni (ba + 1) (drop chunksize ptr) sz
                                 (sizeremain - chunksize)
                                 (if sizeremain = sz then ba else start_ba))"

declare write_mgmt_blocks.simps [simp del]

text \<open>
  The caller's \<open>actual_start_ba\<close> is only read after a success, when it has been assigned
  (the size is never 0), so its initial value is of no interest.
\<close>

definition nmbm_write_mgmt_range ::
  "'d nmbm_instance \<Rightarrow> u32 \<Rightarrow> u32 \<Rightarrow> bytes \<Rightarrow> u32 \<Rightarrow> (u32 \<times> u32) option \<times> 'd nmbm_instance" where
  "nmbm_write_mgmt_range ni ba limit data sz =
     write_mgmt_blocks (unat limit - unat ba) ni ba data (unat sz) (unat sz) 0"

section \<open>Chunks\<close>

lemma chunk_leading_mod:
  assumes "nmbm_geom ni"
  shows "chunk_leading ni off = unat off mod unat (writesize (lower ni))"
proof -
  have w: "writesize_mask ni = mask (unat (writesize_shift ni))"
    "unat (writesize (lower ni)) = 2 ^ unat (writesize_shift ni)" "unat (writesize_shift ni) < 32"
    using assms by (rule nmbm_geomD)+
  have "ucast (mask (unat (writesize_shift ni)) :: u32) = (mask (unat (writesize_shift ni)) :: u64)"
    using w(3) by (intro bit_word_eqI) (auto simp: bit_simps)
  then have "off AND ucast (writesize_mask ni) = take_bit (unat (writesize_shift ni)) off"
    unfolding w by (simp only: take_bit_eq_mask)
  then show ?thesis
    by (simp only: chunk_leading_def unsigned_take_bit_eq w) (simp add: take_bit_eq_mod)
qed

lemma chunk_size_pos:
  assumes "nmbm_geom ni" "0 < sizeremain"
  shows "0 < chunk_size ni off sizeremain" "chunk_size ni off sizeremain \<le> sizeremain"
    "chunk_leading ni off + chunk_size ni off sizeremain \<le> unat (writesize (lower ni))"
proof -
  have "0 < unat (writesize (lower ni))" using nmbm_geomD(2) [OF assms(1)] by simp
  then have "chunk_leading ni off < unat (writesize (lower ni))"
    by (simp add: chunk_leading_mod [OF assms(1)])
  then show "0 < chunk_size ni off sizeremain" "chunk_size ni off sizeremain \<le> sizeremain"
    "chunk_leading ni off + chunk_size ni off sizeremain \<le> unat (writesize (lower ni))"
    using assms(2) by (simp_all add: chunk_size_def)
qed

lemma page_offs_from_props:
  "0 < ws \<Longrightarrow> ws dvd off \<Longrightarrow> x \<in> set (page_offs_from off es ws) \<longleftrightarrow> off \<le> x \<and> x < es \<and> ws dvd x"
proof (induction off es ws rule: page_offs_from.induct)
  case (1 off es ws)
  show ?case
  proof (cases "off < es")
    case False
    then show ?thesis by (subst page_offs_from.simps) auto
  next
    case True
    have step: "x = off \<or> off + ws \<le> x" if "off \<le> x" "ws dvd x"
    proof (cases "x = off")
      case False
      with that have "0 < x - off" "ws dvd x - off"
        using "1.prems" by (auto intro: dvd_diff_nat)
      then have "ws \<le> x - off" by (intro dvd_imp_le)
      with that show ?thesis by linarith
    qed simp
    have "x \<in> set (page_offs_from off es ws) \<longleftrightarrow>
        x = off \<or> x \<in> set (page_offs_from (off + ws) es ws)"
      using True "1.prems" by (subst page_offs_from.simps) simp
    also have "\<dots> \<longleftrightarrow> x = off \<or> off + ws \<le> x \<and> x < es \<and> ws dvd x"
      using "1.IH" True "1.prems" by simp
    also have "\<dots> \<longleftrightarrow> off \<le> x \<and> x < es \<and> ws dvd x"
      using step True "1.prems" by auto
    finally show ?thesis .
  qed
qed

section \<open>Invariants of the management operations\<close>

context dev_writes
begin

lemma P_check_empty_pages: "check_empty_pages offs ni addr = (r, ni') \<Longrightarrow> P ni \<Longrightarrow> P ni'"
  by (induction offs arbitrary: ni) (auto split: prod.splits if_splits dest!: P_read_to_cache)

lemma P_erase_and_check: "nmbm_erase_block_and_check ni ba = (r, ni') \<Longrightarrow> P ni \<Longrightarrow> P ni'"
  unfolding nmbm_erase_block_and_check_def Let_def
  by (auto split: prod.splits if_splits dest!: P_erase_phys P_check_empty_pages)

lemma P_write_repeated_pages: "write_repeated_pages offs ni addr data = (r, ni') \<Longrightarrow> P ni \<Longrightarrow> P ni'"
proof (induction offs arbitrary: ni)
  case Nil
  then show ?case by simp
next
  case (Cons off offs)
  let ?ni = "ni\<lparr>page_cache := memset (length data) 0xff (unat (rawpage_size ni) - length data)
      (buf_put 0 data (page_cache ni))\<rparr>"
  obtain s ni1 where w: "nmbm_write_phys_page ?ni (addr + off) (Some (page_cache ?ni)) None
      NMBM_MODE_PLACE_OOB = (s, ni1)" by fastforce
  obtain ret ni2 where r: "read_page_to_cache ni1 (addr + off) NMBM_MODE_PLACE_OOB = (ret, ni2)"
    by fastforce
  have "P ni1" using P_write_phys [OF w] Cons.prems by (simp add: P_page_cache)
  moreover from this have "P ni2" by (rule P_read_to_cache [OF r])
  ultimately show ?case
    using Cons.prems Cons.IH w r by (auto simp: Let_def split: if_splits)
qed

lemma P_write_repeated: "nmbm_write_repeated_data ni ba data = (r, ni') \<Longrightarrow> P ni \<Longrightarrow> P ni'"
  unfolding nmbm_write_repeated_data_def
  by (auto split: if_splits dest: P_write_repeated_pages)

lemma P_read_data_chunks:
  "read_data_chunks n ni off data pos sz = (r, ni') \<Longrightarrow> P ni \<Longrightarrow> P ni'"
proof (induction n arbitrary: ni off data pos sz)
  case 0
  then show ?case by simp
next
  case (Suc n)
  obtain ret ptr oo ni1 where p: "nmbm_read_phys_page ni (off - of_nat (chunk_leading ni off))
      (Some (drop pos data)) None NMBM_MODE_PLACE_OOB = ((ret, ptr, oo), ni1)" by (metis prod.exhaust)
  obtain ret2 ni2 where q: "read_page_to_cache ni (off - of_nat (chunk_leading ni off))
      NMBM_MODE_PLACE_OOB = (ret2, ni2)" by fastforce
  have "P ni1" "P ni2"
    using P_read_phys [OF p Suc.prems(2)] P_read_to_cache [OF q Suc.prems(2)] by simp_all
  then show ?case
    using Suc.prems Suc.IH p q by (auto simp: Let_def split: if_splits)
qed

lemma P_read_data: "nmbn_read_data ni addr data sz = (r, ni') \<Longrightarrow> P ni \<Longrightarrow> P ni'"
  unfolding nmbn_read_data_def by (rule P_read_data_chunks)

lemma P_write_verify_chunks:
  "write_verify_chunks n ni off ptr sz = (r, ni') \<Longrightarrow> P ni \<Longrightarrow> P ni'"
proof (induction n arbitrary: ni off ptr sz)
  case 0
  then show ?case by simp
next
  case (Suc n)
  define ni0 where "ni0 = ni\<lparr>page_cache := buf_put (chunk_leading ni off)
      (take (chunk_size ni off sz) ptr) (memset 0 0xff (unat (rawpage_size ni)) (page_cache ni))\<rparr>"
  obtain s ni1 where w: "nmbm_write_phys_page ni0 (off - of_nat (chunk_leading ni off))
      (Some (page_cache ni0)) None NMBM_MODE_PLACE_OOB = (s, ni1)" by fastforce
  obtain ret ni2 where r: "read_page_to_cache ni1 (off - of_nat (chunk_leading ni off))
      NMBM_MODE_PLACE_OOB = (ret, ni2)" by fastforce
  have "P ni1" using P_write_phys [OF w] Suc.prems(2) by (simp add: P_page_cache ni0_def)
  moreover from this have "P ni2" by (rule P_read_to_cache [OF r])
  ultimately show ?case
    using Suc.prems Suc.IH w r by (auto simp: Let_def ni0_def split: if_splits)
qed

lemma P_write_verify: "nmbn_write_verify_data ni addr data sz = (r, ni') \<Longrightarrow> P ni \<Longrightarrow> P ni'"
  unfolding nmbn_write_verify_data_def by (rule P_write_verify_chunks)

end

context state_writes
begin

lemma P_mark_block_bad: "unat ba < N \<Longrightarrow> P ni \<Longrightarrow> P (mark_block_bad ni ba)"
  unfolding mark_block_bad_def by (auto split: prod.splits dest!: P_mark_phys_bad intro: P_bad)

lemma P_erase_range_blocks: "(\<forall>b\<in>set bs. unat b < N) \<Longrightarrow> P ni \<Longrightarrow> P (erase_range_blocks bs ni)"
proof (induction bs arbitrary: ni)
  case Nil
  then show ?case by simp
next
  case (Cons ba rest)
  obtain bad ni1 where c: "nmbm_check_bad_phys_block ni ba = (bad, ni1)" by fastforce
  obtain s ni2 where e: "nmbm_erase_block_and_check ni1 ba = (s, ni2)" by fastforce
  have "P ni1" "P ni2" using P_check_bad [OF c Cons.prems(2)] P_erase_and_check [OF e] by simp_all
  then show ?case using Cons c e by (simp add: P_bad P_mark_block_bad)
qed

lemma P_erase_range: "unat limit \<le> N \<Longrightarrow> P ni \<Longrightarrow> P (nmbm_erase_range ni ba limit)"
  unfolding nmbm_erase_range_def
  by (intro P_erase_range_blocks ballI) (auto simp: set_bas word_less_nat_alt)

lemma P_write_signature_blocks:
  "write_signature_blocks bs ni sig = (r, ni') \<Longrightarrow> (\<forall>b\<in>set bs. unat b < N) \<Longrightarrow> P ni \<Longrightarrow> P ni'"
proof (induction bs arbitrary: ni)
  case Nil
  then show ?case by simp
next
  case (Cons ba rest)
  obtain bad ni1 where c: "nmbm_check_bad_phys_block ni ba = (bad, ni1)" by fastforce
  obtain s ni2 where e: "nmbm_erase_block_and_check ni1 ba = (s, ni2)" by fastforce
  obtain s' ni3 where w: "nmbm_write_repeated_data ni2 ba (signature_bytes sig) = (s', ni3)"
    by fastforce
  have "P ni1" "P ni2" "P ni3"
    using P_check_bad [OF c Cons.prems(3)] P_erase_and_check [OF e] P_write_repeated [OF w]
    by simp_all
  then show ?case
    using Cons.prems Cons.IH c e w
    by (auto simp: P_bad P_mark_block_bad split: if_splits)
qed

lemma P_write_signature:
  "nmbm_write_signature ni limit sig = (r, ni') \<Longrightarrow> unat (block_count ni - 1) < N \<Longrightarrow> P ni \<Longrightarrow> P ni'"
  unfolding nmbm_write_signature_def
  by (erule P_write_signature_blocks) (auto simp: set_bas_down word_le_nat_alt)

lemma P_write_mgmt_blocks:
  "write_mgmt_blocks n ni ba ptr sz szr st = (r, ni') \<Longrightarrow> unat ba + n \<le> N \<Longrightarrow> unat ba + n < 2 ^ 32
    \<Longrightarrow> P ni \<Longrightarrow> P ni'"
proof (induction n arbitrary: ni ba ptr szr st)
  case 0
  then show ?case by (simp add: write_mgmt_blocks.simps [of 0] split: if_splits)
next
  case (Suc n)
  obtain bad ni1 where c: "nmbm_check_bad_phys_block ni ba = (bad, ni1)" by fastforce
  obtain s ni2 where e: "nmbm_erase_block_and_check ni1 ba = (s, ni2)" by fastforce
  obtain s' ni3 where w: "nmbn_write_verify_data ni2 (ba2addr ni2 ba) ptr
      (min szr (unat (erasesize (lower ni)))) = (s', ni3)" by fastforce
  have "P ni1" "P ni2" "P ni3"
    using P_check_bad [OF c Suc.prems(4)] P_erase_and_check [OF e] P_write_verify [OF w] by simp_all
  moreover have "unat (ba + 1) = Suc (unat ba)"
    using Suc.prems(3) by (subst unat_add_no_wrap) simp_all
  ultimately show ?case
    using Suc.prems Suc.IH c e w
    by (auto simp: write_mgmt_blocks.simps [of "Suc n"] Let_def P_bad P_mark_block_bad split: if_splits)
qed

lemma P_write_mgmt_range:
  "nmbm_write_mgmt_range ni ba limit data sz = (r, ni') \<Longrightarrow> unat limit \<le> N \<Longrightarrow> P ni \<Longrightarrow> P ni'"
proof (cases "unat ba \<le> unat limit")
  case True
  assume "nmbm_write_mgmt_range ni ba limit data sz = (r, ni')" "unat limit \<le> N" "P ni"
  with True show "P ni'"
    unfolding nmbm_write_mgmt_range_def using u32_less_2p32 [of limit]
    by (elim P_write_mgmt_blocks) simp_all
next
  case False
  assume "nmbm_write_mgmt_range ni ba limit data sz = (r, ni')" "P ni"
  with False show "P ni'"
    by (auto simp: nmbm_write_mgmt_range_def write_mgmt_blocks.simps [of 0] split: if_splits)
qed

end

section \<open>Where a table is written\<close>

lemma write_mgmt_blocks_result:
  "write_mgmt_blocks n ni ba ptr sz szr st = (Some (s, e), ni') \<Longrightarrow> unat ba + n < 2 ^ 32 \<Longrightarrow>
    szr \<le> sz \<Longrightarrow> unat ba \<le> unat e \<and> unat e \<le> unat ba + n \<and>
      (if szr = sz then 0 < sz \<longrightarrow> unat ba \<le> unat s \<and> unat s < unat e else s = st)"
proof (induction n arbitrary: ni ba ptr szr st)
  case 0
  then show ?case by (auto simp: write_mgmt_blocks.simps [of 0] split: if_splits)
next
  case (Suc n)
  obtain bad ni1 where c: "nmbm_check_bad_phys_block ni ba = (bad, ni1)" by fastforce
  obtain s1 ni2 where e: "nmbm_erase_block_and_check ni1 ba = (s1, ni2)" by fastforce
  let ?ch = "min szr (unat (erasesize (lower ni)))"
  obtain s2 ni3 where w: "nmbn_write_verify_data ni2 (ba2addr ni2 ba) ptr ?ch = (s2, ni3)"
    by fastforce
  have ba1: "unat (ba + 1) = Suc (unat ba)"
    using Suc.prems(2) by (subst unat_add_no_wrap) simp_all
  show ?case
  proof (cases "szr = 0")
    case True
    with Suc.prems show ?thesis by (auto simp: write_mgmt_blocks.simps [of "Suc n"])
  next
    case False
    consider m where "write_mgmt_blocks n m (ba + 1) ptr sz szr st = (Some (s, e), ni')"
      | m where "write_mgmt_blocks n m (ba + 1) (drop ?ch ptr) sz (szr - ?ch)
          (if szr = sz then ba else st) = (Some (s, e), ni')"
      using False Suc.prems(1) c e w
      by (auto simp: write_mgmt_blocks.simps [of "Suc n"] Let_def split: if_splits)
    then show ?thesis
    proof cases
      case 1
      from Suc.IH [OF this] Suc.prems ba1 show ?thesis by (auto split: if_splits)
    next
      case 2
      have le: "szr - ?ch \<le> sz" and ba: "unat (ba + 1) + n < 2 ^ 32"
        using Suc.prems ba1 by linarith+
      have ne: "szr \<noteq> sz \<Longrightarrow> szr - ?ch \<noteq> sz" using Suc.prems(3) by linarith
      from Suc.IH [OF 2 ba le] ba1 ne show ?thesis by (auto split: if_splits)
    qed
  qed
qed

lemma write_mgmt_range_within:
  assumes "nmbm_write_mgmt_range ni ba limit data sz = (Some (s, e), ni')" "sz \<noteq> 0"
  shows "ba \<le> s \<and> s < e \<and> e \<le> limit"
proof -
  have "0 < unat sz" using assms(2) by (simp add: unat_gt_0)
  moreover have le: "unat ba \<le> unat limit"
    using assms calculation
    by (cases "unat ba \<le> unat limit")
      (auto simp: nmbm_write_mgmt_range_def write_mgmt_blocks.simps [of 0])
  ultimately show ?thesis
    using write_mgmt_blocks_result [of "unat limit - unat ba" ni ba data "unat sz" "unat sz" 0 s e ni']
      assms(1) u32_less_2p32 [of limit]
    by (simp add: nmbm_write_mgmt_range_def word_le_nat_alt word_less_nat_alt)
qed

text \<open>
  A table that was written lies where it may: it starts at or after the preferred block,
  ends behind its start, and its end does not exceed the limit.
\<close>

lemma write_mgmt_range_bounds:
  assumes "nmbm_write_mgmt_range ni ba limit data sz = (Some (s, e), ni')" "sz \<noteq> 0"
  shows "ba \<le> s \<and> s < e \<and> e \<le> limit"
  by (rule write_mgmt_range_within [OF assms])

text \<open>
  \<open>nmbn_read_data\<close> documents a positive result for corrected bitflips, but a read
  that succeeds returns 0: the bitflip count of the pages is dropped, and its callers' test for
  a positive result is never true.
\<close>

lemma read_data_not_positive: "fst (fst (nmbn_read_data ni addr data sz)) \<le> 0"
proof -
  have "fst (fst (read_data_chunks n ni off data pos szr)) \<le> 0" for n off pos szr
    by (induction n ni off data pos szr rule: read_data_chunks.induct)
      (auto simp: Let_def split: prod.splits)
  then show ?thesis by (simp add: nmbn_read_data_def)
qed

lemma write_signature_blocks_result:
  "write_signature_blocks bs ni sig = (Some b, ni') \<Longrightarrow> b \<in> set bs"
  by (induction bs ni sig rule: write_signature_blocks.induct)
    (auto simp: Let_def split: prod.splits if_splits)

text \<open>
  The signature is only ever placed behind the limit and below the end of the chip.
\<close>

lemma write_signature_bounds:
  assumes "nmbm_write_signature ni limit sig = (Some b, ni')"
  shows "limit < b \<and> b \<le> block_count ni - 1"
  using write_signature_blocks_result [OF assms [unfolded nmbm_write_signature_def]]
  by (simp add: set_bas_down)

section \<open>Concrete instances\<close>

text \<open>On the simulated chip a page that was written reads back, with no change to the instance.\<close>

lemma sim_page_read:
  assumes "read_page (lower ni) = Some sim_read"
  shows "nmbm_read_phys_page ni a (Some buf) None m = ((0, Some (buf_put 0 (fst (arg (lower ni) a)) buf), None), ni)"
  using assms by (simp add: nmbm_read_phys_page_def NMBM_TRY_COUNT_def numeral_3_eq_3
      lower_read_page_def sim_read_def sim_fill_def)

lemma sim_page_write:
  assumes "write_page (lower ni) = Some sim_write" "\<not> read_only_flag ni"
  shows "nmbm_write_phys_page ni a (Some buf) None m =
    (True, set_arg ((arg (lower ni))(a := (take 64 buf, snd (arg (lower ni) a)))) ni)"
  using assms by (simp add: nmbm_write_phys_page_def NMBM_TRY_COUNT_def numeral_3_eq_3
      lower_write_page_def sim_write_def)

lemma sim_erase_check:
  assumes "erase_block (lower ni) = Some sim_erase" "\<not> read_only_flag ni"
    "flags (lower ni) AND NMBM_F_EMPTY_PAGE_ECC_OK = 0"
  shows "nmbm_erase_block_and_check ni ba = (True, set_arg (snd (sim_erase (arg (lower ni)) (ba2addr ni ba))) ni)"
  using assms by (simp add: nmbm_erase_block_and_check_def nmbm_erase_phys_block_def NMBM_TRY_COUNT_def
      numeral_3_eq_3 lower_erase_block_def sim_erase_def)

lemma sample_flags: "\<not> read_only_flag sample_ni" "flags sample_lower AND NMBM_F_EMPTY_PAGE_ECC_OK = 0"
  by (simp_all add: NMBM_F_READ_ONLY_def NMBM_F_CREATE_def NMBM_F_EMPTY_PAGE_ECC_OK_def)

lemma sample_not_bad: "nmbm_check_bad_phys_block sample_ni ba = (False, sample_ni)"
  by (simp add: nmbm_check_bad_phys_block_def lower_is_bad_block_def) (simp add: set_arg_def)

lemma sim_write_verify:
  assumes sim: "read_page (lower ni) = Some sim_read" "write_page (lower ni) = Some sim_write"
      "\<not> read_only_flag ni"
    and geom: "writesize (lower ni) = 64" "writesize_mask ni = 63" "rawpage_size ni = 80"
    and len: "length (page_cache ni) = 80" and a: "a AND 63 = 0"
    and data: "length data = Suc n" "Suc n < 64"
  shows "\<exists>ni'. nmbn_write_verify_data ni a data (Suc n) = (True, ni')"
proof -
  define img where "img = buf_put 0 data (replicate 80 0xff :: bytes)"
  have l: "chunk_leading ni a = 0" "chunk_size ni a (Suc n) = Suc n"
    using data geom a by (simp_all add: chunk_leading_def chunk_size_def)
  have img: "length img = 80" "take (Suc n) img = data"
    using data by (simp_all add: img_def buf_put_def)
  have m: "buf_put 0 (take (Suc n) data) (memset 0 0xff 80 (page_cache ni)) = img"
    using len data by (simp add: img_def memset_def buf_put_def)
  let ?ni1 = "ni\<lparr>page_cache := img\<rparr>"
  let ?ni2 = "set_arg ((arg (lower ni))(a := (take 64 img, snd (arg (lower ni) a)))) ?ni1"
  have w: "nmbm_write_phys_page ?ni1 a (Some img) None NMBM_MODE_PLACE_OOB = (True, ?ni2)"
    using sim_page_write [of ?ni1 a img NMBM_MODE_PLACE_OOB] sim by simp
  have "buf_put 0 (take 64 img) img = img"
    using img(1) by (simp add: buf_put_def)
  then have r: "read_page_to_cache ?ni2 a NMBM_MODE_PLACE_OOB = (0, ?ni2)"
    using sim_page_read [of ?ni2 a img NMBM_MODE_PLACE_OOB] sim
    by (simp add: read_page_to_cache_def set_arg_def)
  have "write_verify_chunks (Suc n) ni a data (Suc n) =
      write_verify_chunks n ?ni2 (a + of_nat (Suc n)) [] 0"
    using w r img data l geom(3) m by (simp add: Let_def buf_get_def)
  moreover have "write_verify_chunks n ?ni2 x [] 0 = (True, ?ni2)" for x by (cases n) simp_all
  ultimately show ?thesis by (simp only: nmbn_write_verify_data_def) blast
qed

lemma write_mgmt_range_bounds_witness:
  "\<exists>s e ni'. nmbm_write_mgmt_range sample_ni 23 29 [1, 2] 2 = (Some (s, e), ni') \<and> 23 \<le> s \<and> s < e \<and> e \<le> 29"
proof -
  define ni1 where "ni1 = set_arg (snd (sim_erase sim_blank 2944)) sample_ni"
  have e: "nmbm_erase_block_and_check sample_ni 23 = (True, ni1)"
    using sim_erase_check [of sample_ni 23] sample_flags by (simp add: ni1_def ba2addr_def)
  have sels: "read_page (lower ni1) = Some sim_read" "write_page (lower ni1) = Some sim_write"
    "writesize (lower ni1) = 64" "writesize_mask ni1 = 63" "rawpage_size ni1 = 80"
    "length (page_cache ni1) = 80" "flags (lower ni1) = NMBM_F_CREATE" "ba2addr ni1 23 = 2944"
    by (simp_all add: ni1_def ba2addr_def) (simp_all add: set_arg_def)
  obtain ni2 where w: "nmbn_write_verify_data ni1 2944 [1, 2] (Suc 1) = (True, ni2)"
    using sim_write_verify [of ni1 2944 "[1, 2]" 1] sels by (auto simp: NMBM_F_CREATE_def NMBM_F_READ_ONLY_def)
  have "write_mgmt_blocks 6 sample_ni 23 [1, 2] 2 2 0 = (Some (23, 24), ni2)"
    using e w sels(8) sample_good [of 23] sample_not_bad [of 23]
    by (simp add: write_mgmt_blocks.simps [of 6] write_mgmt_blocks.simps [of 5] numeral_2_eq_2 [symmetric])
  then obtain s e ni' where w: "nmbm_write_mgmt_range sample_ni 23 29 [1, 2] 2 = (Some (s, e), ni')"
    by (simp add: nmbm_write_mgmt_range_def)
  from w write_mgmt_range_bounds [OF w] show ?thesis by auto
qed

lemma sim_write_repeated:
  "read_page (lower ni) = Some sim_read \<Longrightarrow> write_page (lower ni) = Some sim_write \<Longrightarrow>
    \<not> read_only_flag ni \<Longrightarrow> rawpage_size ni = 80 \<Longrightarrow> length (page_cache ni) = 80 \<Longrightarrow> length data \<le> 64 \<Longrightarrow>
    \<exists>ni'. write_repeated_pages offs ni addr data = (True, ni')"
proof (induction offs arbitrary: ni)
  case (Cons off offs)
  define img where "img = data @ replicate (80 - length data) 0xff"
  have img: "length img = 80" "take (length data) img = data"
    using Cons.prems(6) by (simp_all add: img_def)
  have m: "memset (length data) 0xff (80 - length data) (buf_put 0 data (page_cache ni)) = img"
    using Cons.prems(5,6) by (simp add: img_def memset_def buf_put_def)
  let ?ni1 = "ni\<lparr>page_cache := img\<rparr>"
  let ?ni2 = "set_arg ((arg (lower ni))(addr + off := (take 64 img, snd (arg (lower ni) (addr + off))))) ?ni1"
  have w: "nmbm_write_phys_page ?ni1 (addr + off) (Some img) None NMBM_MODE_PLACE_OOB = (True, ?ni2)"
    using sim_page_write [of ?ni1 "addr + off" img NMBM_MODE_PLACE_OOB] Cons.prems(2,3) by simp
  have "buf_put 0 (take 64 img) img = img" using img(1) by (simp add: buf_put_def)
  then have r: "read_page_to_cache ?ni2 (addr + off) NMBM_MODE_PLACE_OOB = (0, ?ni2)"
    using sim_page_read [of ?ni2 "addr + off" img NMBM_MODE_PLACE_OOB] Cons.prems(1)
    by (simp add: read_page_to_cache_def set_arg_def)
  have "rawpage_size ?ni2 = 80" "page_cache ?ni2 = img" using Cons.prems(4) by (simp_all add: set_arg_def)
  moreover from this have "\<exists>ni'. write_repeated_pages offs ?ni2 addr data = (True, ni')"
    using Cons.prems img by (intro Cons.IH) simp_all
  ultimately show ?case using w r img Cons.prems(4) m by (simp add: Let_def)
qed simp

lemma write_signature_bounds_witness:
  "\<exists>b ni'. nmbm_write_signature sample_ni 16 sample_signature = (Some b, ni') \<and> 16 < b"
proof -
  define ni1 where "ni1 = set_arg (snd (sim_erase sim_blank 3968)) sample_ni"
  have e: "nmbm_erase_block_and_check sample_ni 31 = (True, ni1)"
    using sim_erase_check [of sample_ni 31] sample_flags by (simp add: ni1_def ba2addr_def)
  have sels: "read_page (lower ni1) = Some sim_read" "write_page (lower ni1) = Some sim_write"
    "writesize (lower ni1) = 64" "rawpage_size ni1 = 80"
    "length (page_cache ni1) = 80" "flags (lower ni1) = NMBM_F_CREATE"
    by (simp_all add: ni1_def) (simp_all add: set_arg_def)
  have len: "length (signature_bytes sample_signature) = 48"
    by (rule bytes_signature_bytes(2)) (simp_all add: sample_signature_def)
  obtain ni2 where w: "nmbm_write_repeated_data ni1 31 (signature_bytes sample_signature) = (True, ni2)"
    using sim_write_repeated [of ni1 "signature_bytes sample_signature" "page_offs ni1" "ba2addr ni1 31"] sels len
    by (auto simp: nmbm_write_repeated_data_def NMBM_F_CREATE_def NMBM_F_READ_ONLY_def)
  have "bas_down 31 16 = 31 # bas_down 30 16" by (subst bas_down_unfold) simp
  then obtain b ni' where w: "nmbm_write_signature sample_ni 16 sample_signature = (Some b, ni')"
    using e w sample_good [of 31] sample_not_bad [of 31] by (simp add: nmbm_write_signature_def)
  from w write_signature_bounds [OF w] show ?thesis by auto
qed

end
