(* ===== verification/Nmbm_Table.thy ===== *)
theory Nmbm_Table
  imports Nmbm_Mgmt
begin

text \<open>
  The info table, which holds the block state table and the mapping table, and its two copies in
  flash (\<open>nmbm-core.c\<close>, \<open>nmbm_generate_info_table_cache\<close> to
  \<open>nmbm_update_info_table\<close>): generating the image, writing the main and the backup copy
  from scratch, rescuing when one copy cannot be written, and updating both until no change is
  left. A table address 0 stands for "no such table", as in the code.
\<close>

section \<open>The image of the info table\<close>

definition nmbm_generate_info_table_cache ::
  "(u32 \<Rightarrow> bytes \<Rightarrow> u32) \<Rightarrow> 'd nmbm_instance \<Rightarrow> bool \<times> 'd nmbm_instance" where
  "nmbm_generate_info_table_cache crc ni =
     (let cache = memset 0 0xff (unat (info_table_size ni)) (info_table_cache ni);
          cache = buf_put (unat (state_table_off (info_table ni)))
                    (take (unat (state_table_size ni)) (u32s_bytes (block_state ni))) cache;
          cache = buf_put (unat (mapping_table_off (info_table ni)))
                    (take (unat (mapping_table_size ni)) (u32s_bytes (block_mapping ni))) cache;
          it = (info_table ni)\<lparr>ift_header := (ift_header (info_table ni))
                 \<lparr>magic := NMBM_MAGIC_INFO_TABLE, version := NMBM_VER,
                  hdr_size := info_table_size ni\<rparr>\<rparr>;
          changed = (block_state_changed ni \<noteq> 0 \<or> block_mapping_changed ni \<noteq> 0);
          it = (if changed then it\<lparr>write_count := write_count it + 1\<rparr> else it);
          cache = buf_put 0 (info_table_header_bytes it) cache;
          cache = nmbm_update_checksum crc cache
      in (changed, ni\<lparr>info_table := it, info_table_cache := cache\<rparr>))"

definition nmbm_write_info_table ::
  "'d nmbm_instance \<Rightarrow> u32 \<Rightarrow> u32 \<Rightarrow> (u32 \<times> u32) option \<times> 'd nmbm_instance" where
  "nmbm_write_info_table ni ba limit =
     nmbm_write_mgmt_range ni ba limit (info_table_cache ni) (info_table_size ni)"

definition nmbm_mark_tables_clean :: "'d nmbm_instance \<Rightarrow> 'd nmbm_instance" where
  "nmbm_mark_tables_clean ni = ni\<lparr>block_state_changed := 0, block_mapping_changed := 0\<rparr>"

section \<open>Reserving blocks\<close>

text \<open>\<open>n\<close> is the number of values \<open>nblocks\<close> takes down to \<open>min_count\<close>.\<close>

fun try_reserve :: "nat \<Rightarrow> 'd nmbm_instance \<Rightarrow> u32 \<Rightarrow> int \<Rightarrow> u32 \<Rightarrow> u32 option" where
  "try_reserve 0 ni ba nblocks limit = None"
| "try_reserve (Suc n) ni ba nblocks limit =
     (case nmbm_block_walk ni True ba (word_of_int nblocks) limit of
        Some nba \<Rightarrow> Some nba
      | None \<Rightarrow> try_reserve n ni ba (nblocks - 1) limit)"

definition nmbm_try_reserve_blocks ::
  "'d nmbm_instance \<Rightarrow> u32 \<Rightarrow> u32 \<Rightarrow> int \<Rightarrow> u32 \<Rightarrow> u32 option" where
  "nmbm_try_reserve_blocks ni ba count min_count limit =
     try_reserve (nat (sint count - min_count + 1)) ni ba (sint count) limit"

text \<open>
  The spare blocks for a table behind \<open>ba\<close>: the call all callers make, with a limit that
  leaves room for another table below \<open>mapping_blocks_top_ba\<close>.
\<close>

definition reserve_spare :: "'d nmbm_instance \<Rightarrow> u32 \<Rightarrow> u32 option" where
  "reserve_spare ni ba =
     nmbm_try_reserve_blocks ni ba (info_table_spare_blocks ni) 0
       (mapping_blocks_top_ba ni - size2blk ni (ucast (info_table_size ni)))"

text \<open>
  \<open>while (write_ba >= low)\<close> over \<open>write_ba\<close> descending, with a write up to
  \<open>mapping_blocks_top_ba\<close> in each round until one succeeds. The code's \<open>low\<close> is the
  end of a table, never 0.
\<close>

definition bas_down_to :: "u32 \<Rightarrow> u32 \<Rightarrow> u32 list" where
  "bas_down_to write_ba low = map of_nat (rev [unat low..<Suc (unat write_ba)])"

fun write_table_down :: "u32 list \<Rightarrow> 'd nmbm_instance \<Rightarrow> (u32 \<times> u32) option \<times> 'd nmbm_instance" where
  "write_table_down [] ni = (None, ni)"
| "write_table_down (write_ba # rest) ni =
     (case nmbm_write_info_table ni write_ba (mapping_blocks_top_ba ni) of
        (Some se, ni) \<Rightarrow> (Some se, ni)
      | (None, ni) \<Rightarrow> write_table_down rest ni)"

section \<open>Writing both tables from scratch\<close>

text \<open>The part of \<open>nmbm_rebuild_info_table\<close> behind the main table.\<close>

definition rebuild_backup_table :: "'d nmbm_instance \<Rightarrow> u32 \<Rightarrow> bool \<times> 'd nmbm_instance" where
  "rebuild_backup_table ni main_table_end_ba =
     (case reserve_spare ni main_table_end_ba of
        None \<Rightarrow> (True, ni)
      | Some next_start_ba \<Rightarrow>
        (case nmbm_write_info_table ni next_start_ba (mapping_blocks_top_ba ni) of
          (None, ni) \<Rightarrow> (True, ni)
        | (Some (table_start_ba, table_end_ba), ni) \<Rightarrow>
          let ni = ni\<lparr>backup_table_ba := table_start_ba\<rparr>;
              ni = ni\<lparr>mapping_blocks_ba := table_end_ba\<rparr>
          in (True, nmbm_erase_range ni main_table_end_ba (backup_table_ba ni))))"

definition nmbm_rebuild_info_table :: "'d nmbm_instance \<Rightarrow> bool \<times> 'd nmbm_instance" where
  "nmbm_rebuild_info_table ni =
     (let ni = ni\<lparr>main_table_ba := 0, backup_table_ba := 0,
                 mapping_blocks_ba := mapping_blocks_top_ba ni\<rparr>
      in case nmbm_write_info_table ni (mgmt_start_ba ni) (mapping_blocks_top_ba ni) of
        (None, ni) \<Rightarrow> (False, ni\<lparr>protected := 1\<rparr>)
      | (Some (table_start_ba, table_end_ba), ni) \<Rightarrow>
        let ni = ni\<lparr>main_table_ba := table_start_ba\<rparr>;
            main_table_end_ba = table_end_ba;
            ni = ni\<lparr>mapping_blocks_ba := table_end_ba\<rparr>;
            ni = nmbm_mark_tables_clean ni
        in rebuild_backup_table ni main_table_end_ba)"

section \<open>Rescue and update of single tables\<close>

definition nmbm_rescue_single_info_table :: "'d nmbm_instance \<Rightarrow> bool \<times> 'd nmbm_instance" where
  "nmbm_rescue_single_info_table ni =
     (case nmbm_write_info_table ni (mgmt_start_ba ni) (main_table_ba ni) of
        (Some (table_start_ba, table_end_ba), ni) \<Rightarrow>
          let ni = ni\<lparr>backup_table_ba := main_table_ba ni\<rparr>;
              ni = ni\<lparr>main_table_ba := table_start_ba\<rparr>;
              ni = nmbm_mark_tables_clean ni
          in (True, nmbm_erase_range ni table_end_ba (backup_table_ba ni))
      | (None, ni) \<Rightarrow>
        (case reserve_spare ni (mapping_blocks_ba ni) of
          None \<Rightarrow> (False, ni)
        | Some write_ba \<Rightarrow>
          (case write_table_down (bas_down_to write_ba (mapping_blocks_ba ni)) ni of
            (Some (table_start_ba, table_end_ba), ni) \<Rightarrow>
              let ni = nmbm_erase_range ni (mapping_blocks_ba ni) table_start_ba;
                  ni = ni\<lparr>backup_table_ba := table_start_ba\<rparr>;
                  ni = ni\<lparr>mapping_blocks_ba := table_end_ba\<rparr>
              in (True, nmbm_mark_tables_clean ni)
          | (None, ni) \<Rightarrow> (False, ni))))"

definition nmbm_update_single_info_table ::
  "'d nmbm_instance \<Rightarrow> bool \<Rightarrow> bool \<times> 'd nmbm_instance" where
  "nmbm_update_single_info_table ni update_main_table =
     (let (write_start_ba, write_limit) =
            (if update_main_table then (main_table_ba ni, backup_table_ba ni)
             else (backup_table_ba ni, mapping_blocks_top_ba ni))
      in case nmbm_write_info_table ni write_start_ba write_limit of
        (Some (table_start_ba, table_end_ba), ni) \<Rightarrow>
          let ni = (if update_main_table then ni\<lparr>main_table_ba := table_start_ba\<rparr>
                    else ni\<lparr>backup_table_ba := table_start_ba, mapping_blocks_ba := table_end_ba\<rparr>)
          in (True, nmbm_mark_tables_clean ni)
      | (None, ni) \<Rightarrow>
          if update_main_table then
            (let ni = ni\<lparr>main_table_ba := backup_table_ba ni\<rparr>;
                 ni = ni\<lparr>backup_table_ba := 0\<rparr>
             in nmbm_rescue_single_info_table ni)
          else
            (let ni = ni\<lparr>mapping_blocks_ba := backup_table_ba ni\<rparr>
             in (False, ni\<lparr>backup_table_ba := 0\<rparr>)))"

definition backup_becomes_main :: "'d nmbm_instance \<Rightarrow> 'd nmbm_instance" where
  "backup_becomes_main ni = ni\<lparr>main_table_ba := backup_table_ba ni, backup_table_ba := 0\<rparr>"

definition nmbm_rescue_main_info_table :: "'d nmbm_instance \<Rightarrow> bool \<times> 'd nmbm_instance" where
  "nmbm_rescue_main_info_table ni =
     (case reserve_spare ni (mapping_blocks_ba ni) of
        None \<Rightarrow> (True, backup_becomes_main ni)
      | Some write_ba \<Rightarrow>
        (case write_table_down (bas_down_to write_ba (mapping_blocks_ba ni)) ni of
          (None, ni) \<Rightarrow> (True, backup_becomes_main ni)
        | (Some (tmp_table_start_ba, tmp_table_end_ba), ni) \<Rightarrow>
          let ni = ni\<lparr>mapping_blocks_ba := tmp_table_end_ba\<rparr>
          in case nmbm_write_info_table ni (mgmt_start_ba ni) tmp_table_start_ba of
            (None, ni) \<Rightarrow>
              (True, nmbm_mark_tables_clean
                       (ni\<lparr>main_table_ba := tmp_table_start_ba, backup_table_ba := 0\<rparr>))
          | (Some (main_table_start_ba, main_table_end_ba), ni) \<Rightarrow>
            let ni = ni\<lparr>main_table_ba := main_table_start_ba\<rparr>;
                ni = nmbm_mark_tables_clean ni
            in if main_table_end_ba \<le> tmp_table_start_ba
               then (True, ni\<lparr>backup_table_ba := tmp_table_start_ba\<rparr>)
               else
                 let ni = ni\<lparr>mapping_blocks_ba := main_table_end_ba\<rparr>
                 in case reserve_spare ni main_table_end_ba of
                   None \<Rightarrow> (True, ni\<lparr>backup_table_ba := 0\<rparr>)
                 | Some write_ba \<Rightarrow>
                   (case write_table_down (bas_down_to write_ba main_table_end_ba) ni of
                     (None, ni) \<Rightarrow> (True, ni\<lparr>backup_table_ba := 0\<rparr>)
                   | (Some (tmp_table_start_ba, tmp_table_end_ba), ni) \<Rightarrow>
                     let ni = ni\<lparr>backup_table_ba := tmp_table_start_ba\<rparr>;
                         ni = ni\<lparr>mapping_blocks_ba := tmp_table_end_ba\<rparr>
                     in (True, nmbm_erase_range ni main_table_end_ba (backup_table_ba ni)))))"

section \<open>Updating both tables\<close>

text \<open>The part of \<open>nmbm_update_info_table_once\<close> from the label \<open>write_main_table\<close>.\<close>

definition update_main_table :: "'d nmbm_instance \<Rightarrow> u32 \<Rightarrow> bool \<times> 'd nmbm_instance" where
  "update_main_table ni main_table_limit =
     (if main_table_ba ni = 0 then nmbm_rebuild_info_table ni
      else
        case nmbm_write_info_table ni (main_table_ba ni) main_table_limit of
          (None, ni) \<Rightarrow>
            if backup_table_ba ni = 0 then nmbm_rebuild_info_table ni
            else nmbm_rescue_main_info_table ni
        | (Some (table_start_ba, table_end_ba), ni) \<Rightarrow>
            let ni = ni\<lparr>main_table_ba := table_start_ba\<rparr>;
                ni = (if backup_table_ba ni = 0 then ni\<lparr>mapping_blocks_ba := table_end_ba\<rparr> else ni)
            in (True, nmbm_mark_tables_clean ni))"

definition nmbm_update_info_table_once ::
  "(u32 \<Rightarrow> bytes \<Rightarrow> u32) \<Rightarrow> 'd nmbm_instance \<Rightarrow> bool \<Rightarrow> bool \<times> 'd nmbm_instance" where
  "nmbm_update_info_table_once crc ni force =
     (let (changed, ni) = nmbm_generate_info_table_cache crc ni
      in if \<not> changed \<and> \<not> force then (True, ni)
         else if backup_table_ba ni = 0 then update_main_table ni (mapping_blocks_top_ba ni)
         else
           case nmbm_write_info_table ni (backup_table_ba ni) (mapping_blocks_top_ba ni) of
             (None, ni) \<Rightarrow>
               let ni = ni\<lparr>mapping_blocks_ba := backup_table_ba ni\<rparr>;
                   ni = ni\<lparr>backup_table_ba := 0\<rparr>
               in update_main_table ni (mapping_blocks_top_ba ni)
           | (Some (table_start_ba, table_end_ba), ni) \<Rightarrow>
               let ni = ni\<lparr>backup_table_ba := table_start_ba\<rparr>;
                   ni = ni\<lparr>mapping_blocks_ba := table_end_ba\<rparr>;
                   ni = nmbm_mark_tables_clean ni
               in update_main_table ni (backup_table_ba ni))"

text \<open>
  The loop of \<open>nmbm_update_info_table\<close>, with fuel. A round that leaves a change behind has
  marked a block bad, so the number of blocks bounds the rounds; \<open>update_info_table_settles\<close>
  below shows that the fuel given is never used up.
\<close>

fun update_info_table_rounds ::
  "nat \<Rightarrow> (u32 \<Rightarrow> bytes \<Rightarrow> u32) \<Rightarrow> 'd nmbm_instance \<Rightarrow> bool \<times> 'd nmbm_instance" where
  "update_info_table_rounds 0 crc ni = (True, ni)"
| "update_info_table_rounds (Suc n) crc ni =
     (if block_state_changed ni \<noteq> 0 \<or> block_mapping_changed ni \<noteq> 0 then
        (case nmbm_update_info_table_once crc ni False of
           (False, ni) \<Rightarrow> (False, ni)
         | (True, ni) \<Rightarrow> update_info_table_rounds n crc ni)
      else (True, ni))"

definition nmbm_update_info_table ::
  "(u32 \<Rightarrow> bytes \<Rightarrow> u32) \<Rightarrow> 'd nmbm_instance \<Rightarrow> bool \<times> 'd nmbm_instance" where
  "nmbm_update_info_table crc ni =
     (if protected ni \<noteq> 0 then (True, ni)
      else update_info_table_rounds (unat (block_count ni) + 2) crc ni)"

section \<open>Invariants of the table operations\<close>

text \<open>
  \<open>P\<close> survives the changes the table operations make to the instance, and keeps the
  addresses they use as limits within \<open>N\<close>.
\<close>

locale table_writes = state_writes P N for P :: "'d nmbm_instance \<Rightarrow> bool" and N :: nat +
  assumes P_bounds: "P ni \<Longrightarrow> unat (mapping_blocks_top_ba ni) \<le> N \<and> unat (main_table_ba ni) \<le> N \<and>
      unat (backup_table_ba ni) \<le> N \<and> (N = 2 ^ 32 \<or> info_table_size ni \<noteq> 0)"
    and P_main: "P ni \<Longrightarrow> unat x \<le> N \<Longrightarrow> P (ni\<lparr>main_table_ba := x\<rparr>)"
    and P_backup: "P ni \<Longrightarrow> unat x \<le> N \<Longrightarrow> P (ni\<lparr>backup_table_ba := x\<rparr>)"
    and P_mapping_ba: "P ni \<Longrightarrow> unat x \<le> N \<Longrightarrow> P (ni\<lparr>mapping_blocks_ba := x\<rparr>)"
    and P_clean: "P ni \<Longrightarrow> P (ni\<lparr>block_state_changed := 0, block_mapping_changed := 0\<rparr>)"
    and P_table: "P ni \<Longrightarrow> P (ni\<lparr>info_table := t, info_table_cache := c\<rparr>)"
    and P_protect: "P ni \<Longrightarrow> P (ni\<lparr>protected := 1\<rparr>)"
begin

lemma P_mark_clean: "P ni \<Longrightarrow> P (nmbm_mark_tables_clean ni)"
  unfolding nmbm_mark_tables_clean_def by (rule P_clean)

lemma P_main_0: "P ni \<Longrightarrow> P (ni\<lparr>main_table_ba := 0\<rparr>)"
  and P_backup_0: "P ni \<Longrightarrow> P (ni\<lparr>backup_table_ba := 0\<rparr>)"
  by (simp_all add: P_main P_backup)

lemma P_generate: "nmbm_generate_info_table_cache crc ni = (r, ni') \<Longrightarrow> P ni \<Longrightarrow> P ni'"
  unfolding nmbm_generate_info_table_cache_def Let_def by (auto intro: P_table)

lemma P_write_table:
  "nmbm_write_info_table ni ba limit = (r, ni') \<Longrightarrow> unat limit \<le> N \<Longrightarrow> P ni \<Longrightarrow> P ni'"
  unfolding nmbm_write_info_table_def by (rule P_write_mgmt_range)

lemma write_table_N:
  assumes "nmbm_write_info_table ni ba limit = (Some (s, e), ni')" "unat limit \<le> N" "P ni"
  shows "unat s \<le> N" "unat e \<le> N"
proof -
  consider "N = 2 ^ 32" | "info_table_size ni \<noteq> 0" using P_bounds [OF assms(3)] by blast
  then have "unat s \<le> N \<and> unat e \<le> N"
  proof cases
    case 1
    then show ?thesis using u32_less_2p32 [of s] u32_less_2p32 [of e] by simp
  next
    case 2
    then show ?thesis
      using write_mgmt_range_within [OF assms(1) [unfolded nmbm_write_info_table_def]] assms(2)
      by (simp add: word_le_nat_alt word_less_nat_alt)
  qed
  then show "unat s \<le> N" "unat e \<le> N" by simp_all
qed

lemma P_write_table_down:
  "write_table_down bs ni = (r, ni') \<Longrightarrow> P ni \<Longrightarrow> P ni' \<and> (\<forall>s e. r = Some (s, e) \<longrightarrow> unat s \<le> N \<and> unat e \<le> N)"
proof (induction bs arbitrary: ni)
  case Nil
  then show ?case by auto
next
  case (Cons b bs)
  obtain r1 ni1 where w: "nmbm_write_info_table ni b (mapping_blocks_top_ba ni) = (r1, ni1)"
    by fastforce
  have lim: "unat (mapping_blocks_top_ba ni) \<le> N" using P_bounds Cons.prems(2) by blast
  have "P ni1" by (rule P_write_table [OF w lim Cons.prems(2)])
  then show ?case
    using Cons.prems(1) Cons.IH [of ni1] w
    by (cases r1) (auto dest: write_table_N [OF _ lim Cons.prems(2)])
qed

lemma P_top: "P ni \<Longrightarrow> unat (mapping_blocks_top_ba ni) \<le> N"
  and P_main_N: "P ni \<Longrightarrow> unat (main_table_ba ni) \<le> N"
  and P_backup_N: "P ni \<Longrightarrow> unat (backup_table_ba ni) \<le> N"
  using P_bounds by blast+

lemma P_wrote:
  "nmbm_write_info_table ni ba limit = (Some (s, e), ni') \<Longrightarrow> P ni \<Longrightarrow> unat limit \<le> N \<Longrightarrow>
    P ni' \<and> unat s \<le> N \<and> unat e \<le> N"
  using P_write_table write_table_N by blast

lemma P_not_written:
  "nmbm_write_info_table ni ba limit = (None, ni') \<Longrightarrow> P ni \<Longrightarrow> unat limit \<le> N \<Longrightarrow> P ni'"
  using P_write_table by blast

lemma P_erase_to: "P ni \<Longrightarrow> unat limit \<le> N \<Longrightarrow> P (nmbm_erase_range ni ba limit)"
  by (rule P_erase_range)

lemma P_down_Some:
  "write_table_down bs ni = (Some (s, e), ni') \<Longrightarrow> P ni \<Longrightarrow> P ni' \<and> unat s \<le> N \<and> unat e \<le> N"
  using P_write_table_down by blast

lemma P_down_None: "write_table_down bs ni = (None, ni') \<Longrightarrow> P ni \<Longrightarrow> P ni'"
  using P_write_table_down by blast

lemmas P_steps = P_erase_to P_mark_clean P_clean P_main P_backup P_mapping_ba P_main_0 P_backup_0 P_top
  P_main_N P_backup_N P_protect

lemma P_rescue_single: "nmbm_rescue_single_info_table ni = (r, ni') \<Longrightarrow> P ni \<Longrightarrow> P ni'"
  unfolding nmbm_rescue_single_info_table_def Let_def
  by (auto split: prod.splits option.splits dest!: P_wrote P_not_written P_down_Some P_down_None
      intro!: P_steps)

lemmas P_wrote_steps = P_wrote P_not_written P_down_Some P_down_None

lemma P_rebuild_backup: "rebuild_backup_table ni end_ba = (r, ni') \<Longrightarrow> P ni \<Longrightarrow> P ni'"
  unfolding rebuild_backup_table_def Let_def
  by (auto split: prod.splits option.splits dest!: P_wrote_steps intro!: P_steps)

lemma P_rebuild: "nmbm_rebuild_info_table ni = (r, ni') \<Longrightarrow> P ni \<Longrightarrow> P ni'"
  unfolding nmbm_rebuild_info_table_def Let_def
  by (auto split: prod.splits option.splits dest!: P_wrote_steps P_rebuild_backup
      intro!: P_steps)

lemma P_update_single: "nmbm_update_single_info_table ni main = (r, ni') \<Longrightarrow> P ni \<Longrightarrow> P ni'"
  unfolding nmbm_update_single_info_table_def Let_def
  by (auto split: prod.splits option.splits if_splits dest!: P_wrote_steps P_rescue_single intro!: P_steps)

lemma P_rescue_main: "nmbm_rescue_main_info_table ni = (r, ni') \<Longrightarrow> P ni \<Longrightarrow> P ni'"
  unfolding nmbm_rescue_main_info_table_def backup_becomes_main_def Let_def
  by (auto split: prod.splits option.splits if_splits dest!: P_wrote_steps intro!: P_steps)

lemma P_update_main_table:
  "update_main_table ni limit = (r, ni') \<Longrightarrow> P ni \<Longrightarrow> unat limit \<le> N \<Longrightarrow> P ni'"
  unfolding update_main_table_def Let_def
  by (auto split: prod.splits option.splits if_splits
      dest!: P_wrote_steps P_rebuild P_rescue_main intro!: P_steps)

lemma P_update_once: "nmbm_update_info_table_once crc ni force = (r, ni') \<Longrightarrow> P ni \<Longrightarrow> P ni'"
  unfolding nmbm_update_info_table_once_def Let_def
  by (auto split: prod.splits option.splits if_splits
      dest!: P_generate P_wrote_steps P_update_main_table intro!: P_steps)

lemma P_update_rounds: "update_info_table_rounds n crc ni = (r, ni') \<Longrightarrow> P ni \<Longrightarrow> P ni'"
  by (induction n arbitrary: ni) (auto split: prod.splits if_splits bool.splits dest!: P_update_once)

lemma P_update_table: "nmbm_update_info_table crc ni = (r, ni') \<Longrightarrow> P ni \<Longrightarrow> P ni'"
  unfolding nmbm_update_info_table_def
  by (cases "protected ni = 0") (simp_all del: update_info_table_rounds.simps add: P_update_rounds)

end

section \<open>Updating settles\<close>

text \<open>
  The quantity a run of the update loop cannot increase: the changes not yet written and the
  blocks that can still go bad.
\<close>

definition nonbad :: "'d nmbm_instance \<Rightarrow> u32 set" where
  "nonbad ni = {b. b < block_count ni \<and> nmbm_get_block_state ni b \<noteq> BLOCK_ST_BAD}"

definition table_bounds :: "nat \<Rightarrow> 'd nmbm_instance \<Rightarrow> bool" where
  "table_bounds N ni \<longleftrightarrow> unat (block_count ni) = N \<and> N \<le> 16 * length (block_state ni) \<and>
     info_table_size ni \<noteq> 0 \<and> unat (mapping_blocks_top_ba ni) \<le> N \<and>
     unat (main_table_ba ni) \<le> N \<and> unat (backup_table_ba ni) \<le> N"

definition bad_budget :: "nat \<Rightarrow> nat \<Rightarrow> 'd nmbm_instance \<Rightarrow> bool" where
  "bad_budget N K ni \<longleftrightarrow> table_bounds N ni \<and> card (nonbad ni) \<le> K"

definition settled_budget :: "nat \<Rightarrow> nat \<Rightarrow> 'd nmbm_instance \<Rightarrow> bool" where
  "settled_budget N K ni \<longleftrightarrow> table_bounds N ni \<and> block_mapping_changed ni = 0 \<and>
     unat (block_state_changed ni) + card (nonbad ni) \<le> K"

lemma set_bad_keeps:
  "block_count (snd (nmbm_set_block_state ni ba st)) = block_count ni"
  "info_table_size (snd (nmbm_set_block_state ni ba st)) = info_table_size ni"
  "mapping_blocks_top_ba (snd (nmbm_set_block_state ni ba st)) = mapping_blocks_top_ba ni"
  "main_table_ba (snd (nmbm_set_block_state ni ba st)) = main_table_ba ni"
  "backup_table_ba (snd (nmbm_set_block_state ni ba st)) = backup_table_ba ni"
  "block_mapping_changed (snd (nmbm_set_block_state ni ba st)) = block_mapping_changed ni"
  by (simp_all add: set_block_state_unfold Let_def)

lemma nonbad_set_bad:
  assumes "unat ba < unat (block_count ni)" "unat (block_count ni) \<le> 16 * length (block_state ni)"
  shows "nonbad (snd (nmbm_set_block_state ni ba BLOCK_ST_BAD)) = nonbad ni - {ba}"
  using assms get_set_state [of ba ni BLOCK_ST_BAD]
  by (auto simp: nonbad_def set_block_state_frame BLOCK_ST_BAD_def)

lemma unat_Suc_le: "unat (x + 1 :: u32) \<le> Suc (unat x)"
  using mod_less_eq_dividend [of "unat x + 1"] by (simp add: unat_word_ariths)

lemma finite_nonbad [simp]: "finite (nonbad ni)" by simp

lemma bad_budget_set_bad:
  assumes "unat ba < N" "bad_budget N K ni"
  shows "bad_budget N K (snd (nmbm_set_block_state ni ba BLOCK_ST_BAD))"
proof -
  have "card (nonbad ni - {ba}) \<le> card (nonbad ni)" by (rule card_mono) auto
  then show ?thesis
    using assms by (auto simp: bad_budget_def table_bounds_def nonbad_set_bad set_bad_keeps
        set_block_state_frame(3))
qed

lemma settled_budget_set_bad:
  assumes "unat ba < N" "settled_budget N K ni"
  shows "settled_budget N K (snd (nmbm_set_block_state ni ba BLOCK_ST_BAD))"
proof -
  let ?ni = "snd (nmbm_set_block_state ni ba BLOCK_ST_BAD)"
  have b: "ba < block_count ni" and n: "nonbad ?ni = nonbad ni - {ba}"
    using assms nonbad_set_bad [of ba ni]
    by (auto simp: settled_budget_def table_bounds_def word_less_nat_alt)
  have "unat (block_state_changed ?ni) + card (nonbad ?ni) \<le>
      unat (block_state_changed ni) + card (nonbad ni)"
  proof (cases "ba \<in> nonbad ni")
    case True
    then have "card (nonbad ni) = Suc (card (nonbad ?ni))" unfolding n using card_Suc_Diff1 [of "nonbad ni" ba] by (simp del: card_Diff_insert)
    moreover have "unat (block_state_changed ?ni) \<le> Suc (unat (block_state_changed ni))"
      using unat_Suc_le [of "block_state_changed ni"] by (simp add: set_block_state_frame(6))
    ultimately show ?thesis by simp
  next
    case False
    then show ?thesis
      using b unfolding n by (simp add: set_block_state_frame(6) nonbad_def BLOCK_ST_BAD_def)
  qed
  then show ?thesis
    using assms by (auto simp: settled_budget_def table_bounds_def set_bad_keeps
        set_block_state_frame(3))
qed

lemma nonbad_cong:
  "block_count ni' = block_count ni \<Longrightarrow> block_state ni' = block_state ni \<Longrightarrow> nonbad ni' = nonbad ni"
  by (simp add: nonbad_def nmbm_get_block_state_def)


lemma nonbad_simps [simp]:
  "nonbad (ni\<lparr>lower := d\<rparr>) = nonbad ni"
  "nonbad (ni\<lparr>page_cache := c\<rparr>) = nonbad ni"
  "nonbad (ni\<lparr>log_display_level := l\<rparr>) = nonbad ni"
  "nonbad (ni\<lparr>main_table_ba := x\<rparr>) = nonbad ni"
  "nonbad (ni\<lparr>backup_table_ba := x\<rparr>) = nonbad ni"
  "nonbad (ni\<lparr>mapping_blocks_ba := x\<rparr>) = nonbad ni"
  "nonbad (ni\<lparr>protected := p\<rparr>) = nonbad ni"
  "nonbad (ni\<lparr>block_state_changed := y, block_mapping_changed := z\<rparr>) = nonbad ni"
  "nonbad (ni\<lparr>info_table := t, info_table_cache := c\<rparr>) = nonbad ni"
  by (simp_all add: nonbad_def nmbm_get_block_state_def)


interpretation budget_dev: arg_free "bad_budget N K" for N K
  by unfold_locales (simp_all add: bad_budget_def table_bounds_def set_arg_def)

interpretation settled_dev: arg_free "settled_budget N K" for N K
  by unfold_locales (simp_all add: settled_budget_def table_bounds_def set_arg_def)

interpretation budget: table_writes "bad_budget N K" N for N K
  by unfold_locales (simp_all add: bad_budget_set_bad, auto simp: bad_budget_def table_bounds_def)

interpretation settled: table_writes "settled_budget N K" N for N K
  by unfold_locales (simp_all add: settled_budget_set_bad, auto simp: settled_budget_def table_bounds_def)

lemma clean_settles:
  "bad_budget N K ni \<Longrightarrow> settled_budget N K (nmbm_mark_tables_clean ni)"
  by (simp add: bad_budget_def settled_budget_def nmbm_mark_tables_clean_def table_bounds_def)

lemma rebuild_settles:
  assumes eq: "nmbm_rebuild_info_table ni = (True, ni')" and B: "bad_budget N K ni"
  shows "settled_budget N K ni'"
proof -
  let ?ni = "ni\<lparr>main_table_ba := 0, backup_table_ba := 0, mapping_blocks_ba := mapping_blocks_top_ba ni\<rparr>"
  obtain s e ni1 where w: "nmbm_write_info_table ?ni (mgmt_start_ba ni) (mapping_blocks_top_ba ni)
      = (Some (s, e), ni1)"
    and r: "rebuild_backup_table (nmbm_mark_tables_clean (ni1\<lparr>main_table_ba := s, mapping_blocks_ba := e\<rparr>)) e
      = (True, ni')"
    using eq by (auto simp: nmbm_rebuild_info_table_def Let_def split: prod.splits option.splits)
  have "bad_budget N K ?ni" using B by (auto simp: bad_budget_def table_bounds_def nonbad_def nmbm_get_block_state_def)
  then have "bad_budget N K ni1 \<and> unat s \<le> N \<and> unat e \<le> N"
    using budget.P_wrote [OF w] budget.P_top [OF B] by blast
  then have "bad_budget N K (ni1\<lparr>main_table_ba := s, mapping_blocks_ba := e\<rparr>)"
    using budget.P_mapping_ba [OF budget.P_main] by blast
  then show ?thesis by (rule settled.P_rebuild_backup [OF r clean_settles])
qed

text \<open>Writing a table leaves the address of the backup table alone.\<close>

definition backup_is :: "u32 \<Rightarrow> 'd nmbm_instance \<Rightarrow> bool" where
  "backup_is b ni \<longleftrightarrow> backup_table_ba ni = b"

interpretation backup_dev: arg_free "backup_is b" for b
  by unfold_locales (simp_all add: backup_is_def set_arg_def)

interpretation backup: state_writes "backup_is b" "2 ^ 32" for b
  by unfold_locales (simp_all add: backup_is_def set_bad_keeps)

lemma write_table_backup:
  "nmbm_write_info_table ni ba limit = (r, ni') \<Longrightarrow> backup_table_ba ni' = backup_table_ba ni"
  using backup.P_write_mgmt_range [of ni ba limit _ _ r ni'] u32_less_2p32 [of limit]
  by (simp add: nmbm_write_info_table_def backup_is_def)

lemma update_main_settles:
  assumes eq: "update_main_table ni limit = (True, ni')" and B: "bad_budget N K ni"
    and l: "unat limit \<le> N" and nb: "backup_table_ba ni = 0"
  shows "settled_budget N K ni'"
proof (cases "main_table_ba ni = 0")
  case True
  then show ?thesis using eq rebuild_settles [OF _ B] by (simp add: update_main_table_def)
next
  case False
  obtain r ni1 where w: "nmbm_write_info_table ni (main_table_ba ni) limit = (r, ni1)" by fastforce
  have nb1: "backup_table_ba ni1 = 0" using write_table_backup [OF w] nb by simp
  show ?thesis
  proof (cases r)
    case None
    then show ?thesis
      using eq w False nb1 rebuild_settles [OF _ budget.P_write_table [OF w l B]]
      by (simp add: update_main_table_def)
  next
    case (Some se)
    then obtain s e where se: "r = Some (s, e)" by (cases se) auto
    then have "bad_budget N K ni1 \<and> unat s \<le> N \<and> unat e \<le> N" using budget.P_wrote [OF _ B l] w by blast
    then have "settled_budget N K (nmbm_mark_tables_clean (ni1\<lparr>main_table_ba := s, mapping_blocks_ba := e\<rparr>))"
      using clean_settles [OF budget.P_mapping_ba [OF budget.P_main]] by blast
    then show ?thesis using eq w False nb1 se by (simp add: update_main_table_def Let_def)
  qed
qed

lemma generate_changed: "fst (nmbm_generate_info_table_cache crc ni) \<longleftrightarrow>
    block_state_changed ni \<noteq> 0 \<or> block_mapping_changed ni \<noteq> 0"
  by (simp add: nmbm_generate_info_table_cache_def Let_def)

lemma update_once_settles:
  assumes eq: "nmbm_update_info_table_once crc ni force = (True, ni')" and B: "bad_budget N K ni"
    and ch: "block_state_changed ni \<noteq> 0 \<or> block_mapping_changed ni \<noteq> 0"
  shows "settled_budget N K ni'"
proof -
  obtain ni1 where g: "nmbm_generate_info_table_cache crc ni = (True, ni1)"
    using generate_changed [of crc ni] ch by (cases "nmbm_generate_info_table_cache crc ni") simp
  have B1: "bad_budget N K ni1" by (rule budget.P_generate [OF g B])
  note top = budget.P_top [OF B1]
  show ?thesis
  proof (cases "backup_table_ba ni1 = 0")
    case True
    then show ?thesis
      using eq g update_main_settles [OF _ B1 top] by (simp add: nmbm_update_info_table_once_def)
  next
    case False
    obtain r ni2 where w: "nmbm_write_info_table ni1 (backup_table_ba ni1) (mapping_blocks_top_ba ni1)
      = (r, ni2)" by fastforce
    have B2: "bad_budget N K ni2" by (rule budget.P_write_table [OF w top B1])
    show ?thesis
    proof (cases r)
      case None
      have "bad_budget N K (ni2\<lparr>mapping_blocks_ba := backup_table_ba ni2, backup_table_ba := 0\<rparr>)"
        using budget.P_backup_0 [OF budget.P_mapping_ba [OF B2 budget.P_backup_N [OF B2]]] by simp
      then show ?thesis
        using update_main_settles [of _ "mapping_blocks_top_ba ni2" ni'] budget.P_top [OF B2] eq g w None False
        by (auto simp: nmbm_update_info_table_once_def Let_def)
    next
      case (Some se)
      then obtain s e where se: "r = Some (s, e)" by (cases se) auto
      then have b: "bad_budget N K ni2 \<and> unat s \<le> N \<and> unat e \<le> N" using budget.P_wrote [OF _ B1 top] w by blast
      then have "settled_budget N K (nmbm_mark_tables_clean (ni2\<lparr>backup_table_ba := s, mapping_blocks_ba := e\<rparr>))"
        using clean_settles [OF budget.P_mapping_ba [OF budget.P_backup]] by blast
      then show ?thesis
        using settled.P_update_main_table [of _ s True ni'] b eq g w se False
        by (auto simp: nmbm_update_info_table_once_def Let_def nmbm_mark_tables_clean_def)
    qed
  qed
qed

lemma settled_imp_budget: "settled_budget N K ni \<Longrightarrow> bad_budget N K ni"
  by (simp add: settled_budget_def bad_budget_def)

lemma settled_strict:
  "settled_budget N (Suc K) ni \<Longrightarrow> block_state_changed ni \<noteq> 0 \<or> block_mapping_changed ni \<noteq> 0 \<Longrightarrow>
    bad_budget N K ni"
  by (auto simp: settled_budget_def bad_budget_def dest: unat_gt_0 [THEN iffD2])

lemma update_rounds_settle:
  assumes "update_info_table_rounds n crc ni = (True, ni')" "bad_budget N K ni" "K + 1 < n"
  shows "block_state_changed ni' = 0 \<and> block_mapping_changed ni' = 0"
  using assms
proof (induction n arbitrary: ni K)
  case (Suc n)
  show ?case
  proof (cases "block_state_changed ni \<noteq> 0 \<or> block_mapping_changed ni \<noteq> 0")
    case True
    then obtain ni1 where o: "nmbm_update_info_table_once crc ni False = (True, ni1)"
      and r: "update_info_table_rounds n crc ni1 = (True, ni')"
      using Suc.prems(1) by (auto split: prod.splits bool.splits)
    have S: "settled_budget N K ni1" by (rule update_once_settles [OF o Suc.prems(2) True])
    show ?thesis
    proof (cases "block_state_changed ni1 = 0 \<and> block_mapping_changed ni1 = 0")
      case True
      then show ?thesis using r Suc.prems(3) by (cases n) auto
    next
      case False
      then obtain K' where "K = Suc K'" using S by (cases K) (auto simp: settled_budget_def unat_eq_0)
      then show ?thesis
        using Suc.IH [OF r settled_strict] S False Suc.prems(3) by auto
    qed
  qed (use Suc.prems in auto)
qed simp

lemma update_rounds_stable:
  "update_info_table_rounds n crc ni = (r, ni') \<Longrightarrow>
    r \<longrightarrow> block_state_changed ni' = 0 \<and> block_mapping_changed ni' = 0 \<Longrightarrow>
    update_info_table_rounds (n + k) crc ni = (r, ni')"
proof (induction n arbitrary: ni)
  case 0
  then show ?case by (cases k) auto
qed (auto split: prod.splits bool.splits if_splits)




end
