(* ===== verification/Nmbm_Map.thy ===== *)
theory Nmbm_Map
  imports Nmbm_Table
begin

text \<open>
  Mapping logic blocks to spare blocks, and creating NMBM on a chip that has none
  (\<open>nmbm-core.c\<close>, \<open>nmbm_map_block\<close> to \<open>nmbm_create_new\<close>). The spare blocks are
  taken from \<open>mapping_blocks_top_ba\<close> downwards; \<open>mapping_blocks_ba\<close> is the end of the
  tables below them.
\<close>

section \<open>The code\<close>

definition nmbm_map_block ::
  "(u32 \<Rightarrow> bytes \<Rightarrow> u32) \<Rightarrow> 'd nmbm_instance \<Rightarrow> u32 \<Rightarrow> bool \<times> 'd nmbm_instance" where
  "nmbm_map_block crc ni lb =
     (if mapping_blocks_ba ni = mapping_blocks_top_ba ni then (False, ni)
      else
        case nmbm_block_walk ni False (mapping_blocks_top_ba ni) 0 (mapping_blocks_ba ni) of
          None \<Rightarrow>
            let (_, ni) = nmbm_update_info_table crc ni
            in (False, ni\<lparr>mapping_blocks_top_ba := mapping_blocks_ba ni\<rparr>)
        | Some pb \<Rightarrow>
            let ni = ni\<lparr>block_mapping := (block_mapping ni)[unat lb := pb]\<rparr>;
                ni = ni\<lparr>mapping_blocks_top_ba := mapping_blocks_top_ba ni - 1\<rparr>
            in (True, ni\<lparr>block_mapping_changed := block_mapping_changed ni + 1\<rparr>))"

text \<open>The loop that maps the logic blocks behind the data area, up to the first failure.\<close>

fun map_tail_blocks ::
  "u32 list \<Rightarrow> (u32 \<Rightarrow> bytes \<Rightarrow> u32) \<Rightarrow> 'd nmbm_instance \<Rightarrow> 'd nmbm_instance" where
  "map_tail_blocks [] crc ni = ni"
| "map_tail_blocks (lb # rest) crc ni =
     (case nmbm_map_block crc ni lb of
        (False, ni) \<Rightarrow> ni
      | (True, ni) \<Rightarrow> map_tail_blocks rest crc (ni\<lparr>data_block_count := data_block_count ni + 1\<rparr>))"

definition nmbm_create_info_table ::
  "(u32 \<Rightarrow> bytes \<Rightarrow> u32) \<Rightarrow> 'd nmbm_instance \<Rightarrow> bool \<times> 'd nmbm_instance" where
  "nmbm_create_info_table crc ni =
     (case nmbm_block_walk ni False (signature_ba ni) 1 (mgmt_start_ba ni) of
        None \<Rightarrow> (False, ni)
      | Some top_ba \<Rightarrow>
        let ni = ni\<lparr>mapping_blocks_top_ba := top_ba\<rparr>;
            (_, ni) = nmbm_generate_info_table_cache crc ni;
            (success, ni) = nmbm_rebuild_info_table ni
        in if \<not> success then (False, ni)
           else
             let ni = map_tail_blocks (bas (data_block_count ni) (mgmt_start_ba ni)) crc ni
             in nmbm_update_info_table crc ni)"

text \<open>The boundary of the management region, and the signature that records it.\<close>

definition mgmt_boundary :: "'d nmbm_instance \<Rightarrow> u32" where
  "mgmt_boundary ni =
     (let start_ba = block_count ni * (NMBM_MGMT_DIV - max_ratio (lower ni)) div NMBM_MGMT_DIV
      in if max_reserved_blocks (lower ni) \<noteq> 0 \<and>
            block_count ni - start_ba > max_reserved_blocks (lower ni)
         then block_count ni - max_reserved_blocks (lower ni) else start_ba)"

definition fill_signature :: "(u32 \<Rightarrow> bytes \<Rightarrow> u32) \<Rightarrow> 'd nmbm_instance \<Rightarrow> nmbm_signature" where
  "fill_signature crc ni =
     (let s = signature ni;
          s = s\<lparr>sig_header := (sig_header s)\<lparr>magic := NMBM_MAGIC_SIGNATURE, version := NMBM_VER,
                hdr_size := sizeof_nmbm_signature\<rparr>\<rparr>;
          s = s\<lparr>nand_size := chip_size (lower ni), block_size := erasesize (lower ni),
                page_size := writesize (lower ni), spare_size := oobsize (lower ni),
                mgmt_start_pb := mgmt_start_ba ni, max_try_count := of_nat NMBM_TRY_COUNT\<rparr>
      in bytes_signature (nmbm_update_checksum crc (signature_bytes s)))"

definition nmbm_create_new ::
  "(u32 \<Rightarrow> bytes \<Rightarrow> u32) \<Rightarrow> 'd nmbm_instance \<Rightarrow> bool \<times> 'd nmbm_instance" where
  "nmbm_create_new crc ni =
     (let ni = ni\<lparr>mgmt_start_ba := mgmt_boundary ni\<rparr>;
          ni = nmbm_scan_badblocks ni;
          ni = nmbm_build_mapping_table ni;
          ni = ni\<lparr>signature := fill_signature crc ni\<rparr>
      in if read_only_flag ni then (True, ni)
         else
           case nmbm_write_signature ni (mgmt_start_ba ni) (signature ni) of
             (None, ni) \<Rightarrow> (False, ni)
           | (Some ba, ni) \<Rightarrow> nmbm_create_info_table crc (ni\<lparr>signature_ba := ba\<rparr>))"

section \<open>Fields that survive\<close>

text \<open>The table operations leave the top of the spare blocks, and with it the supply of them, alone.\<close>

definition top_is :: "u32 \<Rightarrow> 'd nmbm_instance \<Rightarrow> bool" where
  "top_is t ni \<longleftrightarrow> mapping_blocks_top_ba ni = t"

interpretation top_dev: arg_free "top_is t" for t
  by unfold_locales (simp_all add: top_is_def set_arg_def)

interpretation top_kept: table_writes "top_is t" "2 ^ 32" for t
  by unfold_locales (simp_all add: top_is_def set_bad_keeps)

lemma set_block_state_top [simp]:
  "mapping_blocks_top_ba (snd (nmbm_set_block_state ni ba st)) = mapping_blocks_top_ba ni"
  by (rule set_bad_keeps)

lemma update_info_table_top:
  "mapping_blocks_top_ba (snd (nmbm_update_info_table crc ni)) = mapping_blocks_top_ba ni"
  using top_kept.P_update_table [of crc ni _ _ "mapping_blocks_top_ba ni"]
  by (cases "nmbm_update_info_table crc ni") (simp add: top_is_def)

section \<open>What a mapping does\<close>

lemma walk_good_in: "walk_good ni bs n = Some pb \<Longrightarrow> pb \<in> set bs"
  by (induction bs arbitrary: n) (auto simp: Let_def split: if_splits)

lemma map_block_success:
  assumes "nmbm_map_block crc ni lb = (True, ni')"
  obtains pb where "nmbm_block_walk ni False (mapping_blocks_top_ba ni) 0 (mapping_blocks_ba ni) = Some pb"
    "ni' = ni\<lparr>block_mapping := (block_mapping ni)[unat lb := pb],
              mapping_blocks_top_ba := mapping_blocks_top_ba ni - 1,
              block_mapping_changed := block_mapping_changed ni + 1\<rparr>"
    "pb \<le> mapping_blocks_top_ba ni" "mapping_blocks_top_ba ni \<noteq> 0"
proof -
  obtain pb where pb: "nmbm_block_walk ni False (mapping_blocks_top_ba ni) 0 (mapping_blocks_ba ni) = Some pb"
    and ni': "ni' = ni\<lparr>block_mapping := (block_mapping ni)[unat lb := pb],
              mapping_blocks_top_ba := mapping_blocks_top_ba ni - 1,
              block_mapping_changed := block_mapping_changed ni + 1\<rparr>"
    using assms by (auto simp: nmbm_map_block_def Let_def split: if_splits option.splits prod.splits)
  have in_set: "pb \<in> set (bas_down (mapping_blocks_top_ba ni)
      (if mapping_blocks_ba ni \<ge> block_count ni then block_count ni - 1 else mapping_blocks_ba ni))"
    using pb walk_good_in by (auto simp: nmbm_block_walk_def nmbm_block_walk_desc_def Let_def)
  then have "pb \<le> mapping_blocks_top_ba ni" "mapping_blocks_top_ba ni \<noteq> 0"
    unfolding set_bas_down by (auto simp: word_gt_0)
  with pb ni' that show ?thesis by blast
qed

lemma map_block_top_decreases:
  assumes "nmbm_map_block crc ni lb = (True, ni')"
  shows "unat (mapping_blocks_top_ba ni') < unat (mapping_blocks_top_ba ni)"
proof -
  obtain pb where "ni' = ni\<lparr>block_mapping := (block_mapping ni)[unat lb := pb],
              mapping_blocks_top_ba := mapping_blocks_top_ba ni - 1,
              block_mapping_changed := block_mapping_changed ni + 1\<rparr>" "mapping_blocks_top_ba ni \<noteq> 0"
    using map_block_success [OF assms] by metis
  then show ?thesis by (simp add: unat_minus_one unat_gt_0)
qed


section \<open>Invariants of mapping\<close>

text \<open>
  What also survives a change of the mapping: the properties of the operations on logic blocks
  that hold for every instance and every device are instances of this contract.
\<close>

locale ftl_writes = table_writes P "2 ^ 32" for P :: "'d nmbm_instance \<Rightarrow> bool" +
  assumes P_mapping: "P ni \<Longrightarrow> length m = length (block_mapping ni) \<Longrightarrow> P (ni\<lparr>block_mapping := m\<rparr>)"
    and P_mapping_changed: "P ni \<Longrightarrow> P (ni\<lparr>block_mapping_changed := c\<rparr>)"
    and P_top_ba: "P ni \<Longrightarrow> P (ni\<lparr>mapping_blocks_top_ba := t\<rparr>)"
    and P_data_blocks: "P ni \<Longrightarrow> P (ni\<lparr>data_block_count := n\<rparr>)"
    and P_need_remap: "P ni \<Longrightarrow> nmbm_get_block_state ni pb \<noteq> BLOCK_ST_BAD \<Longrightarrow>
      P (snd (nmbm_set_block_state ni pb BLOCK_ST_NEED_REMAP))"
begin

lemma P_set_bad: "P ni \<Longrightarrow> P (snd (nmbm_set_block_state ni ba BLOCK_ST_BAD))"
  by (rule P_bad) (simp_all add: u32_less_2p32 [simplified])

lemma P_block_bad: "P ni \<Longrightarrow> P (mark_block_bad ni ba)"
  by (rule P_mark_block_bad) (simp_all add: u32_less_2p32 [simplified])

lemma P_remap: "P ni \<Longrightarrow> P (ni\<lparr>block_mapping := (block_mapping ni)[k := x]\<rparr>)"
  by (rule P_mapping) simp_all

lemma P_map_block: "nmbm_map_block crc ni lb = (r, ni') \<Longrightarrow> P ni \<Longrightarrow> P ni'"
proof -
  assume eq: "nmbm_map_block crc ni lb = (r, ni')" and P: "P ni"
  have "P (ni\<lparr>block_mapping := (block_mapping ni)[k := pb], mapping_blocks_top_ba := t,
      block_mapping_changed := c\<rparr>)" for k pb t c
    using P_mapping_changed [OF P_top_ba [OF P_remap [OF P]]] by simp
  then show "P ni'"
    using eq P
    by (auto simp: nmbm_map_block_def Let_def split: if_splits option.splits prod.splits
        dest!: P_update_table intro!: P_top_ba)
qed

lemma P_map_tail: "P ni \<Longrightarrow> P (map_tail_blocks bs crc ni)"
  by (induction bs arbitrary: ni)
    (auto split: prod.split bool.split dest!: P_map_block intro: P_data_blocks)

lemma P_create_info_table: "nmbm_create_info_table crc ni = (r, ni') \<Longrightarrow> P ni \<Longrightarrow> P ni'"
  unfolding nmbm_create_info_table_def Let_def
  by (auto split: option.splits prod.splits if_splits
      dest!: P_generate P_rebuild P_update_table intro!: P_map_tail P_top_ba)

end


section \<open>Bad blocks stay bad\<close>

definition is_bad :: "nat \<Rightarrow> u32 \<Rightarrow> 'd nmbm_instance \<Rightarrow> bool" where
  "is_bad n b ni \<longleftrightarrow> length (block_state ni) = n \<and> unat b < 16 * n \<and>
     nmbm_get_block_state ni b = BLOCK_ST_BAD"

lemma get_block_state_cong:
  "block_state ni' = block_state ni \<Longrightarrow> nmbm_get_block_state ni' b = nmbm_get_block_state ni b"
  by (simp add: nmbm_get_block_state_def)

lemma set_block_state_outside:
  "16 * length (block_state ni) \<le> unat ba \<Longrightarrow>
    block_state (snd (nmbm_set_block_state ni ba st)) = block_state ni"
  using div_le_mono [of "16 * length (block_state ni)" "unat ba" 16]
  by (simp add: set_block_state_unfold Let_def list_update_beyond)

lemma is_bad_set:
  assumes "is_bad n b ni" "ba \<noteq> b \<or> take_bit 2 st = BLOCK_ST_BAD"
  shows "is_bad n b (snd (nmbm_set_block_state ni ba st))"
proof (cases "unat ba < 16 * length (block_state ni)")
  case True
  then show ?thesis
    using assms get_set_state [OF True, of st] by (auto simp: is_bad_def set_block_state_frame)
next
  case False
  then show ?thesis
    using assms get_block_state_cong [OF set_block_state_outside, of ni ba st b]
    by (simp add: is_bad_def set_block_state_frame)
qed

interpretation bad_dev: arg_free "is_bad n b" for n b
  by unfold_locales (simp_all add: is_bad_def set_arg_def nmbm_get_block_state_def)

interpretation bad_kept: ftl_writes "is_bad n b" for n b
proof unfold_locales
  fix ni :: "'a nmbm_instance" and pb
  assume "is_bad n b ni" "nmbm_get_block_state ni pb \<noteq> BLOCK_ST_BAD"
  then show "is_bad n b (snd (nmbm_set_block_state ni pb BLOCK_ST_NEED_REMAP))"
    by (intro is_bad_set) (auto simp: is_bad_def)
next
  fix ni :: "'a nmbm_instance" and ba
  assume "is_bad n b ni"
  then show "is_bad n b (snd (nmbm_set_block_state ni ba BLOCK_ST_BAD))"
    by (rule is_bad_set) (simp add: BLOCK_ST_BAD_def)
qed (simp_all add: is_bad_def nmbm_get_block_state_def)


section \<open>Picking spare blocks\<close>

lemma map_block_iff:
  assumes "block_count ni \<noteq> 0"
  shows "nmbm_map_block crc ni lb = (True, ni') \<longleftrightarrow>
    mapping_blocks_ba ni \<noteq> mapping_blocks_top_ba ni \<and>
    (\<exists>pb. min (mapping_blocks_ba ni) (block_count ni - 1) < pb \<and> pb \<le> mapping_blocks_top_ba ni \<and>
      good_block ni pb \<and> (\<forall>x. pb < x \<and> x \<le> mapping_blocks_top_ba ni \<longrightarrow> \<not> good_block ni x) \<and>
      ni' = ni\<lparr>block_mapping := (block_mapping ni)[unat lb := pb],
              mapping_blocks_top_ba := mapping_blocks_top_ba ni - 1,
              block_mapping_changed := block_mapping_changed ni + 1\<rparr>)"
proof -
  have none: "length (filter (good_block ni) (bas_down t pb)) = 0 \<longleftrightarrow>
      (\<forall>x. pb < x \<and> x \<le> t \<longrightarrow> \<not> good_block ni x)" for t pb
    by (simp add: filter_empty_conv set_bas_down)
  have walk: "nmbm_block_walk ni False (mapping_blocks_top_ba ni) 0 (mapping_blocks_ba ni) = Some pb \<longleftrightarrow>
      min (mapping_blocks_ba ni) (block_count ni - 1) < pb \<and> pb \<le> mapping_blocks_top_ba ni \<and>
      good_block ni pb \<and> (\<forall>x. pb < x \<and> x \<le> mapping_blocks_top_ba ni \<longrightarrow> \<not> good_block ni x)" for pb
    using block_walk_desc_iff [of 0 ni _ "mapping_blocks_ba ni" "mapping_blocks_top_ba ni" pb, OF _ assms refl]
      none [of "mapping_blocks_top_ba ni" pb]
    by simp
  have "nmbm_map_block crc ni lb = (True, ni') \<longleftrightarrow> mapping_blocks_ba ni \<noteq> mapping_blocks_top_ba ni \<and>
      (\<exists>pb. nmbm_block_walk ni False (mapping_blocks_top_ba ni) 0 (mapping_blocks_ba ni) = Some pb \<and>
        ni' = ni\<lparr>block_mapping := (block_mapping ni)[unat lb := pb],
              mapping_blocks_top_ba := mapping_blocks_top_ba ni - 1,
              block_mapping_changed := block_mapping_changed ni + 1\<rparr>)"
    by (auto simp: nmbm_map_block_def Let_def split: if_splits option.splits prod.splits)
  then show ?thesis by (simp only: walk conj_assoc)
qed

text \<open>
  C9. A logic block is remapped to the highest good block of the spare area, which lies between
  the end of the tables and the current top; the top goes down by one and the change is recorded.
\<close>

theorem map_block_highest:
  assumes "block_count ni \<noteq> 0" "nmbm_map_block crc ni lb = (True, ni')" "unat lb < length (block_mapping ni)"
  shows "\<exists>pb. block_mapping ni' = (block_mapping ni)[unat lb := pb] \<and>
    min (mapping_blocks_ba ni) (block_count ni - 1) < pb \<and> pb \<le> mapping_blocks_top_ba ni \<and>
    good_block ni pb \<and> (\<forall>x. pb < x \<and> x \<le> mapping_blocks_top_ba ni \<longrightarrow> \<not> good_block ni x) \<and>
    mapping_blocks_top_ba ni' = mapping_blocks_top_ba ni - 1 \<and>
    block_mapping_changed ni' = block_mapping_changed ni + 1"
  using assms(2) unfolding map_block_iff [OF assms(1)] by auto

lemma sample_state: "nmbm_get_block_state sample_ni 29 = BLOCK_ST_GOOD"
  by (simp add: nmbm_get_block_state_def nmbm_get_block_state_raw_def nmbm_consts)

lemma sample_map_block:
  "nmbm_map_block crc sample_ni 3 = (True, sample_ni\<lparr>block_mapping := (block_mapping sample_ni)[3 := 29],
     mapping_blocks_top_ba := 28, block_mapping_changed := 1\<rparr>)"
  by (subst map_block_iff) (auto intro!: exI [of _ "29 :: u32"] simp: sample_state)

theorem map_block_highest_witness:
  "\<exists>pb. block_mapping (snd (nmbm_map_block (\<lambda>c b. c) sample_ni 3)) = (block_mapping sample_ni)[3 := pb] \<and>
    pb \<le> 29 \<and> good_block sample_ni pb"
  using map_block_highest [OF _ sample_map_block [of "\<lambda>c b. c"]] by (auto simp: sample_map_block)

text \<open>
  C10. The spare block just taken is not skipped when blocks above it are bad: the top is lowered
  by one, not to below the block. The next logic block that is remapped then gets the same
  physical block, and the two logic blocks share it from there on.
\<close>

theorem map_block_shares:
  assumes "nmbm_map_block crc ni lb1 = (True, ni1)" "mapping_blocks_ba ni < block_count ni"
    "unat lb1 < length (block_mapping ni)" "unat lb2 < length (block_mapping ni)" "lb1 \<noteq> lb2"
    "block_mapping ni1 ! unat lb1 < mapping_blocks_top_ba ni"
  shows "\<exists>ni2. nmbm_map_block crc ni1 lb2 = (True, ni2) \<and>
    block_mapping ni2 ! unat lb2 = block_mapping ni2 ! unat lb1"
proof -
  have bc: "block_count ni \<noteq> 0" using assms(2) by auto
  have lim: "min (mapping_blocks_ba ni) (block_count ni - 1) = mapping_blocks_ba ni"
    using word_le_sub_one [OF assms(2)] by (simp add: min_def)
  obtain pb where pb: "mapping_blocks_ba ni < pb" "good_block ni pb"
    "\<forall>x. pb < x \<and> x \<le> mapping_blocks_top_ba ni \<longrightarrow> \<not> good_block ni x"
    and ni1: "ni1 = ni\<lparr>block_mapping := (block_mapping ni)[unat lb1 := pb],
              mapping_blocks_top_ba := mapping_blocks_top_ba ni - 1,
              block_mapping_changed := block_mapping_changed ni + 1\<rparr>"
    using assms(1) unfolding map_block_iff [OF bc] lim by auto
  have lt: "pb < mapping_blocks_top_ba ni" using assms(3,6) ni1 by simp
  have le: "pb \<le> mapping_blocks_top_ba ni - 1" by (rule word_le_sub_one [OF lt])
  have below: "mapping_blocks_top_ba ni - 1 < mapping_blocks_top_ba ni"
    using lt unat_sub_one_above [OF lt] by (simp add: word_less_nat_alt)
  have g: "good_block ni1 x = good_block ni x" for x by (simp add: ni1 nmbm_get_block_state_def)
  have ne: "unat lb1 \<noteq> unat lb2" using assms(5) by (simp add: word_unat_eq_iff)
  let ?ni2 = "ni1\<lparr>block_mapping := (block_mapping ni1)[unat lb2 := pb],
              mapping_blocks_top_ba := mapping_blocks_top_ba ni1 - 1,
              block_mapping_changed := block_mapping_changed ni1 + 1\<rparr>"
  have "nmbm_map_block crc ni1 lb2 = (True, ?ni2)"
    using bc pb le below lim
    by (subst map_block_iff) (auto simp: g intro!: exI [of _ pb], auto simp: ni1)
  moreover have "block_mapping ?ni2 ! unat lb2 = block_mapping ?ni2 ! unat lb1"
    using assms(3,4) ne by (simp add: ni1)
  ultimately show ?thesis by blast
qed

definition bad_top_ni :: "sim_nand nmbm_instance" where
  "bad_top_ni = sample_ni\<lparr>block_state := [0xffffffff, 0xf3ffffff]\<rparr>"

lemma bad_top_sels:
  "block_count bad_top_ni = 32" "mapping_blocks_ba bad_top_ni = 22" "mapping_blocks_top_ba bad_top_ni = 29"
  "block_mapping bad_top_ni = block_mapping sample_ni" "block_mapping_changed bad_top_ni = 0"
  by (simp_all add: bad_top_ni_def)

lemma bad_top_map:
  "nmbm_map_block crc bad_top_ni 3 = (True, bad_top_ni\<lparr>block_mapping := (block_mapping bad_top_ni)[3 := 28],
     mapping_blocks_top_ba := 28, block_mapping_changed := 1\<rparr>)"
proof -
  have bad: "nmbm_get_block_state bad_top_ni 29 = BLOCK_ST_BAD"
    and good: "nmbm_get_block_state bad_top_ni 28 = BLOCK_ST_GOOD"
    by (simp_all add: bad_top_ni_def nmbm_get_block_state_def nmbm_get_block_state_raw_def nmbm_consts)
  have w29: "x = 29" if "28 < x" "x \<le> 29" for x :: u32
    using that by (auto simp: word_less_nat_alt word_le_nat_alt word_unat_eq_iff)
  have none: "\<not> good_block bad_top_ni x" if "28 < x \<and> x \<le> 29" for x
    using w29 [of x] that bad by (auto simp: BLOCK_ST_BAD_def BLOCK_ST_GOOD_def)
  show ?thesis
    using good none by (subst map_block_iff) (auto intro!: exI [of _ "28 :: u32"] simp: bad_top_sels)
qed

theorem map_block_shares_witness:
  "\<exists>ni2. nmbm_map_block (\<lambda>c b. c) (snd (nmbm_map_block (\<lambda>c b. c) bad_top_ni 3)) 4 = (True, ni2) \<and>
    block_mapping ni2 ! 4 = block_mapping ni2 ! 3"
  using map_block_shares [OF bad_top_map [of "\<lambda>c b. c"], of 4] by (simp add: bad_top_map, simp add: bad_top_ni_def)

section \<open>When no spare block is left\<close>

definition mapping_is :: "u32 list \<Rightarrow> 'd nmbm_instance \<Rightarrow> bool" where
  "mapping_is m ni \<longleftrightarrow> block_mapping ni = m"

interpretation mapping_dev: arg_free "mapping_is m" for m
  by unfold_locales (simp_all add: mapping_is_def set_arg_def)

interpretation mapping_kept: table_writes "mapping_is m" "2 ^ 32" for m
  by unfold_locales (simp_all add: mapping_is_def set_block_state_frame)

lemma update_info_table_mapping:
  "block_mapping (snd (nmbm_update_info_table crc ni)) = block_mapping ni"
  using mapping_kept.P_update_table [of crc ni _ _ "block_mapping ni"]
  by (cases "nmbm_update_info_table crc ni") (simp add: mapping_is_def)

lemma map_block_fails:
  assumes "nmbm_map_block crc ni lb = (False, ni')"
  shows "block_mapping ni' = block_mapping ni \<and> mapping_blocks_top_ba ni' = mapping_blocks_ba ni'"
  using assms update_info_table_mapping [of crc ni]
  by (auto simp: nmbm_map_block_def Let_def split: if_splits option.splits prod.splits)

text \<open>
  A mapping that fails leaves every logic block where it was and closes the spare area: no
  later mapping succeeds or changes anything.
\<close>

lemma map_block_exhausted:
  assumes "nmbm_map_block crc ni lb = (False, ni')"
  shows "block_mapping ni' = block_mapping ni \<and> nmbm_map_block crc ni' lb' = (False, ni')"
  using map_block_fails [OF assms] by (simp add: nmbm_map_block_def)

lemma map_block_exhausted_witness:
  "nmbm_map_block (\<lambda>c b. c) (sample_ni\<lparr>mapping_blocks_top_ba := 22\<rparr>) 4 =
    (False, sample_ni\<lparr>mapping_blocks_top_ba := 22\<rparr>)"
  using map_block_exhausted [of "\<lambda>c b. c" "sample_ni\<lparr>mapping_blocks_top_ba := 22\<rparr>" 3]
  by (simp add: nmbm_map_block_def)

end
