(* ===== verification/Nmbm_Load.thy ===== *)
theory Nmbm_Load
  imports Nmbm_Map
begin

text \<open>
  Finding and loading what is on the chip, and attaching to it (\<open>nmbm-core.c\<close>,
  \<open>nmbm_check_info_table_header\<close> to \<open>nmbm_find_signature\<close>, \<open>nmbm_attach\<close>,
  \<open>nmbm_detach\<close>). Output parameters of a search are the value of its \<open>Some\<close>
  result. The only loop that may not end is the one of \<open>nmbm_find_signature\<close>, so it and
  \<open>nmbm_attach\<close> return \<open>None\<close> when they do not return.
\<close>

section \<open>Checking and loading an info table\<close>

definition nmbm_check_info_table_header :: "'d nmbm_instance \<Rightarrow> bytes \<Rightarrow> bool" where
  "nmbm_check_info_table_header ni data =
     (let ifthdr = bytes_info_table_header data
      in if magic (ift_header ifthdr) \<noteq> NMBM_MAGIC_INFO_TABLE then False
         else if hdr_size (ift_header ifthdr) \<noteq> info_table_size ni then False
         else if mapping_table_off ifthdr - state_table_off ifthdr < state_table_size ni then False
         else if info_table_size ni - mapping_table_off ifthdr < mapping_table_size ni then False
         else True)"

text \<open>
  The first loop of \<open>nmbm_check_info_table\<close>, over the logic blocks. The comparisons of
  the \<open>int32_t\<close> mapping with unsigned block addresses are unsigned in C.
\<close>

fun check_mapping :: "u32 list \<Rightarrow> 'd nmbm_instance \<Rightarrow> u32 \<Rightarrow> (u32 \<Rightarrow> u32) \<Rightarrow> u32 \<Rightarrow> u32 option" where
  "check_mapping [] ni end_ba mapping minimum_mapping_pb = Some minimum_mapping_pb"
| "check_mapping (ba # rest) ni end_ba mapping minimum_mapping_pb =
     (let pb = mapping ba
      in if (pb \<ge> data_block_count ni \<and> pb < end_ba) \<or> pb = signature_ba ni then None
         else check_mapping rest ni end_ba mapping
                (if pb \<ge> end_ba \<and> pb < minimum_mapping_pb then pb else minimum_mapping_pb))"

definition nmbm_check_info_table ::
  "'d nmbm_instance \<Rightarrow> u32 \<Rightarrow> u32 \<Rightarrow> bytes \<Rightarrow> u32 option" where
  "nmbm_check_info_table ni start_ba end_ba data =
     (let ifthdr = bytes_info_table_header data;
          mapping = (\<lambda>ba. bytes_u32 (drop (unat (mapping_table_off ifthdr) + 4 * unat ba) data));
          state = bytes_u32s (unat (state_table_size ni) div 4)
                    (drop (unat (state_table_off ifthdr)) data)
      in case check_mapping (bas 0 (data_block_count ni)) ni end_ba mapping (signature_ba ni) of
           None \<Rightarrow> None
         | Some minimum_mapping_pb \<Rightarrow>
             if list_all (\<lambda>ba. nmbm_get_block_state ni ba \<noteq> BLOCK_ST_GOOD \<or>
                                nmbm_get_block_state_raw state ba = BLOCK_ST_GOOD) (bas start_ba end_ba)
             then Some (minimum_mapping_pb - 1) else None)"

text \<open>
  The reading loop of \<open>nmbm_try_load_info_table\<close>: \<open>n\<close> addresses are left below
  the limit, \<open>start_ba\<close> is \<open>None\<close> as long as \<open>checkhdr\<close> holds, and the
  result is \<open>None\<close> for an early return, else the final \<open>ba\<close>, \<open>start_ba\<close>
  and \<open>sizeremain\<close>.
\<close>

fun load_blocks ::
  "nat \<Rightarrow> 'd nmbm_instance \<Rightarrow> u32 \<Rightarrow> nat \<Rightarrow> u32 option
    \<Rightarrow> (u32 \<times> u32 option \<times> nat) option \<times> 'd nmbm_instance" where
  "load_blocks n ni ba sizeremain start_ba =
     (if sizeremain = 0 then (Some (ba, start_ba, sizeremain), ni)
      else case n of 0 \<Rightarrow> (Some (ba, start_ba, sizeremain), ni)
      | Suc n \<Rightarrow>
        if nmbm_get_block_state ni ba \<noteq> BLOCK_ST_GOOD
        then load_blocks n ni (ba + 1) sizeremain start_ba
        else
          let (bad, ni) = nmbm_check_bad_phys_block ni ba
          in if bad then load_blocks n (snd (nmbm_set_block_state ni ba BLOCK_ST_BAD)) (ba + 1)
                           sizeremain start_ba
             else
               let chunksize = min sizeremain (unat (erasesize (lower ni)));
                   off = unat (info_table_size ni) - sizeremain;
                   ((ret, data), ni) = nmbn_read_data ni (ba2addr ni ba)
                                         (drop off (info_table_cache ni)) chunksize;
                   ni = ni\<lparr>info_table_cache := take off (info_table_cache ni) @ data\<rparr>
               in if ret < 0
                  then load_blocks n (snd (nmbm_set_block_state ni ba BLOCK_ST_BAD)) (ba + 1)
                         sizeremain start_ba
                  else if ret > 0 then (None, ni)
                  else if start_ba = None \<and>
                          \<not> nmbm_check_info_table_header ni (drop off (info_table_cache ni))
                  then (None, ni)
                  else load_blocks n ni (ba + 1) (sizeremain - chunksize)
                         (if start_ba = None then Some ba else start_ba))"

declare load_blocks.simps [simp del]

text \<open>\<open>Some (eba, write_count, mapping_blocks_top_ba)\<close> is the result true.\<close>

definition nmbm_try_load_info_table ::
  "(u32 \<Rightarrow> bytes \<Rightarrow> u32) \<Rightarrow> 'd nmbm_instance \<Rightarrow> u32 \<Rightarrow> bool
    \<Rightarrow> (u32 \<times> u32 \<times> u32) option \<times> 'd nmbm_instance" where
  "nmbm_try_load_info_table crc ni ba table_loaded =
     (let limit = ba + size2blk ni (ucast (info_table_size ni))
      in case load_blocks (unat limit - unat ba) ni ba (unat (info_table_size ni)) None of
        (None, ni) \<Rightarrow> (None, ni)
      | (Some (ba, start, sizeremain), ni) \<Rightarrow>
        if sizeremain \<noteq> 0 then (None, ni)
        else if \<not> nmbm_check_header crc (info_table_cache ni) (info_table_size ni) then (None, ni)
        else
          let start_ba = (case start of None \<Rightarrow> 0 | Some b \<Rightarrow> b);
              ifthdr = bytes_info_table_header (info_table_cache ni)
          in case nmbm_check_info_table ni start_ba ba (info_table_cache ni) of
               None \<Rightarrow> (None, ni)
             | Some top_ba \<Rightarrow>
                 (Some (ba, write_count ifthdr, top_ba),
                  if \<not> table_loaded \<or> write_count ifthdr > write_count (info_table ni)
                  then ni\<lparr>info_table := ifthdr,
                         block_state := bytes_u32s (unat (state_table_size ni) div 4)
                           (drop (unat (state_table_off ifthdr)) (info_table_cache ni)),
                         block_mapping := bytes_u32s (unat (mapping_table_size ni) div 4)
                           (drop (unat (mapping_table_off ifthdr)) (info_table_cache ni))\<rparr>
                  else ni))"

section \<open>Searching the tables\<close>

text \<open>\<open>Some (start, end, write_count, mapping_blocks_top_ba)\<close> is the result true.\<close>

fun search_tables ::
  "u32 list \<Rightarrow> (u32 \<Rightarrow> bytes \<Rightarrow> u32) \<Rightarrow> 'd nmbm_instance \<Rightarrow> bool
    \<Rightarrow> (u32 \<times> u32 \<times> u32 \<times> u32) option \<times> 'd nmbm_instance" where
  "search_tables [] crc ni table_loaded = (None, ni)"
| "search_tables (ba # rest) crc ni table_loaded =
     (case nmbm_try_load_info_table crc ni ba table_loaded of
        (Some (eba, wc, top_ba), ni) \<Rightarrow> (Some (ba, eba, wc, top_ba), ni)
      | (None, ni) \<Rightarrow> search_tables rest crc ni table_loaded)"

definition nmbm_search_info_table ::
  "(u32 \<Rightarrow> bytes \<Rightarrow> u32) \<Rightarrow> 'd nmbm_instance \<Rightarrow> u32 \<Rightarrow> u32 \<Rightarrow> bool
    \<Rightarrow> (u32 \<times> u32 \<times> u32 \<times> u32) option \<times> 'd nmbm_instance" where
  "nmbm_search_info_table crc ni ba limit table_loaded =
     search_tables (bas ba (limit - size2blk ni (ucast (info_table_size ni)))) crc ni table_loaded"

text \<open>\<open>for (i = start; i > 0; i--)\<close>: the last logic block with a valid mapping.\<close>

fun last_mapped :: "nat \<Rightarrow> u32 list \<Rightarrow> nat option" where
  "last_mapped 0 mapping = None"
| "last_mapped (Suc i) mapping = (if sint (mapping ! i) \<ge> 0 then Some (Suc i) else last_mapped i mapping)"

text \<open>
  What \<open>nmbm_load_info_table\<close> does once the tables are searched: restoring the second copy
  and protecting the device. \<open>two\<close> are the write counts of the two tables.
\<close>

definition settle_tables :: "'d nmbm_instance \<Rightarrow> u32 \<Rightarrow> u32 \<Rightarrow> 'd nmbm_instance" where
  "settle_tables ni main_count backup_count =
     (let (success, ni) =
            (if backup_table_ba ni = 0 then nmbm_rescue_single_info_table ni
             else if main_count \<noteq> backup_count then
               nmbm_update_single_info_table (ni\<lparr>block_state_changed := 1, block_mapping_changed := 1\<rparr>)
                 (main_count < backup_count)
             else (True, ni))
      in if mapping_blocks_ba ni = mapping_blocks_top_ba ni then ni\<lparr>protected := 1\<rparr>
         else if \<not> success then ni\<lparr>protected := 1\<rparr>
         else ni)"

definition nmbm_load_info_table ::
  "(u32 \<Rightarrow> bytes \<Rightarrow> u32) \<Rightarrow> 'd nmbm_instance \<Rightarrow> u32 \<Rightarrow> u32 \<Rightarrow> bool \<times> 'd nmbm_instance" where
  "nmbm_load_info_table crc ni ba limit =
     (let ni = ni\<lparr>main_table_ba := 0, backup_table_ba := 0,
                 info_table := (info_table ni)\<lparr>write_count := 0\<rparr>,
                 mapping_blocks_top_ba := signature_ba ni - 1,
                 data_block_count := mgmt_start_pb (signature ni)\<rparr>
      in case nmbm_search_info_table crc ni ba limit False of
        (None, ni) \<Rightarrow> (False, ni)
      | (Some (main_ba, main_end, main_count, main_top), ni) \<Rightarrow>
        let ni = ni\<lparr>main_table_ba := main_ba\<rparr>;
            (second, ni) = nmbm_search_info_table crc ni main_end limit True;
            ni = (case second of None \<Rightarrow> ni | Some (start, _) \<Rightarrow> ni\<lparr>backup_table_ba := start\<rparr>);
            table_end_ba = (case second of None \<Rightarrow> main_end | Some (_, e, _) \<Rightarrow> e);
            (backup_count, backup_top) = (case second of None \<Rightarrow> (0, 0) | Some (_, _, wc, t) \<Rightarrow> (wc, t));
            ni = ni\<lparr>mapping_blocks_top_ba :=
                   (if backup_table_ba ni = 0 \<or> main_count \<ge> backup_count then main_top else backup_top)\<rparr>;
            ni = ni\<lparr>mapping_blocks_ba := table_end_ba\<rparr>;
            ni = (case last_mapped (unat (mgmt_start_pb (signature ni))) (block_mapping ni) of
                    None \<Rightarrow> ni | Some i \<Rightarrow> ni\<lparr>data_block_count := of_nat i\<rparr>);
            (_, ni) = nmbm_generate_info_table_cache crc ni
        in if read_only_flag ni then (True, ni)
           else (True, settle_tables ni main_count backup_count))"

definition nmbm_load_existing ::
  "(u32 \<Rightarrow> bytes \<Rightarrow> u32) \<Rightarrow> 'd nmbm_instance \<Rightarrow> bool \<times> 'd nmbm_instance" where
  "nmbm_load_existing crc ni =
     (let ni = ni\<lparr>mgmt_start_ba := mgmt_start_pb (signature ni)\<rparr>
      in case nmbm_load_info_table crc ni (mgmt_start_ba ni) (signature_ba ni) of
        (True, ni) \<Rightarrow> (True, ni)
      | (False, ni) \<Rightarrow>
        if flags (lower ni) AND NMBM_F_CREATE = 0 then (False, ni)
        else
          let ni = nmbm_scan_badblocks ni;
              ni = nmbm_build_mapping_table ni
          in if read_only_flag ni then (True, ni) else nmbm_create_info_table crc ni)"

section \<open>Finding the signature\<close>

text \<open>
  The pages of a block. The buffer \<open>sig\<close> of the code is on the stack; it is looked at
  only when a read returned 0, which has filled it, so each read starts from zeros here.
\<close>

fun signature_in_pages ::
  "u64 list \<Rightarrow> (u32 \<Rightarrow> bytes \<Rightarrow> u32) \<Rightarrow> 'd nmbm_instance \<Rightarrow> u64
    \<Rightarrow> nmbm_signature option \<times> 'd nmbm_instance" where
  "signature_in_pages [] crc ni addr = (None, ni)"
| "signature_in_pages (off # offs) crc ni addr =
     (let ((ret, data), ni) = nmbn_read_data ni (addr + off) (replicate 48 0) (unat sizeof_nmbm_signature)
      in if ret \<noteq> 0 then signature_in_pages offs crc ni addr
         else if \<not> nmbm_check_header crc data sizeof_nmbm_signature
         then signature_in_pages offs crc ni addr
         else if magic (sig_header (bytes_signature data)) = NMBM_MAGIC_SIGNATURE
         then (Some (bytes_signature data), ni)
         else signature_in_pages offs crc ni addr)"

definition signature_limit :: "'d nmbm_instance \<Rightarrow> u32" where
  "signature_limit ni =
     (let block_cnt = ucast (drop_bit (unat (erasesize_shift ni)) (chip_size (lower ni)));
          limit = (block_cnt div NMBM_MGMT_DIV) * (NMBM_MGMT_DIV - max_ratio (lower ni))
      in if max_reserved_blocks (lower ni) \<noteq> 0 \<and> block_cnt - limit > max_reserved_blocks (lower ni)
         then block_cnt - max_reserved_blocks (lower ni) else limit)"

partial_function (option) signature_from ::
  "(u32 \<Rightarrow> bytes \<Rightarrow> u32) \<Rightarrow> 'd nmbm_instance \<Rightarrow> u32 \<Rightarrow> u32
    \<Rightarrow> ((nmbm_signature \<times> u32) option \<times> 'd nmbm_instance) option" where
  "signature_from crc ni ba limit =
     (if ba \<ge> limit then
        let ba = ba - 1;
            (bad, ni) = nmbm_check_bad_phys_block ni ba
        in if bad then signature_from crc ni ba limit
           else
             let (found, ni) = signature_in_pages (page_offs ni) crc ni (ba2addr ni ba)
             in if found = None then signature_from crc ni ba limit
                else Some (Some (the found, ba), ni)
      else Some (None, ni))"

definition nmbm_find_signature ::
  "(u32 \<Rightarrow> bytes \<Rightarrow> u32) \<Rightarrow> 'd nmbm_instance
    \<Rightarrow> ((nmbm_signature \<times> u32) option \<times> 'd nmbm_instance) option" where
  "nmbm_find_signature crc ni =
     signature_from crc ni
       (ucast (drop_bit (unat (erasesize_shift ni)) (chip_size (lower ni)))) (signature_limit ni)"

section \<open>Attaching and detaching\<close>

text \<open>\<open>mem\<close> is the memory behind the structure \<open>nip\<close> points to.\<close>

definition NMBM_DEFAULT_LOG_LEVEL :: nmbm_log_category where
  "NMBM_DEFAULT_LOG_LEVEL = NMBM_LOG_INFO"

definition signature_matches :: "nmbm_signature \<Rightarrow> 'd nmbm_lower_device \<Rightarrow> bool" where
  "signature_matches s nld \<longleftrightarrow> nand_size s = chip_size nld \<and> block_size s = erasesize nld \<and>
     page_size s = writesize nld \<and> spare_size s = oobsize nld"

definition nmbm_attach ::
  "(u32 \<Rightarrow> bytes \<Rightarrow> u32) \<Rightarrow> bytes \<Rightarrow> 'd nmbm_lower_device option \<Rightarrow> 'd nmbm_instance option
    \<Rightarrow> (int \<times> 'd nmbm_instance option) option" where
  "nmbm_attach crc mem nldp nip =
     (case (nldp, nip) of
        (Some nld, Some ni) \<Rightarrow>
          let ni = ni\<lparr>log_display_level := NMBM_DEFAULT_LOG_LEVEL\<rparr>;
              (success, nld) = nmbm_check_lower_members nld
          in if \<not> success then Some (- EINVAL, Some ni)
             else
               let ni = nmbm_init_structure mem (ni\<lparr>lower := nld\<rparr>)
               in (case nmbm_find_signature crc ni of
                     None \<Rightarrow> None
                   | Some (None, ni) \<Rightarrow>
                       if flags nld AND NMBM_F_CREATE = 0 then Some (- ENODEV, Some ni)
                       else
                         let (success, ni) = nmbm_create_new crc ni
                         in Some (if success then 0 else - ENODEV, Some ni)
                   | Some (Some (sig, ba), ni) \<Rightarrow>
                       let ni = ni\<lparr>signature := sig, signature_ba := ba\<rparr>
                       in if version (sig_header sig) \<noteq> NMBM_VER then Some (- EINVAL, Some ni)
                          else if \<not> signature_matches sig nld then Some (- EINVAL, Some ni)
                          else
                            let (success, ni) = nmbm_load_existing crc ni
                            in Some (if success then 0 else - ENODEV, Some ni))
      | _ \<Rightarrow> Some (- EINVAL, nip))"

definition nmbm_detach ::
  "(u32 \<Rightarrow> bytes \<Rightarrow> u32) \<Rightarrow> 'd nmbm_instance option \<Rightarrow> int \<times> 'd nmbm_instance option" where
  "nmbm_detach crc nip =
     (case nip of None \<Rightarrow> (- EINVAL, None)
      | Some ni \<Rightarrow>
        let ni = (if read_only_flag ni then ni else snd (nmbm_update_info_table crc ni))
        in (0, Some ni))"

section \<open>What is written can be loaded\<close>

text \<open>The layout of the info table that \<open>nmbm_init_structure\<close> lays down.\<close>

definition table_layout :: "'d nmbm_instance \<Rightarrow> bool" where
  "table_layout ni \<longleftrightarrow>
     32 \<le> unat (state_table_off (info_table ni)) \<and>
     unat (state_table_off (info_table ni)) + unat (state_table_size ni)
       \<le> unat (mapping_table_off (info_table ni)) \<and>
     unat (mapping_table_off (info_table ni)) + unat (mapping_table_size ni) \<le> unat (info_table_size ni) \<and>
     length (info_table_cache ni) = unat (info_table_size ni) \<and>
     4 * length (block_state ni) = unat (state_table_size ni) \<and>
     4 * length (block_mapping ni) = unat (mapping_table_size ni)"

lemma bytes_u32s_buf:
  assumes "buf_get off (4 * length ws) b = u32s_bytes ws" "n = length ws"
  shows "bytes_u32s n (drop off b) = ws"
proof -
  have "drop off b = u32s_bytes ws @ drop (4 * length ws) (drop off b)"
    using assms(1) append_take_drop_id [of "4 * length ws" "drop off b"] by (simp add: buf_get_def)
  then show ?thesis using bytes_u32s_u32s_bytes [OF assms(2)] by metis
qed

definition generated_table :: "'d nmbm_instance \<Rightarrow> nmbm_info_table_header" where
  "generated_table ni = (info_table ni)\<lparr>ift_header := (ift_header (info_table ni))
       \<lparr>magic := NMBM_MAGIC_INFO_TABLE, version := NMBM_VER, hdr_size := info_table_size ni\<rparr>,
     write_count := write_count (info_table ni) +
       (if block_state_changed ni \<noteq> 0 \<or> block_mapping_changed ni \<noteq> 0 then 1 else 0)\<rparr>"

lemma generate_cache_image:
  assumes lay: "table_layout ni" and crc: "crc_piecewise crc"
  defines "c \<equiv> info_table_cache (snd (nmbm_generate_info_table_cache crc ni))"
  obtains k rest where "c = info_table_header_bytes ((generated_table ni)
      \<lparr>ift_header := (ift_header (generated_table ni))\<lparr>checksum := k\<rparr>\<rparr>) @ rest"
    "buf_get (unat (state_table_off (info_table ni))) (4 * length (block_state ni)) c = u32s_bytes (block_state ni)"
    "buf_get (unat (mapping_table_off (info_table ni))) (4 * length (block_mapping ni)) c
      = u32s_bytes (block_mapping ni)"
    "nmbm_check_header crc c (info_table_size ni)"
    "length c = unat (info_table_size ni)"
proof -
  define so where "so = unat (state_table_off (info_table ni))"
  define mo where "mo = unat (mapping_table_off (info_table ni))"
  define c0 where "c0 = buf_put mo (u32s_bytes (block_mapping ni)) (buf_put so (u32s_bytes (block_state ni))
      (memset 0 0xff (unat (info_table_size ni)) (info_table_cache ni)))"
  define buf where "buf = buf_put 0 (info_table_header_bytes (generated_table ni)) c0"
  have sz: "32 \<le> so" "so + 4 * length (block_state ni) \<le> mo"
    "mo + 4 * length (block_mapping ni) \<le> length (info_table_cache ni)"
    "length (info_table_cache ni) = unat (info_table_size ni)"
    using lay by (simp_all add: table_layout_def so_def mo_def)
  have l1: "length (memset 0 0xff (unat (info_table_size ni)) (info_table_cache ni)) = unat (info_table_size ni)"
    using sz by (simp add: length_memset)
  then have l2: "length (buf_put so (u32s_bytes (block_state ni))
      (memset 0 0xff (unat (info_table_size ni)) (info_table_cache ni))) = unat (info_table_size ni)"
    using sz by (simp add: length_buf_put)
  then have l0: "length c0 = unat (info_table_size ni)"
    using sz unfolding c0_def by (simp add: length_buf_put)
  have lb: "length buf = unat (info_table_size ni)" using sz l0 by (simp add: buf_def length_buf_put)
  have c: "c = nmbm_update_checksum crc buf"
    using lay unfolding c_def buf_def c0_def so_def mo_def generated_table_def table_layout_def
    by (simp add: nmbm_generate_info_table_cache_def Let_def)
  have h: "bytes_header buf = ift_header (generated_table ni)"
    by (simp add: buf_def buf_put_def info_table_header_bytes_def)
  have hs: "hdr_size (ift_header (generated_table ni)) = info_table_size ni"
    by (simp add: generated_table_def)
  have g: "16 \<le> unat (hdr_size (bytes_header buf))" "unat (hdr_size (bytes_header buf)) \<le> length buf"
    "16 \<le> length buf"
    using sz lb by (simp_all add: h hs)
  obtain k where k: "c = header_bytes ((ift_header (generated_table ni))\<lparr>checksum := k\<rparr>) @ drop 16 buf"
    unfolding c using crc_piecewise.update_checksum_bytes [OF crc g(3) refl g(1)] h by metis
  have keep: "buf_get off n c = buf_get off n c0" if "32 \<le> off" for off n
  proof -
    have "buf_get off n c = buf_get off n buf"
      using that g(3) unfolding k by (simp add: buf_get_def)
    also have "\<dots> = buf_get off n c0"
      unfolding buf_def using that by (intro buf_get_put_after) simp_all
    finally show ?thesis .
  qed
  have "c = info_table_header_bytes ((generated_table ni)
      \<lparr>ift_header := (ift_header (generated_table ni))\<lparr>checksum := k\<rparr>\<rparr>) @ drop 32 c0"
    unfolding k buf_def by (simp add: buf_put_def info_table_header_bytes_def)
  moreover have "buf_get so (4 * length (block_state ni)) c = u32s_bytes (block_state ni)"
    using sz l1 l2 by (simp add: keep c0_def buf_get_put_before buf_get_put_same)
  moreover have "buf_get mo (4 * length (block_mapping ni)) c = u32s_bytes (block_mapping ni)"
    using sz l2 by (simp add: keep c0_def buf_get_put_same)
  moreover have "nmbm_check_header crc c (info_table_size ni)"
    unfolding c using crc_piecewise.check_update [OF crc g(1,2)] h hs by simp
  moreover have "length c = unat (info_table_size ni)" using lb g(3) by (simp add: k)
  ultimately show ?thesis using that unfolding so_def mo_def by blast
qed



section \<open>The signature that is written\<close>

lemma fill_signature_eq:
  assumes "crc_piecewise crc" "length (padding (signature ni)) = 3" "length (sig_tail (signature ni)) = 4"
  obtains k s where "fill_signature crc ni = s\<lparr>sig_header := (sig_header s)\<lparr>checksum := k\<rparr>\<rparr>"
    "s = (signature ni)\<lparr>sig_header := (sig_header (signature ni))\<lparr>magic := NMBM_MAGIC_SIGNATURE,
      version := NMBM_VER, hdr_size := sizeof_nmbm_signature\<rparr>,
      nand_size := chip_size (lower ni), block_size := erasesize (lower ni),
      page_size := writesize (lower ni), spare_size := oobsize (lower ni),
      mgmt_start_pb := mgmt_start_ba ni, max_try_count := of_nat NMBM_TRY_COUNT\<rparr>"
    "nmbm_check_header crc (signature_bytes (fill_signature crc ni)) sizeof_nmbm_signature"
proof -
  define s where "s = (signature ni)\<lparr>sig_header := (sig_header (signature ni))\<lparr>magic := NMBM_MAGIC_SIGNATURE,
      version := NMBM_VER, hdr_size := sizeof_nmbm_signature\<rparr>,
      nand_size := chip_size (lower ni), block_size := erasesize (lower ni),
      page_size := writesize (lower ni), spare_size := oobsize (lower ni),
      mgmt_start_pb := mgmt_start_ba ni, max_try_count := of_nat NMBM_TRY_COUNT\<rparr>"
  have pad: "length (padding s) = 3" "length (sig_tail s) = 4" using assms(2,3) by (simp_all add: s_def)
  have len: "length (signature_bytes s) = 48" by (rule bytes_signature_bytes(2) [OF pad])
  have h: "bytes_header (signature_bytes s) = sig_header s" by (simp add: signature_bytes_def)
  have hs: "unat (hdr_size (sig_header s)) = 48" by (simp add: s_def sizeof_nmbm_signature_def)
  have g: "16 \<le> unat (hdr_size (bytes_header (signature_bytes s)))"
    "unat (hdr_size (bytes_header (signature_bytes s))) \<le> length (signature_bytes s)"
    "16 \<le> length (signature_bytes s)"
    using len hs h by simp_all
  obtain k where "nmbm_update_checksum crc (signature_bytes s)
      = header_bytes ((sig_header s)\<lparr>checksum := k\<rparr>) @ drop 16 (signature_bytes s)"
    using crc_piecewise.update_checksum_bytes [OF assms(1) g(3) refl g(1)] h by metis
  then have up: "nmbm_update_checksum crc (signature_bytes s)
      = signature_bytes (s\<lparr>sig_header := (sig_header s)\<lparr>checksum := k\<rparr>\<rparr>)"
    by (simp add: signature_bytes_def)
  have "fill_signature crc ni = bytes_signature (nmbm_update_checksum crc (signature_bytes s))"
    by (simp add: fill_signature_def s_def Let_def)
  also have "\<dots> = s\<lparr>sig_header := (sig_header s)\<lparr>checksum := k\<rparr>\<rparr>"
    unfolding up using pad bytes_signature_bytes(1) [of "s\<lparr>sig_header := (sig_header s)\<lparr>checksum := k\<rparr>\<rparr>" "[]"]
    by simp
  finally have f: "fill_signature crc ni = s\<lparr>sig_header := (sig_header s)\<lparr>checksum := k\<rparr>\<rparr>" .
  have "nmbm_check_header crc (signature_bytes (fill_signature crc ni)) sizeof_nmbm_signature"
    unfolding f up [symmetric] using crc_piecewise.check_update [OF assms(1) g(1,2)] h
    by (simp add: s_def)
  with f s_def show ?thesis by (rule that)
qed

text \<open>
  C12. The signature that \<open>nmbm_create_new\<close> writes passes the checks of
  \<open>nmbm_find_signature\<close> and \<open>nmbm_attach\<close>: header, checksum, magic, version and the
  geometry of the chip; the bytes written parse back to it.
\<close>

theorem fill_signature_valid:
  assumes "crc_piecewise crc" "length (padding (signature ni)) = 3" "length (sig_tail (signature ni)) = 4"
  shows "let s = fill_signature crc ni in
    nmbm_check_header crc (signature_bytes s) sizeof_nmbm_signature \<and>
    magic (sig_header s) = NMBM_MAGIC_SIGNATURE \<and> version (sig_header s) = NMBM_VER \<and>
    signature_matches s (lower ni) \<and> mgmt_start_pb s = mgmt_start_ba ni \<and>
    bytes_signature (signature_bytes s) = s"
proof -
  obtain k s where f: "fill_signature crc ni = s\<lparr>sig_header := (sig_header s)\<lparr>checksum := k\<rparr>\<rparr>"
    and s: "s = (signature ni)\<lparr>sig_header := (sig_header (signature ni))\<lparr>magic := NMBM_MAGIC_SIGNATURE,
      version := NMBM_VER, hdr_size := sizeof_nmbm_signature\<rparr>,
      nand_size := chip_size (lower ni), block_size := erasesize (lower ni),
      page_size := writesize (lower ni), spare_size := oobsize (lower ni),
      mgmt_start_pb := mgmt_start_ba ni, max_try_count := of_nat NMBM_TRY_COUNT\<rparr>"
    and ok: "nmbm_check_header crc (signature_bytes (fill_signature crc ni)) sizeof_nmbm_signature"
    by (rule fill_signature_eq [OF assms]) (rule that, assumption+)
  have "length (padding (fill_signature crc ni)) = 3" "length (sig_tail (fill_signature crc ni)) = 4"
    using assms(2,3) by (simp_all add: f s)
  then have "bytes_signature (signature_bytes (fill_signature crc ni)) = fill_signature crc ni"
    using bytes_signature_bytes(1) [of "fill_signature crc ni" "[]"] by simp
  then show ?thesis
    using ok unfolding Let_def by (simp add: f s signature_matches_def)
qed

theorem fill_signature_valid_witness:
  "signature_matches (fill_signature crc32_buf sample_ni) sample_lower"
  using fill_signature_valid [OF repo_crc.crc_piecewise_axioms, of sample_ni]
  by (simp add: Let_def sample_signature_def)


section \<open>What reading a table keeps\<close>

locale image_reads = state_writes P "2 ^ 32" for P :: "'d nmbm_instance \<Rightarrow> bool" +
  assumes P_image: "P ni \<Longrightarrow> P (ni\<lparr>info_table_cache := c\<rparr>)"
begin

lemma P_set_bad_block: "P ni \<Longrightarrow> P (snd (nmbm_set_block_state ni ba BLOCK_ST_BAD))"
  by (rule P_bad) (simp_all add: u32_less_2p32 [simplified])

lemma P_load_blocks: "load_blocks n ni ba szr st = (r, ni') \<Longrightarrow> P ni \<Longrightarrow> P ni'"
proof (induction n arbitrary: ni ba szr st)
  case 0
  then show ?case by (auto simp: load_blocks.simps [of 0] split: if_splits)
next
  case (Suc n)
  obtain bad ni1 where c: "nmbm_check_bad_phys_block ni ba = (bad, ni1)" by fastforce
  let ?off = "unat (info_table_size ni1) - szr"
  obtain ret data ni2 where d: "nmbn_read_data ni1 (ba2addr ni1 ba) (drop ?off (info_table_cache ni1))
      (min szr (unat (erasesize (lower ni1)))) = ((ret, data), ni2)" by (metis prod.collapse)
  let ?ni3 = "ni2\<lparr>info_table_cache := take ?off (info_table_cache ni2) @ data\<rparr>"
  have "P ni1" by (rule P_check_bad [OF c Suc.prems(2)])
  moreover from this have "P ni2" by (rule P_read_data [OF d])
  moreover from this have "P ?ni3" by (rule P_image)
  ultimately show ?case
    using Suc c d
    by (auto simp: load_blocks.simps [of "Suc n"] Let_def P_set_bad_block split: if_splits)
qed

end

section \<open>Which table is used\<close>

definition info_table_is :: "nmbm_info_table_header \<Rightarrow> 'd nmbm_instance \<Rightarrow> bool" where
  "info_table_is t ni \<longleftrightarrow> info_table ni = t"

interpretation table_dev: arg_free "info_table_is t" for t
  by unfold_locales (simp_all add: info_table_is_def set_arg_def)

interpretation table_kept: image_reads "info_table_is t" for t
  by unfold_locales (simp_all add: info_table_is_def set_block_state_unfold Let_def)

lemma try_load_count:
  assumes "nmbm_try_load_info_table crc ni ba loaded = (r, ni')"
  shows "case r of None \<Rightarrow> info_table ni' = info_table ni
    | Some (e, wc, t) \<Rightarrow> write_count (info_table ni') =
        (if loaded then max (write_count (info_table ni)) wc else wc)"
proof -
  obtain s ni1 where l: "load_blocks (unat (ba + size2blk ni (ucast (info_table_size ni))) - unat ba) ni ba
      (unat (info_table_size ni)) None = (s, ni1)" by fastforce
  have "info_table ni1 = info_table ni"
    using table_kept.P_load_blocks [OF l, of "info_table ni"] by (simp add: info_table_is_def)
  then show ?thesis
    using assms l by (auto simp: nmbm_try_load_info_table_def Let_def max_def not_le
        split: option.splits if_splits prod.splits)
qed

lemma search_tables_count:
  "search_tables bs crc ni loaded = (Some (s, e, wc, t), ni') \<Longrightarrow>
    write_count (info_table ni') = (if loaded then max (write_count (info_table ni)) wc else wc)"
proof (induction bs arbitrary: ni)
  case (Cons b bs)
  obtain r ni1 where l: "nmbm_try_load_info_table crc ni b loaded = (r, ni1)" by fastforce
  show ?case
    using Cons.prems Cons.IH [of ni1] try_load_count [OF l] l by (cases r) (auto split: prod.splits)
qed simp

text \<open>
  Of the two copies of the info table found on the chip the one that was written last is
  used: after the second search the table loaded has the larger of the two write counts.
\<close>

lemma search_newest_table:
  assumes "nmbm_search_info_table crc ni ba limit False = (Some (s1, e1, wc1, t1), ni1)"
    "nmbm_search_info_table crc (ni1\<lparr>main_table_ba := s1\<rparr>) e1 limit True = (Some (s2, e2, wc2, t2), ni2)"
  shows "write_count (info_table ni2) = max wc1 wc2"
  using search_tables_count [OF assms(1) [unfolded nmbm_search_info_table_def]]
    search_tables_count [OF assms(2) [unfolded nmbm_search_info_table_def]] by simp

section \<open>What only the lower device decides\<close>

text \<open>
  A property of the lower device and the sizes derived from it that every call of the device keeps
  is kept by attaching, whatever attaching finds on the chip.
\<close>

abbreviation same_geometry :: "'d nmbm_instance \<Rightarrow> 'd nmbm_instance \<Rightarrow> bool" where
  "same_geometry ni' ni \<equiv>
     erasesize_shift ni' = erasesize_shift ni \<and> writesize_shift ni' = writesize_shift ni \<and>
     erasesize_mask ni' = erasesize_mask ni \<and> writesize_mask ni' = writesize_mask ni \<and>
     rawpage_size ni' = rawpage_size ni \<and> block_count ni' = block_count ni \<and>
     state_table_size ni' = state_table_size ni \<and> mapping_table_size ni' = mapping_table_size ni"

locale lower_only = dev_writes P for P :: "'d nmbm_instance \<Rightarrow> bool" +
  assumes P_lower: "P ni \<Longrightarrow> lower ni' = lower ni \<Longrightarrow> same_geometry ni' ni \<Longrightarrow> P ni'"

sublocale lower_only \<subseteq> ftl_writes P
  by unfold_locales ((erule P_lower; simp add: set_block_state_unfold Let_def) | simp)+

sublocale lower_only \<subseteq> image_reads P
  by unfold_locales (erule P_lower; simp)

context lower_only
begin

lemma P_try_load: "nmbm_try_load_info_table crc ni ba l = (r, ni') \<Longrightarrow> P ni \<Longrightarrow> P ni'"
  unfolding nmbm_try_load_info_table_def Let_def
  by (auto split: prod.splits option.splits if_splits dest!: P_load_blocks elim: P_lower)

lemma P_search_tables: "search_tables bs crc ni l = (r, ni') \<Longrightarrow> P ni \<Longrightarrow> P ni'"
  by (induction bs arbitrary: ni) (auto split: prod.splits option.splits dest!: P_try_load)

lemma P_search: "nmbm_search_info_table crc ni ba limit l = (r, ni') \<Longrightarrow> P ni \<Longrightarrow> P ni'"
  unfolding nmbm_search_info_table_def by (rule P_search_tables)

lemma P_settle: "P ni \<Longrightarrow> P (settle_tables ni mc bc)"
proof -
  assume P: "P ni"
  have "P (ni\<lparr>block_state_changed := 1, block_mapping_changed := 1\<rparr>)" by (rule P_lower [OF P]; simp)
  with P show ?thesis
    unfolding settle_tables_def Let_def
    by (auto split: prod.splits if_splits dest!: P_rescue_single P_update_single intro!: P_protect)
qed

lemma P_load_info_table: "nmbm_load_info_table crc ni ba limit = (r, ni') \<Longrightarrow> P ni \<Longrightarrow> P ni'"
proof -
  assume eq: "nmbm_load_info_table crc ni ba limit = (r, ni')" and P: "P ni"
  let ?ni = "ni\<lparr>main_table_ba := 0, backup_table_ba := 0,
                 info_table := (info_table ni)\<lparr>write_count := 0\<rparr>,
                 mapping_blocks_top_ba := signature_ba ni - 1,
                 data_block_count := mgmt_start_pb (signature ni)\<rparr>"
  have P0: "P ?ni" by (rule P_lower [OF P]; simp)
  obtain f ni1 where s1: "nmbm_search_info_table crc ?ni ba limit False = (f, ni1)" by fastforce
  have P1: "P ni1" by (rule P_search [OF s1 P0])
  show "P ni'"
  proof (cases f)
    case None
    then show ?thesis using eq s1 P1 by (simp add: nmbm_load_info_table_def Let_def)
  next
    case (Some found)
    obtain mb me mc mt where f: "f = Some (mb, me, mc, mt)" using Some by (cases found) auto
    obtain g ni2 where s2: "nmbm_search_info_table crc (ni1\<lparr>main_table_ba := mb\<rparr>) me limit True = (g, ni2)"
      by fastforce
    have P2: "P ni2" using P_search [OF s2] P_main [OF P1] by simp
    have gen: "P x" if "lower x = lower ni2" "same_geometry x ni2" for x by (rule P_lower [OF P2 that])
    have gen': "P (snd (nmbm_generate_info_table_cache crc x))" if "lower x = lower ni2" "same_geometry x ni2" for x
      using P_generate [of crc x] gen [OF that] by (cases "nmbm_generate_info_table_cache crc x") auto
    show ?thesis
      using eq s1 s2 f gen' P_settle [OF gen']
      by (auto simp: nmbm_load_info_table_def Let_def split_beta split: option.splits prod.splits if_splits)
  qed
qed
end


context lower_only
begin

lemma P_map_good: "P ni \<Longrightarrow> map_good_blocks bs lb ni = (l, ni') \<Longrightarrow> P ni'"
  by (induction bs arbitrary: lb ni) (auto split: if_splits intro: P_remap)

lemma P_unmap: "P ni \<Longrightarrow> P (unmap_blocks bs ni)"
  by (induction bs arbitrary: ni) (auto intro: P_remap)

lemma P_build_mapping: "P ni \<Longrightarrow> P (nmbm_build_mapping_table ni)"
  unfolding nmbm_build_mapping_table_def Let_def
  by (auto split: prod.split intro!: P_unmap P_data_blocks dest: P_map_good)

lemma P_scan: "P ni \<Longrightarrow> P (nmbm_scan_badblocks ni)"
  by (rule P_scan_badblocks) simp_all

lemma P_load_existing: "nmbm_load_existing crc ni = (r, ni') \<Longrightarrow> P ni \<Longrightarrow> P ni'"
proof -
  assume eq: "nmbm_load_existing crc ni = (r, ni')" and P: "P ni"
  have "P (ni\<lparr>mgmt_start_ba := mgmt_start_pb (signature ni)\<rparr>)" by (rule P_lower [OF P]; simp)
  with eq show "P ni'"
    unfolding nmbm_load_existing_def Let_def
    by (auto split: prod.splits bool.splits if_splits
        dest!: P_load_info_table P_create_info_table intro!: P_build_mapping P_scan)
qed

lemma P_create_new: "nmbm_create_new crc ni = (r, ni') \<Longrightarrow> P ni \<Longrightarrow> P ni'"
proof -
  assume eq: "nmbm_create_new crc ni = (r, ni')" and P: "P ni"
  define ni1 where "ni1 = nmbm_build_mapping_table (nmbm_scan_badblocks (ni\<lparr>mgmt_start_ba := mgmt_boundary ni\<rparr>))"
  define ni2 where "ni2 = ni1\<lparr>signature := fill_signature crc ni1\<rparr>"
  have P1: "P ni1" unfolding ni1_def by (intro P_build_mapping P_scan) (rule P_lower [OF P]; simp)
  have P2: "P ni2" unfolding ni2_def by (rule P_lower [OF P1]; simp)
  obtain f ni3 where w: "nmbm_write_signature ni2 (mgmt_start_ba ni2) (signature ni2) = (f, ni3)" by fastforce
  have P3: "P ni3" by (rule P_write_signature [OF w _ P2]) (simp add: u32_less_2p32 [simplified])
  have P4: "P (ni3\<lparr>signature_ba := b\<rparr>)" for b by (rule P_lower [OF P3]; simp)
  show "P ni'"
    using eq w P2 P3 P4
    by (auto simp: nmbm_create_new_def Let_def ni1_def [symmetric] ni2_def [symmetric]
        split: if_splits option.splits dest: P_create_info_table)
qed

lemma P_signature_in_pages: "signature_in_pages offs crc ni addr = (r, ni') \<Longrightarrow> P ni \<Longrightarrow> P ni'"
proof (induction offs arbitrary: ni)
  case (Cons off offs)
  obtain ret data ni1 where d: "nmbn_read_data ni (addr + off) (replicate 48 0) (unat sizeof_nmbm_signature)
      = ((ret, data), ni1)" by (metis prod.collapse)
  have "P ni1" by (rule P_read_data [OF d Cons.prems(2)])
  then show ?case using Cons d by (auto split: if_splits)
qed simp

lemma P_signature_from: "signature_from crc ni ba limit = Some y \<Longrightarrow> P ni \<longrightarrow> P (snd y)"
proof (erule signature_from.raw_induct [where P = "\<lambda>crc ni ba limit y. P ni \<longrightarrow> P (snd y)", rotated], rule impI)
  fix f :: "(u32 \<Rightarrow> bytes \<Rightarrow> u32) \<Rightarrow> 'd nmbm_instance \<Rightarrow> u32 \<Rightarrow> u32 \<Rightarrow> _" and crc ni ba limit y
  assume IH: "\<And>crc ni ba limit y. f crc ni ba limit = Some y \<Longrightarrow> P ni \<longrightarrow> P (snd y)"
    and step: "(if limit \<le> ba
      then let ba = ba - 1; (bad, ni) = nmbm_check_bad_phys_block ni ba
           in if bad then f crc ni ba limit
              else let (found, ni) = signature_in_pages (page_offs ni) crc ni (ba2addr ni ba)
                   in if found = None then f crc ni ba limit else Some (Some (the found, ba), ni)
      else Some (None, ni)) = Some y"
    and Pn: "P ni"
  obtain bad ni1 where c: "nmbm_check_bad_phys_block ni (ba - 1) = (bad, ni1)" by fastforce
  obtain found ni2 where s: "signature_in_pages (page_offs ni1) crc ni1 (ba2addr ni1 (ba - 1)) = (found, ni2)"
    by fastforce
  have "P ni1" by (rule P_check_bad [OF c Pn])
  moreover from this have "P ni2" by (rule P_signature_in_pages [OF s])
  ultimately show "P (snd y)"
    using step Pn IH c s by (auto simp: Let_def split: if_splits)
qed

lemma P_find_signature: "nmbm_find_signature crc ni = Some (r, ni') \<Longrightarrow> P ni \<Longrightarrow> P ni'"
  unfolding nmbm_find_signature_def using P_signature_from by fastforce

lemma P_attach:
  assumes "nmbm_attach crc mem (Some nld) (Some ni) = Some (r, Some ni')" "fst (nmbm_check_lower_members nld)"
    and P0: "P (nmbm_init_structure mem (ni\<lparr>log_display_level := NMBM_DEFAULT_LOG_LEVEL,
      lower := snd (nmbm_check_lower_members nld)\<rparr>))"
  shows "P ni'"
proof -
  have sig: "P x \<Longrightarrow> P (x\<lparr>signature := s, signature_ba := b\<rparr>)" for x s b
    by (erule P_lower; simp)
  have new: "P x \<Longrightarrow> P (snd (nmbm_create_new crc x))" for x
    using P_create_new [of crc x] by (cases "nmbm_create_new crc x") simp
  have load: "P x \<Longrightarrow> P (snd (nmbm_load_existing crc (x\<lparr>signature := s, signature_ba := b\<rparr>)))" for x s b
    using P_load_existing sig by (metis prod.collapse)
  show ?thesis
    using assms(1,2) P0 unfolding nmbm_attach_def Let_def split_beta
    by (auto split: if_splits option.splits dest!: P_find_signature intro!: sig new load)
qed

end


section \<open>Attaching read-only\<close>

text \<open>
  \<open>dev_keeps D L\<close>: reading, asking for bad marks and resetting the chip through the function
  pointers of \<open>L\<close> keep the property \<open>D\<close> of the device.
\<close>

definition dev_keeps :: "('d \<Rightarrow> bool) \<Rightarrow> 'd nmbm_lower_device \<Rightarrow> bool" where
  "dev_keeps D nld \<longleftrightarrow>
     (\<exists>f. read_page nld = Some f \<and> (\<forall>d a dat oob m. D d \<longrightarrow> D (snd (snd (snd (f d a dat oob m)))))) \<and>
     (\<forall>f d a. is_bad_block nld = Some f \<longrightarrow> D d \<longrightarrow> D (snd (f d a))) \<and>
     (\<forall>f d. reset_chip nld = Some f \<longrightarrow> D d \<longrightarrow> D (f d))"

definition ro_safe :: "('d \<Rightarrow> bool) \<Rightarrow> 'd nmbm_instance \<Rightarrow> bool" where
  "ro_safe D ni \<longleftrightarrow> read_only_flag ni \<and> dev_keeps D (lower ni) \<and> D (arg (lower ni))"

lemma dev_keeps_arg: "dev_keeps D (nld\<lparr>arg := d\<rparr>) = dev_keeps D nld"
  by (simp add: dev_keeps_def)

lemma ro_safe_set_arg: "ro_safe D ni \<Longrightarrow> D d \<Longrightarrow> ro_safe D (set_arg d ni)"
  by (simp add: ro_safe_def dev_keeps_arg)

interpretation ro: lower_only "ro_safe D" for D
proof unfold_locales
  fix ni :: "'a nmbm_instance" and a d oob m
  assume P: "ro_safe D ni"
  then obtain f where f: "read_page (lower ni) = Some f"
    "\<And>d a dat oob m. D d \<Longrightarrow> D (snd (snd (snd (f d a dat oob m))))" "D (arg (lower ni))"
    by (auto simp: ro_safe_def dev_keeps_def)
  from f(2) [OF f(3), of a d oob m] show "ro_safe D (snd (lower_read_page ni a d oob m))"
    using ro_safe_set_arg [OF P] f(1) by (auto simp: lower_read_page_def split: prod.split)
next
  fix ni :: "'a nmbm_instance" and a
  assume P: "ro_safe D ni" and "is_bad_block (lower ni) \<noteq> None"
  then obtain f where f: "is_bad_block (lower ni) = Some f" "\<And>a. D (snd (f (arg (lower ni)) a))"
    by (auto simp: ro_safe_def dev_keeps_def)
  from f(2) [of a] show "ro_safe D (snd (lower_is_bad_block ni a))"
    using ro_safe_set_arg [OF P] f(1) by (auto simp: lower_is_bad_block_def split: prod.split)
next
  fix ni :: "'a nmbm_instance"
  assume P: "ro_safe D ni"
  then have "D (f (arg (lower ni)))" if "reset_chip (lower ni) = Some f" for f
    using that by (auto simp: ro_safe_def dev_keeps_def)
  then show "ro_safe D (nmbm_reset_chip ni)"
    using ro_safe_set_arg [OF P] P by (auto simp: nmbm_reset_chip_def split: option.split)
qed (auto simp: ro_safe_def)

lemma check_lower_members_keeps:
  "nmbm_check_lower_members nld = (ok, nld') \<Longrightarrow> flags nld' = flags nld \<and> arg nld' = arg nld \<and>
    (dev_keeps D nld' \<longleftrightarrow> dev_keeps D nld)"
  by (auto simp: nmbm_check_lower_members_def Let_def dev_keeps_def split: if_splits)

text \<open>
  C4. Attaching to a device that is flagged read-only does not write to it, whatever is on the
  chip: no call of \<open>write_page\<close>, \<open>erase_block\<close> or \<open>mark_bad_block\<close> is
  made, so any property of the device that reading, bad block queries and chip resets keep
  holds afterwards.
\<close>

theorem attach_read_only_safe:
  assumes "nmbm_attach crc mem (Some nld) (Some ni) = Some (r, Some ni')"
    "fst (nmbm_check_lower_members nld)" "flags nld AND NMBM_F_READ_ONLY \<noteq> 0"
    "dev_keeps D nld" "D (arg nld)"
  shows "D (arg (lower ni')) \<and> flags (lower ni') AND NMBM_F_READ_ONLY \<noteq> 0"
proof -
  obtain ok nld' where c: "nmbm_check_lower_members nld = (ok, nld')" by fastforce
  have "ro_safe D x" if "lower x = snd (nmbm_check_lower_members nld)" for x :: "'a nmbm_instance"
    using that c check_lower_members_keeps [OF c, of D] assms(3-5) by (simp add: ro_safe_def)
  then have "ro_safe D (nmbm_init_structure mem (ni\<lparr>log_display_level := NMBM_DEFAULT_LOG_LEVEL,
      lower := snd (nmbm_check_lower_members nld)\<rparr>))"
    by (simp add: nmbm_init_structure_def Let_def)
  from ro.P_attach [OF assms(1,2) this] show ?thesis by (simp add: ro_safe_def)
qed

section \<open>The search for the signature\<close>

lemma signature_from_returns: "limit \<noteq> 0 \<Longrightarrow> \<exists>r. signature_from crc ni ba limit = Some r"
proof (induction "unat ba" arbitrary: ba ni rule: less_induct)
  case less
  show ?case
  proof (cases "ba \<ge> limit")
    case True
    with less.prems have "ba \<noteq> 0" by auto
    then have "unat (ba - 1) < unat ba" by (simp add: unat_minus_one unat_gt_0)
    note IH = less.hyps [OF this less.prems]
    show ?thesis
      using IH by (subst signature_from.simps) (auto simp: Let_def split: prod.split)
  qed (simp add: signature_from.simps)
qed

text \<open>The search for the signature ends if its lower limit is not block 0.\<close>

lemma find_signature_returns:
  assumes "signature_limit ni \<noteq> 0"
  shows "\<exists>r. nmbm_find_signature crc ni = Some r"
  using signature_from_returns [OF assms] by (simp add: nmbm_find_signature_def)

lemma find_signature_returns_witness: "\<exists>r. nmbm_find_signature (\<lambda>c b. c) sample_ni = Some r"
proof (rule find_signature_returns)
  have "ucast (drop_bit 7 (4096 :: u64)) = (32 :: u32)" by simp
  then show "signature_limit sample_ni \<noteq> 0"
    by (simp add: signature_limit_def Let_def NMBM_MGMT_DIV_def)
qed

lemma signature_from_endless:
  "signature_from crc ni ba limit = Some y \<Longrightarrow>
    \<not> (limit = 0 \<and> (\<exists>f. is_bad_block (lower ni) = Some f \<and> (\<forall>d a. fst (f d a) \<noteq> 0)))"
proof (erule signature_from.raw_induct [where P = "\<lambda>crc ni ba limit y.
    \<not> (limit = 0 \<and> (\<exists>f. is_bad_block (lower ni) = Some f \<and> (\<forall>d a. fst (f d a) \<noteq> 0)))", rotated], rule notI)
  fix g :: "(u32 \<Rightarrow> bytes \<Rightarrow> u32) \<Rightarrow> 'd nmbm_instance \<Rightarrow> u32 \<Rightarrow> u32 \<Rightarrow> _" and crc ni ba limit y
  assume IH: "\<And>crc ni ba limit y. g crc ni ba limit = Some y \<Longrightarrow>
      \<not> (limit = 0 \<and> (\<exists>f. is_bad_block (lower ni) = Some f \<and> (\<forall>d a. fst (f d a) \<noteq> 0)))"
    and step: "(if limit \<le> ba
      then let ba = ba - 1; (bad, ni) = nmbm_check_bad_phys_block ni ba
           in if bad then g crc ni ba limit
              else let (found, ni) = signature_in_pages (page_offs ni) crc ni (ba2addr ni ba)
                   in if found = None then g crc ni ba limit else Some (Some (the found, ba), ni)
      else Some (None, ni)) = Some y"
    and h: "limit = 0 \<and> (\<exists>f. is_bad_block (lower ni) = Some f \<and> (\<forall>d a. fst (f d a) \<noteq> 0))"
  then obtain f where f: "is_bad_block (lower ni) = Some f" "\<And>d a. fst (f d a) \<noteq> 0" by blast
  obtain ret x where x: "f (arg (lower ni)) (ba2addr ni (ba - 1)) = (ret, x)" by fastforce
  have "ret \<noteq> 0" using f(2) [of "arg (lower ni)" "ba2addr ni (ba - 1)"] x by simp
  then have c: "nmbm_check_bad_phys_block ni (ba - 1) = (True, set_arg x ni)"
    using f(1) x by (simp add: nmbm_check_bad_phys_block_def lower_is_bad_block_def)
  have "g crc (set_arg x ni) (ba - 1) 0 = Some y" using step h c by (simp add: Let_def)
  from IH [OF this] f show False by auto
qed

lemma signature_limit_small:
  assumes "unat (drop_bit (unat (erasesize_shift ni)) (chip_size (lower ni))) < 16"
    "max_reserved_blocks (lower ni) = 0"
  shows "signature_limit ni = 0"
proof -
  let ?n = "drop_bit (unat (erasesize_shift ni)) (chip_size (lower ni))"
  have "(ucast ?n :: u32) div NMBM_MGMT_DIV = 0"
    using assms(1) by (simp add: word_unat_eq_iff unat_div NMBM_MGMT_DIV_def unat_ucast_u64_u32)
  then show ?thesis using assms(2) by (simp add: signature_limit_def Let_def)
qed

text \<open>
  C26. On a chip with less than 16 blocks (and no limit on the reserved blocks) the lower limit
  of the search is block 0, and as the loop decrements an unsigned number and compares it with
  0 afterwards, a search that finds no usable block never ends.
\<close>

theorem find_signature_endless:
  assumes "unat (drop_bit (unat (erasesize_shift ni)) (chip_size (lower ni))) < 16"
    "max_reserved_blocks (lower ni) = 0"
    "is_bad_block (lower ni) = Some f" "\<And>d a. fst (f d a) \<noteq> 0"
  shows "nmbm_find_signature crc ni = None"
proof (rule ccontr)
  assume "nmbm_find_signature crc ni \<noteq> None"
  then obtain y where "nmbm_find_signature crc ni = Some y" by blast
  from signature_from_endless [OF this [unfolded nmbm_find_signature_def]] show False
    using signature_limit_small [OF assms(1,2)] assms(3,4) by blast
qed

theorem find_signature_endless_witness:
  "nmbm_find_signature (\<lambda>c b. c) (sample_ni\<lparr>lower := sample_lower\<lparr>chip_size := 1024,
     is_bad_block := Some (\<lambda>st _. (1, st))\<rparr>\<rparr>) = None"
  by (rule find_signature_endless [where f = "\<lambda>st _. (1 :: int, st)"]) simp_all

lemma attach_returns:
  assumes "fst (nmbm_check_lower_members nld)"
    "signature_limit (nmbm_init_structure mem (ni\<lparr>log_display_level := NMBM_DEFAULT_LOG_LEVEL,
       lower := snd (nmbm_check_lower_members nld)\<rparr>)) \<noteq> 0"
  shows "\<exists>r ni'. nmbm_attach crc mem (Some nld) (Some ni) = Some (r, Some ni')"
proof -
  obtain f where "nmbm_find_signature crc (nmbm_init_structure mem
      (ni\<lparr>log_display_level := NMBM_DEFAULT_LOG_LEVEL, lower := snd (nmbm_check_lower_members nld)\<rparr>)) = Some f"
    using signature_from_returns [OF assms(2)] unfolding nmbm_find_signature_def by blast
  with assms(1) show ?thesis
    by (auto simp: nmbm_attach_def Let_def split_beta split: prod.split option.split)
qed

definition ro_lower :: "sim_nand nmbm_lower_device" where
  "ro_lower = sample_lower\<lparr>flags := NMBM_F_READ_ONLY\<rparr>"

lemma ro_lower_accepted: "nmbm_check_lower_members ro_lower = (True, ro_lower)"
  by (simp add: nmbm_check_lower_members_def ro_lower_def is_power_of_2_u64_def is_power_of_2_def
      nmbm_consts NMBM_F_READ_ONLY_def Let_def)

lemma sample_attach: "\<exists>r ni'. nmbm_attach (\<lambda>c b. c) [] (Some ro_lower) (Some sample_ni) = Some (r, Some ni')"
proof -
  have "ffs 128 = 8" by (simp add: ffs_def upt_rec)
  then have "erasesize_shift (nmbm_init_structure [] (sample_ni\<lparr>log_display_level := NMBM_DEFAULT_LOG_LEVEL,
      lower := ro_lower\<rparr>)) = 7"
    by (simp add: nmbm_init_structure_def Let_def ro_lower_def)
  then have "signature_limit (nmbm_init_structure [] (sample_ni\<lparr>log_display_level := NMBM_DEFAULT_LOG_LEVEL,
      lower := snd (nmbm_check_lower_members ro_lower)\<rparr>)) \<noteq> 0"
    by (simp add: signature_limit_def Let_def ro_lower_accepted NMBM_MGMT_DIV_def,
        simp add: nmbm_init_structure_def Let_def ro_lower_def)
  then show ?thesis
    using attach_returns [of ro_lower "[]" sample_ni "\<lambda>c b. c"] ro_lower_accepted by auto
qed

theorem attach_read_only_safe_witness:
  "\<exists>r ni'. nmbm_attach (\<lambda>c b. c) [] (Some ro_lower) (Some sample_ni) = Some (r, Some ni') \<and>
    arg (lower ni') = sim_blank"
proof -
  obtain r ni' where a: "nmbm_attach (\<lambda>c b. c) [] (Some ro_lower) (Some sample_ni) = Some (r, Some ni')"
    using sample_attach by blast
  have "arg (lower ni') = sim_blank"
    using attach_read_only_safe [OF a, of "\<lambda>d. d = sim_blank"] ro_lower_accepted
    by (simp add: dev_keeps_def ro_lower_def sim_read_def NMBM_F_READ_ONLY_def)
  with a show ?thesis by blast
qed

end
