(* ===== verification/Nmbm_Logic.thy ===== *)
theory Nmbm_Logic
  imports Nmbm_Load
begin

text \<open>
  The operations on logic addresses, which are what NMBM offers to its users
  (\<open>nmbm-core.c\<close>, \<open>nmbm_erase_logic_block\<close> to \<open>nmbm_get_lower_device\<close>).
  \<open>None\<close> is a NULL instance. An output parameter is a component of the result:
  \<open>None\<close> where it is not written.
\<close>

section \<open>Erasing\<close>

text \<open>
  The part of \<open>nmbm_erase_logic_block\<close> before the label \<open>remap_logic_block\<close>: true if
  the block was erased, false if it has to be remapped.
\<close>

definition erase_mapped_block :: "'d nmbm_instance \<Rightarrow> u32 \<Rightarrow> bool \<times> 'd nmbm_instance" where
  "erase_mapped_block ni pb =
     (if nmbm_get_block_state ni pb = BLOCK_ST_BAD \<or> nmbm_get_block_state ni pb = BLOCK_ST_NEED_REMAP
      then (False, ni)
      else
        let (bad, ni) = nmbm_check_bad_phys_block ni pb
        in if bad then (False, snd (nmbm_set_block_state ni pb BLOCK_ST_BAD))
           else
             let (success, ni) = nmbm_erase_block_and_check ni pb
             in if success then (True, ni) else (False, mark_block_bad ni pb))"

text \<open>Recording the state of a block that was given up, and writing the tables.\<close>

definition retire_block ::
  "(u32 \<Rightarrow> bytes \<Rightarrow> u32) \<Rightarrow> 'd nmbm_instance \<Rightarrow> u32 \<Rightarrow> 'd nmbm_instance" where
  "retire_block crc ni pb =
     (let ni = (if nmbm_get_block_state ni pb \<noteq> BLOCK_ST_NEED_REMAP
                then snd (nmbm_set_block_state ni pb BLOCK_ST_BAD) else ni)
      in snd (nmbm_update_info_table crc ni))"

lemma erase_mapped_block_top:
  "erase_mapped_block ni pb = (r, ni') \<Longrightarrow> mapping_blocks_top_ba ni' = mapping_blocks_top_ba ni"
proof -
  let ?P = "top_is (mapping_blocks_top_ba ni)"
  assume eq: "erase_mapped_block ni pb = (r, ni')"
  have set: "?P x \<Longrightarrow> ?P (snd (nmbm_set_block_state x pb BLOCK_ST_BAD))" for x
    by (simp add: top_is_def)
  have "?P ni" by (simp add: top_is_def)
  with eq have "?P ni'"
    by (auto simp: erase_mapped_block_def Let_def mark_block_bad_def split: if_splits prod.splits
        dest: top_dev.P_check_bad top_dev.P_erase_and_check top_dev.P_mark_phys_bad intro!: set)
  then show ?thesis by (simp add: top_is_def)
qed

lemma retire_block_top: "mapping_blocks_top_ba (retire_block crc ni pb) = mapping_blocks_top_ba ni"
  by (simp add: retire_block_def Let_def update_info_table_top)

text \<open>
  The loop ends because each round takes a block from the spare blocks: \<open>nmbm_map_block\<close>
  lowers their top, and nothing else of the round changes it.
\<close>

function nmbm_erase_logic_block ::
  "(u32 \<Rightarrow> bytes \<Rightarrow> u32) \<Rightarrow> 'd nmbm_instance \<Rightarrow> u32 \<Rightarrow> int \<times> 'd nmbm_instance" where
  "nmbm_erase_logic_block crc ni block_addr =
     (let pb = block_mapping ni ! unat block_addr
      in if sint pb < 0 then (- EIO, ni)
         else
           case erase_mapped_block ni pb of
             (True, ni1) \<Rightarrow> (0, ni1)
           | (False, ni1) \<Rightarrow>
             (case nmbm_map_block crc ni1 block_addr of
                (False, ni2) \<Rightarrow>
                  (- EIO, retire_block crc
                     (ni2\<lparr>block_mapping := (block_mapping ni2)[unat block_addr := - 1]\<rparr>) pb)
              | (True, ni2) \<Rightarrow> nmbm_erase_logic_block crc (retire_block crc ni2 pb) block_addr))"
  by pat_completeness auto
termination
proof (relation "measure (\<lambda>(crc, ni, block_addr). unat (mapping_blocks_top_ba ni))", goal_cases)
  case 1
  then show ?case by simp
next
  case (2 crc ni block_addr pb r1 ni1 r2 ni2)
  then have "erase_mapped_block ni pb = (False, ni1)" "nmbm_map_block crc ni1 block_addr = (True, ni2)"
    by simp_all
  then show ?case
    using map_block_top_decreases erase_mapped_block_top by (fastforce simp: retire_block_top)
qed

declare nmbm_erase_logic_block.simps [simp del]

fun erase_logic_blocks ::
  "u32 list \<Rightarrow> (u32 \<Rightarrow> bytes \<Rightarrow> u32) \<Rightarrow> 'd nmbm_instance \<Rightarrow> (int \<times> u64 option) \<times> 'd nmbm_instance" where
  "erase_logic_blocks [] crc ni = ((0, None), ni)"
| "erase_logic_blocks (ba # rest) crc ni =
     (let (ret, ni) = nmbm_erase_logic_block crc ni ba
      in if ret \<noteq> 0 then ((ret, Some (ba2addr ni ba)), ni) else erase_logic_blocks rest crc ni)"

text \<open>
  Both ends of the range are below \<open>data_block_count\<close>, so \<open>start_ba++\<close> does not wrap.
\<close>

definition nmbm_erase_block_range ::
  "(u32 \<Rightarrow> bytes \<Rightarrow> u32) \<Rightarrow> 'd nmbm_instance option \<Rightarrow> u64 \<Rightarrow> u64
    \<Rightarrow> (int \<times> u64 option) \<times> 'd nmbm_instance option" where
  "nmbm_erase_block_range crc nip addr sz =
     (case nip of None \<Rightarrow> ((- EINVAL, None), None)
      | Some ni \<Rightarrow>
        if protected ni \<noteq> 0 \<or> read_only_flag ni then ((- EROFS, None), Some ni)
        else if addr \<ge> ba2addr ni (data_block_count ni) then ((- EINVAL, None), Some ni)
        else if addr + sz > ba2addr ni (data_block_count ni) then ((- EINVAL, None), Some ni)
        else if sz = 0 then ((0, None), Some ni)
        else
          let start_ba = addr2ba ni addr;
              end_ba = addr2ba ni (addr + sz - 1);
              (r, ni) = erase_logic_blocks (map of_nat [unat start_ba..<Suc (unat end_ba)]) crc ni
          in (r, Some ni))"

section \<open>Reading\<close>

definition nmbm_read_logic_page ::
  "'d nmbm_instance \<Rightarrow> u64 \<Rightarrow> bytes option \<Rightarrow> bytes option \<Rightarrow> nmbm_oob_mode
    \<Rightarrow> (int \<times> bytes option \<times> bytes option) \<times> 'd nmbm_instance" where
  "nmbm_read_logic_page ni addr data oob mode =
     (let lb = addr2ba ni addr;
          offset = ucast addr AND erasesize_mask ni;
          pb = block_mapping ni ! unat lb
      in if sint pb < 0 then ((- EIO, data, oob), ni)
         else if nmbm_get_block_state ni pb = BLOCK_ST_BAD then ((- EIO, data, oob), ni)
         else nmbm_read_phys_page ni (ba2addr ni pb + ucast offset) data oob mode)"

definition nmbm_read_single_page ::
  "'d nmbm_instance option \<Rightarrow> u64 \<Rightarrow> bytes option \<Rightarrow> bytes option \<Rightarrow> nmbm_oob_mode
    \<Rightarrow> (int \<times> bytes option \<times> bytes option) \<times> 'd nmbm_instance option" where
  "nmbm_read_single_page nip addr data oob mode =
     (case nip of None \<Rightarrow> ((- EINVAL, data, oob), None)
      | Some ni \<Rightarrow>
        if protected ni \<noteq> 0 then ((- EROFS, data, oob), Some ni)
        else if addr \<ge> ba2addr ni (data_block_count ni) then ((- EINVAL, data, oob), Some ni)
        else let (r, ni) = nmbm_read_logic_page ni addr data oob mode in (r, Some ni))"

text \<open>
  The loop of \<open>nmbm_read_range\<close>; its result is \<open>ret\<close>, \<open>has_ecc_err\<close>,
  \<open>max_bitflips\<close>, \<open>sizeremain\<close> and the buffer. Every chunk has at least one byte,
  so the size bounds the chunks.
\<close>

fun read_range_chunks ::
  "nat \<Rightarrow> 'd nmbm_instance \<Rightarrow> u64 \<Rightarrow> bytes \<Rightarrow> nat \<Rightarrow> nat \<Rightarrow> nmbm_oob_mode \<Rightarrow> bool \<Rightarrow> int \<Rightarrow> int
    \<Rightarrow> (int \<times> bool \<times> int \<times> nat \<times> bytes) \<times> 'd nmbm_instance" where
  "read_range_chunks 0 ni off data pos sizeremain mode ecc bitflips ret =
     ((ret, ecc, bitflips, sizeremain, data), ni)"
| "read_range_chunks (Suc n) ni off data pos sizeremain mode ecc bitflips ret =
     (if sizeremain = 0 then ((ret, ecc, bitflips, sizeremain, data), ni)
      else
        let leading = chunk_leading ni off;
            chunksize = chunk_size ni off sizeremain;
            whole = (chunksize = unat (writesize (lower ni)));
            ((ret, ptr, _), ni) = nmbm_read_logic_page ni (off - of_nat leading)
                (Some (if whole then drop pos data else page_cache ni)) None mode;
            (data, ni) = (if whole then (take pos data @ the ptr, ni)
                          else (data, ni\<lparr>page_cache := the ptr\<rparr>))
        in if ret < 0 \<and> ret \<noteq> - EBADMSG then ((ret, ecc, bitflips, sizeremain, data), ni)
           else
             let data = (if whole then data
                         else buf_put pos (buf_get leading chunksize (page_cache ni)) data)
             in read_range_chunks n ni (off + of_nat chunksize) data (pos + chunksize)
                  (sizeremain - chunksize) mode (ecc \<or> ret = - EBADMSG) (max bitflips ret) ret)"

text \<open>The result is the return value, \<open>*retlen\<close> and the buffer.\<close>

definition nmbm_read_range ::
  "'d nmbm_instance option \<Rightarrow> u64 \<Rightarrow> u64 \<Rightarrow> bytes \<Rightarrow> nmbm_oob_mode
    \<Rightarrow> (int \<times> u64 option \<times> bytes) \<times> 'd nmbm_instance option" where
  "nmbm_read_range nip addr sz data mode =
     (case nip of None \<Rightarrow> ((- EINVAL, None, data), None)
      | Some ni \<Rightarrow>
        if protected ni \<noteq> 0 then ((- EROFS, None, data), Some ni)
        else if addr \<ge> ba2addr ni (data_block_count ni) then ((- EINVAL, None, data), Some ni)
        else if addr + sz > ba2addr ni (data_block_count ni) then ((- EINVAL, None, data), Some ni)
        else if sz = 0 then ((0, None, data), Some ni)
        else
          let ((ret, ecc, bitflips, sizeremain, data), ni) =
                read_range_chunks (unat sz) ni addr data 0 (unat sz) mode False 0 0;
              retlen = sz - of_nat sizeremain
          in if ret < 0 \<and> ret \<noteq> - EBADMSG then ((ret, Some retlen, data), Some ni)
             else if ecc then ((- EBADMSG, Some retlen, data), Some ni)
             else ((bitflips, Some retlen, data), Some ni))"

section \<open>Writing\<close>

definition nmbm_write_logic_page ::
  "(u32 \<Rightarrow> bytes \<Rightarrow> u32) \<Rightarrow> 'd nmbm_instance \<Rightarrow> u64 \<Rightarrow> bytes option \<Rightarrow> bytes option
    \<Rightarrow> nmbm_oob_mode \<Rightarrow> int \<times> 'd nmbm_instance" where
  "nmbm_write_logic_page crc ni addr data oob mode =
     (let lb = addr2ba ni addr;
          offset = ucast addr AND erasesize_mask ni;
          pb = block_mapping ni ! unat lb
      in if sint pb < 0 then (- EIO, ni)
         else if nmbm_get_block_state ni pb = BLOCK_ST_BAD then (- EIO, ni)
         else
           let (success, ni) = nmbm_write_phys_page ni (ba2addr ni pb + ucast offset) data oob mode
           in if success then (0, ni)
              else
                let ni = snd (nmbm_set_block_state ni pb BLOCK_ST_NEED_REMAP)
                in (- EIO, snd (nmbm_update_info_table crc ni)))"

definition nmbm_panic_write_logic_page ::
  "(u32 \<Rightarrow> bytes \<Rightarrow> u32) \<Rightarrow> 'd nmbm_instance \<Rightarrow> u64 \<Rightarrow> bytes \<Rightarrow> int \<times> 'd nmbm_instance" where
  "nmbm_panic_write_logic_page crc ni addr data =
     (if panic_write_page (lower ni) = None then (- ENOTSUPP, ni)
      else
        let lb = addr2ba ni addr;
            offset = ucast addr AND erasesize_mask ni;
            pb = block_mapping ni ! unat lb
        in if sint pb < 0 then (- EIO, ni)
           else if nmbm_get_block_state ni pb = BLOCK_ST_BAD then (- EIO, ni)
           else
             let (success, ni) = nmbm_panic_write_phys_page ni (ba2addr ni pb + ucast offset) data
             in if success then (0, ni)
                else
                  let ni = snd (nmbm_set_block_state ni pb BLOCK_ST_NEED_REMAP)
                  in (- EIO, snd (nmbm_update_info_table crc ni)))"

definition nmbm_write_single_page ::
  "(u32 \<Rightarrow> bytes \<Rightarrow> u32) \<Rightarrow> 'd nmbm_instance option \<Rightarrow> u64 \<Rightarrow> bytes option \<Rightarrow> bytes option
    \<Rightarrow> nmbm_oob_mode \<Rightarrow> int \<times> 'd nmbm_instance option" where
  "nmbm_write_single_page crc nip addr data oob mode =
     (case nip of None \<Rightarrow> (- EINVAL, None)
      | Some ni \<Rightarrow>
        if protected ni \<noteq> 0 \<or> read_only_flag ni then (- EROFS, Some ni)
        else if addr \<ge> ba2addr ni (data_block_count ni) then (- EINVAL, Some ni)
        else let (r, ni) = nmbm_write_logic_page crc ni addr data oob mode in (r, Some ni))"

definition nmbm_panic_write_single_page ::
  "(u32 \<Rightarrow> bytes \<Rightarrow> u32) \<Rightarrow> 'd nmbm_instance option \<Rightarrow> u64 \<Rightarrow> bytes
    \<Rightarrow> int \<times> 'd nmbm_instance option" where
  "nmbm_panic_write_single_page crc nip addr data =
     (case nip of None \<Rightarrow> (- EINVAL, None)
      | Some ni \<Rightarrow>
        if protected ni \<noteq> 0 \<or> read_only_flag ni then (- EROFS, Some ni)
        else if addr \<ge> ba2addr ni (data_block_count ni) then (- EINVAL, Some ni)
        else let (r, ni) = nmbm_panic_write_logic_page crc ni addr data in (r, Some ni))"

text \<open>
  The loop of \<open>nmbm_write_range\<close>. A partial page is written from the page cache, where
  the bytes before the data are filled with \<open>0xff\<close> and the bytes behind it keep what the
  last use of the cache left there.
\<close>

fun write_range_chunks ::
  "nat \<Rightarrow> (u32 \<Rightarrow> bytes \<Rightarrow> u32) \<Rightarrow> 'd nmbm_instance \<Rightarrow> u64 \<Rightarrow> bytes \<Rightarrow> nat \<Rightarrow> nmbm_oob_mode \<Rightarrow> int
    \<Rightarrow> (int \<times> nat) \<times> 'd nmbm_instance" where
  "write_range_chunks 0 crc ni off ptr sizeremain mode ret = ((ret, sizeremain), ni)"
| "write_range_chunks (Suc n) crc ni off ptr sizeremain mode ret =
     (if sizeremain = 0 then ((ret, sizeremain), ni)
      else
        let leading = chunk_leading ni off;
            chunksize = chunk_size ni off sizeremain;
            whole = (chunksize = unat (writesize (lower ni)));
            ni = (if whole then ni
                  else ni\<lparr>page_cache := buf_put leading (take chunksize ptr)
                            (memset 0 0xff leading (page_cache ni))\<rparr>);
            (ret, ni) = nmbm_write_logic_page crc ni (off - of_nat leading)
                (Some (if whole then ptr else page_cache ni)) None mode
        in if ret \<noteq> 0 then ((ret, sizeremain), ni)
           else write_range_chunks n crc ni (off + of_nat chunksize) (drop chunksize ptr)
                  (sizeremain - chunksize) mode ret)"

definition nmbm_write_range ::
  "(u32 \<Rightarrow> bytes \<Rightarrow> u32) \<Rightarrow> 'd nmbm_instance option \<Rightarrow> u64 \<Rightarrow> u64 \<Rightarrow> bytes \<Rightarrow> nmbm_oob_mode
    \<Rightarrow> (int \<times> u64 option) \<times> 'd nmbm_instance option" where
  "nmbm_write_range crc nip addr sz data mode =
     (case nip of None \<Rightarrow> ((- EINVAL, None), None)
      | Some ni \<Rightarrow>
        if protected ni \<noteq> 0 \<or> read_only_flag ni then ((- EROFS, None), Some ni)
        else if addr \<ge> ba2addr ni (data_block_count ni) then ((- EINVAL, None), Some ni)
        else if addr + sz > ba2addr ni (data_block_count ni) then ((- EINVAL, None), Some ni)
        else if sz = 0 then ((0, None), Some ni)
        else
          let ((ret, sizeremain), ni) =
                write_range_chunks (unat sz) crc ni addr data (unat sz) mode 0
          in ((ret, Some (sz - of_nat sizeremain)), Some ni))"

section \<open>Bad blocks and queries\<close>

definition nmbm_check_bad_block :: "'d nmbm_instance option \<Rightarrow> u64 \<Rightarrow> int" where
  "nmbm_check_bad_block nip addr =
     (case nip of None \<Rightarrow> - EINVAL
      | Some ni \<Rightarrow>
        if addr \<ge> ba2addr ni (data_block_count ni) then - EINVAL
        else
          let lb = addr2ba ni addr;
              pb = block_mapping ni ! unat lb
          in if sint pb < 0 then 1
             else if nmbm_get_block_state ni pb = BLOCK_ST_BAD then 1
             else 0)"

definition nmbm_mark_bad_block ::
  "(u32 \<Rightarrow> bytes \<Rightarrow> u32) \<Rightarrow> 'd nmbm_instance option \<Rightarrow> u64 \<Rightarrow> int \<times> 'd nmbm_instance option" where
  "nmbm_mark_bad_block crc nip addr =
     (case nip of None \<Rightarrow> (- EINVAL, None)
      | Some ni \<Rightarrow>
        if protected ni \<noteq> 0 \<or> read_only_flag ni then (- EROFS, Some ni)
        else if addr \<ge> ba2addr ni (data_block_count ni) then (- EINVAL, Some ni)
        else
          let lb = addr2ba ni addr;
              pb = block_mapping ni ! unat lb
          in if sint pb < 0 then (0, Some ni)
             else
               let ni = ni\<lparr>block_mapping := (block_mapping ni)[unat lb := - 1]\<rparr>;
                   ni = mark_block_bad ni pb
               in (0, Some (snd (nmbm_update_info_table crc ni))))"

definition nmbm_get_avail_size :: "'d nmbm_instance option \<Rightarrow> u64" where
  "nmbm_get_avail_size nip =
     (case nip of None \<Rightarrow> 0
      | Some ni \<Rightarrow> push_bit (unat (erasesize_shift ni)) (ucast (data_block_count ni)))"

text \<open>The result is the return value and what is copied to \<open>nld\<close>.\<close>

definition nmbm_get_lower_device ::
  "'d nmbm_instance option \<Rightarrow> int \<times> 'd nmbm_lower_device option" where
  "nmbm_get_lower_device nip =
     (case nip of None \<Rightarrow> (- EINVAL, None) | Some ni \<Rightarrow> (0, Some (lower ni)))"


section \<open>Invariants of the logic operations\<close>

context ftl_writes
begin

lemma P_erase_mapped: "erase_mapped_block ni pb = (r, ni') \<Longrightarrow> P ni \<Longrightarrow> P ni'"
  unfolding erase_mapped_block_def Let_def
  by (auto split: if_splits prod.splits dest!: P_check_bad P_erase_and_check
      intro: P_set_bad P_block_bad)

lemma P_update: "P ni \<Longrightarrow> P (snd (nmbm_update_info_table crc ni))"
  using P_update_table by (metis prod.collapse)

lemma P_retire: "P ni \<Longrightarrow> P (retire_block crc ni pb)"
  unfolding retire_block_def Let_def by (auto intro!: P_update P_set_bad)

lemma P_erase_logic: "nmbm_erase_logic_block crc ni b = (r, ni') \<Longrightarrow> P ni \<Longrightarrow> P ni'"
proof (induction "unat (mapping_blocks_top_ba ni)" arbitrary: ni rule: less_induct)
  case less
  let ?pb = "block_mapping ni ! unat b"
  obtain d ni1 where e: "erase_mapped_block ni ?pb = (d, ni1)" by fastforce
  obtain s ni2 where m: "nmbm_map_block crc ni1 b = (s, ni2)" by fastforce
  have P: "P ni1" "P ni2" using P_erase_mapped [OF e less.prems(2)] P_map_block [OF m] by simp_all
  have "unat (mapping_blocks_top_ba (retire_block crc ni2 ?pb)) < unat (mapping_blocks_top_ba ni)" if s
    using that map_block_top_decreases [of crc ni1 b ni2] m erase_mapped_block_top [OF e]
    by (simp add: retire_block_top)
  then show ?case
    using less e m P P_retire [OF P(2)] P_retire [OF P_remap [OF P(2)]]
    by (auto simp: nmbm_erase_logic_block.simps [of crc ni b] Let_def split: if_splits bool.splits)
qed

lemma P_erase_blocks: "erase_logic_blocks bs crc ni = (r, ni') \<Longrightarrow> P ni \<Longrightarrow> P ni'"
  by (induction bs arbitrary: ni) (auto split: prod.splits if_splits dest!: P_erase_logic)

lemma P_read_logic: "nmbm_read_logic_page ni a d oob m = (r, ni') \<Longrightarrow> P ni \<Longrightarrow> P ni'"
  unfolding nmbm_read_logic_page_def Let_def by (auto split: if_splits dest: P_read_phys)

lemma P_need_remap_update:
  "P ni \<Longrightarrow> nmbm_get_block_state ni pb \<noteq> BLOCK_ST_BAD \<Longrightarrow>
    P (snd (nmbm_update_info_table crc (snd (nmbm_set_block_state ni pb BLOCK_ST_NEED_REMAP))))"
  by (intro P_update P_need_remap)

end

section \<open>Bad blocks\<close>

text \<open>Writing to a page changes no block state.\<close>

definition states_are :: "u32 list \<Rightarrow> 'd nmbm_instance \<Rightarrow> bool" where
  "states_are bs ni \<longleftrightarrow> block_state ni = bs"

interpretation states_dev: arg_free "states_are bs" for bs
  by unfold_locales (simp_all add: states_are_def set_arg_def)

lemma write_phys_page_state:
  "nmbm_write_phys_page ni a d oob m = (r, ni') \<Longrightarrow> nmbm_get_block_state ni' b = nmbm_get_block_state ni b"
  "nmbm_panic_write_phys_page ni a x = (r, ni') \<Longrightarrow> nmbm_get_block_state ni' b = nmbm_get_block_state ni b"
  using states_dev.P_write_phys [of ni a d oob m r ni' "block_state ni"]
    states_dev.P_panic_phys [of ni a x r ni' "block_state ni"]
  by (auto simp: states_are_def intro: get_block_state_cong)

context ftl_writes
begin

lemma P_write_logic: "nmbm_write_logic_page crc ni a d oob m = (r, ni') \<Longrightarrow> P ni \<Longrightarrow> P ni'"
  unfolding nmbm_write_logic_page_def Let_def
  by (auto split: if_splits prod.splits intro!: P_need_remap_update
      simp: write_phys_page_state dest: P_write_phys)

lemma P_panic_logic: "nmbm_panic_write_logic_page crc ni a d = (r, ni') \<Longrightarrow> P ni \<Longrightarrow> P ni'"
  unfolding nmbm_panic_write_logic_page_def Let_def
  by (auto split: if_splits prod.splits intro!: P_need_remap_update
      simp: write_phys_page_state dest: P_panic_phys)

lemma P_write_chunks:
  "write_range_chunks n crc ni off ptr szr m r0 = (r, ni') \<Longrightarrow> P ni \<Longrightarrow> P ni'"
  by (induction n arbitrary: ni off ptr szr r0)
    (auto simp: Let_def split: if_splits prod.splits dest!: P_write_logic intro!: P_page_cache)

lemma P_read_chunks:
  "read_range_chunks n ni off data pos szr m ecc bf r0 = (r, ni') \<Longrightarrow> P ni \<Longrightarrow> P ni'"
proof (induction n arbitrary: ni off data pos szr ecc bf r0)
  case (Suc n)
  let ?d = "Some (if chunk_size ni off szr = unat (writesize (lower ni)) then drop pos data else page_cache ni)"
  obtain ret ptr x ni1 where l: "nmbm_read_logic_page ni (off - of_nat (chunk_leading ni off)) ?d None m
      = ((ret, ptr, x), ni1)" by (metis prod.collapse)
  have "P ni1" by (rule P_read_logic [OF l Suc.prems(2)])
  then have "P ni1" "P (ni1\<lparr>page_cache := the ptr\<rparr>)" by (simp_all add: P_page_cache)
  then show ?case
    using Suc.prems Suc.IH l by (auto simp: Let_def split: if_splits)
qed auto

end


section \<open>The interface as a state machine\<close>

text \<open>
  A step is one call of an operation of the interface on an attached instance, with any
  arguments and any behaviour of the device.
\<close>

inductive nmbm_step :: "(u32 \<Rightarrow> bytes \<Rightarrow> u32) \<Rightarrow> 'd nmbm_instance \<Rightarrow> 'd nmbm_instance \<Rightarrow> bool"
  for crc where
  step_erase: "nmbm_erase_block_range crc (Some ni) addr sz = (r, Some ni') \<Longrightarrow> nmbm_step crc ni ni'"
| step_read_page: "nmbm_read_single_page (Some ni) addr data oob mode = (r', Some ni') \<Longrightarrow> nmbm_step crc ni ni'"
| step_read: "nmbm_read_range (Some ni) addr sz buf mode = (r'', Some ni') \<Longrightarrow> nmbm_step crc ni ni'"
| step_write_page: "nmbm_write_single_page crc (Some ni) addr data oob mode = (i, Some ni') \<Longrightarrow> nmbm_step crc ni ni'"
| step_panic: "nmbm_panic_write_single_page crc (Some ni) addr buf = (i, Some ni') \<Longrightarrow> nmbm_step crc ni ni'"
| step_write: "nmbm_write_range crc (Some ni) addr sz buf mode = (q, Some ni') \<Longrightarrow> nmbm_step crc ni ni'"
| step_mark_bad: "nmbm_mark_bad_block crc (Some ni) addr = (i, Some ni') \<Longrightarrow> nmbm_step crc ni ni'"
| step_detach: "nmbm_detach crc (Some ni) = (i, Some ni') \<Longrightarrow> nmbm_step crc ni ni'"

inductive_cases nmbm_stepE: "nmbm_step crc ni ni'"

lemma refused:
  assumes "protected ni \<noteq> 0 \<or> read_only_flag ni"
  shows "nmbm_erase_block_range crc (Some ni) addr sz = ((- EROFS, None), Some ni)"
    "nmbm_write_single_page crc (Some ni) addr data oob mode = (- EROFS, Some ni)"
    "nmbm_panic_write_single_page crc (Some ni) addr buf = (- EROFS, Some ni)"
    "nmbm_write_range crc (Some ni) addr sz buf mode = ((- EROFS, None), Some ni)"
    "nmbm_mark_bad_block crc (Some ni) addr = (- EROFS, Some ni)"
  using assms
  by (simp_all add: nmbm_erase_block_range_def nmbm_write_single_page_def
      nmbm_panic_write_single_page_def nmbm_write_range_def nmbm_mark_bad_block_def)

context ftl_writes
begin

lemma P_step: "nmbm_step crc ni ni' \<Longrightarrow> P ni \<Longrightarrow> P ni'"
proof (erule nmbm_stepE, goal_cases)
  case (1 addr sz r)
  then show ?thesis
    by (auto simp: nmbm_erase_block_range_def Let_def split: if_splits prod.splits dest: P_erase_blocks)
next
  case (2 addr data oob mode r)
  then show ?thesis
    by (auto simp: nmbm_read_single_page_def split: if_splits prod.splits dest: P_read_logic)
next
  case (3 addr sz buf mode r)
  then show ?thesis
    by (auto simp: nmbm_read_range_def Let_def split: if_splits prod.splits dest: P_read_chunks)
next
  case (4 addr data oob mode i)
  then show ?thesis
    by (auto simp: nmbm_write_single_page_def split: if_splits prod.splits dest: P_write_logic)
next
  case (5 addr buf i)
  then show ?thesis
    by (auto simp: nmbm_panic_write_single_page_def split: if_splits prod.splits dest: P_panic_logic)
next
  case (6 addr sz buf mode q)
  then show ?thesis
    by (auto simp: nmbm_write_range_def Let_def split: if_splits prod.splits dest: P_write_chunks)
next
  case (7 addr i)
  then show ?thesis
    by (auto simp: nmbm_mark_bad_block_def Let_def split: if_splits intro!: P_update P_block_bad P_remap)
next
  case (8 i)
  then show ?thesis by (auto simp: nmbm_detach_def Let_def split: if_splits intro!: P_update)
qed

lemma P_reach: "(nmbm_step crc)\<^sup>*\<^sup>* ni ni' \<Longrightarrow> P ni \<Longrightarrow> P ni'"
  by (induction rule: rtranclp_induct) (auto intro: P_step)

end

text \<open>
  C3. A block that is recorded as bad stays so: no sequence of operations, and nothing the device
  does, makes NMBM take it for a good one again.
\<close>

theorem bad_block_stays_bad:
  assumes "(nmbm_step crc)\<^sup>*\<^sup>* ni ni'" "nmbm_get_block_state ni ba = BLOCK_ST_BAD"
    "unat ba < 16 * length (block_state ni)"
  shows "nmbm_get_block_state ni' ba = BLOCK_ST_BAD"
  using bad_kept.P_reach [OF assms(1), of "length (block_state ni)" ba] assms(2,3)
  by (simp add: is_bad_def)

text \<open>
  C5. On a device that is flagged read-only no sequence of operations calls a function pointer
  that writes, erases or marks: what reading, bad block queries and chip resets keep of the
  device is kept.
\<close>

theorem operations_read_only_safe:
  assumes "(nmbm_step crc)\<^sup>*\<^sup>* ni ni'" "flags (lower ni) AND NMBM_F_READ_ONLY \<noteq> 0"
    "dev_keeps D (lower ni)" "D (arg (lower ni))"
  shows "D (arg (lower ni'))"
  using ro.P_reach [OF assms(1), of D] assms(2-4) by (simp add: ro_safe_def)

text \<open>
  Once the instance is protected, or on a read-only device, erasing, writing and marking bad
  are refused with \<open>-EROFS\<close>, and neither the instance nor the device changes.
\<close>

lemma protected_refuses:
  assumes "protected ni \<noteq> 0 \<or> flags (lower ni) AND NMBM_F_READ_ONLY \<noteq> 0"
  shows "nmbm_erase_block_range crc (Some ni) addr sz = ((- EROFS, None), Some ni) \<and>
    nmbm_write_single_page crc (Some ni) addr data oob mode = (- EROFS, Some ni) \<and>
    nmbm_panic_write_single_page crc (Some ni) addr buf = (- EROFS, Some ni) \<and>
    nmbm_write_range crc (Some ni) addr sz buf mode = ((- EROFS, None), Some ni) \<and>
    nmbm_mark_bad_block crc (Some ni) addr = (- EROFS, Some ni)"
  using refused [OF assms] by simp


theorem bad_block_stays_bad_witness:
  "\<exists>ni'. (nmbm_step (\<lambda>c b. c))\<^sup>*\<^sup>* bad_top_ni ni' \<and> nmbm_get_block_state ni' 29 = BLOCK_ST_BAD"
proof -
  obtain r ni' where e: "nmbm_erase_block_range (\<lambda>c b. c) (Some bad_top_ni) 0 128 = (r, Some ni')"
    by (cases "nmbm_erase_block_range (\<lambda>c b. c) (Some bad_top_ni) 0 128")
      (auto simp: nmbm_erase_block_range_def Let_def split: if_splits prod.splits)
  then have s: "(nmbm_step (\<lambda>c b. c))\<^sup>*\<^sup>* bad_top_ni ni'" by (blast intro: step_erase)
  have "nmbm_get_block_state bad_top_ni 29 = BLOCK_ST_BAD" "unat (29 :: u32) < 16 * length (block_state bad_top_ni)"
    by (simp_all add: bad_top_ni_def nmbm_get_block_state_def nmbm_get_block_state_raw_def nmbm_consts)
  with s bad_block_stays_bad [OF s] show ?thesis by blast
qed

definition ro_ni :: "sim_nand nmbm_instance" where
  "ro_ni = sample_ni\<lparr>lower := ro_lower\<rparr>"

theorem operations_read_only_safe_witness:
  "\<exists>r ni'. nmbm_read_range (Some ro_ni) 0 4 [0, 0, 0, 0] NMBM_MODE_PLACE_OOB = (r, Some ni') \<and>
    arg (lower ni') = sim_blank"
proof -
  obtain r ni' where e: "nmbm_read_range (Some ro_ni) 0 4 [0, 0, 0, 0] NMBM_MODE_PLACE_OOB = (r, Some ni')"
    by (cases "nmbm_read_range (Some ro_ni) 0 4 [0, 0, 0, 0] NMBM_MODE_PLACE_OOB")
      (auto simp: nmbm_read_range_def Let_def simp del: read_range_chunks.simps split: if_splits prod.splits)
  then have s: "(nmbm_step (\<lambda>c b. c))\<^sup>*\<^sup>* ro_ni ni'" by (blast intro: step_read)
  have "arg (lower ni') = sim_blank"
    using operations_read_only_safe [OF s, of "\<lambda>d. d = sim_blank"]
    by (simp add: ro_ni_def ro_lower_def dev_keeps_def sim_read_def NMBM_F_READ_ONLY_def)
  with e show ?thesis by blast
qed

lemma protected_refuses_witness:
  "nmbm_write_single_page (\<lambda>c b. c) (Some (sample_ni\<lparr>protected := 1\<rparr>)) 0 None None NMBM_MODE_RAW =
    (- EROFS, Some (sample_ni\<lparr>protected := 1\<rparr>))"
  using protected_refuses [of "sample_ni\<lparr>protected := 1\<rparr>" "\<lambda>c b. c" 0 0 None None NMBM_MODE_RAW] by simp


section \<open>Blocks that were given up\<close>

definition unusable :: "nat \<Rightarrow> u32 \<Rightarrow> 'd nmbm_instance \<Rightarrow> bool" where
  "unusable n b ni \<longleftrightarrow> length (block_state ni) = n \<and> unat b < 16 * n \<and>
     (nmbm_get_block_state ni b = BLOCK_ST_BAD \<or> nmbm_get_block_state ni b = BLOCK_ST_NEED_REMAP)"

lemma unusable_set:
  assumes "unusable n b ni" "st = BLOCK_ST_BAD \<or> st = BLOCK_ST_NEED_REMAP"
  shows "unusable n b (snd (nmbm_set_block_state ni ba st))"
proof (cases "unat ba < 16 * length (block_state ni)")
  case True
  have "take_bit 2 BLOCK_ST_BAD = BLOCK_ST_BAD" "take_bit 2 BLOCK_ST_NEED_REMAP = BLOCK_ST_NEED_REMAP"
    by (simp_all add: BLOCK_ST_BAD_def BLOCK_ST_NEED_REMAP_def)
  then show ?thesis
    using assms get_set_state [OF True, of st] by (auto simp: unusable_def set_block_state_frame)
next
  case False
  then show ?thesis
    using assms get_block_state_cong [OF set_block_state_outside, of ni ba st b]
    by (simp add: unusable_def set_block_state_frame)
qed

interpretation unusable_dev: arg_free "unusable n b" for n b
  by unfold_locales (simp_all add: unusable_def set_arg_def nmbm_get_block_state_def)

interpretation unusable_kept: ftl_writes "unusable n b" for n b
  by unfold_locales (simp_all add: unusable_set, simp_all add: unusable_def nmbm_get_block_state_def)

text \<open>What an operation on a block leaves of the mapping and of the addresses.\<close>

definition addressing_is :: "u16 \<times> u32 \<times> u32 list \<Rightarrow> 'd nmbm_instance \<Rightarrow> bool" where
  "addressing_is a ni \<longleftrightarrow> (erasesize_shift ni, data_block_count ni, block_mapping ni) = a"

interpretation addressing_dev: arg_free "addressing_is a" for a
  by unfold_locales (simp_all add: addressing_is_def set_arg_def)

interpretation addressing_kept: table_writes "addressing_is a" "2 ^ 32" for a
  by unfold_locales (simp_all add: addressing_is_def set_block_state_unfold Let_def)

lemma retire_block_mapping: "block_mapping (retire_block crc ni pb) = block_mapping ni"
  using update_info_table_mapping set_block_state_frame(4) by (auto simp: retire_block_def Let_def)

lemma erase_mapped_block_keeps:
  assumes "erase_mapped_block ni pb = (r, ni')"
  shows "block_mapping ni' = block_mapping ni"
    and "r \<Longrightarrow> nmbm_get_block_state ni' pb \<noteq> BLOCK_ST_BAD \<and> nmbm_get_block_state ni' pb \<noteq> BLOCK_ST_NEED_REMAP"
proof -
  let ?P = "mapping_is (block_mapping ni)"
  have set: "?P x \<Longrightarrow> ?P (snd (nmbm_set_block_state x pb BLOCK_ST_BAD))" for x
    by (simp add: mapping_is_def set_block_state_frame)
  have "?P ni" by (simp add: mapping_is_def)
  with assms have "?P ni'"
    by (auto simp: erase_mapped_block_def Let_def mark_block_bad_def split: if_splits prod.splits
        dest: mapping_dev.P_check_bad mapping_dev.P_erase_and_check mapping_dev.P_mark_phys_bad intro!: set)
  then show "block_mapping ni' = block_mapping ni" by (simp add: mapping_is_def)
  show "nmbm_get_block_state ni' pb \<noteq> BLOCK_ST_BAD \<and> nmbm_get_block_state ni' pb \<noteq> BLOCK_ST_NEED_REMAP" if r
  proof -
    obtain bad ni1 where c: "nmbm_check_bad_phys_block ni pb = (bad, ni1)" by fastforce
    obtain ok ni2 where e: "nmbm_erase_block_and_check ni1 pb = (ok, ni2)" by fastforce
    have "erase_mapped_block ni pb = (True, ni')" using assms \<open>r\<close> by simp
    then have st: "nmbm_get_block_state ni pb \<noteq> BLOCK_ST_BAD \<and>
        nmbm_get_block_state ni pb \<noteq> BLOCK_ST_NEED_REMAP \<and> ok \<and> ni2 = ni'"
      unfolding erase_mapped_block_def Let_def c prod.case e by (simp split: if_split_asm)
    have "block_state ni' = block_state ni"
      using states_dev.P_erase_and_check [OF e, of "block_state ni"] states_dev.P_check_bad [OF c, of "block_state ni"]
      using st by (simp add: states_are_def)
    with st show ?thesis by (simp add: nmbm_get_block_state_def)
  qed
qed

lemma map_block_length:
  assumes "nmbm_map_block crc ni lb = (True, ni')"
  shows "length (block_mapping ni') = length (block_mapping ni)"
proof -
  obtain pb where "ni' = ni\<lparr>block_mapping := (block_mapping ni)[unat lb := pb],
              mapping_blocks_top_ba := mapping_blocks_top_ba ni - 1,
              block_mapping_changed := block_mapping_changed ni + 1\<rparr>"
    using map_block_success [OF assms] by metis
  then show ?thesis by simp
qed

lemma erase_result:
  assumes "nmbm_erase_logic_block crc ni b = (r, ni')" "unat b < length (block_mapping ni)"
  shows "r = 0 \<and> 0 \<le> sint (block_mapping ni' ! unat b) \<and>
      nmbm_get_block_state ni' (block_mapping ni' ! unat b) \<noteq> BLOCK_ST_BAD \<and>
      nmbm_get_block_state ni' (block_mapping ni' ! unat b) \<noteq> BLOCK_ST_NEED_REMAP \<or>
    r = - EIO \<and> sint (block_mapping ni' ! unat b) < 0"
  using assms
proof (induction "unat (mapping_blocks_top_ba ni)" arbitrary: ni rule: less_induct)
  case less
  let ?pb = "block_mapping ni ! unat b"
  obtain d ni1 where e: "erase_mapped_block ni ?pb = (d, ni1)" by fastforce
  note k = erase_mapped_block_keeps [OF e]
  obtain s ni2 where m: "nmbm_map_block crc ni1 b = (s, ni2)" by fastforce
  consider "sint ?pb < 0" | "0 \<le> sint ?pb" d | "0 \<le> sint ?pb" "\<not> d" "\<not> s" | "0 \<le> sint ?pb" "\<not> d" s
    by linarith
  then show ?case
  proof cases
    case 1
    then show ?thesis using less.prems(1) by (simp add: nmbm_erase_logic_block.simps [of crc ni b])
  next
    case 2
    then show ?thesis using less.prems(1) e k by (auto simp: nmbm_erase_logic_block.simps [of crc ni b])
  next
    case 3
    have "length (block_mapping ni2) = length (block_mapping ni)"
      using map_block_fails [of crc ni1 b ni2] m 3 k(1) by simp
    then show ?thesis
      using 3 less.prems e m by (auto simp: nmbm_erase_logic_block.simps [of crc ni b] retire_block_mapping)
  next
    case 4
    let ?ni3 = "retire_block crc ni2 ?pb"
    have "unat (mapping_blocks_top_ba ?ni3) < unat (mapping_blocks_top_ba ni)"
      using map_block_top_decreases [of crc ni1 b ni2] m 4 erase_mapped_block_top [OF e]
      by (simp add: retire_block_top)
    moreover have "nmbm_erase_logic_block crc ?ni3 b = (r, ni')"
      using 4 less.prems(1) e m by (simp add: nmbm_erase_logic_block.simps [of crc ni b])
    moreover have "unat b < length (block_mapping ?ni3)"
      using map_block_length [of crc ni1 b ni2] m 4 k(1) less.prems(2) by (simp add: retire_block_mapping)
    ultimately show ?thesis by (rule less.hyps)
  qed
qed

text \<open>
  C1. Erasing a logic block ends in one of two ways: it returns 0, and the logic block is mapped
  to a physical block in use, or it returns \<open>-EIO\<close>, and the logic block is unmapped for good.
\<close>

theorem erase_logic_block_result:
  assumes "nmbm_erase_logic_block crc ni b = (r, ni')" "unat b < length (block_mapping ni)"
  shows "r = 0 \<and> 0 \<le> sint (block_mapping ni' ! unat b) \<and>
      nmbm_get_block_state ni' (block_mapping ni' ! unat b) \<noteq> BLOCK_ST_BAD \<and>
      nmbm_get_block_state ni' (block_mapping ni' ! unat b) \<noteq> BLOCK_ST_NEED_REMAP \<or>
    r = - EIO \<and> sint (block_mapping ni' ! unat b) < 0"
  by (rule erase_result [OF assms])

theorem erase_logic_block_result_witness:
  "\<exists>r ni'. nmbm_erase_logic_block (\<lambda>c b. c) sample_ni 3 = (r, ni') \<and>
    (r = 0 \<longrightarrow> nmbm_get_block_state ni' (block_mapping ni' ! 3) \<noteq> BLOCK_ST_BAD) \<and> (r \<noteq> 0 \<longrightarrow> r = - EIO)"
proof -
  obtain r ni' where e: "nmbm_erase_logic_block (\<lambda>c b. c) sample_ni 3 = (r, ni')" by fastforce
  with erase_logic_block_result [OF e] show ?thesis by (auto simp: EIO_def)
qed

text \<open>
  C2. A physical block to which a page could not be written is not used again: after any further
  operations, a logic block that has been erased with success is mapped to another one.
\<close>

theorem failed_write_retires_block:
  assumes w: "nmbm_write_single_page crc (Some ni) addr data oob mode = (- EIO, Some ni1)"
    and pb: "pb = block_mapping ni ! unat (addr2ba ni addr)" "0 \<le> sint pb" "unat pb < 16 * length (block_state ni)"
    and s: "(nmbm_step crc)\<^sup>*\<^sup>* ni1 ni2"
    and e: "nmbm_erase_logic_block crc ni2 b = (0, ni3)" "unat b < length (block_mapping ni2)"
  shows "block_mapping ni3 ! unat b \<noteq> pb"
proof -
  let ?n = "length (block_state ni)"
  obtain ni0 where l: "nmbm_write_logic_page crc ni addr data oob mode = (- EIO, ni0)" "ni1 = ni0"
    using w by (auto simp: nmbm_write_single_page_def errno_simps split: if_splits prod.splits)
  have "unusable ?n pb ni1"
  proof (cases "nmbm_get_block_state ni pb = BLOCK_ST_BAD")
    case True
    then show ?thesis
      using l pb by (simp add: nmbm_write_logic_page_def unusable_def)
  next
    case False
    obtain ok nw where p: "nmbm_write_phys_page ni (ba2addr ni pb + ucast (ucast addr AND erasesize_mask ni))
        data oob mode = (ok, nw)" by fastforce
    have nw: "block_state nw = block_state ni"
      using states_dev.P_write_phys [OF p, of "block_state ni"] by (simp add: states_are_def)
    have set: "unusable ?n pb (snd (nmbm_set_block_state nw pb BLOCK_ST_NEED_REMAP))"
      using get_set_state [of pb nw BLOCK_ST_NEED_REMAP] pb(3)
      by (simp add: unusable_def nw set_block_state_frame BLOCK_ST_NEED_REMAP_def)
    have "ni1 = snd (nmbm_update_info_table crc (snd (nmbm_set_block_state nw pb BLOCK_ST_NEED_REMAP)))"
      using l pb(2) False p unfolding nmbm_write_logic_page_def Let_def pb(1) [symmetric]
      by (simp add: errno_simps split: if_splits)
    then show ?thesis by (simp add: unusable_kept.P_update [OF set])
  qed
  then have "unusable ?n pb ni3"
    using unusable_kept.P_erase_logic [OF e(1)] unusable_kept.P_reach [OF s] by blast
  then show ?thesis
    using erase_result [OF e] by (auto simp: unusable_def errno_simps)
qed

text \<open>
  Marking a logic block bad takes it out of service: the bad block query answers 1 for it, and
  reading it fails.
\<close>

lemma mark_bad_block_checks:
  assumes "nmbm_mark_bad_block crc (Some ni) addr = (0, Some ni')"
    "unat (addr2ba ni addr) < length (block_mapping ni)"
  shows "nmbm_check_bad_block (Some ni') addr = 1 \<and>
    fst (fst (nmbm_read_single_page (Some ni') addr data oob mode)) < 0"
proof -
  let ?lb = "addr2ba ni addr" and ?pb = "block_mapping ni ! unat (addr2ba ni addr)"
  have ok: "addr < ba2addr ni (data_block_count ni)"
    using assms(1) by (auto simp: nmbm_mark_bad_block_def errno_simps not_le split: if_splits)
  have k: "addressing_is (erasesize_shift ni, data_block_count ni, block_mapping ni') ni'
      \<and> sint (block_mapping ni' ! unat ?lb) < 0"
  proof (cases "sint ?pb < 0")
    case True
    then show ?thesis
      using assms(1) by (auto simp: nmbm_mark_bad_block_def addressing_is_def errno_simps split: if_splits)
  next
    case False
    let ?m = "(block_mapping ni)[unat ?lb := - 1]"
    let ?P = "addressing_is (erasesize_shift ni, data_block_count ni, ?m)"
    have "ni' = snd (nmbm_update_info_table crc (mark_block_bad (ni\<lparr>block_mapping := ?m\<rparr>) ?pb))"
      using assms(1) False by (auto simp: nmbm_mark_bad_block_def Let_def errno_simps split: if_splits)
    moreover have "?P (mark_block_bad (ni\<lparr>block_mapping := ?m\<rparr>) ?pb)"
      by (rule addressing_kept.P_mark_block_bad) (simp_all add: addressing_is_def u32_less_2p32 [simplified])
    ultimately have "?P ni'"
      using addressing_kept.P_update_table by (metis prod.collapse)
    then show ?thesis using assms(2) by (simp add: addressing_is_def)
  qed
  then have "addr2ba ni' addr = ?lb" "ba2addr ni' (data_block_count ni') = ba2addr ni (data_block_count ni)"
    by (simp_all add: addressing_is_def addr2ba_def ba2addr_def)
  with k ok show ?thesis
    by (auto simp: nmbm_check_bad_block_def nmbm_read_single_page_def nmbm_read_logic_page_def
        errno_simps Let_def not_le)
qed

lemma mark_bad_returns:
  "protected ni = 0 \<Longrightarrow> \<not> read_only_flag ni \<Longrightarrow> addr < ba2addr ni (data_block_count ni) \<Longrightarrow>
    \<exists>ni'. nmbm_mark_bad_block crc (Some ni) addr = (0, Some ni')"
  by (auto simp: nmbm_mark_bad_block_def Let_def not_le)

lemma mark_bad_block_checks_witness:
  "\<exists>ni'. nmbm_mark_bad_block (\<lambda>c b. c) (Some sample_ni) 384 = (0, Some ni') \<and>
    nmbm_check_bad_block (Some ni') 384 = 1"
proof -
  obtain ni' where m: "nmbm_mark_bad_block (\<lambda>c b. c) (Some sample_ni) 384 = (0, Some ni')"
    using mark_bad_returns [of sample_ni 384 "\<lambda>c b. c"]
    by (auto simp: NMBM_F_CREATE_def NMBM_F_READ_ONLY_def ba2addr_def)
  moreover have "nmbm_check_bad_block (Some ni') 384 = 1"
    using mark_bad_block_checks [OF m] by (simp add: addr2ba_def)
  ultimately show ?thesis by blast
qed

text \<open>A chip that cannot be written, and no room for tables on it.\<close>

definition failing_ni :: "sim_nand nmbm_instance" where
  "failing_ni = sample_ni\<lparr>lower := sample_lower\<lparr>write_page := Some (\<lambda>st _ _ _ _. (- 5, st))\<rparr>,
     main_table_ba := 0, backup_table_ba := 0, mapping_blocks_top_ba := 0\<rparr>"

lemma failing_sels:
  "lower failing_ni = sample_lower\<lparr>write_page := Some (\<lambda>st _ _ _ _. (- 5, st))\<rparr>"
  "main_table_ba failing_ni = 0" "backup_table_ba failing_ni = 0" "mapping_blocks_top_ba failing_ni = 0"
  "block_state failing_ni = block_state sample_ni" "protected failing_ni = 0"
  "block_mapping failing_ni = block_mapping sample_ni" "data_block_count failing_ni = 16"
  "erasesize_shift failing_ni = 7" "erasesize_mask failing_ni = 127" "mgmt_start_ba failing_ni = 16"
  "info_table_size failing_ni = 256" "block_count failing_ni = 32"
  by (simp_all add: failing_ni_def)

lemma failing_good: "unat x < 32 \<Longrightarrow> nmbm_get_block_state failing_ni x = BLOCK_ST_GOOD"
  using sample_good [of x] by (simp add: nmbm_get_block_state_def failing_sels)

theorem failed_write_retires_block_witness:
  "\<exists>ni1 ni3. nmbm_write_single_page (\<lambda>c b. c) (Some failing_ni) 0 (Some []) None NMBM_MODE_RAW = (- EIO, Some ni1) \<and>
    nmbm_erase_logic_block (\<lambda>c b. c) ni1 5 = (0, ni3) \<and> block_mapping ni3 ! 5 \<noteq> block_mapping failing_ni ! 0"
proof -
  let ?crc = "\<lambda>(c :: u32) (b :: bytes). c"
  have mapped_0: "block_mapping sample_ni ! 0 = 0" "block_mapping sample_ni ! 5 = 5" by (simp_all add: nth_append)
  define ni0 where "ni0 = snd (nmbm_set_block_state failing_ni 0 BLOCK_ST_NEED_REMAP)"
  have ni0: "lower ni0 = lower failing_ni" "main_table_ba ni0 = 0" "backup_table_ba ni0 = 0"
    "mapping_blocks_top_ba ni0 = 0" "mgmt_start_ba ni0 = 16" "info_table_size ni0 = 256" "protected ni0 = 0"
    "block_state_changed ni0 \<noteq> 0" "block_mapping ni0 = block_mapping sample_ni" "erasesize_shift ni0 = 7"
    by (simp_all add: ni0_def set_block_state_unfold Let_def failing_ni_def nmbm_get_block_state_def
        nmbm_get_block_state_raw_def nmbm_consts)
  have w: "nmbm_write_phys_page failing_ni 0 (Some []) None NMBM_MODE_RAW = (False, failing_ni)"
    by (simp add: nmbm_write_phys_page_def NMBM_TRY_COUNT_def numeral_3_eq_3 lower_write_page_def failing_sels
        nmbm_reset_chip_def NMBM_F_CREATE_def NMBM_F_READ_ONLY_def) (simp add: set_arg_def failing_ni_def)
  obtain ch ni1 where g: "nmbm_generate_info_table_cache ?crc ni0 = (ch, ni1)" by fastforce
  then have ni1: "ch" "lower ni1 = lower ni0" "main_table_ba ni1 = 0" "backup_table_ba ni1 = 0"
    "mapping_blocks_top_ba ni1 = 0" "mgmt_start_ba ni1 = 16" "info_table_size ni1 = 256"
    "block_state ni1 = block_state ni0" "block_mapping ni1 = block_mapping ni0" "erasesize_shift ni1 = 7"
    using ni0 by (auto simp: nmbm_generate_info_table_cache_def Let_def)
  let ?ni = "ni1\<lparr>main_table_ba := 0, backup_table_ba := 0, mapping_blocks_ba := 0\<rparr>"
  have "nmbm_write_info_table ?ni 16 0 = (None, ?ni)"
    using ni1 by (simp add: nmbm_write_info_table_def nmbm_write_mgmt_range_def write_mgmt_blocks.simps [of 0])
  then have rb: "nmbm_rebuild_info_table ni1 = (False, ?ni\<lparr>protected := 1\<rparr>)"
    using ni1 by (simp add: nmbm_rebuild_info_table_def)
  have once: "nmbm_update_info_table_once ?crc ni0 False = (False, ?ni\<lparr>protected := 1\<rparr>)"
    using g ni1 rb by (simp add: nmbm_update_info_table_once_def update_main_table_def)
  define ni2 where "ni2 = ?ni\<lparr>protected := 1\<rparr>"
  have "nmbm_update_info_table ?crc ni0 = (False, ni2)"
    using ni0 once by (simp add: nmbm_update_info_table_def ni2_def)
  then have "nmbm_write_logic_page ?crc failing_ni 0 (Some []) None NMBM_MODE_RAW = (- EIO, ni2)"
    using w failing_good [of 0] mapped_0
    by (simp add: nmbm_write_logic_page_def Let_def ba2addr_def addr2ba_def failing_sels ni0_def [symmetric]
        BLOCK_ST_GOOD_def BLOCK_ST_BAD_def del: sample_ni_sels)
  then have wr: "nmbm_write_single_page ?crc (Some failing_ni) 0 (Some []) None NMBM_MODE_RAW = (- EIO, Some ni2)"
    by (simp add: nmbm_write_single_page_def failing_sels ba2addr_def NMBM_F_CREATE_def NMBM_F_READ_ONLY_def)
  have low: "lower ni2 = lower failing_ni" "block_state ni2 = block_state ni0"
    "block_mapping ni2 = block_mapping sample_ni" "erasesize_shift ni2 = 7"
    using ni1 ni0 by (simp_all add: ni2_def)
  have "nmbm_get_block_state ni0 5 = BLOCK_ST_GOOD"
    using get_set_state [of 0 failing_ni BLOCK_ST_NEED_REMAP] failing_good [of 5]
    by (simp add: ni0_def failing_sels)
  then have st: "nmbm_get_block_state ni2 5 = BLOCK_ST_GOOD" by (simp add: nmbm_get_block_state_def low)
  have "nmbm_check_bad_phys_block ni2 5 = (False, ni2)"
    by (simp add: nmbm_check_bad_phys_block_def lower_is_bad_block_def low failing_sels)
      (simp add: set_arg_def low failing_ni_def ni2_def ni1 ni0)
  then obtain ni3 where "erase_mapped_block ni2 5 = (True, ni3)"
    using st sim_erase_check [of ni2 5] low sample_flags
    by (simp add: erase_mapped_block_def failing_sels BLOCK_ST_GOOD_def BLOCK_ST_BAD_def BLOCK_ST_NEED_REMAP_def)
  then have er: "nmbm_erase_logic_block ?crc ni2 5 = (0, ni3)"
    using low mapped_0(2) by (simp add: nmbm_erase_logic_block.simps [of _ ni2] del: sample_ni_sels)
  have "block_mapping ni3 ! unat (5 :: u32) \<noteq> 0"
    by (rule failed_write_retires_block [OF wr _ _ _ rtranclp.rtrancl_refl er])
      (simp_all add: failing_sels low addr2ba_def mapped_0(1) del: sample_ni_sels, simp_all)
  with wr er mapped_0(1) show ?thesis by (auto simp: failing_sels simp del: sample_ni_sels)
qed


section \<open>Ranges\<close>

interpretation geom_dev: arg_free nmbm_geom
  by unfold_locales (simp_all add: nmbm_geom_def set_arg_def)

interpretation geom_kept: lower_only nmbm_geom
  by unfold_locales (simp add: nmbm_geom_def)

text \<open>The geometry of the device that was attached.\<close>

definition geom_of :: "u64 \<Rightarrow> u32 \<Rightarrow> u32 \<Rightarrow> 'd nmbm_instance \<Rightarrow> bool" where
  "geom_of sz es ws ni \<longleftrightarrow>
     nmbm_geom ni \<and> chip_size (lower ni) = sz \<and> erasesize (lower ni) = es \<and> writesize (lower ni) = ws"

interpretation geom_of_dev: arg_free "geom_of sz es ws" for sz es ws
  by unfold_locales (auto simp: geom_of_def nmbm_geom_def set_arg_def)

interpretation geom_of_kept: lower_only "geom_of sz es ws" for sz es ws
  by unfold_locales (auto simp: geom_of_def nmbm_geom_def)

lemma attach_geom_of:
  assumes a: "nmbm_attach crc mem (Some nld) (Some ni) = Some (r, Some ni')"
    and ok: "fst (nmbm_check_lower_members nld)"
  shows "geom_of (chip_size nld) (erasesize nld) (writesize nld) ni'"
proof (rule geom_of_kept.P_attach [OF a ok])
  obtain nld' where c: "nmbm_check_lower_members nld = (True, nld')" using ok by (metis prod.collapse)
  then have "chip_size nld' = chip_size nld" "erasesize nld' = erasesize nld" "writesize nld' = writesize nld"
    by (auto simp: nmbm_check_lower_members_def Let_def split: if_splits)
  then show "geom_of (chip_size nld) (erasesize nld) (writesize nld) (nmbm_init_structure mem
      (ni\<lparr>log_display_level := NMBM_DEFAULT_LOG_LEVEL, lower := snd (nmbm_check_lower_members nld)\<rparr>))"
    using c init_structure_geom [of nld "ni\<lparr>log_display_level := NMBM_DEFAULT_LOG_LEVEL, lower := nld'\<rparr>" mem]
    by (simp add: geom_of_def) (simp add: nmbm_init_structure_def Let_def)
qed

text \<open>
  C25. Attaching to an accepted device gives an instance whose shifts, masks and sizes are those of
  the device's geometry, and no sequence of operations changes any of them.
\<close>

theorem attached_geometry:
  assumes "nmbm_attach crc mem (Some nld) (Some ni) = Some (r, Some ni1)"
    "fst (nmbm_check_lower_members nld)" "(nmbm_step crc)\<^sup>*\<^sup>* ni1 ni2"
  shows "erasesize (lower ni2) = erasesize nld \<and> writesize (lower ni2) = writesize nld \<and>
    erasesize nld = 2 ^ unat (erasesize_shift ni2) \<and> writesize nld = 2 ^ unat (writesize_shift ni2) \<and>
    erasesize_mask ni2 = erasesize nld - 1 \<and> writesize_mask ni2 = writesize nld - 1 \<and>
    block_count ni2 = ucast (drop_bit (unat (erasesize_shift ni2)) (chip_size nld))"
  using geom_of_kept.P_reach [OF assms(3) attach_geom_of [OF assms(1,2)]]
  by (auto simp: geom_of_def nmbm_geom_def)

theorem attached_geometry_witness:
  "\<exists>r ni'. nmbm_attach (\<lambda>c b. c) [] (Some ro_lower) (Some sample_ni) = Some (r, Some ni') \<and>
    erasesize_mask ni' = 127"
proof -
  obtain r ni' where a: "nmbm_attach (\<lambda>c b. c) [] (Some ro_lower) (Some sample_ni) = Some (r, Some ni')"
    using sample_attach by blast
  with attached_geometry [OF a _ rtranclp.rtrancl_refl] ro_lower_accepted show ?thesis
    by (auto simp: ro_lower_def)
qed

lemma write_range_chunks_result:
  "write_range_chunks n crc ni off ptr szr m ret0 = ((r, rest), ni') \<Longrightarrow> nmbm_geom ni \<Longrightarrow> szr \<le> n \<Longrightarrow>
    ret0 = 0 \<Longrightarrow> rest \<le> szr \<and> (r = 0 \<longleftrightarrow> rest = 0)"
proof (induction n arbitrary: ni off ptr szr ret0)
  case (Suc n)
  show ?case
  proof (cases "szr = 0")
    case True
    then show ?thesis using Suc.prems by simp
  next
    case False
    define whole where "whole \<longleftrightarrow> chunk_size ni off szr = unat (writesize (lower ni))"
    define ni0 where "ni0 = (if whole then ni else ni\<lparr>page_cache := buf_put (chunk_leading ni off)
        (take (chunk_size ni off szr) ptr) (memset 0 0xff (chunk_leading ni off) (page_cache ni))\<rparr>)"
    obtain ret ni1 where l: "nmbm_write_logic_page crc ni0 (off - of_nat (chunk_leading ni off))
        (Some (if whole then ptr else page_cache ni0)) None m = (ret, ni1)" by fastforce
    have G0: "nmbm_geom ni0" using Suc.prems(2) by (simp add: ni0_def geom_dev.P_page_cache)
    have G1: "nmbm_geom ni1" by (rule geom_kept.P_write_logic [OF l G0])
    have pos: "0 < chunk_size ni off szr" using chunk_size_pos [OF Suc.prems(2)] False by simp
    have step: "write_range_chunks (Suc n) crc ni off ptr szr m ret0 = (if ret \<noteq> 0 then ((ret, szr), ni1)
        else write_range_chunks n crc ni1 (off + of_nat (chunk_size ni off szr))
          (drop (chunk_size ni off szr) ptr) (szr - chunk_size ni off szr) m ret)"
      using False l by (simp add: whole_def ni0_def Let_def cong: if_cong)
    show ?thesis
    proof (cases "ret = 0")
      case True
      with step Suc.prems(1) have "write_range_chunks n crc ni1 (off + of_nat (chunk_size ni off szr))
          (drop (chunk_size ni off szr) ptr) (szr - chunk_size ni off szr) m 0 = ((r, rest), ni')"
        by (simp del: write_range_chunks.simps)
      from Suc.IH [OF this G1 _ refl] Suc.prems(3) pos show ?thesis by linarith
    next
      case False
      with step Suc.prems(1) \<open>szr \<noteq> 0\<close> show ?thesis by simp
    qed
  qed
qed simp

lemma retlen_all: "rest \<le> unat sz \<Longrightarrow> sz - of_nat rest = sz \<longleftrightarrow> rest = (0 :: nat)" for sz :: u64
proof -
  assume "rest \<le> unat sz"
  then have "unat (of_nat rest :: u64) = rest"
    using unat_lt_two_power [of sz] by (intro unat_of_nat_small) simp
  moreover have "sz - of_nat rest = sz \<longleftrightarrow> (of_nat rest :: u64) = 0" by (simp add: diff_eq_eq)
  ultimately show ?thesis using unat_eq_0 [of "of_nat rest :: u64"] by simp
qed

lemma read_range_chunks_result:
  "read_range_chunks n ni off data pos szr m ecc bf ret0 = ((r, e, b, rest, d), ni') \<Longrightarrow> nmbm_geom ni \<Longrightarrow>
    szr \<le> n \<Longrightarrow> 0 \<le> ret0 \<or> ret0 = - EBADMSG \<Longrightarrow> 0 \<le> bf \<Longrightarrow>
    rest \<le> szr \<and> 0 \<le> b \<and> ((r < 0 \<and> r \<noteq> - EBADMSG) \<longleftrightarrow> rest \<noteq> 0)"
proof (induction n arbitrary: ni off data pos szr ecc bf ret0)
  case 0
  then show ?case by auto
next
  case (Suc n)
  show ?case
  proof (cases "szr = 0")
    case True
    then show ?thesis using Suc.prems by auto
  next
    case False
    define whole where "whole \<longleftrightarrow> chunk_size ni off szr = unat (writesize (lower ni))"
    obtain ret ptr x ni1 where l: "nmbm_read_logic_page ni (off - of_nat (chunk_leading ni off))
        (Some (if whole then drop pos data else page_cache ni)) None m = ((ret, ptr, x), ni1)"
      by (metis prod.collapse)
    define data1 where "data1 = (if whole then take pos data @ the ptr else data)"
    define ni2 where "ni2 = (if whole then ni1 else ni1\<lparr>page_cache := the ptr\<rparr>)"
    define data2 where "data2 = (if whole then data1
        else buf_put pos (buf_get (chunk_leading ni off) (chunk_size ni off szr) (page_cache ni2)) data1)"
    have G1: "nmbm_geom ni1" by (rule geom_kept.P_read_logic [OF l Suc.prems(2)])
    have G2: "nmbm_geom ni2" using G1 by (simp add: ni2_def geom_dev.P_page_cache)
    have pos: "0 < chunk_size ni off szr" using chunk_size_pos [OF Suc.prems(2)] False by simp
    have step: "read_range_chunks (Suc n) ni off data pos szr m ecc bf ret0 =
       (if ret < 0 \<and> ret \<noteq> - EBADMSG then ((ret, ecc, bf, szr, data1), ni2)
        else read_range_chunks n ni2 (off + of_nat (chunk_size ni off szr)) data2 (pos + chunk_size ni off szr)
          (szr - chunk_size ni off szr) m (ecc \<or> ret = - EBADMSG) (max bf ret) ret)"
      using False l by (simp add: whole_def ni2_def data1_def data2_def Let_def)
    show ?thesis
    proof (cases "ret < 0 \<and> ret \<noteq> - EBADMSG")
      case True
      with step Suc.prems(1,5) \<open>szr \<noteq> 0\<close> show ?thesis by (simp del: read_range_chunks.simps)
    next
      case False
      with step Suc.prems(1) have "read_range_chunks n ni2 (off + of_nat (chunk_size ni off szr)) data2
          (pos + chunk_size ni off szr) (szr - chunk_size ni off szr) m (ecc \<or> ret = - EBADMSG) (max bf ret) ret
          = ((r, e, b, rest, d), ni')"
        by (simp only: if_False)
      moreover have "0 \<le> ret \<or> ret = - EBADMSG" "0 \<le> max bf ret" using False Suc.prems(5) by auto
      ultimately have "rest \<le> szr - chunk_size ni off szr \<and> 0 \<le> b \<and> ((r < 0 \<and> r \<noteq> - EBADMSG) \<longleftrightarrow> rest \<noteq> 0)"
        using G2 Suc.prems(3) pos by (intro Suc.IH) simp_all
      then show ?thesis by (meson diff_le_self le_trans)
    qed
  qed
qed





end
