(* ===== verification/Nmbm_Mtd.thy ===== *)
theory Nmbm_Mtd
  imports Nmbm_Logic
begin

text \<open>
  The MTD device on top of NMBM (\<open>drivers/mtd/nmbm/nmbm-mtd.c\<close>): the callbacks through
  which NMBM uses the lower MTD device, the operations of the upper MTD device, and probing and
  removal of a device.

  The kernel's MTD core is a parameter: the record \<open>mtd_device\<close> holds what the code reads of
  the lower \<open>struct mtd_info\<close>, which does not change, and the kernel functions it calls on it,
  as functions on the state \<open>'m\<close> of the lower device. \<open>struct nmbm_mtd\<close> is split in two:
  \<open>nm_arg\<close> is the part the callbacks change through \<open>nm\<close>, which the instance holds as its
  \<open>arg\<close>, and \<open>nmbm_mtd\<close> is the rest. On the 64-bit targets \<open>size_t\<close> and \<open>loff_t\<close>
  have 64 bits. A buffer is \<open>None\<close> for NULL. The log callback is left out.
\<close>

section \<open>The kernel's MTD interface\<close>

datatype mtd_ops_mode = MTD_OPS_PLACE_OOB | MTD_OPS_AUTO_OOB | MTD_OPS_RAW | MTD_OPS_OTHER

record mtd_info =
  mtd_size :: u64
  mtd_erasesize :: u32
  mtd_writesize :: u32
  mtd_oobsize :: u32
  mtd_oobavail_field :: u32
  mtd_erasesize_shift :: u32
  mtd_writesize_shift :: u32
  mtd_erasesize_mask :: u32
  mtd_writesize_mask :: u32
  bitflip_threshold :: u32
  ecc_strength :: u32

record mtd_oob_ops =
  ops_mode :: mtd_ops_mode
  ops_len :: u64
  ops_retlen :: u64
  ops_ooblen :: u64
  ops_oobretlen :: u64
  ops_ooboffs :: u32
  datbuf :: "bytes option"
  oobbuf :: "bytes option"

record 'm mtd_device =
  info :: mtd_info
  mtd_oobavail :: "mtd_info \<Rightarrow> mtd_ops_mode \<Rightarrow> u32"
  mtd_read_oob :: "'m \<Rightarrow> u64 \<Rightarrow> mtd_oob_ops \<Rightarrow> int \<times> mtd_oob_ops \<times> 'm"
  mtd_write_oob :: "'m \<Rightarrow> u64 \<Rightarrow> mtd_oob_ops \<Rightarrow> int \<times> 'm"
  mtd_panic_write :: "'m \<Rightarrow> u64 \<Rightarrow> u64 \<Rightarrow> bytes \<Rightarrow> int \<times> 'm"
  mtd_erase :: "'m \<Rightarrow> u64 \<Rightarrow> u64 \<Rightarrow> int \<times> 'm"
  mtd_block_isbad :: "'m \<Rightarrow> u64 \<Rightarrow> int \<times> 'm"
  mtd_block_markbad :: "'m \<Rightarrow> u64 \<Rightarrow> int \<times> 'm"
  ecc_corrected :: "'m \<Rightarrow> u32"
  ecc_failed :: "'m \<Rightarrow> u32"

section \<open>The device\<close>

record 'm nm_arg =
  chip :: 'm
  upper_corrected :: u32
  upper_failed :: u32

datatype flstate = FL_READY | FL_READING | FL_WRITING | FL_ERASING | FL_PM_SUSPENDED

record 'm nmbm_mtd =
  upper :: mtd_info
  nm_lower :: "'m mtd_device"
  nm_ni :: "'m nm_arg nmbm_instance"
  nm_page_cache :: bytes
  nm_state :: flstate

abbreviation lower_writesize :: "'m nmbm_mtd \<Rightarrow> u32" where
  "lower_writesize nm \<equiv> mtd_writesize (info (nm_lower nm))"

section \<open>The callbacks to the lower device\<close>

fun lower_ops_mode :: "nmbm_oob_mode \<Rightarrow> mtd_ops_mode option" where
  "lower_ops_mode NMBM_MODE_PLACE_OOB = Some MTD_OPS_PLACE_OOB"
| "lower_ops_mode NMBM_MODE_AUTO_OOB = Some MTD_OPS_AUTO_OOB"
| "lower_ops_mode NMBM_MODE_RAW = Some MTD_OPS_RAW"
| "lower_ops_mode NMBM_MODE_MAX = None"

text \<open>The \<open>struct mtd_oob_ops\<close> that both page callbacks build.\<close>

definition lower_ops :: "'m mtd_device \<Rightarrow> bytes option \<Rightarrow> bytes option \<Rightarrow> mtd_ops_mode \<Rightarrow> mtd_oob_ops" where
  "lower_ops low buf oob mode =
     (let ops = \<lparr>ops_mode = mode, ops_len = 0, ops_retlen = 0, ops_ooblen = 0, ops_oobretlen = 0,
                 ops_ooboffs = 0, datbuf = None, oobbuf = None\<rparr>;
          ops = (if buf \<noteq> None
                 then ops\<lparr>datbuf := buf, ops_len := ucast (mtd_writesize (info low))\<rparr> else ops)
      in if oob \<noteq> None
         then ops\<lparr>oobbuf := oob, ops_ooblen := ucast (mtd_oobavail low (info low) mode)\<rparr> else ops)"

definition nmbm_lower_read_page ::
  "'m mtd_device \<Rightarrow> 'm nm_arg \<Rightarrow> u64 \<Rightarrow> bytes option \<Rightarrow> bytes option \<Rightarrow> nmbm_oob_mode
    \<Rightarrow> int \<times> bytes \<times> bytes \<times> 'm nm_arg" where
  "nmbm_lower_read_page low nm addr buf oob mode =
     (case lower_ops_mode mode of
        None \<Rightarrow> (- ENOTSUPP, case_option [] id buf, case_option [] id oob, nm)
      | Some m \<Rightarrow>
        let (ret, ops, c) = mtd_read_oob low (chip nm) addr (lower_ops low buf oob m);
            nm = nm\<lparr>chip := c, upper_corrected := ecc_corrected low c, upper_failed := ecc_failed low c\<rparr>;
            ret = (if ret < 0 \<and> ret \<noteq> - EUCLEAN then ret
                   else if ret = - EUCLEAN
                   then sint (min (bitflip_threshold (info low) + 1) (ecc_strength (info low)))
                   else 0)
        in (ret, case_option [] id (datbuf ops), case_option [] id (oobbuf ops), nm))"

definition nmbm_lower_write_page ::
  "'m mtd_device \<Rightarrow> 'm nm_arg \<Rightarrow> u64 \<Rightarrow> bytes option \<Rightarrow> bytes option \<Rightarrow> nmbm_oob_mode
    \<Rightarrow> int \<times> 'm nm_arg" where
  "nmbm_lower_write_page low nm addr buf oob mode =
     (case lower_ops_mode mode of
        None \<Rightarrow> (- ENOTSUPP, nm)
      | Some m \<Rightarrow>
        let (ret, c) = mtd_write_oob low (chip nm) addr (lower_ops low buf oob m)
        in (ret, nm\<lparr>chip := c\<rparr>))"

definition nmbm_lower_panic_write_page ::
  "'m mtd_device \<Rightarrow> 'm nm_arg \<Rightarrow> u64 \<Rightarrow> bytes \<Rightarrow> int \<times> 'm nm_arg" where
  "nmbm_lower_panic_write_page low nm addr buf =
     (let (ret, c) = mtd_panic_write low (chip nm) addr (ucast (mtd_writesize (info low))) buf
      in (ret, nm\<lparr>chip := c\<rparr>))"

definition nmbm_lower_erase_block :: "'m mtd_device \<Rightarrow> 'm nm_arg \<Rightarrow> u64 \<Rightarrow> int \<times> 'm nm_arg" where
  "nmbm_lower_erase_block low nm addr =
     (let (ret, c) = mtd_erase low (chip nm) addr (ucast (mtd_erasesize (info low)))
      in (ret, nm\<lparr>chip := c\<rparr>))"

definition nmbm_lower_is_bad_block :: "'m mtd_device \<Rightarrow> 'm nm_arg \<Rightarrow> u64 \<Rightarrow> int \<times> 'm nm_arg" where
  "nmbm_lower_is_bad_block low nm addr =
     (let (ret, c) = mtd_block_isbad low (chip nm) addr in (ret, nm\<lparr>chip := c\<rparr>))"

definition nmbm_lower_mark_bad_block :: "'m mtd_device \<Rightarrow> 'm nm_arg \<Rightarrow> u64 \<Rightarrow> int \<times> 'm nm_arg" where
  "nmbm_lower_mark_bad_block low nm addr =
     (let (ret, c) = mtd_block_markbad low (chip nm) addr in (ret, nm\<lparr>chip := c\<rparr>))"

section \<open>Access to the device\<close>

text \<open>
  The part of \<open>nmbm_get_device\<close> under the spin lock: the new state of the device, or
  \<open>None\<close> if the caller goes to sleep on the wait queue and tries again once it is woken.
\<close>

definition get_device_locked :: "flstate \<Rightarrow> flstate \<Rightarrow> flstate option" where
  "get_device_locked state new_state =
     (if state = FL_READY then Some new_state
      else if new_state = FL_PM_SUSPENDED \<and> state = FL_PM_SUSPENDED then Some state
      else None)"

text \<open>
  As a part of one operation the result \<open>None\<close> means that the operation does not go on:
  it sleeps until another task releases the device.
\<close>

definition nmbm_get_device :: "'m nmbm_mtd \<Rightarrow> flstate \<Rightarrow> 'm nmbm_mtd option" where
  "nmbm_get_device nm new_state =
     map_option (\<lambda>s. nm\<lparr>nm_state := s\<rparr>) (get_device_locked (nm_state nm) new_state)"

definition nmbm_release_device :: "'m nmbm_mtd \<Rightarrow> 'm nmbm_mtd" where
  "nmbm_release_device nm = nm\<lparr>nm_state := FL_READY\<rparr>"

section \<open>Erasing and bad blocks\<close>

text \<open>The result is the return value and \<open>instr->fail_addr\<close> where it is written.\<close>

definition nmbm_mtd_erase ::
  "(u32 \<Rightarrow> bytes \<Rightarrow> u32) \<Rightarrow> 'm nmbm_mtd \<Rightarrow> u64 \<Rightarrow> u64 \<Rightarrow> ((int \<times> u64 option) \<times> 'm nmbm_mtd) option" where
  "nmbm_mtd_erase crc nm addr len =
     (case nmbm_get_device nm FL_ERASING of
        None \<Rightarrow> None
      | Some nm \<Rightarrow>
        let ((ret, fail), nip) = nmbm_erase_block_range crc (Some (nm_ni nm)) addr len;
            nm = nmbm_release_device (nm\<lparr>nm_ni := the nip\<rparr>)
        in Some ((if ret = 0 then 0 else - EIO, fail), nm))"

definition nmbm_mtd_block_isbad :: "'m nmbm_mtd \<Rightarrow> u64 \<Rightarrow> (int \<times> 'm nmbm_mtd) option" where
  "nmbm_mtd_block_isbad nm offs =
     (case nmbm_get_device nm FL_READING of
        None \<Rightarrow> None
      | Some nm \<Rightarrow>
        let ret = nmbm_check_bad_block (Some (nm_ni nm)) offs
        in Some (ret, nmbm_release_device nm))"

definition nmbm_mtd_block_markbad ::
  "(u32 \<Rightarrow> bytes \<Rightarrow> u32) \<Rightarrow> 'm nmbm_mtd \<Rightarrow> u64 \<Rightarrow> (int \<times> 'm nmbm_mtd) option" where
  "nmbm_mtd_block_markbad crc nm offs =
     (case nmbm_get_device nm FL_WRITING of
        None \<Rightarrow> None
      | Some nm \<Rightarrow>
        let (ret, nip) = nmbm_mark_bad_block crc (Some (nm_ni nm)) offs
        in Some (ret, nmbm_release_device (nm\<lparr>nm_ni := the nip\<rparr>)))"

definition nmbm_mtd_shutdown :: "'m nmbm_mtd \<Rightarrow> 'm nmbm_mtd option" where
  "nmbm_mtd_shutdown nm = nmbm_get_device nm FL_PM_SUSPENDED"

section \<open>Reading\<close>

text \<open>
  The page cache holds the data of a page, and behind it its OOB bytes. One page is read into it;
  a part whose buffer is NULL keeps its contents.
\<close>

definition read_to_cache ::
  "'m nmbm_mtd \<Rightarrow> u64 \<Rightarrow> bool \<Rightarrow> bool \<Rightarrow> nmbm_oob_mode \<Rightarrow> int \<times> 'm nmbm_mtd" where
  "read_to_cache nm addr has_dat has_oob mode =
     (let ws = unat (lower_writesize nm);
          dat = take ws (nm_page_cache nm);
          oob = drop ws (nm_page_cache nm);
          ((ret, dat', oob'), nip) = nmbm_read_single_page (Some (nm_ni nm)) addr
              (if has_dat then Some dat else None) (if has_oob then Some oob else None) mode;
          cache = (if has_dat then the dat' else dat) @ (if has_oob then the oob' else oob)
      in (ret, nm\<lparr>nm_ni := the nip, nm_page_cache := cache\<rparr>))"

text \<open>
  \<open>chklen\<close> of the data and of the OOB part of a page: the subtraction is one of 32-bit numbers
  for the data, and one of a \<open>size_t\<close> and a 32-bit number for the OOB.
\<close>

definition dat_chklen :: "u32 \<Rightarrow> u32 \<Rightarrow> u64 \<Rightarrow> u64" where
  "dat_chklen ws col len = (let chklen = ucast (ws - col) in if chklen > len then len else chklen)"

definition oob_chklen :: "u64 \<Rightarrow> u32 \<Rightarrow> u64 \<Rightarrow> u64" where
  "oob_chklen maxooblen ooboffs ooblen =
     (let chklen = maxooblen - ucast ooboffs in if chklen > ooblen then ooblen else chklen)"

text \<open>What one round moves; nothing where the length has reached 0.\<close>

definition dat_part :: "u32 \<Rightarrow> u32 \<Rightarrow> u64 \<Rightarrow> u64" where
  "dat_part ws col len = (if len \<noteq> 0 then dat_chklen ws col len else 0)"

definition oob_part :: "u64 \<Rightarrow> u32 \<Rightarrow> u64 \<Rightarrow> u64" where
  "oob_part maxooblen ooboffs ooblen = (if ooblen \<noteq> 0 then oob_chklen maxooblen ooboffs ooblen else 0)"

definition copy_dat :: "bytes \<Rightarrow> u32 \<Rightarrow> u64 \<Rightarrow> mtd_oob_ops \<Rightarrow> mtd_oob_ops" where
  "copy_dat cache col n ops =
     ops\<lparr>datbuf := map_option (buf_put (unat (ops_retlen ops)) (buf_get (unat col) (unat n) cache)) (datbuf ops),
         ops_retlen := ops_retlen ops + n\<rparr>"

definition copy_oob :: "bytes \<Rightarrow> u32 \<Rightarrow> u32 \<Rightarrow> u64 \<Rightarrow> mtd_oob_ops \<Rightarrow> mtd_oob_ops" where
  "copy_oob cache ws ooboffs n ops =
     ops\<lparr>oobbuf := map_option (buf_put (unat (ops_oobretlen ops))
            (buf_get (unat ws + unat ooboffs) (unat n) cache)) (oobbuf ops),
         ops_oobretlen := ops_oobretlen ops + n\<rparr>"

text \<open>
  The loop of \<open>nmbm_mtd_read_data\<close>. The pointers \<open>datcache\<close> and \<open>oobcache\<close> are set
  before it, so whether they are NULL does not change when a length reaches 0.
\<close>

partial_function (option) read_data_pages ::
  "bool \<Rightarrow> bool \<Rightarrow> u64 \<Rightarrow> nmbm_oob_mode \<Rightarrow> 'm nmbm_mtd \<Rightarrow> u64 \<Rightarrow> u32 \<Rightarrow> u64 \<Rightarrow> u32 \<Rightarrow> u64
    \<Rightarrow> mtd_oob_ops \<Rightarrow> bool \<Rightarrow> int \<Rightarrow> ((int \<times> mtd_oob_ops) \<times> 'm nmbm_mtd) option" where
  "read_data_pages has_dat has_oob maxooblen mode nm addr col len ooboffs ooblen ops ecc bitflips =
     (if len = 0 \<and> ooblen = 0
      then Some ((if ecc then - EBADMSG else bitflips, ops), nm)
      else
        let (ret, nm) = read_to_cache nm addr has_dat has_oob mode
        in if ret < 0 \<and> ret \<noteq> - EBADMSG then Some ((ret, ops), nm)
           else
             let ws = lower_writesize nm;
                 datlen = dat_part ws col len;
                 ooblen1 = oob_part maxooblen ooboffs ooblen;
                 ops = (if len \<noteq> 0 then copy_dat (nm_page_cache nm) col datlen ops else ops);
                 ops = (if ooblen \<noteq> 0 then copy_oob (nm_page_cache nm) ws ooboffs ooblen1 ops else ops)
             in read_data_pages has_dat has_oob maxooblen mode nm (addr + ucast ws)
                  (if len \<noteq> 0 then 0 else col) (len - datlen)
                  (if ooblen \<noteq> 0 then 0 else ooboffs) (ooblen - ooblen1)
                  ops (ecc \<or> ret = - EBADMSG) (max bitflips ret))"

text \<open>
  \<open>writesize_mask\<close> has 32 bits: its complement is extended with zeros when it is applied to the
  64-bit address.
\<close>

definition page_col :: "'m nmbm_mtd \<Rightarrow> u64 \<Rightarrow> u32" where
  "page_col nm addr = ucast (addr AND ucast (mtd_writesize_mask (info (nm_lower nm))))"

definition page_addr :: "'m nmbm_mtd \<Rightarrow> u64 \<Rightarrow> u64" where
  "page_addr nm addr = addr AND ucast (NOT (mtd_writesize_mask (info (nm_lower nm))))"

definition nmbm_mtd_read_data ::
  "'m nmbm_mtd \<Rightarrow> u64 \<Rightarrow> mtd_oob_ops \<Rightarrow> nmbm_oob_mode \<Rightarrow> ((int \<times> mtd_oob_ops) \<times> 'm nmbm_mtd) option" where
  "nmbm_mtd_read_data nm addr ops mode =
     read_data_pages (ops_len ops \<noteq> 0) (ops_ooblen ops \<noteq> 0)
       (ucast (mtd_oobavail (nm_lower nm) (info (nm_lower nm)) (ops_mode ops))) mode nm
       (page_addr nm addr) (page_col nm addr) (ops_len ops) (ops_ooboffs ops) (ops_ooblen ops)
       (ops\<lparr>ops_oobretlen := 0, ops_retlen := 0\<rparr>) False 0"

text \<open>The mode of a request, as both OOB operations translate it.\<close>

fun upper_ops_mode :: "mtd_ops_mode \<Rightarrow> nmbm_oob_mode option" where
  "upper_ops_mode MTD_OPS_PLACE_OOB = Some NMBM_MODE_PLACE_OOB"
| "upper_ops_mode MTD_OPS_AUTO_OOB = Some NMBM_MODE_AUTO_OOB"
| "upper_ops_mode MTD_OPS_RAW = Some NMBM_MODE_RAW"
| "upper_ops_mode MTD_OPS_OTHER = None"

text \<open>
  The checks both OOB operations make on a request with an OOB buffer; \<open>from\<close> is signed, so its
  shift is an arithmetic one.
\<close>

definition oob_outside :: "mtd_info \<Rightarrow> u64 \<Rightarrow> mtd_oob_ops \<Rightarrow> u32 \<Rightarrow> bool" where
  "oob_outside mtd from ops maxooblen \<longleftrightarrow>
     from \<ge> mtd_size mtd \<or>
     ucast (ops_ooboffs ops) + ops_ooblen ops >
       (drop_bit (unat (mtd_writesize_shift mtd)) (mtd_size mtd)
         - signed_drop_bit (unat (mtd_writesize_shift mtd)) from) * ucast maxooblen"

text \<open>The result is the return value and the request after the call.\<close>

definition nmbm_mtd_read_oob ::
  "'m nmbm_mtd \<Rightarrow> u64 \<Rightarrow> mtd_oob_ops \<Rightarrow> ((int \<times> mtd_oob_ops) \<times> 'm nmbm_mtd) option" where
  "nmbm_mtd_read_oob nm from ops =
     (if oobbuf ops = None \<and> datbuf ops = None
      then Some ((if ops_ooblen ops \<noteq> 0 \<or> ops_len ops \<noteq> 0 then - EINVAL else 0, ops), nm)
      else
        case upper_ops_mode (ops_mode ops) of
          None \<Rightarrow> Some ((- ENOTSUPP, ops), nm)
        | Some mode \<Rightarrow>
          let maxooblen = mtd_oobavail (nm_lower nm) (upper nm) (ops_mode ops)
          in if datbuf ops \<noteq> None \<and> from + ops_len ops > mtd_size (upper nm)
             then Some ((- EINVAL, ops), nm)
             else if oobbuf ops = None
             then (case nmbm_get_device nm FL_READING of
                     None \<Rightarrow> None
                   | Some nm \<Rightarrow>
                     let ((ret, retlen, data), nip) =
                           nmbm_read_range (Some (nm_ni nm)) from (ops_len ops) (the (datbuf ops)) mode;
                         ops = ops\<lparr>ops_retlen := case_option (ops_retlen ops) id retlen,
                                   datbuf := Some data\<rparr>
                     in Some ((ret, ops), nmbm_release_device (nm\<lparr>nm_ni := the nip\<rparr>)))
             else if ops_ooboffs ops \<ge> maxooblen then Some ((- EINVAL, ops), nm)
             else if oob_outside (upper nm) from ops maxooblen then Some ((- EINVAL, ops), nm)
             else
               case nmbm_get_device nm FL_READING of
                 None \<Rightarrow> None
               | Some nm \<Rightarrow>
                 (case nmbm_mtd_read_data nm from ops mode of
                    None \<Rightarrow> None
                  | Some (r, nm) \<Rightarrow> Some (r, nmbm_release_device nm)))"

section \<open>Writing\<close>

text \<open>
  The page in the cache before it is written: \<open>0xff\<close> around the data, and around the OOB data.
\<close>

definition fill_dat :: "u32 \<Rightarrow> u32 \<Rightarrow> u64 \<Rightarrow> mtd_oob_ops \<Rightarrow> bytes \<Rightarrow> bytes" where
  "fill_dat ws col n ops cache =
     (let cache = memset 0 0xff (unat col) cache;
          cache = buf_put (unat col)
                    (buf_get (unat (ops_retlen ops)) (unat n) (case_option [] id (datbuf ops))) cache
      in memset (unat col + unat n) 0xff (unat (ucast (ws - col) - n)) cache)"

definition fill_oob :: "u32 \<Rightarrow> u32 \<Rightarrow> u32 \<Rightarrow> u64 \<Rightarrow> mtd_oob_ops \<Rightarrow> bytes \<Rightarrow> bytes" where
  "fill_oob ws osz ooboffs n ops cache =
     (let cache = memset (unat ws) 0xff (unat ooboffs) cache;
          cache = buf_put (unat ws + unat ooboffs)
                    (buf_get (unat (ops_oobretlen ops)) (unat n) (case_option [] id (oobbuf ops))) cache
      in memset (unat ws + unat ooboffs + unat n) 0xff (unat (ucast (osz - ooboffs) - n)) cache)"

definition write_from_cache ::
  "(u32 \<Rightarrow> bytes \<Rightarrow> u32) \<Rightarrow> 'm nmbm_mtd \<Rightarrow> u64 \<Rightarrow> bool \<Rightarrow> bool \<Rightarrow> nmbm_oob_mode \<Rightarrow> int \<times> 'm nmbm_mtd" where
  "write_from_cache crc nm addr has_dat has_oob mode =
     (let ws = unat (lower_writesize nm);
          (ret, nip) = nmbm_write_single_page crc (Some (nm_ni nm)) addr
              (if has_dat then Some (take ws (nm_page_cache nm)) else None)
              (if has_oob then Some (drop ws (nm_page_cache nm)) else None) mode
      in (ret, nm\<lparr>nm_ni := the nip\<rparr>))"

text \<open>
  The loop of \<open>nmbm_mtd_write_data\<close>: a page gets the data cache and the OOB cache whenever these
  were needed for the first page, also after the data or the OOB data have come to their end.
\<close>

partial_function (option) write_data_pages ::
  "(u32 \<Rightarrow> bytes \<Rightarrow> u32) \<Rightarrow> bool \<Rightarrow> bool \<Rightarrow> u64 \<Rightarrow> nmbm_oob_mode \<Rightarrow> 'm nmbm_mtd \<Rightarrow> u64 \<Rightarrow> u32 \<Rightarrow> u64
    \<Rightarrow> u32 \<Rightarrow> u64 \<Rightarrow> mtd_oob_ops \<Rightarrow> ((int \<times> mtd_oob_ops) \<times> 'm nmbm_mtd) option" where
  "write_data_pages crc has_dat has_oob maxooblen mode nm addr col len ooboffs ooblen ops =
     (if len = 0 \<and> ooblen = 0 then Some ((0, ops), nm)
      else
        let ws = lower_writesize nm;
            osz = mtd_oobsize (info (nm_lower nm));
            datlen = dat_part ws col len;
            ooblen1 = oob_part maxooblen ooboffs ooblen;
            cache = (if len \<noteq> 0 then fill_dat ws col datlen ops (nm_page_cache nm) else nm_page_cache nm);
            cache = (if ooblen \<noteq> 0 then fill_oob ws osz ooboffs ooblen1 ops cache else cache);
            ops = ops\<lparr>ops_retlen := ops_retlen ops + datlen,
                      ops_oobretlen := ops_oobretlen ops + ooblen1\<rparr>;
            (ret, nm) = write_from_cache crc (nm\<lparr>nm_page_cache := cache\<rparr>) addr has_dat has_oob mode
        in if ret \<noteq> 0 then Some ((ret, ops), nm)
           else write_data_pages crc has_dat has_oob maxooblen mode nm (addr + ucast ws)
                  (if len \<noteq> 0 then 0 else col) (len - datlen)
                  (if ooblen \<noteq> 0 then 0 else ooboffs) (ooblen - ooblen1) ops)"

definition nmbm_mtd_write_data ::
  "(u32 \<Rightarrow> bytes \<Rightarrow> u32) \<Rightarrow> 'm nmbm_mtd \<Rightarrow> u64 \<Rightarrow> mtd_oob_ops \<Rightarrow> nmbm_oob_mode
    \<Rightarrow> ((int \<times> mtd_oob_ops) \<times> 'm nmbm_mtd) option" where
  "nmbm_mtd_write_data crc nm addr ops mode =
     write_data_pages crc (ops_len ops \<noteq> 0) (ops_ooblen ops \<noteq> 0)
       (ucast (mtd_oobavail (nm_lower nm) (info (nm_lower nm)) (ops_mode ops))) mode nm
       (page_addr nm addr) (page_col nm addr) (ops_len ops) (ops_ooboffs ops) (ops_ooblen ops)
       (ops\<lparr>ops_oobretlen := 0, ops_retlen := 0\<rparr>)"

definition nmbm_mtd_write_oob ::
  "(u32 \<Rightarrow> bytes \<Rightarrow> u32) \<Rightarrow> 'm nmbm_mtd \<Rightarrow> u64 \<Rightarrow> mtd_oob_ops
    \<Rightarrow> ((int \<times> mtd_oob_ops) \<times> 'm nmbm_mtd) option" where
  "nmbm_mtd_write_oob crc nm to ops =
     (if oobbuf ops = None \<and> datbuf ops = None
      then Some ((if ops_ooblen ops \<noteq> 0 \<or> ops_len ops \<noteq> 0 then - EINVAL else 0, ops), nm)
      else
        case upper_ops_mode (ops_mode ops) of
          None \<Rightarrow> Some ((- ENOTSUPP, ops), nm)
        | Some mode \<Rightarrow>
          let maxooblen = mtd_oobavail (nm_lower nm) (upper nm) (ops_mode ops)
          in if datbuf ops \<noteq> None \<and> to + ops_len ops > mtd_size (upper nm)
             then Some ((- EINVAL, ops), nm)
             else if oobbuf ops = None
             then (case nmbm_get_device nm FL_WRITING of
                     None \<Rightarrow> None
                   | Some nm \<Rightarrow>
                     let ((ret, retlen), nip) =
                           nmbm_write_range crc (Some (nm_ni nm)) to (ops_len ops) (the (datbuf ops)) mode;
                         ops = ops\<lparr>ops_retlen := case_option (ops_retlen ops) id retlen\<rparr>
                     in Some ((ret, ops), nmbm_release_device (nm\<lparr>nm_ni := the nip\<rparr>)))
             else if ops_ooboffs ops \<ge> maxooblen then Some ((- EINVAL, ops), nm)
             else if oob_outside (upper nm) to ops maxooblen then Some ((- EINVAL, ops), nm)
             else
               case nmbm_get_device nm FL_WRITING of
                 None \<Rightarrow> None
               | Some nm \<Rightarrow>
                 (case nmbm_mtd_write_data crc nm to ops mode of
                    None \<Rightarrow> None
                  | Some (r, nm) \<Rightarrow> Some (r, nmbm_release_device nm)))"

text \<open>
  The panic write takes no lock. \<open>wrlen\<close> counts a chunk before it is written, and the loop is
  left with the return value 0 in any case.
\<close>

partial_function (option) panic_write_pages ::
  "(u32 \<Rightarrow> bytes \<Rightarrow> u32) \<Rightarrow> 'm nmbm_mtd \<Rightarrow> u64 \<Rightarrow> u32 \<Rightarrow> u64 \<Rightarrow> bytes \<Rightarrow> u64 \<Rightarrow> (u64 \<times> 'm nmbm_mtd) option" where
  "panic_write_pages crc nm to col len buf wrlen =
     (if len = 0 then Some (wrlen, nm)
      else
        let ws = lower_writesize nm;
            chklen = dat_chklen ws col len;
            cache = (if chklen < ucast ws then memset 0 0xff (unat ws) (nm_page_cache nm)
                     else nm_page_cache nm);
            cache = buf_put (unat col) (buf_get (unat wrlen) (unat chklen) buf) cache;
            (ret, nip) = nmbm_panic_write_single_page crc (Some (nm_ni nm)) to cache;
            nm = nm\<lparr>nm_page_cache := cache, nm_ni := the nip\<rparr>
        in if ret \<noteq> 0 then Some (wrlen + chklen, nm)
           else panic_write_pages crc nm (to + ucast ws) 0 (len - chklen) buf (wrlen + chklen))"

text \<open>The result is the return value and \<open>*retlen\<close>.\<close>

definition nmbm_mtd_panic_write ::
  "(u32 \<Rightarrow> bytes \<Rightarrow> u32) \<Rightarrow> 'm nmbm_mtd \<Rightarrow> u64 \<Rightarrow> u64 \<Rightarrow> bytes \<Rightarrow> ((int \<times> u64) \<times> 'm nmbm_mtd) option" where
  "nmbm_mtd_panic_write crc nm to len buf =
     map_option (\<lambda>(wrlen, nm). ((0, wrlen), nm))
       (panic_write_pages crc nm (page_addr nm to) (page_col nm to) len buf 0)"


section \<open>Probing and removal\<close>

definition NMBM_MAX_RATIO_DEFAULT :: u32 where "NMBM_MAX_RATIO_DEFAULT = 1"
definition NMBM_MAX_BLOCKS_DEFAULT :: u32 where "NMBM_MAX_BLOCKS_DEFAULT = 256"

definition EPROBE_DEFER :: int where "EPROBE_DEFER = 517"

text \<open>
  What the kernel finds for the device node: the lower device by its handle and by its name, the
  numbers and flags of the node, whether the allocation succeeds, and the result of registering
  the new MTD device.
\<close>

datatype 'a lookup = No_property | Not_found | Found 'a

record 'm probe_env =
  by_node :: "('m mtd_device \<times> 'm) lookup"
  by_name :: "('m mtd_device \<times> 'm) lookup"
  prop_max_ratio :: "u32 option"
  prop_max_reserved_blocks :: "u32 option"
  forced_create :: bool
  empty_page_ecc_protected :: bool
  kzalloc_ok :: bool
  register_result :: int

text \<open>
  \<open>Probe_undefined\<close> stands for the use of the uninitialised pointer \<open>lower\<close>, which is reached
  when the node has neither property, and \<open>Probe_endless\<close> for a call that does not return.
  A failed probe frees \<open>nm\<close> and leaves the lower device in the state it has reached.
\<close>

datatype 'm probed =
  Probe_undefined
| Probe_endless
| Probe_defer
| Probe_failed int 'm
| Probed "'m nmbm_mtd"

definition probe_lower :: "'m probe_env \<Rightarrow> ('m mtd_device \<times> 'm) lookup" where
  "probe_lower env = (case by_node env of No_property \<Rightarrow> by_name env | r \<Rightarrow> r)"

definition probe_nld :: "'m probe_env \<Rightarrow> 'm mtd_device \<Rightarrow> 'm \<Rightarrow> 'm nm_arg nmbm_lower_device" where
  "probe_nld env low c =
     \<lparr>max_ratio = case_option NMBM_MAX_RATIO_DEFAULT id (prop_max_ratio env),
      max_reserved_blocks = case_option NMBM_MAX_BLOCKS_DEFAULT id (prop_max_reserved_blocks env),
      flags = (if forced_create env then NMBM_F_CREATE else 0)
        OR (if empty_page_ecc_protected env then NMBM_F_EMPTY_PAGE_ECC_OK else 0),
      chip_size = mtd_size (info low), erasesize = mtd_erasesize (info low),
      writesize = mtd_writesize (info low), oobsize = mtd_oobsize (info low),
      oobavail = mtd_oobavail_field (info low),
      arg = \<lparr>chip = c, upper_corrected = 0, upper_failed = 0\<rparr>,
      reset_chip = None,
      read_page = Some (nmbm_lower_read_page low),
      write_page = Some (nmbm_lower_write_page low),
      panic_write_page = Some (nmbm_lower_panic_write_page low),
      erase_block = Some (nmbm_lower_erase_block low),
      is_bad_block = Some (nmbm_lower_is_bad_block low),
      mark_bad_block = Some (nmbm_lower_mark_bad_block low)\<rparr>"

text \<open>The instance in zeroed memory; attaching stores the lower device over its own.\<close>

definition zero_header :: nmbm_header where
  "zero_header = \<lparr>magic = 0, version = 0, hdr_size = 0, checksum = 0\<rparr>"

definition zero_instance :: "'d nmbm_lower_device \<Rightarrow> 'd nmbm_instance" where
  "zero_instance nld = \<lparr>lower = nld, rawpage_size = 0, rawblock_size = 0, rawchip_size = 0,
     writesize_mask = 0, erasesize_mask = 0, writesize_shift = 0, erasesize_shift = 0,
     signature = \<lparr>sig_header = zero_header, nand_size = 0, block_size = 0, page_size = 0, spare_size = 0,
       mgmt_start_pb = 0, max_try_count = 0, padding = [0, 0, 0], sig_tail = [0, 0, 0, 0]\<rparr>,
     info_table_cache = [], info_table_size = 0, info_table_spare_blocks = 0,
     info_table = \<lparr>ift_header = zero_header, write_count = 0, state_table_off = 0,
       mapping_table_off = 0, ift_padding = 0\<rparr>,
     block_state = [], block_state_changed = 0, state_table_size = 0, block_mapping = [],
     block_mapping_changed = 0, mapping_table_size = 0, page_cache = [], protected = 0,
     block_count = 0, data_block_count = 0, mgmt_start_ba = 0, main_table_ba = 0,
     backup_table_ba = 0, mapping_blocks_ba = 0, mapping_blocks_top_ba = 0, signature_ba = 0,
     log_display_level = NMBM_LOG_DEBUG\<rparr>"

definition upper_info :: "'d nmbm_instance \<Rightarrow> mtd_info \<Rightarrow> mtd_info" where
  "upper_info ni low = low\<lparr>mtd_size := ucast (data_block_count ni) * ucast (mtd_erasesize low)\<rparr>"

text \<open>
  \<open>sz_ni\<close> is \<open>sizeof(struct nmbm_instance)\<close>; the arrays of the instance follow it in memory,
  and behind them lies the page cache.
\<close>

definition nmbm_probe :: "(u32 \<Rightarrow> bytes \<Rightarrow> u32) \<Rightarrow> u64 \<Rightarrow> 'm probe_env \<Rightarrow> 'm probed" where
  "nmbm_probe crc sz_ni env =
     (case probe_lower env of
        No_property \<Rightarrow> Probe_undefined
      | Not_found \<Rightarrow> Probe_defer
      | Found (low, c) \<Rightarrow>
        let nld = probe_nld env low c;
            alloc_size = ucast (nmbm_calc_structure_size sz_ni nld) :: u32
        in if \<not> kzalloc_ok env then Probe_failed (- ENOMEM) c
           else
             case nmbm_attach crc (replicate (unat alloc_size - unat sz_ni) 0) (Some nld)
                    (Some (zero_instance nld)) of
               None \<Rightarrow> Probe_endless
             | Some (ret, nip) \<Rightarrow>
               let ni = the nip
               in if ret \<noteq> 0 then Probe_failed ret (chip (arg (lower ni)))
                  else if register_result env \<noteq> 0
                  then let (_, nip) = nmbm_detach crc (Some ni)
                       in Probe_failed (register_result env) (chip (arg (lower (the nip))))
                  else Probed \<lparr>upper = upper_info ni (info low), nm_lower = low, nm_ni = ni,
                         nm_page_cache = replicate (unat (mtd_writesize (info low) + mtd_oobsize (info low))) 0,
                         nm_state = FL_READY\<rparr>)"

text \<open>
  The result of removal is the return value and, where the device is freed, the state of the lower
  device. \<open>unregister_result\<close> is what the kernel returns for the upper device.
\<close>

definition nmbm_remove ::
  "(u32 \<Rightarrow> bytes \<Rightarrow> u32) \<Rightarrow> int \<Rightarrow> 'm nmbm_mtd \<Rightarrow> int \<times> 'm option" where
  "nmbm_remove crc unregister_result nm =
     (if unregister_result \<noteq> 0 then (unregister_result, None)
      else let (_, nip) = nmbm_detach crc (Some (nm_ni nm))
           in (0, Some (chip (arg (lower (the nip))))))"


section \<open>Tasks and the device lock\<close>

text \<open>
  Tasks that use the device at the same time. A task tries to get the device, sleeps on the wait
  queue, or has got it; releasing the device wakes all sleeping tasks. The critical sections under the
  spin lock are atomic steps, and \<open>add_wait_queue\<close> comes before the lock is given up. While it
  has the device, a task may change everything but its state. A task that called
  \<open>nmbm_mtd_shutdown\<close> never gives the device back.
\<close>

datatype task = Idle | Trying flstate | Sleeping flstate | Holding flstate

fun woken :: "task \<Rightarrow> task" where
  "woken (Sleeping s) = Trying s"
| "woken t = t"

inductive lock_step :: "'m nmbm_mtd \<times> (nat \<Rightarrow> task) \<Rightarrow> 'm nmbm_mtd \<times> (nat \<Rightarrow> task) \<Rightarrow> bool" where
  lock_enter: "ts t = Idle \<Longrightarrow> new \<noteq> FL_READY \<Longrightarrow> lock_step (nm, ts) (nm, ts(t := Trying new))"
| lock_get: "ts t = Trying new \<Longrightarrow> nmbm_get_device nm new = Some nm' \<Longrightarrow>
    lock_step (nm, ts) (nm', ts(t := Holding new))"
| lock_sleep: "ts t = Trying new \<Longrightarrow> nmbm_get_device nm new = None \<Longrightarrow>
    lock_step (nm, ts) (nm, ts(t := Sleeping new))"
| lock_work: "ts t = Holding s \<Longrightarrow> nm_state nm' = nm_state nm \<Longrightarrow> lock_step (nm, ts) (nm', ts)"
| lock_release: "ts t = Holding s \<Longrightarrow> s \<noteq> FL_PM_SUSPENDED \<Longrightarrow>
    lock_step (nm, ts) (nmbm_release_device nm, woken \<circ> ts(t := Idle))"

inductive_cases lock_stepE: "lock_step (nm, ts) s'"

fun task_ok :: "flstate \<Rightarrow> task \<Rightarrow> bool" where
  "task_ok st Idle = True"
| "task_ok st (Trying s) = (s \<noteq> FL_READY)"
| "task_ok st (Sleeping s) = (s \<noteq> FL_READY \<and> st \<noteq> FL_READY)"
| "task_ok st (Holding s) = (s = st \<and> s \<noteq> FL_READY)"

definition lock_inv :: "'m nmbm_mtd \<Rightarrow> (nat \<Rightarrow> task) \<Rightarrow> bool" where
  "lock_inv nm ts \<longleftrightarrow>
     (\<forall>t. task_ok (nm_state nm) (ts t)) \<and>
     (nm_state nm \<noteq> FL_READY \<longrightarrow> (\<exists>t. ts t = Holding (nm_state nm))) \<and>
     (nm_state nm \<noteq> FL_PM_SUSPENDED \<longrightarrow> (\<forall>t u. ts t = Holding (nm_state nm) \<and> ts u = Holding (nm_state nm) \<longrightarrow> t = u))"

lemma other_holder:
  "(\<exists>u. ts u = Holding s) \<Longrightarrow> ts t \<noteq> Holding s \<Longrightarrow> \<exists>u. (ts(t := x)) u = Holding s"
  by force

lemma woken_eq:
  "woken x = Holding s \<longleftrightarrow> x = Holding s" "woken x \<noteq> Sleeping s"
  "woken x = Trying s \<longleftrightarrow> x = Trying s \<or> x = Sleeping s"
  by (cases x; auto)+

lemma get_device_Some:
  "nmbm_get_device nm new = Some nm' \<longleftrightarrow>
    (nm_state nm = FL_READY \<and> nm' = nm\<lparr>nm_state := new\<rparr> \<or>
     nm_state nm = FL_PM_SUSPENDED \<and> new = FL_PM_SUSPENDED \<and> nm' = nm\<lparr>nm_state := FL_PM_SUSPENDED\<rparr>)"
  by (auto simp: nmbm_get_device_def get_device_locked_def)

lemma get_device_None:
  "nmbm_get_device nm new = None \<longleftrightarrow>
    nm_state nm \<noteq> FL_READY \<and> \<not> (new = FL_PM_SUSPENDED \<and> nm_state nm = FL_PM_SUSPENDED)"
  by (auto simp: nmbm_get_device_def get_device_locked_def)

lemma lock_inv_update:
  assumes "lock_inv nm ts" "\<forall>s. ts t \<noteq> Holding s" "task_ok (nm_state nm) x" "\<forall>s. x \<noteq> Holding s"
  shows "lock_inv nm (ts(t := x))"
  using assms other_holder [of ts _ t x] unfolding lock_inv_def by auto

lemma lock_inv_get:
  assumes "lock_inv nm ts" "nmbm_get_device nm new = Some nm'" "ts t = Trying new"
  shows "lock_inv nm' (ts(t := Holding new))"
proof -
  have new: "new \<noteq> FL_READY" using assms(1,3) unfolding lock_inv_def by (metis task_ok.simps(2))
  consider "nm_state nm = FL_READY" "nm' = nm\<lparr>nm_state := new\<rparr>"
    | "nm_state nm = FL_PM_SUSPENDED" "new = FL_PM_SUSPENDED" "nm' = nm"
    using assms(2) by (auto simp: get_device_Some)
  then show ?thesis
  proof cases
    case 1
    then have free: "\<forall>u s. ts u \<noteq> Holding s \<and> ts u \<noteq> Sleeping s"
      using assms(1) unfolding lock_inv_def by (metis task_ok.simps(3,4))
    have "task_ok new (ts u)" for u
      using assms(1) free unfolding lock_inv_def by (cases "ts u") (auto, metis task_ok.simps(2))
    then show ?thesis using 1 free new by (auto simp: lock_inv_def)
  next
    case 2
    then show ?thesis using assms(1) by (auto simp: lock_inv_def)
  qed
qed

lemma lock_inv_release:
  assumes "lock_inv nm ts" "ts t = Holding s" "s \<noteq> FL_PM_SUSPENDED"
  shows "lock_inv (nmbm_release_device nm) (woken \<circ> ts(t := Idle))"
proof -
  have s: "s = nm_state nm" using assms(1,2) unfolding lock_inv_def by (metis task_ok.simps(4))
  have "task_ok FL_READY (woken (ts u))" if "u \<noteq> t" for u
  proof -
    have "task_ok (nm_state nm) (ts u)" "ts u \<noteq> Holding s"
      using assms that s unfolding lock_inv_def by metis+
    then show ?thesis by (cases "ts u") (auto simp: s)
  qed
  then show ?thesis
    by (auto simp: lock_inv_def nmbm_release_device_def woken_eq)
      (metis task_ok.simps(4) woken_eq(1))+
qed

lemma lock_inv_step: "lock_step (nm, ts) (nm', ts') \<Longrightarrow> lock_inv nm ts \<Longrightarrow> lock_inv nm' ts'"
proof (erule lock_stepE, goal_cases)
  case (3 t new)
  then have "new \<noteq> FL_READY" unfolding lock_inv_def by (metis task_ok.simps(2))
  with 3 show ?case by (auto simp: get_device_None intro!: lock_inv_update)
next
  case (4 t s nm1)
  then show ?case by (simp add: lock_inv_def)
qed (auto intro: lock_inv_update lock_inv_get lock_inv_release)

lemma lock_inv_reach:
  "lock_step\<^sup>*\<^sup>* (nm, ts) (nm', ts') \<Longrightarrow> lock_inv nm ts \<Longrightarrow> lock_inv nm' ts'"
proof (induction "(nm', ts')" arbitrary: nm' ts' rule: rtranclp_induct)
  case (step s)
  then show ?case by (cases s) (auto dest: lock_inv_step)
qed auto

lemma lock_inv_start: "nm_state nm = FL_READY \<Longrightarrow> lock_inv nm (\<lambda>_. Idle)"
  by (simp add: lock_inv_def)

text \<open>
  C16. Two tasks never use the device at the same time: from an idle device, whatever the order of
  the tasks' steps, two different tasks hold the device only if both have shut it down.
\<close>

theorem device_exclusive:
  assumes "lock_step\<^sup>*\<^sup>* (nm, \<lambda>_. Idle) (nm', ts)" "nm_state nm = FL_READY"
    "ts t = Holding a" "ts u = Holding b" "t \<noteq> u"
  shows "a = FL_PM_SUSPENDED \<and> b = FL_PM_SUSPENDED"
  using lock_inv_reach [OF assms(1) lock_inv_start [OF assms(2)]] assms(3-5)
  unfolding lock_inv_def by (metis task_ok.simps(4))

text \<open>
  C17. No wake-up is lost: while a task sleeps on the wait queue, another task holds the device,
  and unless that one has shut it down its release lets every sleeping task try again.
\<close>

theorem no_lost_wakeup:
  assumes "lock_step\<^sup>*\<^sup>* (nm, \<lambda>_. Idle) (nm', ts)" "nm_state nm = FL_READY" "ts t = Sleeping a"
  shows "\<exists>u s. ts u = Holding s \<and> u \<noteq> t \<and>
    (s \<noteq> FL_PM_SUSPENDED \<longrightarrow> (\<exists>nm'' ts'. lock_step (nm', ts) (nm'', ts') \<and>
        nm_state nm'' = FL_READY \<and> ts' t = Trying a))"
proof -
  have inv: "lock_inv nm' ts"
    by (rule lock_inv_reach [OF assms(1) lock_inv_start [OF assms(2)]])
  then obtain u where u: "ts u = Holding (nm_state nm')"
    using assms(3) unfolding lock_inv_def by (metis task_ok.simps(3))
  then have "u \<noteq> t" using assms(3) by auto
  moreover have "\<exists>nm'' ts'. lock_step (nm', ts) (nm'', ts') \<and> nm_state nm'' = FL_READY \<and> ts' t = Trying a"
    if "nm_state nm' \<noteq> FL_PM_SUSPENDED"
    using lock_release [of ts u "nm_state nm'" nm'] u that \<open>u \<noteq> t\<close> assms(3)
    by (intro exI [of _ "nmbm_release_device nm'"] exI [of _ "woken \<circ> ts(u := Idle)"])
      (simp add: nmbm_release_device_def)
  ultimately show ?thesis using u by blast
qed


section \<open>The operations of the upper device\<close>

text \<open>
  A step of the MTD device is one call of an operation that returns. Each one is a sequence of
  calls of the interface of NMBM on its instance.
\<close>

inductive mtd_step :: "(u32 \<Rightarrow> bytes \<Rightarrow> u32) \<Rightarrow> 'm nmbm_mtd \<Rightarrow> 'm nmbm_mtd \<Rightarrow> bool" for crc where
  mtd_step_erase: "nmbm_mtd_erase crc nm addr len = Some (r, nm') \<Longrightarrow> mtd_step crc nm nm'"
| mtd_step_read: "nmbm_mtd_read_oob nm from ops = Some (q, nm') \<Longrightarrow> mtd_step crc nm nm'"
| mtd_step_write: "nmbm_mtd_write_oob crc nm to ops = Some (q, nm') \<Longrightarrow> mtd_step crc nm nm'"
| mtd_step_panic: "nmbm_mtd_panic_write crc nm to len buf = Some (p, nm') \<Longrightarrow> mtd_step crc nm nm'"
| mtd_step_isbad: "nmbm_mtd_block_isbad nm offs = Some (i, nm') \<Longrightarrow> mtd_step crc nm nm'"
| mtd_step_markbad: "nmbm_mtd_block_markbad crc nm offs = Some (i, nm') \<Longrightarrow> mtd_step crc nm nm'"
| mtd_step_shutdown: "nmbm_mtd_shutdown nm = Some nm' \<Longrightarrow> mtd_step crc nm nm'"

inductive_cases mtd_stepE: "mtd_step crc nm nm'"

abbreviation ni_steps :: "(u32 \<Rightarrow> bytes \<Rightarrow> u32) \<Rightarrow> 'm nmbm_mtd \<Rightarrow> 'm nmbm_mtd \<Rightarrow> bool" where
  "ni_steps crc nm nm' \<equiv> (nmbm_step crc)\<^sup>*\<^sup>* (nm_ni nm) (nm_ni nm')"

lemma api_some:
  "\<exists>r ni'. nmbm_read_single_page (Some ni) addr data oob mode = (r, Some ni')"
  "\<exists>r ni'. nmbm_write_single_page crc (Some ni) addr data oob mode = (r, Some ni')"
  "\<exists>r ni'. nmbm_panic_write_single_page crc (Some ni) addr buf = (r, Some ni')"
  "\<exists>r ni'. nmbm_erase_block_range crc (Some ni) addr sz = (r, Some ni')"
  "\<exists>r ni'. nmbm_read_range (Some ni) addr sz buf mode = (r, Some ni')"
  "\<exists>r ni'. nmbm_write_range crc (Some ni) addr sz buf mode = (r, Some ni')"
  "\<exists>r ni'. nmbm_mark_bad_block crc (Some ni) addr = (r, Some ni')"
  by (simp_all add: nmbm_read_single_page_def nmbm_write_single_page_def nmbm_panic_write_single_page_def
      nmbm_erase_block_range_def nmbm_read_range_def nmbm_write_range_def nmbm_mark_bad_block_def Let_def
      split: prod.splits)

lemma api_steps:
  "nmbm_erase_block_range crc (Some ni) addr sz = (r, nip) \<Longrightarrow> nmbm_step crc ni (the nip)"
  "nmbm_read_single_page (Some ni) addr data oob mode = (r', nip) \<Longrightarrow> nmbm_step crc ni (the nip)"
  "nmbm_read_range (Some ni) addr sz buf mode = (r'', nip) \<Longrightarrow> nmbm_step crc ni (the nip)"
  "nmbm_write_single_page crc (Some ni) addr data oob mode = (i, nip) \<Longrightarrow> nmbm_step crc ni (the nip)"
  "nmbm_panic_write_single_page crc (Some ni) addr buf = (i, nip) \<Longrightarrow> nmbm_step crc ni (the nip)"
  "nmbm_write_range crc (Some ni) addr sz buf mode = (q, nip) \<Longrightarrow> nmbm_step crc ni (the nip)"
  "nmbm_mark_bad_block crc (Some ni) addr = (i, nip) \<Longrightarrow> nmbm_step crc ni (the nip)"
  using api_some by (metis nmbm_step.intros option.sel prod.inject)+

lemma cache_steps:
  "read_to_cache nm addr dd oo mode = (r, nm') \<Longrightarrow>
    nmbm_step crc (nm_ni nm) (nm_ni nm') \<and> nm_lower nm' = nm_lower nm \<and> nm_state nm' = nm_state nm"
  "write_from_cache crc nm addr dd oo mode = (r, nm') \<Longrightarrow>
    nmbm_step crc (nm_ni nm) (nm_ni nm') \<and> nm_lower nm' = nm_lower nm \<and> nm_state nm' = nm_state nm"
  by (auto simp: read_to_cache_def write_from_cache_def Let_def split: prod.splits dest: api_steps)

text \<open>
  What holds of a request in progress for the loop to come to an end: the column is in the page and
  the OOB offset is in the OOB area, as long as these are used.
\<close>

definition in_page :: "u32 \<Rightarrow> u64 \<Rightarrow> u32 \<Rightarrow> u64 \<Rightarrow> u32 \<Rightarrow> u64 \<Rightarrow> bool" where
  "in_page ws maxooblen col len ooboffs ooblen \<longleftrightarrow>
     (len \<noteq> 0 \<longrightarrow> col < ws) \<and> (ooblen \<noteq> 0 \<longrightarrow> ucast ooboffs < maxooblen)"

lemma dat_part_bounds:
  assumes "len \<noteq> 0 \<longrightarrow> col < ws"
  shows "unat (dat_part ws col len) \<le> unat len" "len \<noteq> 0 \<Longrightarrow> 0 < unat (dat_part ws col len)"
    "unat (len - dat_part ws col len) = unat len - unat (dat_part ws col len)"
proof -
  have "0 < unat (ws - col)" if "col < ws"
    using that by (metis unat_gt_0 diff_self eq_iff_diff_eq_0 less_irrefl)
  then have pos: "col < ws \<Longrightarrow> ucast (ws - col) \<noteq> (0 :: u64)"
    by (metis unat_0 unat_ucast_u32_u64 less_irrefl)
  show le: "unat (dat_part ws col len) \<le> unat len"
    by (simp add: dat_part_def dat_chklen_def Let_def) (simp add: not_less word_le_nat_alt)
  show "len \<noteq> 0 \<Longrightarrow> 0 < unat (dat_part ws col len)"
    using assms pos by (auto simp: dat_part_def dat_chklen_def Let_def unat_gt_0)
  show "unat (len - dat_part ws col len) = unat len - unat (dat_part ws col len)"
    using le by (simp add: unat_sub_if')
qed

lemma oob_part_bounds:
  assumes "ooblen \<noteq> 0 \<longrightarrow> ucast ooboffs < maxooblen"
  shows "unat (oob_part maxooblen ooboffs ooblen) \<le> unat ooblen"
    "ooblen \<noteq> 0 \<Longrightarrow> 0 < unat (oob_part maxooblen ooboffs ooblen)"
    "unat (ooblen - oob_part maxooblen ooboffs ooblen) = unat ooblen - unat (oob_part maxooblen ooboffs ooblen)"
proof -
  have pos: "ucast ooboffs < maxooblen \<Longrightarrow> maxooblen - ucast ooboffs \<noteq> 0" by auto
  show le: "unat (oob_part maxooblen ooboffs ooblen) \<le> unat ooblen"
    by (simp add: oob_part_def oob_chklen_def Let_def) (simp add: not_less word_le_nat_alt)
  show "ooblen \<noteq> 0 \<Longrightarrow> 0 < unat (oob_part maxooblen ooboffs ooblen)"
    using assms pos by (auto simp: oob_part_def oob_chklen_def Let_def unat_gt_0)
  show "unat (ooblen - oob_part maxooblen ooboffs ooblen) = unat ooblen - unat (oob_part maxooblen ooboffs ooblen)"
    using le by (simp add: unat_sub_if')
qed

definition pages_post ::
  "(u32 \<Rightarrow> bytes \<Rightarrow> u32) \<Rightarrow> 'm nmbm_mtd \<Rightarrow> u64 \<Rightarrow> u64 \<Rightarrow> mtd_oob_ops \<Rightarrow> (int \<times> mtd_oob_ops) \<times> 'm nmbm_mtd \<Rightarrow> bool" where
  "pages_post crc nm len ooblen ops r \<longleftrightarrow>
     ni_steps crc nm (snd r) \<and> nm_lower (snd r) = nm_lower nm \<and> nm_state (snd r) = nm_state nm \<and>
     (0 \<le> fst (fst r) \<or> fst (fst r) = - EBADMSG \<longrightarrow>
       ops_retlen (snd (fst r)) = ops_retlen ops + len \<and> ops_oobretlen (snd (fst r)) = ops_oobretlen ops + ooblen)"

lemma pages_post_step:
  assumes "pages_post crc nm1 (len - d) (ooblen - b) ops1 r" "nmbm_step crc (nm_ni nm) (nm_ni nm1)"
    "nm_lower nm1 = nm_lower nm" "nm_state nm1 = nm_state nm"
    "ops_retlen ops1 = ops_retlen ops + d" "ops_oobretlen ops1 = ops_oobretlen ops + b"
  shows "pages_post crc nm len ooblen ops r"
  using assms by (auto simp: pages_post_def intro: converse_rtranclp_into_rtranclp)

lemma copied_lens [simp]:
  "ops_retlen (copy_dat c col n ops) = ops_retlen ops + n"
  "ops_oobretlen (copy_dat c col n ops) = ops_oobretlen ops"
  "ops_retlen (copy_oob c ws col n ops) = ops_retlen ops"
  "ops_oobretlen (copy_oob c ws col n ops) = ops_oobretlen ops + n"
  by (simp_all add: copy_dat_def copy_oob_def)

lemma no_part [simp]: "dat_part ws col 0 = 0" "oob_part m off 0 = 0"
  by (simp_all add: dat_part_def oob_part_def)

lemma read_pages_post:
  "read_data_pages dd oo maxooblen mode nm addr col len ooboffs ooblen ops ecc bf = Some r \<Longrightarrow>
    pages_post crc nm len ooblen ops r"
proof (erule read_data_pages.raw_induct [rotated], goal_cases)
  case (1 f dd oo maxooblen mode nm addr col len ooboffs ooblen ops ecc bf r)
  obtain ret1 nm1 where r1: "read_to_cache nm addr dd oo mode = (ret1, nm1)" by fastforce
  note c = cache_steps(1) [OF r1, of crc]
  show ?case
  proof (cases "len = 0 \<and> ooblen = 0")
    case True
    with 1(2) show ?thesis by (auto simp: pages_post_def)
  next
    case False
    note body = 1(2) [unfolded if_not_P [OF False] r1 Let_def prod.case]
    show ?thesis
    proof (cases "ret1 < 0 \<and> ret1 \<noteq> - EBADMSG")
      case True
      with body have "r = ((ret1, ops), nm1)" by simp
      with True c show ?thesis by (auto simp: pages_post_def)
    next
      case False
      show ?thesis
        by (rule pages_post_step [OF "1"(1) [OF body [unfolded if_not_P [OF False]]]]) (use c in auto)
    qed
  qed
qed

lemma write_from_cache_ret:
  "write_from_cache crc nm addr dd oo mode = (ret, nm') \<Longrightarrow> ret \<noteq> 0 \<Longrightarrow> ret < 0 \<and> ret \<noteq> - EBADMSG"
  by (auto simp: write_from_cache_def nmbm_write_single_page_def nmbm_write_logic_page_def Let_def errno_simps
      split: prod.splits if_splits)

lemma write_pages_post:
  "write_data_pages crc dd oo maxooblen mode nm addr col len ooboffs ooblen ops = Some r \<Longrightarrow>
    pages_post crc nm len ooblen ops r"
  apply (erule write_data_pages.raw_induct [rotated])
  subgoal premises p for f crc dd oo maxooblen mode nm addr col len ooboffs ooblen ops r
  proof (cases "len = 0 \<and> ooblen = 0")
    case True
    with p(2) show ?thesis by (auto simp: pages_post_def)
  next
    case False
    let ?c1 = "if len \<noteq> 0 then fill_dat (lower_writesize nm) col (dat_part (lower_writesize nm) col len) ops (nm_page_cache nm)
       else nm_page_cache nm"
    let ?c2 = "if ooblen \<noteq> 0 then fill_oob (lower_writesize nm) (mtd_oobsize (info (nm_lower nm))) ooboffs
       (oob_part maxooblen ooboffs ooblen) ops ?c1 else ?c1"
    obtain ret1 nm1 where r1: "write_from_cache crc (nm\<lparr>nm_page_cache := ?c2\<rparr>) addr dd oo mode = (ret1, nm1)"
      by fastforce
    note c = cache_steps(2) [OF r1]
    note body = p(2) [unfolded if_not_P [OF False] r1 Let_def prod.case]
    show ?thesis
    proof (cases "ret1 \<noteq> 0")
      case True
      then show ?thesis using body c write_from_cache_ret [OF r1] by (auto simp: pages_post_def)
    next
      case False
      show ?thesis
        by (rule pages_post_step [OF p(1) [OF body [unfolded if_not_P [OF False]]]]) (use c in auto)
    qed
  qed
  done


lemma in_page_next:
  assumes "in_page ws m col len off ooblen"
  shows "in_page ws m (if len \<noteq> 0 then 0 else col) (len - dat_part ws col len)
      (if ooblen \<noteq> 0 then 0 else off) (ooblen - oob_part m off ooblen)"
    "len \<noteq> 0 \<or> ooblen \<noteq> 0 \<Longrightarrow>
      unat (len - dat_part ws col len) + unat (ooblen - oob_part m off ooblen) < unat len + unat ooblen"
proof -
  have "col < ws \<Longrightarrow> 0 < ws" "ucast off < m \<Longrightarrow> 0 < m"
    by (metis word_gt_0 word_not_simps(1))+
  then show "in_page ws m (if len \<noteq> 0 then 0 else col) (len - dat_part ws col len)
      (if ooblen \<noteq> 0 then 0 else off) (ooblen - oob_part m off ooblen)"
    using assms by (auto simp: in_page_def)
  have d: "len \<noteq> 0 \<longrightarrow> col < ws" and b: "ooblen \<noteq> 0 \<longrightarrow> ucast off < m"
    using assms by (simp_all add: in_page_def)
  show "unat (len - dat_part ws col len) + unat (ooblen - oob_part m off ooblen) < unat len + unat ooblen"
    if "len \<noteq> 0 \<or> ooblen \<noteq> 0"
    using that dat_part_bounds [OF d] oob_part_bounds [OF b] by linarith
qed

lemma read_pages_return:
  "in_page (lower_writesize nm) maxooblen col len ooboffs ooblen \<Longrightarrow>
    \<exists>r. read_data_pages dd oo maxooblen mode nm addr col len ooboffs ooblen ops ecc bf = Some r"
proof (induction "unat len + unat ooblen" arbitrary: nm addr col len ooboffs ooblen ops ecc bf rule: less_induct)
  case less
  obtain ret1 nm1 where r1: "read_to_cache nm addr dd oo mode = (ret1, nm1)" by fastforce
  note ws = cache_steps(1) [OF r1, THEN conjunct2, THEN conjunct1]
  note n = in_page_next [OF less.prems]
  show ?case
  proof (cases "len = 0 \<and> ooblen = 0")
    case True
    then show ?thesis by (simp add: read_data_pages.simps [of dd oo])
  next
    case False
    note u = read_data_pages.simps [of dd oo maxooblen mode nm addr col len ooboffs ooblen ops ecc bf,
        unfolded if_not_P [OF False] r1 Let_def prod.case]
    show ?thesis
      unfolding u ws by (cases "ret1 < 0 \<and> ret1 \<noteq> - EBADMSG")
        (use less.hyps [OF n(2), of nm1] n(1) False ws in \<open>simp_all only: simp_thms if_True if_False\<close>, blast+)
  qed
qed

lemma write_pages_return:
  "in_page (lower_writesize nm) maxooblen col len ooboffs ooblen \<Longrightarrow>
    \<exists>r. write_data_pages crc dd oo maxooblen mode nm addr col len ooboffs ooblen ops = Some r"
proof (induction "unat len + unat ooblen" arbitrary: nm addr col len ooboffs ooblen ops rule: less_induct)
  case less
  let ?c1 = "if len \<noteq> 0 then fill_dat (lower_writesize nm) col (dat_part (lower_writesize nm) col len) ops (nm_page_cache nm)
     else nm_page_cache nm"
  let ?c2 = "if ooblen \<noteq> 0 then fill_oob (lower_writesize nm) (mtd_oobsize (info (nm_lower nm))) ooboffs
     (oob_part maxooblen ooboffs ooblen) ops ?c1 else ?c1"
  obtain ret1 nm1 where r1: "write_from_cache crc (nm\<lparr>nm_page_cache := ?c2\<rparr>) addr dd oo mode = (ret1, nm1)"
    by fastforce
  have ws: "nm_lower nm1 = nm_lower nm" using cache_steps(2) [OF r1] by simp
  note n = in_page_next [OF less.prems]
  show ?case
  proof (cases "len = 0 \<and> ooblen = 0")
    case True
    then show ?thesis by (simp add: write_data_pages.simps [of crc dd oo])
  next
    case False
    note u = write_data_pages.simps [of crc dd oo maxooblen mode nm addr col len ooboffs ooblen ops,
        unfolded if_not_P [OF False] r1 Let_def prod.case]
    show ?thesis
      unfolding u by (cases "ret1 \<noteq> 0")
        (use less.hyps [OF n(2), of nm1] n(1) False ws in \<open>simp_all only: simp_thms if_True if_False\<close>, blast+)
  qed
qed

lemma panic_pages_return:
  "(len \<noteq> 0 \<longrightarrow> col < lower_writesize nm) \<Longrightarrow> \<exists>r. panic_write_pages crc nm to col len buf wrlen = Some r"
proof (induction "unat len" arbitrary: nm to col len wrlen rule: less_induct)
  case less
  note n = dat_part_bounds [OF less.prems]
  have "col < lower_writesize nm \<Longrightarrow> 0 < lower_writesize nm"
    by (metis word_gt_0 word_not_simps(1))
  then have "\<exists>r. panic_write_pages crc nm1 to1 0 (len - dat_part (lower_writesize nm) col len) buf w = Some r"
    if "len \<noteq> 0" "nm_lower nm1 = nm_lower nm" for nm1 to1 w
    using less.hyps [of "len - dat_part (lower_writesize nm) col len" 0 nm1] less.prems n that by fastforce
  then show ?case
    by (auto simp: panic_write_pages.simps [of crc nm] Let_def dat_part_def split: prod.splits)
qed

lemma panic_pages_steps:
  "panic_write_pages crc nm to col len buf wrlen = Some r \<Longrightarrow>
    ni_steps crc nm (snd r) \<and> nm_state (snd r) = nm_state nm \<and> nm_lower (snd r) = nm_lower nm"
  apply (erule panic_write_pages.raw_induct [rotated])
  subgoal premises p for f crc nm to col len buf wrlen r
  proof (cases "len = 0")
    case True
    with p(2) show ?thesis by auto
  next
    case False
    let ?ws = "lower_writesize nm"
    let ?cache = "if dat_chklen ?ws col len < ucast ?ws then memset 0 0xff (unat ?ws) (nm_page_cache nm) else nm_page_cache nm"
    let ?buf = "buf_put (unat col) (buf_get (unat wrlen) (unat (dat_chklen ?ws col len)) buf) ?cache"
    obtain ret nip where r1: "nmbm_panic_write_single_page crc (Some (nm_ni nm)) to ?buf = (ret, nip)" by fastforce
    note s = api_steps(5) [OF r1]
    note body = p(2) [unfolded if_not_P [OF False] r1 Let_def prod.case]
    show ?thesis
    proof (cases "ret \<noteq> 0")
      case True
      then show ?thesis using body s by auto
    next
      case False
      show ?thesis
        using p(1) [OF body [unfolded if_not_P [OF False]]] s by (auto intro: converse_rtranclp_into_rtranclp)
    qed
  qed
  done


lemma read_data_post:
  "nmbm_mtd_read_data nm addr ops mode = Some r \<Longrightarrow> pages_post crc nm (ops_len ops) (ops_ooblen ops)
    (ops\<lparr>ops_oobretlen := 0, ops_retlen := 0\<rparr>) r"
  unfolding nmbm_mtd_read_data_def by (rule read_pages_post)

lemma write_data_post:
  "nmbm_mtd_write_data crc nm addr ops mode = Some r \<Longrightarrow> pages_post crc nm (ops_len ops) (ops_ooblen ops)
    (ops\<lparr>ops_oobretlen := 0, ops_retlen := 0\<rparr>) r"
  unfolding nmbm_mtd_write_data_def by (rule write_pages_post)

lemma get_device_ni: "nmbm_get_device nm new = Some nm' \<Longrightarrow> nm_ni nm' = nm_ni nm \<and> nm_lower nm' = nm_lower nm"
  by (auto simp: get_device_Some)

lemma release_sels [simp]:
  "nm_ni (nmbm_release_device nm) = nm_ni nm" "nm_state (nmbm_release_device nm) = FL_READY"
  "nm_lower (nmbm_release_device nm) = nm_lower nm"
  by (simp_all add: nmbm_release_device_def)

lemma mtd_refines: "mtd_step crc nm nm' \<Longrightarrow> ni_steps crc nm nm'"
proof (erule mtd_stepE, goal_cases)
  case (1 addr len r)
  then show ?case
    by (auto simp: nmbm_mtd_erase_def Let_def split: option.splits prod.splits
        dest!: get_device_ni api_steps)
next
  case (2 a ops q)
  then show ?case
    by (auto simp: nmbm_mtd_read_oob_def Let_def pages_post_def split: option.splits prod.splits if_splits
        dest!: get_device_ni api_steps(3) [where crc = crc] read_data_post [where crc = crc])
next
  case (3 a ops q)
  then show ?case
    by (auto simp: nmbm_mtd_write_oob_def Let_def pages_post_def split: option.splits prod.splits if_splits
        dest!: get_device_ni api_steps(6) write_data_post)
next
  case (4 a len buf p)
  then show ?case
    by (auto simp: nmbm_mtd_panic_write_def dest!: panic_pages_steps)
next
  case (5 offs i)
  then show ?case
    by (auto simp: nmbm_mtd_block_isbad_def Let_def split: option.splits dest!: get_device_ni)
next
  case (6 offs i)
  then show ?case
    by (auto simp: nmbm_mtd_block_markbad_def Let_def split: option.splits prod.splits
        dest!: get_device_ni api_steps(7))
next
  case 7
  then show ?case by (auto simp: nmbm_mtd_shutdown_def dest!: get_device_ni)
qed

lemma mtd_reach_refines: "(mtd_step crc)\<^sup>*\<^sup>* nm nm' \<Longrightarrow> ni_steps crc nm nm'"
  by (induction rule: rtranclp_induct) (auto dest: mtd_refines)


lemma page_col_le: "page_col nm addr \<le> mtd_writesize_mask (info (nm_lower nm))"
proof -
  have "page_col nm addr = ucast addr AND mtd_writesize_mask (info (nm_lower nm))"
    by (rule bit_word_eqI) (simp add: page_col_def bit_simps)
  then show ?thesis by (simp add: word_and_le1)
qed

lemma data_returns:
  assumes "mtd_writesize_mask (info (nm_lower nm)) < lower_writesize nm"
    and "ops_ooblen ops \<noteq> 0 \<longrightarrow> ops_ooboffs ops < mtd_oobavail (nm_lower nm) (info (nm_lower nm)) (ops_mode ops)"
  shows "\<exists>r. nmbm_mtd_read_data nm addr ops mode = Some r"
    "\<exists>r. nmbm_mtd_write_data crc nm addr ops mode = Some r"
    "\<exists>r. nmbm_mtd_panic_write crc nm addr len buf = Some r"
proof -
  have col: "page_col nm addr < lower_writesize nm"
    using page_col_le assms(1) by (rule le_less_trans)
  then have "in_page (lower_writesize nm) (ucast (mtd_oobavail (nm_lower nm) (info (nm_lower nm)) (ops_mode ops)))
      (page_col nm addr) (ops_len ops) (ops_ooboffs ops) (ops_ooblen ops)"
    using assms(2) by (simp add: in_page_def word_less_nat_alt)
  then show "\<exists>r. nmbm_mtd_read_data nm addr ops mode = Some r"
    "\<exists>r. nmbm_mtd_write_data crc nm addr ops mode = Some r"
    unfolding nmbm_mtd_read_data_def nmbm_mtd_write_data_def
    by (rule read_pages_return, rule write_pages_return)
  show "\<exists>r. nmbm_mtd_panic_write crc nm addr len buf = Some r"
    using panic_pages_return [of len "page_col nm addr" nm crc] col
    by (auto simp: nmbm_mtd_panic_write_def)
qed

lemma mtd_ops_exist:
  assumes "nm_state nm = FL_READY" "mtd_writesize_mask (info (nm_lower nm)) < mtd_writesize (info (nm_lower nm))"
    "mtd_oobavail (nm_lower nm) (upper nm) (ops_mode ops) = mtd_oobavail (nm_lower nm) (info (nm_lower nm)) (ops_mode ops)"
  shows "(\<exists>r nm'. nmbm_mtd_read_oob nm addr ops = Some (r, nm') \<and> nm_state nm' = FL_READY) \<and>
    (\<exists>r nm'. nmbm_mtd_write_oob crc nm addr ops = Some (r, nm') \<and> nm_state nm' = FL_READY) \<and>
    (\<exists>r nm'. nmbm_mtd_erase crc nm addr len = Some (r, nm') \<and> nm_state nm' = FL_READY) \<and>
    (\<exists>r nm'. nmbm_mtd_block_isbad nm addr = Some (r, nm') \<and> nm_state nm' = FL_READY) \<and>
    (\<exists>r nm'. nmbm_mtd_block_markbad crc nm addr = Some (r, nm') \<and> nm_state nm' = FL_READY) \<and>
    (\<exists>r nm'. nmbm_mtd_panic_write crc (nm\<lparr>nm_state := s\<rparr>) addr len buf = Some (r, nm'))"
proof -
  have get: "nmbm_get_device nm new = Some (nm\<lparr>nm_state := new\<rparr>)" for new
    using assms(1) by (simp add: get_device_Some)
  have ret: "nmbm_mtd_read_data (nm\<lparr>nm_state := new\<rparr>) addr ops mode \<noteq> None"
    "nmbm_mtd_write_data crc (nm\<lparr>nm_state := new\<rparr>) addr ops mode \<noteq> None"
    if "ops_ooboffs ops < mtd_oobavail (nm_lower nm) (upper nm) (ops_mode ops)" for new mode
    using data_returns(1,2) [where nm = "nm\<lparr>nm_state := new\<rparr>" and ops = ops] assms(2,3) that by auto
  have "\<exists>r nm'. nmbm_mtd_read_oob nm addr ops = Some (r, nm') \<and> nm_state nm' = FL_READY"
    by (auto simp: ret(1) nmbm_mtd_read_oob_def Let_def get assms(1) not_le split: option.splits prod.splits)
  moreover have "\<exists>r nm'. nmbm_mtd_write_oob crc nm addr ops = Some (r, nm') \<and> nm_state nm' = FL_READY"
    by (auto simp: ret(2) nmbm_mtd_write_oob_def Let_def get assms(1) not_le split: option.splits prod.splits)
  moreover have "\<exists>r nm'. nmbm_mtd_panic_write crc (nm\<lparr>nm_state := s\<rparr>) addr len buf = Some (r, nm')"
    using data_returns(3) [where nm = "nm\<lparr>nm_state := s\<rparr>" and ops = "ops\<lparr>ops_ooblen := 0\<rparr>"] assms(2) by auto
  ultimately show ?thesis
    by (auto simp: nmbm_mtd_erase_def nmbm_mtd_block_isbad_def nmbm_mtd_block_markbad_def Let_def get
        split: prod.splits)
qed


lemma oob_via_data:
  fixes nm :: "'m nmbm_mtd"
  shows
  "nmbm_mtd_read_oob nm addr ops = Some (r, nm') \<Longrightarrow> oobbuf ops \<noteq> None \<Longrightarrow>
    fst r < 0 \<and> fst r \<noteq> - EBADMSG \<or> (\<exists>(nm1 :: 'm nmbm_mtd) mode nm2. nmbm_mtd_read_data nm1 addr ops mode = Some (r, nm2))"
  "nmbm_mtd_write_oob crc nm addr ops = Some (r, nm') \<Longrightarrow> oobbuf ops \<noteq> None \<Longrightarrow>
    fst r < 0 \<and> fst r \<noteq> - EBADMSG \<or> (\<exists>(nm1 :: 'm nmbm_mtd) mode nm2. nmbm_mtd_write_data crc nm1 addr ops mode = Some (r, nm2))"
  by (auto simp: nmbm_mtd_read_oob_def nmbm_mtd_write_oob_def Let_def errno_simps split: option.splits if_splits)



lemma attach_instance:
  "nmbm_attach crc mem (Some nld) (Some ni) = Some (r, nip) \<Longrightarrow> \<exists>ni'. nip = Some ni'"
  by (auto simp: nmbm_attach_def Let_def split: prod.splits option.splits if_splits)

text \<open>
  The upper device is as large as the range NMBM serves: with the size and the address check of
  the upper device no request reaches a logic block that has no mapping entry.
\<close>

lemma probed_size:
  assumes "nmbm_probe crc sz_ni env = Probed nm" "nmbm_check_lower_members (probe_nld env low c) = (True, nld)"
    "probe_lower env = Found (low, c)"
  shows "mtd_size (upper nm) = nmbm_get_avail_size (Some (nm_ni nm)) \<and>
    mtd_size (upper nm) = ba2addr (nm_ni nm) (data_block_count (nm_ni nm)) \<and>
    nm_lower nm = low \<and> nm_state nm = FL_READY"
proof -
  let ?nld = "probe_nld env low c"
  obtain mem ret nip where a0: "nmbm_attach crc mem (Some ?nld) (Some (zero_instance ?nld)) = Some (ret, nip)"
    and nm: "nm_ni nm = the nip" "upper nm = upper_info (the nip) (info low)" "nm_lower nm = low" "nm_state nm = FL_READY"
    using assms(1,3) unfolding nmbm_probe_def Let_def
    by (auto split: if_splits option.splits prod.splits)
  obtain ni where ni: "nip = Some ni" using attach_instance [OF a0] by blast
  note a = a0 [unfolded ni] and nm = nm [unfolded ni option.sel]
  have g: "geom_of (chip_size ?nld) (erasesize ?nld) (writesize ?nld) ni"
    by (rule attach_geom_of [OF a]) (simp add: assms(2))
  then have es: "mtd_erasesize (info low) = 2 ^ unat (erasesize_shift ni)" "unat (erasesize_shift ni) < 32"
    by (auto simp: geom_of_def nmbm_geom_def probe_nld_def)
  then have "ucast (mtd_erasesize (info low)) = (2 :: u64) ^ unat (erasesize_shift ni)"
    by (simp add: word_unat_eq_iff unat_two_power)
  then show ?thesis
    using nm by (simp add: upper_info_def nmbm_get_avail_size_def ba2addr_def push_bit_eq_mult mult.commute)
qed

text \<open>
  The page mask has 32 bits, and its complement clears the upper half of an address: a
  request with an OOB buffer above 4 GiB, or a panic write there, acts on the address modulo 4 GiB.
\<close>

lemma address_truncated:
  "nmbm_mtd_read_data nm addr ops mode = nmbm_mtd_read_data nm (addr AND 0xffffffff) ops mode \<and>
    nmbm_mtd_write_data crc nm addr ops mode = nmbm_mtd_write_data crc nm (addr AND 0xffffffff) ops mode \<and>
    nmbm_mtd_panic_write crc nm addr len buf = nmbm_mtd_panic_write crc nm (addr AND 0xffffffff) len buf"
proof -
  have m: "(0xffffffff :: u64) = mask 32" by (simp add: mask_eq_exp_minus_1)
  have "page_addr nm (addr AND 0xffffffff) = page_addr nm addr" "page_col nm (addr AND 0xffffffff) = page_col nm addr"
    unfolding m by (rule bit_word_eqI; auto simp: page_addr_def page_col_def bit_simps)+
  then show ?thesis
    by (simp add: nmbm_mtd_read_data_def nmbm_mtd_write_data_def nmbm_mtd_panic_write_def)
qed

text \<open>
  A panic write reports success whatever happens: if the first page cannot be written it stops,
  and returns 0 and counts the bytes of that page as written.
\<close>

lemma panic_write_hides_failure:
  assumes "len \<noteq> 0" "mtd_writesize_mask (info (nm_lower nm)) < mtd_writesize (info (nm_lower nm))"
    "\<And>page. fst (nmbm_panic_write_single_page crc (Some (nm_ni nm)) (page_addr nm to) page) \<noteq> 0"
  shows "\<exists>n nm'. nmbm_mtd_panic_write crc nm to len buf = Some ((0, n), nm') \<and> 0 < n \<and> n \<le> len"
proof -
  have col: "page_col nm to < lower_writesize nm"
    using page_col_le assms(2) by (rule le_less_trans)
  let ?n = "dat_chklen (lower_writesize nm) (page_col nm to) len"
  have "dat_part (lower_writesize nm) (page_col nm to) len = ?n" using assms(1) by (simp add: dat_part_def)
  then have n: "0 < ?n" "?n \<le> len"
    using dat_part_bounds(1,2) [of len "page_col nm to" "lower_writesize nm"] col assms(1)
    by (simp_all add: word_less_nat_alt word_le_nat_alt)
  have "\<exists>nm'. panic_write_pages crc nm (page_addr nm to) (page_col nm to) len buf 0 = Some (?n, nm')"
    using assms(1,3) by (simp add: panic_write_pages.simps [of crc nm] Let_def split_beta)
  with n show ?thesis by (auto simp: nmbm_mtd_panic_write_def)
qed

text \<open>
  When a request has OOB data for more pages than data, \<open>datcache\<close> is still set after the
  data has come to its end: the next page is written with the data of the last one, where a page
  without data to write should be left alone.
\<close>

lemma write_repeats_data:
  assumes "ops_len ops = ucast ws" "ws = mtd_writesize (info (nm_lower nm))" "ws \<noteq> 0" "page_col nm addr = 0"
    "avail = mtd_oobavail (nm_lower nm) (info (nm_lower nm)) (ops_mode ops)" "avail \<noteq> 0"
    "ops_ooboffs ops = 0" "ops_ooblen ops = 2 * ucast avail" "datbuf ops = Some buf"
    "unat ws \<le> length buf" "unat ws \<le> length (nm_page_cache nm)"
  shows "\<exists>oob1 oob2. \<forall>ni1 ret ni2.
    nmbm_write_single_page crc (Some (nm_ni nm)) (page_addr nm addr) (Some (take (unat ws) buf)) (Some oob1) mode
      = (0, Some ni1) \<longrightarrow>
    nmbm_write_single_page crc (Some ni1) (page_addr nm addr + ucast ws) (Some (take (unat ws) buf)) (Some oob2) mode
      = (ret, Some ni2) \<longrightarrow>
    (\<exists>ops' nm'. nmbm_mtd_write_data crc nm addr ops mode = Some ((ret, ops'), nm') \<and> nm_ni nm' = ni2)"
proof -
  let ?a = "ucast avail :: u64" and ?ws = "ucast ws :: u64"
  have a: "unat ?a < 2 ^ 32" "?a \<noteq> 0" "?ws \<noteq> 0"
    using u32_less_2p32 [of avail] assms(3,6) unat_ucast_u32_u64 by (metis unat_0 word_unat_eq_iff)+
  then have l: "2 * ?a \<noteq> 0" "\<not> 2 * ?a < ?a" "2 * ?a - ?a = ?a"
    by (auto simp: word_unat_eq_iff word_less_nat_alt unat_word_ariths)
  have parts: "dat_part ws 0 ?ws = ?ws" "oob_part ?a 0 (2 * ?a) = ?a" "oob_part ?a 0 ?a = ?a"
    using a l by (simp_all add: dat_part_def oob_part_def dat_chklen_def oob_chklen_def Let_def)
  define ops0 where "ops0 = ops\<lparr>ops_oobretlen := 0, ops_retlen := 0\<rparr>"
  define ops1 where "ops1 = ops0\<lparr>ops_retlen := ?ws, ops_oobretlen := ?a\<rparr>"
  define osz where "osz = mtd_oobsize (info (nm_lower nm))"
  define c2 where "c2 = fill_oob ws osz 0 ?a ops0 (fill_dat ws 0 ?ws ops0 (nm_page_cache nm))"
  define c3 where "c3 = fill_oob ws osz 0 ?a ops1 c2"
  have oob_keeps: "take (unat ws) (fill_oob ws osz 0 n ops' c) = take (unat ws) c" if "unat ws \<le> length c" for n ops' c
    using that by (simp add: fill_oob_def Let_def memset_def buf_put_def)
  have d: "take (unat ws) (fill_dat ws 0 ?ws ops0 (nm_page_cache nm)) = take (unat ws) buf"
    "unat ws \<le> length (fill_dat ws 0 ?ws ops0 (nm_page_cache nm))"
    using assms(9-11) by (simp_all add: fill_dat_def ops0_def Let_def memset_def buf_put_def buf_get_def)
  have t2: "take (unat ws) c2 = take (unat ws) buf" "unat ws \<le> length c2"
  proof -
    show "take (unat ws) c2 = take (unat ws) buf" using oob_keeps [OF d(2)] d(1) by (simp add: c2_def)
    then have "length (take (unat ws) c2) = unat ws" using assms(10) by simp
    then show "unat ws \<le> length c2" by simp
  qed
  then have t3: "take (unat ws) c3 = take (unat ws) buf" by (simp add: c3_def oob_keeps)
  show ?thesis
  proof (rule exI [of _ "drop (unat ws) c2"], rule exI [of _ "drop (unat ws) c3"], intro allI impI)
    fix ni1 ret ni2
    assume w1: "nmbm_write_single_page crc (Some (nm_ni nm)) (page_addr nm addr) (Some (take (unat ws) buf))
        (Some (drop (unat ws) c2)) mode = (0, Some ni1)"
      and w2: "nmbm_write_single_page crc (Some ni1) (page_addr nm addr + ucast ws) (Some (take (unat ws) buf))
        (Some (drop (unat ws) c3)) mode = (ret, Some ni2)"
    define nm1 where "nm1 = nm\<lparr>nm_page_cache := c2, nm_ni := ni1\<rparr>"
    have "nmbm_mtd_write_data crc nm addr ops mode
        = write_data_pages crc True True ?a mode nm (page_addr nm addr) 0 ?ws 0 (2 * ?a) ops0"
      using assms a l by (simp add: nmbm_mtd_write_data_def ops0_def)
    also have "\<dots> = write_data_pages crc True True ?a mode nm1 (page_addr nm addr + ?ws) 0 0 0 ?a ops1"
      using a l parts w1 t2 by (subst write_data_pages.simps)
        (simp add: Let_def write_from_cache_def assms(2) [symmetric] osz_def [symmetric] c2_def [symmetric] nm1_def,
          simp add: ops1_def ops0_def)
    finally have e: "nmbm_mtd_write_data crc nm addr ops mode
        = write_data_pages crc True True ?a mode nm1 (page_addr nm addr + ?ws) 0 0 0 ?a ops1" .
    show "\<exists>ops' nm'. nmbm_mtd_write_data crc nm addr ops mode = Some ((ret, ops'), nm') \<and> nm_ni nm' = ni2"
      using a w2 t3 parts unfolding e by (subst write_data_pages.simps)
        (simp add: Let_def write_from_cache_def assms(2) [symmetric] osz_def [symmetric] c3_def [symmetric] nm1_def
          write_data_pages.simps [of crc True True])
  qed
qed

section \<open>The theorems at a sample device\<close>

text \<open>The simulated chip as a lower MTD device, and an NMBM device on it.\<close>

definition sim_info :: mtd_info where
  "sim_info = \<lparr>mtd_size = 4096, mtd_erasesize = 128, mtd_writesize = 64, mtd_oobsize = 16,
     mtd_oobavail_field = 16, mtd_erasesize_shift = 7, mtd_writesize_shift = 6, mtd_erasesize_mask = 127,
     mtd_writesize_mask = 63, bitflip_threshold = 1, ecc_strength = 4\<rparr>"

definition sim_mtd :: "sim_nand mtd_device" where
  "sim_mtd = \<lparr>info = sim_info, mtd_oobavail = (\<lambda>mtd mode. mtd_oobsize mtd),
     mtd_read_oob = (\<lambda>st addr ops. (0, ops\<lparr>datbuf := map_option (\<lambda>b. sim_fill (fst (st addr)) (Some b)) (datbuf ops),
         oobbuf := map_option (\<lambda>b. sim_fill (snd (st addr)) (Some b)) (oobbuf ops)\<rparr>, st)),
     mtd_write_oob = (\<lambda>st addr ops. sim_write st addr (datbuf ops) (oobbuf ops) NMBM_MODE_RAW),
     mtd_panic_write = (\<lambda>st addr len buf. (- EIO, st)),
     mtd_erase = (\<lambda>st addr len. sim_erase st addr),
     mtd_block_isbad = (\<lambda>st addr. (0, st)), mtd_block_markbad = (\<lambda>st addr. (0, st)),
     ecc_corrected = (\<lambda>_. 0), ecc_failed = (\<lambda>_. 0)\<rparr>"

definition sim_env :: "sim_nand probe_env" where
  "sim_env = \<lparr>by_node = No_property, by_name = Found (sim_mtd, sim_blank), prop_max_ratio = Some 8,
     prop_max_reserved_blocks = Some 0, forced_create = True, empty_page_ecc_protected = False,
     kzalloc_ok = True, register_result = 0\<rparr>"

definition sample_nm :: "sim_nand nmbm_mtd" where
  "sample_nm = \<lparr>upper = sim_info\<lparr>mtd_size := 2048\<rparr>, nm_lower = sim_mtd,
     nm_ni = (zero_instance (probe_nld sim_env sim_mtd sim_blank))\<lparr>rawpage_size := 80, writesize_mask := 63,
       erasesize_mask := 127, writesize_shift := 6, erasesize_shift := 7, info_table_cache := replicate 256 0,
       info_table_size := 256, block_state := [0xffffffff, 0xffffffff], state_table_size := 8,
       block_mapping := map of_nat [0..<16] @ replicate 16 (- 1), mapping_table_size := 128,
       page_cache := replicate 80 0, block_count := 32, data_block_count := 16, mgmt_start_ba := 16,
       main_table_ba := 16, backup_table_ba := 20, mapping_blocks_ba := 22, mapping_blocks_top_ba := 29,
       signature_ba := 31\<rparr>,
     nm_page_cache = replicate 80 0, nm_state = FL_READY\<rparr>"

lemma sample_nm_sels [simp]:
  "nm_state sample_nm = FL_READY" "nm_lower sample_nm = sim_mtd" "upper sample_nm = sim_info\<lparr>mtd_size := 2048\<rparr>"
  "length (nm_page_cache sample_nm) = 80" "info sim_mtd = sim_info" "mtd_oobavail sim_mtd mtd mode = mtd_oobsize mtd"
  "mtd_writesize sim_info = 64" "mtd_writesize_mask sim_info = 63" "mtd_oobsize sim_info = 16"
  by (simp_all add: sample_nm_def sim_mtd_def sim_info_def)

lemma lock_getI:
  "nm_state nm = FL_READY \<Longrightarrow> new \<noteq> FL_READY \<Longrightarrow> ts t = Idle \<Longrightarrow>
    lock_step\<^sup>*\<^sup>* (nm, ts) (nm\<lparr>nm_state := new\<rparr>, ts(t := Holding new))"
  using lock_enter [of ts t new nm] lock_get [of "ts(t := Trying new)" t new nm]
  by (simp add: get_device_Some converse_rtranclp_into_rtranclp)

theorem device_exclusive_witness:
  "\<exists>nm ts. lock_step\<^sup>*\<^sup>* (sample_nm, \<lambda>_. Idle) (nm, ts) \<and> ts 0 = Holding FL_PM_SUSPENDED \<and>
    (\<forall>t a. t \<noteq> (0 :: nat) \<and> ts t = Holding a \<longrightarrow> a = FL_PM_SUSPENDED)"
proof -
  let ?nm = "sample_nm\<lparr>nm_state := FL_PM_SUSPENDED\<rparr>" and ?ts = "(\<lambda>_. Idle)((0 :: nat) := Holding FL_PM_SUSPENDED)"
  have r: "lock_step\<^sup>*\<^sup>* (sample_nm, \<lambda>_. Idle) (?nm, ?ts)"
    using lock_getI [of sample_nm FL_PM_SUSPENDED "\<lambda>_. Idle" 0] by simp
  moreover have "a = FL_PM_SUSPENDED" if "t \<noteq> (0 :: nat)" "?ts t = Holding a" for t a
    using device_exclusive [OF r, of t a 0 FL_PM_SUSPENDED] that by auto
  ultimately show ?thesis by force
qed

theorem no_lost_wakeup_witness:
  "\<exists>nm ts u s. lock_step\<^sup>*\<^sup>* (sample_nm, \<lambda>_. Idle) (nm, ts) \<and> ts 1 = Sleeping FL_WRITING \<and>
    ts u = Holding s \<and> u \<noteq> 1"
proof -
  let ?nm = "sample_nm\<lparr>nm_state := FL_READING\<rparr>" and ?ts = "(\<lambda>_. Idle)((0 :: nat) := Holding FL_READING)"
  have r: "lock_step\<^sup>*\<^sup>* (sample_nm, \<lambda>_. Idle) (?nm, ?ts)"
    by (rule lock_getI) simp_all
  have "lock_step (?nm, ?ts) (?nm, ?ts(1 := Trying FL_WRITING))"
    by (rule lock_enter) simp_all
  moreover have "lock_step (?nm, ?ts(1 := Trying FL_WRITING)) (?nm, ?ts(1 := Trying FL_WRITING, 1 := Sleeping FL_WRITING))"
    by (rule lock_sleep [where new = FL_WRITING]) (simp_all add: get_device_None)
  ultimately have "lock_step\<^sup>*\<^sup>* (sample_nm, \<lambda>_. Idle) (?nm, ?ts(1 := Sleeping FL_WRITING))"
    using r by (simp add: rtranclp.rtrancl_into_rtrancl)
  from no_lost_wakeup [OF this, of 1 FL_WRITING] this show ?thesis by (simp del: fun_upd_apply) (metis fun_upd_same)
qed


definition sample_ops :: mtd_oob_ops where
  "sample_ops = \<lparr>ops_mode = MTD_OPS_PLACE_OOB, ops_len = 64, ops_retlen = 0, ops_ooblen = 32, ops_oobretlen = 0,
     ops_ooboffs = 0, datbuf = Some (replicate 64 7), oobbuf = Some (replicate 32 9)\<rparr>"



lemma panic_write_hides_failure_witness:
  "\<exists>n nm. nmbm_mtd_panic_write (\<lambda>c b. c) (sample_nm\<lparr>nm_ni := (nm_ni sample_nm)\<lparr>protected := 1\<rparr>\<rparr>) 0 10 (replicate 10 1)
     = Some ((0, n), nm) \<and> 0 < n"
  using panic_write_hides_failure [of 10 "sample_nm\<lparr>nm_ni := (nm_ni sample_nm)\<lparr>protected := 1\<rparr>\<rparr>" "\<lambda>c b. c" 0 "replicate 10 1"]
  by (auto simp: nmbm_panic_write_single_page_def EROFS_def)

lemma write_repeats_data_witness:
  "\<exists>oob1 oob2. \<forall>ni1 ret ni2.
    nmbm_write_single_page (\<lambda>c b. c) (Some (nm_ni sample_nm)) 0 (Some (replicate 64 7)) (Some oob1) NMBM_MODE_PLACE_OOB
      = (0, Some ni1) \<longrightarrow>
    nmbm_write_single_page (\<lambda>c b. c) (Some ni1) 64 (Some (replicate 64 7)) (Some oob2) NMBM_MODE_PLACE_OOB
      = (ret, Some ni2) \<longrightarrow>
    (\<exists>ops' nm'. nmbm_mtd_write_data (\<lambda>c b. c) sample_nm 0 sample_ops NMBM_MODE_PLACE_OOB = Some ((ret, ops'), nm') \<and>
      nm_ni nm' = ni2)"
proof -
  have e: "page_addr sample_nm 0 = 0" "(0 :: u64) + ucast (64 :: u32) = 64"
    "take (unat (64 :: u32)) (replicate 64 7) = replicate 64 (7 :: u8)"
    by (simp_all add: page_addr_def)
  show ?thesis
    by (rule write_repeats_data [of sample_ops 64 sample_nm 0 16 "replicate 64 7", unfolded e])
      (simp_all add: sample_ops_def page_col_def)
qed


end
