(* ===== verification/Mtdsplit.thy ===== *)
theory Mtdsplit
  imports Prelude
begin

text \<open>
  The firmware splitter's core (\<open>target/linux/generic/files/drivers/mtd/mtdsplit/mtdsplit.c\<close>):
  recognising a root file system by its magic number, the length of a squashfs, and the search for
  a root file system on the erase block boundaries of a flash device, which the parsers of the
  image formats share.

  A flash device is what the parsers see of a \<open>struct mtd_info\<close>. The kernel's \<open>mtd_read\<close> and
  its rounding to erase blocks are parameters: \<open>fl_read m off len\<close> is the return value and the
  bytes that were read, so that \<open>*retlen\<close> is their number. The result of a parser is
  \<open>Inl\<close> of the negative error number it returns, or \<open>Inr\<close> of the partitions, which it
  returns the number of. It is \<open>None\<close> if the parser does not return. \<open>fl_kzalloc\<close> says
  whether the allocation of memory succeeds.
\<close>

section \<open>Flash devices and partitions\<close>

definition ENOENT :: int where "ENOENT = 2"

record mtd_flash =
  fl_size :: u64
  fl_erasesize :: u32
  fl_read :: "u64 \<Rightarrow> u64 \<Rightarrow> int \<times> bytes"
  fl_rounddown :: "u64 \<Rightarrow> u64"
  fl_roundup :: "u64 \<Rightarrow> u64"
  fl_kzalloc :: bool

record mtd_partition =
  part_name :: string
  part_offset :: u64
  part_size :: u64
  part_mask_flags :: u32

definition KERNEL_PART_NAME :: string where "KERNEL_PART_NAME = ''kernel''"
definition ROOTFS_PART_NAME :: string where "ROOTFS_PART_NAME = ''rootfs''"
definition UBI_PART_NAME :: string where "UBI_PART_NAME = ''ubi''"
definition ROOTFS_SPLIT_NAME :: string where "ROOTFS_SPLIT_NAME = ''rootfs_data''"

text \<open>\<open>MTDSPLIT_PART_TYPE_UNK\<close> is never stored.\<close>

datatype mtdsplit_part_type =
  MTDSPLIT_PART_TYPE_UNK
| MTDSPLIT_PART_TYPE_SQUASHFS
| MTDSPLIT_PART_TYPE_JFFS2
| MTDSPLIT_PART_TYPE_UBI

type_synonym 'a outcome = "(int + 'a) option"

definition andthen :: "'a outcome \<Rightarrow> ('a \<Rightarrow> 'b outcome) \<Rightarrow> 'b outcome" where
  "andthen r f = (case r of None \<Rightarrow> None | Some (Inl e) \<Rightarrow> Some (Inl e) | Some (Inr x) \<Rightarrow> f x)"

abbreviation fail :: "int \<Rightarrow> 'a outcome" where
  "fail e \<equiv> Some (Inl (- e))"

abbreviation done_with :: "'a \<Rightarrow> 'a outcome" where
  "done_with x \<equiv> Some (Inr x)"

definition kzalloc_then :: "mtd_flash \<Rightarrow> 'a outcome \<Rightarrow> 'a outcome" where
  "kzalloc_then m r = (if fl_kzalloc m then r else fail ENOMEM)"

lemma kzalloc_then_done: "kzalloc_then m r = done_with x \<longleftrightarrow> fl_kzalloc m \<and> r = done_with x"
  by (simp add: kzalloc_then_def)

lemma andthen_simps [simp]:
  "andthen None f = None" "andthen (Some (Inl e)) f = Some (Inl e)" "andthen (Some (Inr x)) f = f x"
  by (simp_all add: andthen_def)

lemma andthen_done:
  "andthen r f = done_with y \<longleftrightarrow> (\<exists>x. r = done_with x \<and> f x = done_with y)"
  by (auto simp: andthen_def split: option.splits sum.splits)

text \<open>Whether a call comes back.\<close>

definition returns :: "'a option \<Rightarrow> bool" where
  "returns r \<longleftrightarrow> r \<noteq> None"

lemma returns_simps [simp]:
  "returns (Some x)" "\<not> returns None"
  "returns (if b then r else r') \<longleftrightarrow> (if b then returns r else returns r')"
  "returns (kzalloc_then m r0) \<longleftrightarrow> fl_kzalloc m \<longrightarrow> returns r0"
  by (simp_all add: returns_def kzalloc_then_def)

lemma returns_andthen [simp]:
  "returns (andthen r f) \<longleftrightarrow> returns r \<and> (\<forall>x. r = done_with x \<longrightarrow> returns (f x))"
  by (auto simp: returns_def andthen_def split: option.splits sum.splits)

section \<open>Fields of the headers\<close>

text \<open>Integers at an offset of a buffer, in the byte order that the code converts from.\<close>

definition le16_at :: "bytes \<Rightarrow> nat \<Rightarrow> u16" where
  "le16_at b i = ucast (b ! i) OR push_bit 8 (ucast (b ! (i + 1)))"

definition be16_at :: "bytes \<Rightarrow> nat \<Rightarrow> u16" where
  "be16_at b i = push_bit 8 (ucast (b ! i)) OR ucast (b ! (i + 1))"

definition le32_at :: "bytes \<Rightarrow> nat \<Rightarrow> u32" where
  "le32_at b i = bytes_u32 (drop i b)"

definition be32_at :: "bytes \<Rightarrow> nat \<Rightarrow> u32" where
  "be32_at b i = bytes_u32 (rev (buf_get i 4 b))"

definition le64_at :: "bytes \<Rightarrow> nat \<Rightarrow> u64" where
  "le64_at b i = bytes_u64 (drop i b)"

text \<open>A read of a header, as all parsers make it: an error, or a short read.\<close>

definition mtd_read_exact :: "mtd_flash \<Rightarrow> u64 \<Rightarrow> u64 \<Rightarrow> int + bytes" where
  "mtd_read_exact m off len =
     (let (ret, data) = fl_read m off len
      in if ret \<noteq> 0 then Inl ret
         else if of_nat (length data) \<noteq> len then Inl (- EIO)
         else Inr data)"

section \<open>The root file system\<close>

definition SQUASHFS_MAGIC :: u32 where "SQUASHFS_MAGIC = 0x73717368"
definition UBI_EC_MAGIC :: u32 where "UBI_EC_MAGIC = 0x55424923"

text \<open>\<open>struct squashfs_super_block\<close> has 48 bytes, with \<open>bytes_used\<close> at 40.\<close>

definition mtd_get_squashfs_len :: "mtd_flash \<Rightarrow> u64 \<Rightarrow> int + u64" where
  "mtd_get_squashfs_len m off =
     (case mtd_read_exact m off 48 of
        Inl _ \<Rightarrow> Inl (- EIO)
      | Inr sb \<Rightarrow>
        if le32_at sb 0 \<noteq> SQUASHFS_MAGIC then Inl (- EINVAL)
        else
          let retlen = le64_at sb 40
          in if retlen \<le> 0 then Inl (- ENODEV)
             else if off + retlen > fl_size m then Inl (- EINVAL)
             else Inr retlen)"

definition mtd_next_eb :: "mtd_flash \<Rightarrow> u64 \<Rightarrow> u64" where
  "mtd_next_eb m off = fl_rounddown m off + ucast (fl_erasesize m)"

definition mtd_check_rootfs_magic :: "mtd_flash \<Rightarrow> u64 \<Rightarrow> int + mtdsplit_part_type" where
  "mtd_check_rootfs_magic m off =
     (case mtd_read_exact m off 4 of
        Inl e \<Rightarrow> Inl e
      | Inr magic \<Rightarrow>
        if le32_at magic 0 = SQUASHFS_MAGIC then Inr MTDSPLIT_PART_TYPE_SQUASHFS
        else if le32_at magic 0 = 0x19852003 then Inr MTDSPLIT_PART_TYPE_JFFS2
        else if be32_at magic 0 = UBI_EC_MAGIC then Inr MTDSPLIT_PART_TYPE_UBI
        else Inl (- EINVAL))"

partial_function (option) mtd_find_rootfs_from ::
  "mtd_flash \<Rightarrow> u64 \<Rightarrow> u64 \<Rightarrow> (u64 \<times> mtdsplit_part_type) outcome" where
  "mtd_find_rootfs_from m off limit =
     (if off < limit
      then case mtd_check_rootfs_magic m off of
             Inl _ \<Rightarrow> mtd_find_rootfs_from m (mtd_next_eb m off) limit
           | Inr type \<Rightarrow> done_with (off, type)
      else fail ENODEV)"

section \<open>Partitions\<close>

text \<open>The name of the root partition, where a parser looks at the type of the file system.\<close>

definition rootfs_name :: "mtdsplit_part_type \<Rightarrow> string" where
  "rootfs_name type = (if type = MTDSPLIT_PART_TYPE_UBI then UBI_PART_NAME else ROOTFS_PART_NAME)"

definition kernel_part :: "u64 \<Rightarrow> u64 \<Rightarrow> mtd_partition" where
  "kernel_part off sz = \<lparr>part_name = KERNEL_PART_NAME, part_offset = off, part_size = sz, part_mask_flags = 0\<rparr>"

definition rootfs_part :: "string \<Rightarrow> u64 \<Rightarrow> u64 \<Rightarrow> mtd_partition" where
  "rootfs_part name off sz = \<lparr>part_name = name, part_offset = off, part_size = sz, part_mask_flags = 0\<rparr>"

lemma part_sels [simp]:
  "part_offset (kernel_part off sz) = off" "part_size (kernel_part off sz) = sz"
  "part_offset (rootfs_part name off sz) = off" "part_size (rootfs_part name off sz) = sz"
  by (simp_all add: kernel_part_def rootfs_part_def)

text \<open>\<open>mtdsplit_parse_squashfs\<close> rounds on the flash device that holds the partition.\<close>

definition mtdsplit_parse_squashfs :: "mtd_flash \<Rightarrow> mtd_flash \<Rightarrow> u64 \<Rightarrow> mtd_partition list outcome" where
  "mtdsplit_parse_squashfs m parent part_off =
     andthen (Some (mtd_get_squashfs_len m 0)) (\<lambda>squashfs_len.
       let off = fl_roundup parent (part_off + squashfs_len) - part_off;
           sz = fl_rounddown m (fl_size m - off)
       in kzalloc_then m (done_with [rootfs_part ROOTFS_SPLIT_NAME off sz]))"

section \<open>What the code relies on\<close>

text \<open>
  The documented behaviour of the kernel functions: rounding down to an erase block, reading no
  more than asked for, and refusing to read beyond the end of the device. The erase blocks are
  not empty, and sizes fit into a signed 64-bit number, with one erase block more.
\<close>

definition flash_ok :: "mtd_flash \<Rightarrow> bool" where
  "flash_ok m \<longleftrightarrow>
     fl_erasesize m \<noteq> 0 \<and> unat (fl_size m) + unat (fl_erasesize m) < 2 ^ 63 \<and>
     (\<forall>off. unat (fl_rounddown m off) = unat off div unat (fl_erasesize m) * unat (fl_erasesize m)) \<and>
     (\<forall>off len. fst (fl_read m off len) = 0 \<longrightarrow> unat off + unat len \<le> unat (fl_size m))"

lemma next_eb:
  assumes "flash_ok m" "off < limit" "limit \<le> fl_size m"
  shows "unat (mtd_next_eb m off) = (unat off div unat (fl_erasesize m) + 1) * unat (fl_erasesize m)"
    "off < mtd_next_eb m off"
proof -
  let ?e = "unat (fl_erasesize m)"
  have e: "0 < ?e" using assms(1) by (simp add: flash_ok_def unat_gt_0)
  have "unat off div ?e * ?e \<le> unat off" by simp
  moreover have "(2 :: nat) ^ 63 < 2 ^ 64" by simp
  ultimately have lt: "unat off div ?e * ?e + ?e < 2 ^ 64"
    using assms unfolding flash_ok_def word_less_nat_alt word_le_nat_alt by linarith
  have r: "unat (fl_rounddown m off) = unat off div ?e * ?e"
    using assms(1) by (simp add: flash_ok_def)
  show n: "unat (mtd_next_eb m off) = (unat off div ?e + 1) * ?e"
    using unat_add_no_wrap [of "fl_rounddown m off" "ucast (fl_erasesize m)"] lt
    by (simp add: mtd_next_eb_def r)
  have "unat off < unat off div ?e * ?e + ?e"
    using e by (metis div_mult_mod_eq add_less_cancel_left mod_less_divisor)
  then show "off < mtd_next_eb m off"
    by (simp add: word_less_nat_alt n)
qed

section \<open>The search for a root file system\<close>

text \<open>
  The reference: the offsets to be looked at are the start and the erase block boundaries behind
  it, and the first one with a root file system is the result.
\<close>

definition eb_offsets :: "mtd_flash \<Rightarrow> u64 \<Rightarrow> u64 \<Rightarrow> u64 list" where
  "eb_offsets m from limit =
     (let e = unat (fl_erasesize m)
      in if from < limit
         then from # map (\<lambda>k. of_nat (k * e)) [unat from div e + 1..<(unat limit + e - 1) div e]
         else [])"

definition has_rootfs :: "mtd_flash \<Rightarrow> u64 \<Rightarrow> bool" where
  "has_rootfs m off \<longleftrightarrow> \<not> isl (mtd_check_rootfs_magic m off)"

lemma less_ceiling: "0 < e \<Longrightarrow> k < (l + e - 1) div e \<longleftrightarrow> k * e < l" for e k l :: nat
proof -
  assume "0 < e"
  then have "Suc k \<le> (l + e - 1) div e \<longleftrightarrow> Suc k * e \<le> l + e - 1"
    by (rule less_eq_div_iff_mult_less_eq)
  then show ?thesis using \<open>0 < e\<close> by (auto simp: Suc_le_eq)
qed

lemma eb_offsets_step:
  assumes "flash_ok m" "off < limit" "limit \<le> fl_size m"
  shows "eb_offsets m off limit = off # eb_offsets m (mtd_next_eb m off) limit"
proof -
  let ?e = "unat (fl_erasesize m)" and ?k = "unat off div unat (fl_erasesize m)"
  note n = next_eb [OF assms]
  have e: "0 < ?e" using assms(1) by (simp add: flash_ok_def unat_gt_0)
  then have d: "unat (mtd_next_eb m off) div ?e = ?k + 1" by (simp add: n(1))
  have lt: "mtd_next_eb m off < limit \<longleftrightarrow> ?k + 1 < (unat limit + ?e - 1) div ?e"
    using less_ceiling [OF e, of "?k + 1" "unat limit"] by (simp add: word_less_nat_alt n(1))
  have "of_nat ((?k + 1) * ?e) = mtd_next_eb m off" unfolding n(1) [symmetric] by simp
  then show ?thesis
    using assms(2) lt d by (auto simp: eb_offsets_def Let_def upt_conv_Cons algebra_simps)
qed

lemma find_rootfs_eq:
  "flash_ok m \<Longrightarrow> limit \<le> fl_size m \<Longrightarrow>
    mtd_find_rootfs_from m off limit =
      Some (case List.find (has_rootfs m) (eb_offsets m off limit) of
              None \<Rightarrow> Inl (- ENODEV)
            | Some o1 \<Rightarrow> Inr (o1, projr (mtd_check_rootfs_magic m o1)))"
proof (induction "unat limit - unat off" arbitrary: off rule: less_induct)
  case less
  show ?case
  proof (cases "off < limit")
    case False
    then show ?thesis
      by (simp add: mtd_find_rootfs_from.simps [of m off] eb_offsets_def)
  next
    case True
    note s = eb_offsets_step [OF less.prems(1) True less.prems(2)]
    have "unat limit - unat (mtd_next_eb m off) < unat limit - unat off"
      using next_eb(2) [OF less.prems(1) True less.prems(2)] True by (simp add: word_less_nat_alt)
    note IH = less.hyps [OF this less.prems]
    show ?thesis
      using True IH by (simp add: mtd_find_rootfs_from.simps [of m off] s has_rootfs_def split: sum.split)
  qed
qed

lemma find_rootfs_returns:
  "flash_ok m \<Longrightarrow> limit \<le> fl_size m \<Longrightarrow> returns (mtd_find_rootfs_from m off limit)"
  by (simp add: find_rootfs_eq)

lemma eb_offsets_bounds: "o1 \<in> set (eb_offsets m from limit) \<Longrightarrow> flash_ok m \<Longrightarrow> from \<le> o1 \<and> o1 < limit"
proof -
  let ?e = "unat (fl_erasesize m)"
  assume o1: "o1 \<in> set (eb_offsets m from limit)" and ok: "flash_ok m"
  have e: "0 < ?e" using ok by (simp add: flash_ok_def unat_gt_0)
  show ?thesis
  proof (cases "o1 = from")
    case True
    then show ?thesis using o1 by (auto simp: eb_offsets_def Let_def split: if_splits)
  next
    case False
    then obtain k where k: "o1 = of_nat (k * ?e)" "unat from div ?e < k" "k * ?e < unat limit"
      using o1 less_ceiling [OF e] by (auto simp: eb_offsets_def Let_def split: if_splits)
    then have u: "unat o1 = k * ?e"
      using unat_lt_two_power [of limit] by (simp add: unat_of_nat_small del: of_nat_mult)
    have "unat from < k * ?e" using k(2) e by (simp add: div_less_iff_less_mult)
    with u k(3) show ?thesis by (simp add: word_le_nat_alt word_less_nat_alt)
  qed
qed

lemma check_magic_within:
  assumes "flash_ok m" "mtd_check_rootfs_magic m off = Inr type"
  shows "unat off + 4 \<le> unat (fl_size m)"
proof -
  have "fst (fl_read m off 4) = 0"
    using assms(2) by (auto simp: mtd_check_rootfs_magic_def mtd_read_exact_def Let_def split_beta
        split: sum.splits if_splits)
  then have "unat off + unat (4 :: u64) \<le> unat (fl_size m)"
    using assms(1) unfolding flash_ok_def by blast
  then show ?thesis by simp
qed

lemma find_rootfs_result:
  assumes "mtd_find_rootfs_from m from limit = done_with (off, type)" "flash_ok m" "limit \<le> fl_size m"
  shows "from \<le> off" "off < limit" "mtd_check_rootfs_magic m off = Inr type" "unat off + 4 \<le> unat (fl_size m)"
proof -
  have f: "List.find (has_rootfs m) (eb_offsets m from limit) = Some off"
    and t: "type = projr (mtd_check_rootfs_magic m off)"
    using assms by (auto simp: find_rootfs_eq split: option.splits)
  then have "off \<in> set (eb_offsets m from limit)" "has_rootfs m off"
    by (auto simp: find_Some_iff)
  then show "from \<le> off" "off < limit" "mtd_check_rootfs_magic m off = Inr type"
    using eb_offsets_bounds [OF _ assms(2)] t
    by (auto simp: has_rootfs_def)
  then show "unat off + 4 \<le> unat (fl_size m)"
    using check_magic_within [OF assms(2)] by blast
qed

text \<open>
  C20. The search for a root file system always comes to an end, and it finds the first of the
  start and the erase block boundaries behind it, below the limit, that holds one of the three
  magic numbers; there is none exactly if it returns \<open>-ENODEV\<close>.
\<close>

theorem find_rootfs_first:
  assumes "flash_ok m" "limit \<le> fl_size m"
  shows "mtd_find_rootfs_from m from limit =
    Some (case List.find (has_rootfs m) (eb_offsets m from limit) of
            None \<Rightarrow> Inl (- ENODEV)
          | Some off \<Rightarrow> Inr (off, projr (mtd_check_rootfs_magic m off)))"
  by (rule find_rootfs_eq [OF assms])

section \<open>A sample device\<close>

text \<open>A device of four erase blocks of 64 KiB with the given contents, as far as they go.\<close>

definition sample_flash :: "(nat \<Rightarrow> u8) \<Rightarrow> mtd_flash" where
  "sample_flash mem = \<lparr>fl_size = 0x40000, fl_erasesize = 0x10000,
     fl_read = (\<lambda>off len. if unat off + unat len \<le> 0x40000
        then (0, map (\<lambda>i. mem (unat off + i)) [0..<unat len]) else (- EINVAL, [])),
     fl_rounddown = (\<lambda>off. off - off mod 0x10000), fl_roundup = (\<lambda>off. (off + 0xffff) - (off + 0xffff) mod 0x10000),
     fl_kzalloc = True\<rparr>"

lemma sample_flash_ok: "flash_ok (sample_flash mem)"
proof -
  have "unat (off - off mod 0x10000) = unat off div 0x10000 * 0x10000" for off :: u64
  proof -
    have "off - off mod 0x10000 = off div 0x10000 * 0x10000"
      by (metis add_diff_cancel_right' div_mult_mod_eq)
    moreover have "unat off div 0x10000 * 0x10000 < 2 ^ 64"
      using unat_lt_two_power [of off] div_times_less_eq_dividend [of "unat off"] by (simp add: le_less_trans)
    ultimately show ?thesis by (simp add: unat_word_ariths unat_div)
  qed
  then show ?thesis by (simp add: flash_ok_def sample_flash_def EINVAL_def)
qed

fun mem_of :: "(nat \<times> bytes) list \<Rightarrow> nat \<Rightarrow> u8" where
  "mem_of [] i = 0"
| "mem_of ((off, b) # r) i = (if off \<le> i \<and> i < off + length b then b ! (i - off) else mem_of r i)"

lemma sample_flash_sels [simp]:
  "fl_size (sample_flash mem) = 0x40000" "fl_erasesize (sample_flash mem) = 0x10000"
  "fl_kzalloc (sample_flash mem)"
  by (simp_all add: sample_flash_def)

lemma sample_read:
  "unat off + unat len \<le> 0x40000 \<Longrightarrow>
    mtd_read_exact (sample_flash mem) off len = Inr (map (\<lambda>i. mem (unat off + i)) [0..<unat len])"
  by (simp add: mtd_read_exact_def sample_flash_def)

lemma bytes_at_simps:
  "le32_at [a, b, c, d] 0 = bytes_u32 [a, b, c, d]" "be32_at [a, b, c, d] 0 = bytes_u32 [d, c, b, a]"
  by (simp_all add: le32_at_def be32_at_def buf_get_def)

lemma sample_magic:
  "unat off \<le> 0x3fffc \<Longrightarrow> mtd_check_rootfs_magic (sample_flash mem) off =
     (let a = mem (unat off); b = mem (unat off + 1); c = mem (unat off + 2); d = mem (unat off + 3)
      in if bytes_u32 [a, b, c, d] = SQUASHFS_MAGIC then Inr MTDSPLIT_PART_TYPE_SQUASHFS
         else if bytes_u32 [a, b, c, d] = 0x19852003 then Inr MTDSPLIT_PART_TYPE_JFFS2
         else if bytes_u32 [d, c, b, a] = UBI_EC_MAGIC then Inr MTDSPLIT_PART_TYPE_UBI
         else Inl (- EINVAL))"
  by (simp add: mtd_check_rootfs_magic_def sample_read upt_rec numeral_3_eq_3 bytes_at_simps Let_def)

text \<open>A root file system in the second and one in the fourth erase block.\<close>

definition two_roots :: mtd_flash where
  "two_roots = sample_flash (mem_of [(0x10000, [0x55, 0x42, 0x49, 0x23]), (0x30000, [0x68, 0x73, 0x71, 0x73])])"

lemma two_roots_check:
  "mtd_check_rootfs_magic two_roots 0 = Inl (- EINVAL)"
  "mtd_check_rootfs_magic two_roots 0x10000 = Inr MTDSPLIT_PART_TYPE_UBI"
  "mtd_check_rootfs_magic two_roots 0x20000 = Inl (- EINVAL)"
  "mtd_check_rootfs_magic two_roots 0x30000 = Inr MTDSPLIT_PART_TYPE_SQUASHFS"
  by (simp_all add: two_roots_def sample_magic SQUASHFS_MAGIC_def UBI_EC_MAGIC_def bytes_u32_def)

theorem find_rootfs_first_witness:
  "mtd_find_rootfs_from two_roots 0 0x40000 = done_with (0x10000, MTDSPLIT_PART_TYPE_UBI) \<and>
   mtd_find_rootfs_from two_roots 0x10001 0x40000 = done_with (0x30000, MTDSPLIT_PART_TYPE_SQUASHFS)"
proof -
  have "eb_offsets two_roots 0 0x40000 = [0, 0x10000, 0x20000, 0x30000]"
    "eb_offsets two_roots 0x10001 0x40000 = [0x10001, 0x20000, 0x30000]"
    by (simp_all add: eb_offsets_def two_roots_def upt_rec)
  moreover have "mtd_check_rootfs_magic two_roots 0x10001 = Inl (- EINVAL)"
    by (simp add: two_roots_def sample_magic SQUASHFS_MAGIC_def UBI_EC_MAGIC_def bytes_u32_def)
  moreover have "flash_ok two_roots" "fl_size two_roots = 0x40000"
    by (simp_all add: two_roots_def sample_flash_ok)
  ultimately show ?thesis
    using find_rootfs_first [of two_roots "0x40000" 0] find_rootfs_first [of two_roots "0x40000" "0x10001"]
    by (simp add: has_rootfs_def two_roots_check)
qed


end
