(* ===== verification/Mtdsplit_Formats.thy ===== *)
theory Mtdsplit_Formats
  imports Mtdsplit
begin

text \<open>
  The parsers of image formats with a header at the start of the device: Seama, TP-Link, WRGG and
  WRG, LZMA, Mikrotik minor, EVA and BRN images (\<open>mtdsplit_seama.c\<close>, \<open>mtdsplit_tplink.c\<close>,
  \<open>mtdsplit_wrgg.c\<close>, \<open>mtdsplit_lzma.c\<close>, \<open>mtdsplit_minor.c\<close>, \<open>mtdsplit_eva.c\<close>,
  \<open>mtdsplit_brnimage.c\<close>). A header is a record of the fields the parser looks at, read from
  their offsets in the structure. What the parsers promise to the MTD core is the locale
  \<open>split_parser\<close>: they return, and their kernel and root partitions follow each other within
  the device.
\<close>

section \<open>Seama\<close>

definition SEAMA_MAGIC :: u32 where "SEAMA_MAGIC = 0x5EA3A417"
definition SEAMA_MIN_ROOTFS_OFFS :: u64 where "SEAMA_MIN_ROOTFS_OFFS = 0x80000"

record seama_header =
  seama_magic :: u32
  seama_metasize :: u16
  seama_size :: u32

definition seama_header_at :: "bytes \<Rightarrow> seama_header" where
  "seama_header_at b = \<lparr>seama_magic = be32_at b 0, seama_metasize = be16_at b 6, seama_size = be32_at b 8\<rparr>"

text \<open>The root file system right behind the entity, or else on an erase block boundary.\<close>

definition rootfs_at_or_from :: "mtd_flash \<Rightarrow> u64 \<Rightarrow> u64 \<Rightarrow> (u64 \<times> mtdsplit_part_type) outcome" where
  "rootfs_at_or_from m off from =
     (case mtd_check_rootfs_magic m off of
        Inr type \<Rightarrow> done_with (off, type)
      | Inl _ \<Rightarrow> mtd_find_rootfs_from m from (fl_size m))"

definition mtdsplit_parse_seama :: "mtd_flash \<Rightarrow> mtd_partition list outcome" where
  "mtdsplit_parse_seama m =
     andthen (Some (mtd_read_exact m 0 28)) (\<lambda>b.
       let hdr = seama_header_at b;
           kernel_ent_size = 28 + ucast (seama_size hdr) + ucast (seama_metasize hdr)
       in if seama_magic hdr \<noteq> SEAMA_MAGIC then fail EINVAL
          else if kernel_ent_size > fl_size m then fail EINVAL
          else
            andthen (rootfs_at_or_from m kernel_ent_size SEAMA_MIN_ROOTFS_OFFS) (\<lambda>(rootfs_offset, type).
              let off = 28 + ucast (seama_metasize hdr)
              in kzalloc_then m (done_with
                   [kernel_part off (rootfs_offset - off),
                    rootfs_part (rootfs_name type) rootfs_offset (fl_size m - rootfs_offset)])))"

section \<open>TP-Link\<close>

definition TPLINK_MIN_ROOTFS_OFFS :: u64 where "TPLINK_MIN_ROOTFS_OFFS = 0x80000"

text \<open>The fields that are used of \<open>struct fw_v1\<close> and \<open>struct fw_v2\<close>.\<close>

record tplink_fw =
  kernel_ofs :: u32
  kernel_len :: u32
  rootfs_ofs :: u32

definition fw_v1_at :: "bytes \<Rightarrow> tplink_fw" where
  "fw_v1_at b = \<lparr>kernel_ofs = be32_at b 128, kernel_len = be32_at b 132, rootfs_ofs = be32_at b 136\<rparr>"

definition fw_v2_at :: "bytes \<Rightarrow> tplink_fw" where
  "fw_v2_at b = \<lparr>kernel_ofs = be32_at b 116, kernel_len = be32_at b 120, rootfs_ofs = be32_at b 124\<rparr>"

definition tplink_fw_header :: "bytes \<Rightarrow> tplink_fw option" where
  "tplink_fw_header b =
     (let version = le32_at b 0
      in if version = 1 then Some (fw_v1_at b)
         else if version = 2 \<or> version = 3 then Some (fw_v2_at b)
         else None)"

definition mtdsplit_parse_tplink :: "mtd_flash \<Rightarrow> mtd_partition list outcome" where
  "mtdsplit_parse_tplink m =
     andthen (Some (mtd_read_exact m 0 512)) (\<lambda>b.
       case tplink_fw_header b of
         None \<Rightarrow> fail EINVAL
       | Some fw \<Rightarrow>
         if kernel_ofs fw \<noteq> 512 then fail EINVAL
         else
           let kernel_size = 512 + ucast (kernel_len fw)
           in if kernel_size > fl_size m then fail EINVAL
              else
                andthen (rootfs_at_or_from m (ucast (rootfs_ofs fw)) TPLINK_MIN_ROOTFS_OFFS) (\<lambda>(rootfs_offset, _).
                  kzalloc_then m (done_with
                    [kernel_part 0 kernel_size,
                     rootfs_part ROOTFS_PART_NAME rootfs_offset (fl_size m - rootfs_offset)])))"

section \<open>WRGG and WRG\<close>

definition WRGG_MIN_ROOTFS_OFFS :: u64 where "WRGG_MIN_ROOTFS_OFFS = 0x80000"
definition WRGG03_MAGIC :: u32 where "WRGG03_MAGIC = 0x20080321"
definition WRG_MAGIC :: u32 where "WRG_MAGIC = 0x20040220"

text \<open>
  \<open>magic1\<close> is at the same offset in both headers; \<open>size\<close> of \<open>struct wrgg03_header\<close> is
  tried in both byte orders.
\<close>

definition wrgg_entity_size :: "mtd_flash \<Rightarrow> bytes \<Rightarrow> int + u64" where
  "wrgg_entity_size m b =
     (if le32_at b 32 = WRGG03_MAGIC
      then
        let kernel_ent_size = 160 + ucast (be32_at b 104);
            kernel_ent_size = (if kernel_ent_size > fl_size m then 160 + ucast (le32_at b 104) else kernel_ent_size)
        in if kernel_ent_size > fl_size m then Inl (- EINVAL) else Inr kernel_ent_size
      else if le32_at b 32 = WRG_MAGIC then Inr (96 + ucast (le32_at b 40))
      else Inl (- EINVAL))"

text \<open>Several parsers leave the whole area before the root file system to the kernel.\<close>

definition kernel_up_to_rootfs ::
  "mtd_flash \<Rightarrow> u64 \<Rightarrow> (mtdsplit_part_type \<Rightarrow> string) \<Rightarrow> mtd_partition list outcome" where
  "kernel_up_to_rootfs m from name =
     andthen (mtd_find_rootfs_from m from (fl_size m)) (\<lambda>(rootfs_offset, type).
       kzalloc_then m (done_with
         [kernel_part 0 rootfs_offset,
          rootfs_part (name type) rootfs_offset (fl_size m - rootfs_offset)]))"

definition mtdsplit_parse_wrgg :: "mtd_flash \<Rightarrow> mtd_partition list outcome" where
  "mtdsplit_parse_wrgg m =
     andthen (Some (mtd_read_exact m 0 160)) (\<lambda>b.
       andthen (Some (wrgg_entity_size m b)) (\<lambda>kernel_ent_size.
         if kernel_ent_size > fl_size m then fail EINVAL
         else kernel_up_to_rootfs m WRGG_MIN_ROOTFS_OFFS (\<lambda>_. ROOTFS_PART_NAME)))"

section \<open>LZMA\<close>

text \<open>The kernel's \<open>is_power_of_2\<close>.\<close>

definition kernel_is_power_of_2 :: "u32 \<Rightarrow> bool" where
  "kernel_is_power_of_2 t \<longleftrightarrow> t \<noteq> 0 \<and> t AND (t - 1) = 0"

record lzma_header =
  lzma_props0 :: u8
  lzma_dict :: u32
  lzma_size_high :: u32

definition lzma_header_at :: "bytes \<Rightarrow> lzma_header" where
  "lzma_header_at b = \<lparr>lzma_props0 = b ! 0, lzma_dict = le32_at b 1, lzma_size_high = le32_at b 9\<rparr>"

definition mtdsplit_parse_lzma :: "mtd_flash \<Rightarrow> mtd_partition list outcome" where
  "mtdsplit_parse_lzma m =
     andthen (Some (mtd_read_exact m 0 13)) (\<lambda>b.
       let hdr = lzma_header_at b
       in if lzma_props0 hdr \<ge> 9 * 5 * 5 then fail EINVAL
          else if \<not> kernel_is_power_of_2 (lzma_dict hdr) then fail EINVAL
          else if lzma_size_high hdr \<noteq> 0 then fail EINVAL
          else kernel_up_to_rootfs m (ucast (fl_erasesize m)) (\<lambda>_. ROOTFS_PART_NAME))"

section \<open>Mikrotik minor\<close>

definition YAFFS_OBJECT_TYPE_FILE :: u32 where "YAFFS_OBJECT_TYPE_FILE = 1"
definition YAFFS_OBJECTID_ROOT :: u32 where "YAFFS_OBJECTID_ROOT = 1"
definition YAFFS_SUM_UNUSED :: u16 where "YAFFS_SUM_UNUSED = 0xFFFF"

text \<open>\<open>YAFFS_NAME\<close> is ``kernel'', compared with the zero byte at its end.\<close>

definition YAFFS_NAME :: bytes where "YAFFS_NAME = [0x6b, 0x65, 0x72, 0x6e, 0x65, 0x6c, 0]"

record minor_header =
  yaffs_type :: u32
  yaffs_obj_id :: u32
  yaffs_sum_unused :: u16
  yaffs_name :: bytes

definition minor_header_at :: "bytes \<Rightarrow> minor_header" where
  "minor_header_at b = \<lparr>yaffs_type = le32_at b 0, yaffs_obj_id = le32_at b 4,
     yaffs_sum_unused = le16_at b 8, yaffs_name = buf_get 10 7 b\<rparr>"

definition mtdsplit_parse_minor :: "mtd_flash \<Rightarrow> mtd_partition list outcome" where
  "mtdsplit_parse_minor m =
     andthen (Some (mtd_read_exact m 0 20)) (\<lambda>b.
       let hdr = minor_header_at b
       in if yaffs_type hdr \<noteq> YAFFS_OBJECT_TYPE_FILE then fail EINVAL
          else if yaffs_obj_id hdr \<noteq> YAFFS_OBJECTID_ROOT then fail EINVAL
          else if yaffs_sum_unused hdr \<noteq> YAFFS_SUM_UNUSED then fail EINVAL
          else if yaffs_name hdr \<noteq> YAFFS_NAME then fail EINVAL
          else kernel_up_to_rootfs m (ucast (fl_erasesize m)) (\<lambda>_. ROOTFS_PART_NAME))"

section \<open>EVA\<close>

definition EVA_MAGIC :: u32 where "EVA_MAGIC = 0xfeed1281"
definition EVA_FOOTER_SIZE :: u32 where "EVA_FOOTER_SIZE = 0x18"
definition EVA_DUMMY_SQUASHFS_SIZE :: u64 where "EVA_DUMMY_SQUASHFS_SIZE = 0x100"

text \<open>The kernel's \<open>round_up\<close> to a power of two.\<close>

definition round_up :: "u64 \<Rightarrow> u64 \<Rightarrow> u64" where
  "round_up x y = ((x - 1) OR (y - 1)) + 1"

text \<open>The footer is added to the size as a 32-bit number.\<close>

definition mtdsplit_parse_eva :: "mtd_flash \<Rightarrow> mtd_partition list outcome" where
  "mtdsplit_parse_eva m =
     andthen (Some (mtd_read_exact m 0 8)) (\<lambda>b.
       if le32_at b 0 \<noteq> EVA_MAGIC then fail EINVAL
       else
         let kernel_size = ucast (le32_at b 4 + EVA_FOOTER_SIZE);
             rootfs_offset = round_up kernel_size 0x10000 + EVA_DUMMY_SQUASHFS_SIZE
         in if rootfs_offset \<ge> fl_size m then fail EINVAL
            else andthen (Some (mtd_check_rootfs_magic m rootfs_offset)) (\<lambda>_.
              kzalloc_then m (done_with
                [kernel_part 0 kernel_size,
                 rootfs_part ROOTFS_PART_NAME rootfs_offset (fl_size m - rootfs_offset)])))"

section \<open>BRN images\<close>

definition BRNIMAGE_ALIGN_BYTES :: u64 where "BRNIMAGE_ALIGN_BYTES = 0x400"
definition BRNIMAGE_FOOTER_SIZE :: u64 where "BRNIMAGE_FOOTER_SIZE = 12"
definition BRNIMAGE_MIN_OVERHEAD :: u64 where "BRNIMAGE_MIN_OVERHEAD = BRNIMAGE_FOOTER_SIZE"
definition BRNIMAGE_MAX_OVERHEAD :: u64 where
  "BRNIMAGE_MAX_OVERHEAD = BRNIMAGE_ALIGN_BYTES + BRNIMAGE_FOOTER_SIZE"

text \<open>The loop over the aligned offsets: its result is \<open>ret\<close> and \<open>rootfs_offset\<close>.\<close>

partial_function (option) brnimage_rootfs :: "mtd_flash \<Rightarrow> u64 \<Rightarrow> int \<Rightarrow> (int \<times> u64) option" where
  "brnimage_rootfs m rootfs_offset ret =
     (if rootfs_offset < fl_size m
      then case mtd_check_rootfs_magic m rootfs_offset of
             Inr _ \<Rightarrow> Some (0, rootfs_offset)
           | Inl e \<Rightarrow> brnimage_rootfs m (rootfs_offset + BRNIMAGE_ALIGN_BYTES) e
      else Some (ret, rootfs_offset))"

definition mtdsplit_parse_brnimage :: "mtd_flash \<Rightarrow> mtd_partition list outcome" where
  "mtdsplit_parse_brnimage m =
     (case brnimage_rootfs m 0 0 of
        None \<Rightarrow> None
      | Some (ret, rootfs_offset) \<Rightarrow>
        if ret \<noteq> 0 then Some (Inl ret)
        else if rootfs_offset \<ge> fl_size m then fail EINVAL
        else andthen (Some (mtd_read_exact m (rootfs_offset - BRNIMAGE_FOOTER_SIZE) 4)) (\<lambda>buf.
          let kernel_size = ucast (le32_at buf 0);
              rootfs_size = fl_size m - rootfs_offset - BRNIMAGE_FOOTER_SIZE
          in if kernel_size > rootfs_offset - BRNIMAGE_MIN_OVERHEAD then fail EINVAL
             else if kernel_size < rootfs_offset - BRNIMAGE_MAX_OVERHEAD then fail EINVAL
             else kzalloc_then m (done_with
                    [kernel_part 0 kernel_size,
                     rootfs_part ROOTFS_PART_NAME rootfs_offset rootfs_size])))"

section \<open>The layout of the partitions\<close>

definition part_range :: "mtd_partition \<Rightarrow> nat set" where
  "part_range p = {unat (part_offset p)..<unat (part_offset p) + unat (part_size p)}"

text \<open>A kernel partition, and a root partition behind it that ends with the device at the latest.\<close>

definition split_layout :: "mtd_flash \<Rightarrow> mtd_partition list \<Rightarrow> bool" where
  "split_layout m ps \<longleftrightarrow>
     (\<exists>k r. ps = [k, r] \<and> part_name k = KERNEL_PART_NAME \<and>
       unat (part_offset k) + unat (part_size k) \<le> unat (part_offset r) \<and>
       unat (part_offset r) + unat (part_size r) \<le> unat (fl_size m))"

text \<open>What a parser of a firmware image promises to the MTD core.\<close>

locale split_parser =
  fixes parse :: "mtd_flash \<Rightarrow> mtd_partition list outcome"
  assumes parse_returns: "flash_ok m \<Longrightarrow> returns (parse m)"
    and parse_layout: "flash_ok m \<Longrightarrow> parse m = done_with ps \<Longrightarrow> split_layout m ps"
begin

lemma parts_within:
  "flash_ok m \<Longrightarrow> parse m = done_with ps \<Longrightarrow> p \<in> set ps \<Longrightarrow> part_range p \<subseteq> {0..<unat (fl_size m)}"
  using parse_layout [of m ps] by (auto simp: split_layout_def part_range_def)

lemma parts_disjoint:
  "flash_ok m \<Longrightarrow> parse m = done_with ps \<Longrightarrow> i < j \<Longrightarrow> j < length ps \<Longrightarrow> part_range (ps ! i) \<inter> part_range (ps ! j) = {}"
  using parse_layout [of m ps] by (auto simp: split_layout_def part_range_def less_Suc_eq)

lemma parse_cases:
  "flash_ok m \<Longrightarrow> (\<exists>e. parse m = Some (Inl e)) \<or> (\<exists>k r. parse m = done_with [k, r])"
  using parse_returns [of m] parse_layout [of m]
  by (cases "parse m"; cases "the (parse m)") (auto simp: split_layout_def)

end

lemma unat_diff_le: "unat (y :: u64) \<le> unat x \<Longrightarrow> unat (x - y) = unat x - unat y"
  by (simp add: unat_sub_if')

lemma layoutI:
  assumes "unat rootfs_offset \<le> unat (fl_size m)" "unat koff + unat ksize \<le> unat rootfs_offset"
  shows "split_layout m [kernel_part koff ksize, rootfs_part name rootfs_offset (fl_size m - rootfs_offset)]"
  using assms by (simp add: split_layout_def kernel_part_def rootfs_part_def unat_diff_le)

lemma kernel_up_to_rootfs_ok:
  assumes "flash_ok m"
  shows "returns (kernel_up_to_rootfs m from name)"
    "kernel_up_to_rootfs m from name = done_with ps \<Longrightarrow> split_layout m ps"
proof -
  show "returns (kernel_up_to_rootfs m from name)"
    by (simp add: kernel_up_to_rootfs_def find_rootfs_returns [OF assms] split: prod.split)
  show "split_layout m ps" if "kernel_up_to_rootfs m from name = done_with ps"
    using that find_rootfs_result(4) [of m "from" "fl_size m"] assms
    by (auto simp: kernel_up_to_rootfs_def andthen_done kzalloc_then_done split: prod.splits intro!: layoutI)
qed

lemma rootfs_at_or_from_ok:
  assumes "flash_ok m"
  shows "returns (rootfs_at_or_from m off from)"
    "rootfs_at_or_from m off from = done_with (o1, type) \<Longrightarrow>
      (o1 = off \<or> from \<le> o1) \<and> unat o1 + 4 \<le> unat (fl_size m)"
  using find_rootfs_returns [OF assms order_refl] find_rootfs_result [of m "from" "fl_size m" o1 type] assms
    check_magic_within [OF assms]
  by (auto simp: rootfs_at_or_from_def split: sum.splits)

lemma take_bit_32_less: "take_bit 32 y = y \<Longrightarrow> unat y < 2 ^ 32" for y :: u64
proof -
  assume "take_bit 32 y = y"
  then have "unat y = take_bit 32 (unat y)" using unsigned_take_bit_eq [of 32 y, where ?'a = nat] by simp
  then show ?thesis using take_bit_nat_less_exp [of 32 "unat y"] by simp
qed

lemma round_up_ge:
  assumes "unat x < 2 ^ 32"
  shows "unat x \<le> unat (round_up x 0x10000)" "unat (round_up x 0x10000) < 2 ^ 33"
proof -
  have "unat x \<le> unat (round_up x 0x10000) \<and> unat (round_up x 0x10000) < 2 ^ 33"
  proof (cases "x = 0")
    case True
    then show ?thesis by (simp add: round_up_def)
  next
    case False
    then have x: "unat (x - 1) = unat x - 1" "0 < unat x" by (simp_all add: unat_minus_one unat_gt_0)
    let ?y = "(x - 1) OR 0xffff"
    have ge: "x - 1 \<le> ?y" by (rule le_word_or2)
    have "take_bit 32 (x - 1) = x - 1"
      using x assms by (simp add: word_unat_eq_iff unsigned_take_bit_eq take_bit_nat_eq_self)
    then have "take_bit 32 ?y = ?y" by (simp add: take_bit_or)
    then have lt: "unat ?y < 2 ^ 32" by (rule take_bit_32_less)
    have inc: "unat (y + 1) = unat y + 1" if "unat y < 2 ^ 32" for y :: u64
    proof -
      have "unat y + unat (1 :: u64) < 2 ^ LENGTH(64)" using that by simp
      from unat_add_no_wrap [OF this] show ?thesis by (simp only: unsigned_1)
    qed
    have "round_up x 0x10000 = ?y + 1" by (simp add: round_up_def)
    then have "unat (round_up x 0x10000) = unat ?y + 1" by (simp only: inc [OF lt])
    moreover have "unat x - 1 \<le> unat ?y" using ge x by (simp only: word_le_nat_alt)
    moreover have "(2 :: nat) ^ 32 < 2 ^ 33" by simp
    ultimately show ?thesis using lt x(2) by linarith
  qed
  then show "unat x \<le> unat (round_up x 0x10000)" "unat (round_up x 0x10000) < 2 ^ 33" by simp_all
qed

lemma unat_ucast_small: "unat (ucast (x :: u16) :: u64) = unat x" "unat x < 2 ^ 16"
  using unsigned_less [of x, where ?'a = nat] by (simp_all add: unsigned_ucast_eq take_bit_nat_eq_self)

interpretation seama: split_parser mtdsplit_parse_seama
proof
  fix m assume ok: "flash_ok m"
  show "returns (mtdsplit_parse_seama m)"
    using rootfs_at_or_from_ok(1) [OF ok] by (simp add: mtdsplit_parse_seama_def Let_def split: prod.split)
next
  fix m ps assume ok: "flash_ok m" and p: "mtdsplit_parse_seama m = done_with ps"
  obtain b o1 type where
    r: "rootfs_at_or_from m (28 + ucast (seama_size (seama_header_at b)) + ucast (seama_metasize (seama_header_at b)))
      SEAMA_MIN_ROOTFS_OFFS = done_with (o1, type)"
    and ps: "ps = [kernel_part (28 + ucast (seama_metasize (seama_header_at b)))
      (o1 - (28 + ucast (seama_metasize (seama_header_at b)))),
      rootfs_part (rootfs_name type) o1 (fl_size m - o1)]"
    using p by (auto simp: mtdsplit_parse_seama_def Let_def andthen_done kzalloc_then_done split: if_splits prod.splits)
  let ?s = "seama_size (seama_header_at b)" and ?t = "seama_metasize (seama_header_at b)"
  have t: "unat (28 + ucast ?t :: u64) = 28 + unat ?t" "unat ?t < 2 ^ 16"
    using unat_ucast_small [of ?t] unat_add_no_wrap [of "28 :: u64" "ucast ?t"] by simp_all
  have "unat (28 + ucast ?s :: u64) = 28 + unat ?s" "unat ?s < 2 ^ 32"
    using u32_less_2p32 [of ?s] unat_add_no_wrap [of "28 :: u64" "ucast ?s"] by simp_all
  then have "unat (28 + ucast ?s + ucast ?t :: u64) = 28 + unat ?s + unat ?t"
    using unat_add_no_wrap [of "28 + ucast ?s :: u64" "ucast ?t"] unat_ucast_small [of ?t] by simp
  then have "28 + unat ?t \<le> unat o1" "unat o1 + 4 \<le> unat (fl_size m)"
    using rootfs_at_or_from_ok(2) [OF ok r] t(2) by (auto simp: SEAMA_MIN_ROOTFS_OFFS_def word_le_nat_alt)
  then show "split_layout m ps"
    unfolding ps using t by (intro layoutI) (simp_all add: unat_diff_le)
qed

interpretation wrgg: split_parser mtdsplit_parse_wrgg
  by unfold_locales (auto simp: mtdsplit_parse_wrgg_def andthen_done kernel_up_to_rootfs_ok split: if_splits)

interpretation lzma: split_parser mtdsplit_parse_lzma
  by unfold_locales (auto simp: mtdsplit_parse_lzma_def Let_def andthen_done kernel_up_to_rootfs_ok split: if_splits)

interpretation minor: split_parser mtdsplit_parse_minor
  by unfold_locales (auto simp: mtdsplit_parse_minor_def Let_def andthen_done kernel_up_to_rootfs_ok split: if_splits)

interpretation eva: split_parser mtdsplit_parse_eva
proof
  fix m assume ok: "flash_ok m"
  show "returns (mtdsplit_parse_eva m)" by (simp add: mtdsplit_parse_eva_def Let_def)
next
  fix m ps assume ok: "flash_ok m" and p: "mtdsplit_parse_eva m = done_with ps"
  obtain b where ps: "ps = [kernel_part 0 (ucast (le32_at b 4 + EVA_FOOTER_SIZE)),
      rootfs_part ROOTFS_PART_NAME (round_up (ucast (le32_at b 4 + EVA_FOOTER_SIZE)) 0x10000 + EVA_DUMMY_SQUASHFS_SIZE)
        (fl_size m - (round_up (ucast (le32_at b 4 + EVA_FOOTER_SIZE)) 0x10000 + EVA_DUMMY_SQUASHFS_SIZE))]"
    and lt: "round_up (ucast (le32_at b 4 + EVA_FOOTER_SIZE)) 0x10000 + EVA_DUMMY_SQUASHFS_SIZE < fl_size m"
    using p by (auto simp: mtdsplit_parse_eva_def Let_def andthen_done kzalloc_then_done not_le split: if_splits)
  let ?k = "ucast (le32_at b 4 + EVA_FOOTER_SIZE) :: u64"
  have k: "unat ?k < 2 ^ 32" using u32_less_2p32 [of "le32_at b 4 + EVA_FOOTER_SIZE"] by simp
  have "unat (round_up ?k 0x10000 + EVA_DUMMY_SQUASHFS_SIZE) = unat (round_up ?k 0x10000) + 0x100"
    using round_up_ge(2) [OF k] unat_add_no_wrap [of "round_up ?k 0x10000" EVA_DUMMY_SQUASHFS_SIZE]
    by (simp add: EVA_DUMMY_SQUASHFS_SIZE_def)
  then show "split_layout m ps"
    unfolding ps using round_up_ge(1) [OF k] lt by (intro layoutI) (simp_all add: word_less_nat_alt)
qed


section \<open>TP-Link partitions\<close>

text \<open>
  The TP-Link parser only compares the length of the kernel with the size of the device: with a
  root file system at the offset the header names, below the end of the kernel, the two
  partitions overlap.
\<close>

lemma tplink_overlap:
  assumes "flash_ok m" "fl_kzalloc m" "mtd_read_exact m 0 512 = Inr b" "tplink_fw_header b = Some fw"
    "kernel_ofs fw = 512" "512 + unat (kernel_len fw) \<le> unat (fl_size m)"
    "mtd_check_rootfs_magic m (ucast (rootfs_ofs fw)) = Inr type"
    "unat (rootfs_ofs fw) < 512 + unat (kernel_len fw)"
  shows "\<exists>k r. mtdsplit_parse_tplink m = done_with [k, r] \<and> part_range k \<inter> part_range r \<noteq> {}"
proof -
  let ?k = "512 + ucast (kernel_len fw) :: u64" and ?r = "ucast (rootfs_ofs fw) :: u64"
  have k: "unat ?k = 512 + unat (kernel_len fw)"
    using u32_less_2p32 [of "kernel_len fw"] unat_add_no_wrap [of "512 :: u64" "ucast (kernel_len fw)"] by simp
  then have "\<not> fl_size m < ?k" using assms(6) by (simp add: word_less_nat_alt)
  then have "mtdsplit_parse_tplink m = done_with [kernel_part 0 ?k, rootfs_part ROOTFS_PART_NAME ?r (fl_size m - ?r)]"
    using assms(2-5,7) by (simp add: mtdsplit_parse_tplink_def Let_def rootfs_at_or_from_def kzalloc_then_def)
  moreover have "unat ?r + 4 \<le> unat (fl_size m)" by (rule check_magic_within [OF assms(1,7)])
  then have "unat ?r \<in> part_range (rootfs_part ROOTFS_PART_NAME ?r (fl_size m - ?r))"
    by (simp add: part_range_def unat_diff_le)
  moreover have "unat ?r \<in> part_range (kernel_part 0 ?k)"
    using assms(8) k by (simp add: part_range_def)
  ultimately show ?thesis by blast
qed

lemma be32_at_map:
  "i + 4 \<le> n \<Longrightarrow> be32_at (map f [0..<n]) i = bytes_u32 [f (i + 3), f (i + 2), f (i + 1), f i]"
proof -
  assume n: "i + 4 \<le> n"
  have "buf_get i 4 (map f [0..<n]) = map f [i..<i + 4]"
    using n by (simp add: buf_get_def drop_map take_map)
  also have "\<dots> = [f i, f (i + 1), f (i + 2), f (i + 3)]"
    by (simp add: upt_rec numeral_3_eq_3)
  finally show ?thesis by (simp add: be32_at_def)
qed

lemma le32_at_map:
  "i + 4 \<le> n \<Longrightarrow> le32_at (map f [0..<n]) i = bytes_u32 [f i, f (i + 1), f (i + 2), f (i + 3)]"
  by (simp add: le32_at_def bytes_u32_def)

text \<open>A version 1 header: a kernel of 128 KiB, a root file system at 64 KiB.\<close>

definition tplink_flash :: mtd_flash where
  "tplink_flash = sample_flash (mem_of [(0, [1, 0, 0, 0]),
     (128, [0, 0, 2, 0, 0, 2, 0, 0, 0, 1, 0, 0]), (0x10000, [0x68, 0x73, 0x71, 0x73])])"

lemma tplink_overlap_witness:
  "\<exists>k r. mtdsplit_parse_tplink tplink_flash = done_with [k, r] \<and> part_range k \<inter> part_range r \<noteq> {}"
proof -
  let ?mem = "mem_of [(0, [1, 0, 0, 0]), (128, [0, 0, 2, 0, 0, 2, 0, 0, 0, 1, 0, 0]), (0x10000, [0x68, 0x73, 0x71, 0x73])]"
  let ?b = "map ?mem [0..<512]" and ?fw = "\<lparr>kernel_ofs = 512, kernel_len = 0x20000, rootfs_ofs = 0x10000\<rparr>"
  have "flash_ok tplink_flash" "fl_kzalloc tplink_flash" "fl_size tplink_flash = 0x40000"
    by (simp_all add: tplink_flash_def sample_flash_ok)
  moreover have "mtd_read_exact tplink_flash 0 512 = Inr ?b"
    by (simp add: tplink_flash_def sample_read del: mem_of.simps)
  moreover have "tplink_fw_header ?b = Some ?fw"
    by (simp add: tplink_fw_header_def fw_v1_at_def le32_at_map be32_at_map bytes_u32_def)
  moreover have "mtd_check_rootfs_magic tplink_flash (ucast (rootfs_ofs ?fw)) = Inr MTDSPLIT_PART_TYPE_SQUASHFS"
    by (simp add: tplink_flash_def sample_magic SQUASHFS_MAGIC_def bytes_u32_def)
  ultimately show ?thesis by (intro tplink_overlap [of tplink_flash ?b ?fw]) simp_all
qed

section \<open>BRN image partitions\<close>

lemma add_align:
  assumes "flash_ok m" "off < fl_size m"
  shows "unat (off + BRNIMAGE_ALIGN_BYTES) = unat off + 0x400"
proof -
  have "unat off + unat BRNIMAGE_ALIGN_BYTES < 2 ^ LENGTH(64)"
    using assms by (simp add: flash_ok_def word_less_nat_alt BRNIMAGE_ALIGN_BYTES_def)
  from unat_add_no_wrap [OF this] show ?thesis by (simp add: BRNIMAGE_ALIGN_BYTES_def)
qed

lemma brnimage_rootfs_result:
  assumes ok: "flash_ok m" and al: "unat off mod 0x400 = 0"
  shows "\<exists>ret o1. brnimage_rootfs m off r = Some (ret, o1) \<and>
    (o1 < fl_size m \<longrightarrow> ret = 0 \<and> unat o1 mod 0x400 = 0 \<and> unat o1 + 4 \<le> unat (fl_size m))"
  using al
proof (induction "unat (fl_size m) - unat off" arbitrary: off r rule: less_induct)
  case less
  show ?case
  proof (cases "off < fl_size m")
    case False
    then show ?thesis by (simp add: brnimage_rootfs.simps [of m off])
  next
    case True
    note n = add_align [OF ok True]
    have "unat (fl_size m) - unat (off + BRNIMAGE_ALIGN_BYTES) < unat (fl_size m) - unat off"
      using True n by (simp add: word_less_nat_alt)
    note IH = less.hyps [OF this]
    have "unat (off + BRNIMAGE_ALIGN_BYTES) mod 0x400 = 0" using less.prems by (simp add: n)
    note IH = IH [OF this]
    show ?thesis
      using True IH less.prems check_magic_within [OF ok, of off]
      by (cases "mtd_check_rootfs_magic m off") (auto simp: brnimage_rootfs.simps [of m off])
  qed
qed

text \<open>A root file system at the start of the device has no footer before it: the read fails.\<close>

lemma brnimage_ok:
  assumes ok: "flash_ok m" and sz: "unat (fl_size m) mod 0x400 = 0"
  shows "returns (mtdsplit_parse_brnimage m)"
    "mtdsplit_parse_brnimage m = done_with ps \<Longrightarrow> split_layout m ps"
proof -
  obtain ret o1 where b: "brnimage_rootfs m 0 0 = Some (ret, o1)"
    and o1: "o1 < fl_size m \<Longrightarrow> unat o1 mod 0x400 = 0 \<and> unat o1 + 4 \<le> unat (fl_size m)"
    using brnimage_rootfs_result [OF ok, of 0 0] by auto
  show "returns (mtdsplit_parse_brnimage m)" by (simp add: mtdsplit_parse_brnimage_def b Let_def)
  assume p: "mtdsplit_parse_brnimage m = done_with ps"
  obtain k where lt: "o1 < fl_size m"
    and rd: "fst (fl_read m (o1 - BRNIMAGE_FOOTER_SIZE) 4) = 0"
    and k: "k \<le> o1 - BRNIMAGE_MIN_OVERHEAD"
    and ps: "ps = [kernel_part 0 k, rootfs_part ROOTFS_PART_NAME o1 (fl_size m - o1 - BRNIMAGE_FOOTER_SIZE)]"
    using p by (auto simp: mtdsplit_parse_brnimage_def b Let_def andthen_done kzalloc_then_done
        mtd_read_exact_def not_less split: if_splits prod.splits)
  from rd have "unat (o1 - BRNIMAGE_FOOTER_SIZE) + unat (4 :: u64) \<le> unat (fl_size m)"
    using ok unfolding flash_ok_def by blast
  moreover have "unat (fl_size m) < 2 ^ 63" using ok by (simp add: flash_ok_def)
  ultimately have "unat (o1 - 12) < 2 ^ 63" by (simp add: BRNIMAGE_FOOTER_SIZE_def)
  then have "o1 \<noteq> 0" by auto
  then have ge: "0x400 \<le> unat o1" using o1 [OF lt] by (auto simp: unat_gt_0 mod_eq_0_iff_dvd intro: dvd_imp_le)
  then have d: "unat (o1 - 12) = unat o1 - 12" by (simp add: unat_sub_if')
  have s: "unat (fl_size m - o1) = unat (fl_size m) - unat o1"
    using lt by (simp add: unat_diff_le word_less_nat_alt)
  have "(unat (fl_size m) - unat o1) mod 0x400 = 0" using o1 [OF lt] sz by (auto simp: mod_eq_0_iff_dvd)
  moreover have "0 < unat (fl_size m) - unat o1" using lt by (simp add: word_less_nat_alt)
  ultimately have "0x400 \<le> unat (fl_size m) - unat o1" by (auto simp: mod_eq_0_iff_dvd intro: dvd_imp_le)
  then have "unat (fl_size m - o1 - 12) = unat (fl_size m) - unat o1 - 12" by (simp add: unat_sub_if' s)
  then show "split_layout m ps"
    using k d ge lt
    by (auto simp: ps split_layout_def BRNIMAGE_FOOTER_SIZE_def BRNIMAGE_MIN_OVERHEAD_def kernel_part_def
        rootfs_part_def word_le_nat_alt word_less_nat_alt)
qed

end
