(* ===== verification/Mtdsplit_Images.thy ===== *)
theory Mtdsplit_Images
  imports Mtdsplit_Formats
begin

text \<open>
  The parsers that look for an image on the erase block boundaries of the device: uImage, jImage,
  TRX and FIT images (\<open>mtdsplit_uimage.c\<close>, \<open>mtdsplit_jimage.c\<close>, \<open>mtdsplit_trx.c\<close>,
  \<open>mtdsplit_fit.c\<close>). Numbers of the jImage and TRX headers that the code does not convert are
  read in the little-endian order of the targets.
\<close>

section \<open>The area around an image\<close>

text \<open>
  The last part of the uImage and of the jImage parser: an image at the start is followed by its
  root file system, any other image has it at the start of the device.
\<close>

definition split_around_image :: "mtd_flash \<Rightarrow> u64 \<Rightarrow> u64 \<Rightarrow> mtd_partition list outcome" where
  "split_around_image m image_offset image_size =
     (if image_size = 0 then fail ENODEV
      else if image_offset = 0
      then
        andthen (mtd_find_rootfs_from m (image_offset + image_size) (fl_size m)) (\<lambda>(rootfs_offset, type).
          let rootfs_size = fl_size m - rootfs_offset;
              image_size = rootfs_offset - image_offset
          in if rootfs_size = 0 then fail ENODEV
             else done_with [kernel_part image_offset image_size,
                             rootfs_part (rootfs_name type) rootfs_offset rootfs_size])
      else
        andthen (Some (mtd_check_rootfs_magic m 0)) (\<lambda>type.
          let rootfs_size = image_offset
          in if rootfs_size = 0 then fail ENODEV
             else done_with [rootfs_part (rootfs_name type) 0 rootfs_size,
                             kernel_part image_offset image_size]))"

section \<open>uImage\<close>

definition IH_OS_LINUX :: u8 where "IH_OS_LINUX = 5"
definition IH_TYPE_KERNEL :: u32 where "IH_TYPE_KERNEL = 2"
definition IH_MAGIC :: u32 where "IH_MAGIC = 0x27051956"

text \<open>The properties of the device node; \<open>None\<close> where the node does not have one.\<close>

record uimage_dt =
  dt_padding :: "u32 option"
  dt_ih_magic :: "u32 option"
  dt_ih_type :: "u32 option"
  dt_offset :: "u32 option"
  dt_partition_magic :: "u32 option"

record uimage_options =
  extralen :: u32
  opt_magic :: u32
  opt_type :: u32
  header_offset :: u32
  part_magic :: u32

text \<open>\<open>None\<close> is a node that is missing or not compatible to \<open>openwrt,uimage\<close>.\<close>

definition uimage_parse_dt :: "uimage_dt option \<Rightarrow> uimage_options" where
  "uimage_parse_dt np =
     (let default = \<lparr>extralen = 0, opt_magic = IH_MAGIC, opt_type = IH_TYPE_KERNEL, header_offset = 0, part_magic = 0\<rparr>
      in case np of
           None \<Rightarrow> default
         | Some dt \<Rightarrow>
             \<lparr>extralen = case_option (extralen default) id (dt_padding dt),
              opt_magic = case_option (opt_magic default) id (dt_ih_magic dt),
              opt_type = case_option (opt_type default) id (dt_ih_type dt),
              header_offset = case_option (header_offset default) id (dt_offset dt),
              part_magic = case_option (part_magic default) id (dt_partition_magic dt)\<rparr>)"

record uimage_header =
  ih_magic :: u32
  ih_size :: u32
  ih_os :: u8
  ih_type :: u8

definition uimage_header_at :: "bytes \<Rightarrow> uimage_header" where
  "uimage_header_at b = \<lparr>ih_magic = be32_at b 0, ih_size = be32_at b 12, ih_os = b ! 28, ih_type = b ! 30\<rparr>"

definition uimage_verify_default :: "uimage_header \<Rightarrow> uimage_options \<Rightarrow> int" where
  "uimage_verify_default hdr opt =
     (if ih_magic hdr \<noteq> opt_magic opt then - EINVAL
      else if ih_os hdr \<noteq> IH_OS_LINUX then - EINVAL
      else if ucast (ih_type hdr) \<noteq> opt_type opt then - EINVAL
      else 0)"

text \<open>
  The size of the image whose header is in the buffer; \<open>None\<close> if there is no valid header.
  \<open>extralen\<close> is an \<open>int\<close>, so it is extended with its sign.
\<close>

definition uimage_size_of :: "uimage_options \<Rightarrow> bytes \<Rightarrow> u64 option" where
  "uimage_size_of opt buf =
     (let hdr = uimage_header_at (drop (unat (header_offset opt)) buf)
      in if header_offset opt \<noteq> 0 \<and> part_magic opt \<noteq> 0 \<and> be32_at buf 0 \<noteq> part_magic opt then None
         else if uimage_verify_default hdr opt < 0 then None
         else Some (64 + ucast (ih_size hdr) + ucast (header_offset opt) + scast (extralen opt)))"

text \<open>
  The loop over the erase blocks, for any header: its result is the offset and the size it
  leaves behind. The size is set to 0 before a header is read, but not again if the image turns out
  to exceed the device.
\<close>

partial_function (option) search_image ::
  "mtd_flash \<Rightarrow> u64 \<Rightarrow> (bytes \<Rightarrow> u64 option) \<Rightarrow> u64 \<Rightarrow> u64 \<Rightarrow> (u64 \<times> u64) option" where
  "search_image m buflen size_of off sz =
     (if off < fl_size m
      then case mtd_read_exact m off buflen of
             Inl _ \<Rightarrow> search_image m buflen size_of (off + ucast (fl_erasesize m)) 0
           | Inr buf \<Rightarrow>
             (case size_of buf of
                None \<Rightarrow> search_image m buflen size_of (off + ucast (fl_erasesize m)) 0
              | Some sz \<Rightarrow>
                if off + sz > fl_size m
                then search_image m buflen size_of (off + ucast (fl_erasesize m)) sz
                else Some (off, sz))
      else Some (off, sz))"

definition parse_uimage :: "mtd_flash \<Rightarrow> uimage_dt option \<Rightarrow> mtd_partition list outcome" where
  "parse_uimage m np =
     kzalloc_then m
       (let opt = uimage_parse_dt np
        in case search_image m (64 + ucast (header_offset opt)) (uimage_size_of opt) 0 0 of
             None \<Rightarrow> None
           | Some (off, sz) \<Rightarrow> split_around_image m off sz)"

section \<open>jImage\<close>

definition STAG_ID :: u8 where "STAG_ID = 0x04"
definition STAG_MAGIC :: u16 where "STAG_MAGIC = 0x2B24"
definition SCH2_MAGIC :: u16 where "SCH2_MAGIC = 0x2124"
definition SCH2_VER :: u8 where "SCH2_VER = 0x02"
definition MAX_HEADER_LEN :: u64 where "MAX_HEADER_LEN = 16 + 40"

record jimage_header =
  stag_cmark :: u8
  stag_id :: u8
  stag_magic :: u16
  sch2_magic :: u16
  sch2_version :: u8
  sch2_image_len :: u32

definition jimage_header_at :: "bytes \<Rightarrow> jimage_header" where
  "jimage_header_at b = \<lparr>stag_cmark = b ! 0, stag_id = b ! 1, stag_magic = le16_at b 2,
     sch2_magic = le16_at b 16, sch2_version = b ! 19, sch2_image_len = le32_at b 24\<rparr>"

definition jimage_verify_default :: "bytes \<Rightarrow> int" where
  "jimage_verify_default buf =
     (let header = jimage_header_at buf
      in if stag_magic header \<noteq> STAG_MAGIC then - EINVAL
         else if sch2_magic header \<noteq> SCH2_MAGIC then - EINVAL
         else if stag_cmark header \<noteq> stag_id header then - EINVAL
         else if stag_id header \<noteq> STAG_ID then - EINVAL
         else if sch2_version header \<noteq> SCH2_VER then - EINVAL
         else 0)"

definition jimage_size_of :: "(bytes \<Rightarrow> int) \<Rightarrow> bytes \<Rightarrow> u64 option" where
  "jimage_size_of find_header buf =
     (let ret = find_header buf
      in if ret < 0 then None
         else Some (56 + ucast (sch2_image_len (jimage_header_at (drop (nat ret) buf))) + of_int ret))"

definition parse_jimage :: "mtd_flash \<Rightarrow> (bytes \<Rightarrow> int) \<Rightarrow> mtd_partition list outcome" where
  "parse_jimage m find_header =
     kzalloc_then m
       (case search_image m MAX_HEADER_LEN (jimage_size_of find_header) 0 0 of
          None \<Rightarrow> None
        | Some (off, sz) \<Rightarrow> split_around_image m off sz)"

definition mtdsplit_jimage_parse_generic :: "mtd_flash \<Rightarrow> mtd_partition list outcome" where
  "mtdsplit_jimage_parse_generic m = parse_jimage m jimage_verify_default"

section \<open>TRX\<close>

definition TRX_MAGIC :: u32 where "TRX_MAGIC = 0x30524448"

record trx_header =
  trx_magic :: u32
  trx_len :: u32
  trx_offset0 :: u32
  trx_offset1 :: u32

definition trx_header_at :: "bytes \<Rightarrow> trx_header" where
  "trx_header_at b = \<lparr>trx_magic = le32_at b 0, trx_len = le32_at b 4,
     trx_offset0 = le32_at b 16, trx_offset1 = le32_at b 20\<rparr>"

definition read_trx_header :: "mtd_flash \<Rightarrow> u64 \<Rightarrow> int + trx_header" where
  "read_trx_header m off = map_sum id trx_header_at (mtd_read_exact m off 32)"

text \<open>The loop leaves the offset, the size and the header that was read last.\<close>

partial_function (option) search_trx ::
  "mtd_flash \<Rightarrow> u64 \<Rightarrow> u64 \<Rightarrow> trx_header \<Rightarrow> (u64 \<times> u64 \<times> trx_header) option" where
  "search_trx m off sz hdr =
     (if off < fl_size m
      then case read_trx_header m off of
             Inl _ \<Rightarrow> search_trx m (off + ucast (fl_erasesize m)) 0 hdr
           | Inr hdr \<Rightarrow>
             if trx_magic hdr \<noteq> TRX_MAGIC then search_trx m (off + ucast (fl_erasesize m)) 0 hdr
             else
               let sz = ucast (trx_len hdr)
               in if off + sz > fl_size m then search_trx m (off + ucast (fl_erasesize m)) sz hdr
                  else Some (off, sz, hdr)
      else Some (off, sz, hdr))"

text \<open>\<open>stack\<close> stands for the contents of the uninitialised header.\<close>

definition mtdsplit_parse_trx :: "mtd_flash \<Rightarrow> trx_header \<Rightarrow> mtd_partition list outcome" where
  "mtdsplit_parse_trx m stack =
     kzalloc_then m
       (case search_trx m 0 0 stack of
          None \<Rightarrow> None
        | Some (off, trx_size, hdr) \<Rightarrow>
          if trx_size = 0 then fail ENODEV
          else
            let trx_offset = off + ucast (trx_offset0 hdr);
                rootfs_offset = off + ucast (trx_offset1 hdr);
                rootfs_size = fl_size m - rootfs_offset;
                trx_size = rootfs_offset - trx_offset
            in if rootfs_size = 0 then fail ENODEV
               else done_with [kernel_part trx_offset trx_size,
                               rootfs_part ROOTFS_PART_NAME rootfs_offset rootfs_size])"

section \<open>FIT\<close>

definition OF_DT_HEADER :: u32 where "OF_DT_HEADER = 0xd00dfeed"

record fdt_header =
  fdt_magic :: u32
  fdt_totalsize :: u32

definition fdt_header_at :: "bytes \<Rightarrow> fdt_header" where
  "fdt_header_at b = \<lparr>fdt_magic = be32_at b 0, fdt_totalsize = be32_at b 4\<rparr>"

partial_function (option) search_fit ::
  "mtd_flash \<Rightarrow> u64 \<Rightarrow> fdt_header \<Rightarrow> (u64 \<times> fdt_header) outcome" where
  "search_fit m off hdr =
     (if off + 40 \<le> fl_size m
      then case mtd_read_exact m off 40 of
             Inl e \<Rightarrow> Some (Inl e)
           | Inr b \<Rightarrow>
             if fdt_magic (fdt_header_at b) \<noteq> OF_DT_HEADER
             then search_fit m (off + ucast (fl_erasesize m)) (fdt_header_at b)
             else done_with (off, fdt_header_at b)
      else done_with (off, hdr))"

definition mtdsplit_fit_parse :: "mtd_flash \<Rightarrow> fdt_header \<Rightarrow> mtd_partition list outcome" where
  "mtdsplit_fit_parse m stack =
     andthen (search_fit m 0 stack) (\<lambda>(fit_offset, hdr).
       let fit_size = ucast (fdt_totalsize hdr)
       in if fit_size = 0 then fail ENODEV
          else
            andthen (mtd_find_rootfs_from m (fit_offset + fit_size) (fl_size m)) (\<lambda>(rootfs_offset, _).
              kzalloc_then m (done_with
                [kernel_part fit_offset (fl_rounddown m fit_size + ucast (fl_erasesize m)),
                 rootfs_part ROOTFS_PART_NAME rootfs_offset (fl_size m - rootfs_offset)])))"

section \<open>The search for an image\<close>

lemma next_block:
  assumes "flash_ok m" "off < fl_size m"
  shows "unat (off + ucast (fl_erasesize m)) = unat off + unat (fl_erasesize m)"
    "unat (fl_size m) - unat (off + ucast (fl_erasesize m)) < unat (fl_size m) - unat off"
proof -
  have "(2 :: nat) ^ 63 < 2 ^ 64" by simp
  then have "unat off + unat (ucast (fl_erasesize m) :: u64) < 2 ^ LENGTH(64)"
    using assms by (simp add: flash_ok_def word_less_nat_alt)
  from unat_add_no_wrap [OF this] show n: "unat (off + ucast (fl_erasesize m)) = unat off + unat (fl_erasesize m)"
    by simp
  have "0 < unat (fl_erasesize m)" using assms(1) by (simp add: flash_ok_def unat_gt_0)
  then show "unat (fl_size m) - unat (off + ucast (fl_erasesize m)) < unat (fl_size m) - unat off"
    using assms(2) n by (simp add: word_less_nat_alt)
qed

lemma search_image_returns: "flash_ok m \<Longrightarrow> returns (search_image m n size_of off sz)"
proof (induction "unat (fl_size m) - unat off" arbitrary: off sz rule: less_induct)
  case less
  show ?case
  proof (cases "off < fl_size m")
    case True
    note IH = less.hyps [OF next_block(2) [OF less.prems True] less.prems]
    show ?thesis
      using True by (simp add: search_image.simps [of m n size_of off] IH split: sum.split option.split)
  qed (simp add: search_image.simps [of m n size_of off])
qed

lemma search_trx_returns: "flash_ok m \<Longrightarrow> returns (search_trx m off sz hdr)"
proof (induction "unat (fl_size m) - unat off" arbitrary: off sz hdr rule: less_induct)
  case less
  show ?case
  proof (cases "off < fl_size m")
    case True
    note IH = less.hyps [OF next_block(2) [OF less.prems True] less.prems]
    show ?thesis
      using True by (simp add: search_trx.simps [of m off] Let_def IH split: sum.split)
  qed (simp add: search_trx.simps [of m off])
qed

text \<open>The search ends at an image that fits into the device, or behind its end.\<close>

lemma search_image_result:
  assumes "flash_ok m"
  shows "search_image m n size_of off sz = Some (o1, s1) \<Longrightarrow>
    o1 < fl_size m \<and> o1 + s1 \<le> fl_size m \<and> (\<exists>buf. size_of buf = Some s1) \<or> fl_size m \<le> o1"
proof (induction "unat (fl_size m) - unat off" arbitrary: off sz rule: less_induct)
  case less
  show ?case
  proof (cases "off < fl_size m")
    case True
    note IH = less.hyps [OF next_block(2) [OF assms True]]
    show ?thesis
      using True less.prems IH
      by (auto simp: search_image.simps [of m n size_of off] not_less split: sum.splits option.splits if_splits)
  next
    case False
    then show ?thesis using less.prems by (simp add: search_image.simps [of m n size_of off])
  qed
qed

section \<open>uImage and jImage partitions\<close>

text \<open>
  The two partitions never overlap; and both are within the device, unless the second one, the
  kernel, starts at the end of the device or behind it.
\<close>

definition around_layout :: "mtd_flash \<Rightarrow> mtd_partition list \<Rightarrow> bool" where
  "around_layout m ps \<longleftrightarrow>
     (\<exists>p q. ps = [p, q] \<and> part_range p \<inter> part_range q = {} \<and>
       (part_range p \<union> part_range q \<subseteq> {0..<unat (fl_size m)} \<or>
        part_name q = KERNEL_PART_NAME \<and> fl_size m \<le> part_offset q))"

lemma split_around_layout:
  assumes ok: "flash_ok m" and s: "search_image m n size_of 0 0 = Some (off, sz)"
    and small: "\<And>buf s. size_of buf = Some s \<Longrightarrow> unat s < 2 ^ 35"
    and p: "split_around_image m off sz = done_with ps"
  shows "around_layout m ps"
proof (cases "off = 0")
  case True
  then obtain o1 type where f: "mtd_find_rootfs_from m sz (fl_size m) = done_with (o1, type)"
    and ps: "ps = [kernel_part 0 o1, rootfs_part (rootfs_name type) o1 (fl_size m - o1)]"
    using p by (auto simp: split_around_image_def Let_def andthen_done split: if_splits)
  have "unat o1 + 4 \<le> unat (fl_size m)" by (rule find_rootfs_result(4) [OF f ok order_refl])
  then show ?thesis
    by (auto simp: around_layout_def ps part_range_def unat_diff_le)
next
  case False
  then obtain type where ps: "ps = [rootfs_part (rootfs_name type) 0 off, kernel_part off sz]"
    using p by (auto simp: split_around_image_def Let_def andthen_done split: if_splits)
  have "unat off + unat sz \<le> unat (fl_size m) \<or> fl_size m \<le> off"
  proof -
    have "off < fl_size m \<and> off + sz \<le> fl_size m \<and> unat sz < 2 ^ 35 \<or> fl_size m \<le> off"
      using search_image_result [OF ok s] small by blast
    moreover have "unat (off + sz) = unat off + unat sz" if "off < fl_size m" "unat sz < 2 ^ 35"
    proof -
      have "(2 :: nat) ^ 63 + 2 ^ 35 < 2 ^ 64" by simp
      then have "unat off + unat sz < 2 ^ LENGTH(64)"
        using that ok by (simp add: flash_ok_def word_less_nat_alt)
      then show ?thesis by (rule unat_add_no_wrap)
    qed
    ultimately show ?thesis by (auto simp: word_le_nat_alt)
  qed
  then show ?thesis
    by (auto simp: around_layout_def ps part_range_def kernel_part_def)
qed

lemma scast_nonneg: "0 \<le> sint x \<Longrightarrow> (scast x :: u64) = ucast x" for x :: u32
proof -
  assume "0 \<le> sint x"
  then have n: "\<not> bit x 31" by (simp add: sint_uint bit_uint_iff)
  have h: "bit x k \<Longrightarrow> k < 31" for k
    using n bit_imp_le_length [of x k] by (cases "k = 31") auto
  show ?thesis
    by (rule bit_word_eqI) (use n in \<open>auto simp: bit_simps min_def dest: h\<close>)
qed

lemma uimage_size_small:
  assumes "uimage_size_of opt buf = Some s" "0 \<le> sint (extralen opt)"
  shows "unat s < 2 ^ 35"
proof -
  have c: "(scast (extralen opt) :: u64) = ucast (extralen opt)"
    using assms(2) by (simp add: scast_nonneg)
  obtain a where "s = 64 + ucast (a :: u32) + ucast (header_offset opt) + ucast (extralen opt)"
    using assms(1) by (auto simp: uimage_size_of_def Let_def c split: if_splits)
  moreover have "unat a < 2 ^ 32" "unat (header_offset opt) < 2 ^ 32" "unat (extralen opt) < 2 ^ 32"
    by (rule u32_less_2p32)+
  ultimately show ?thesis by (simp add: unat_word_ariths)
qed

lemma jimage_size_small:
  assumes "jimage_size_of jimage_verify_default buf = Some s"
  shows "unat s < 2 ^ 35"
proof -
  have "jimage_verify_default buf = 0 \<or> jimage_verify_default buf < 0"
    by (simp add: jimage_verify_default_def Let_def EINVAL_def)
  then obtain a where "s = 56 + ucast (a :: u32)"
    using assms by (auto simp: jimage_size_of_def Let_def split: if_splits)
  moreover have "unat a < 2 ^ 32" by (rule u32_less_2p32)
  ultimately show ?thesis by (simp add: unat_word_ariths)
qed

text \<open>
  C22. The uImage and the jImage parser come back on every device, and the partitions they make
  do not overlap: both are within the device, unless the kernel partition starts at or behind its end.
\<close>

theorem image_parsers_layout:
  assumes "flash_ok m" "0 \<le> sint (extralen (uimage_parse_dt np))"
  shows "returns (parse_uimage m np) \<and> returns (mtdsplit_jimage_parse_generic m) \<and>
    (\<forall>ps. parse_uimage m np = done_with ps \<longrightarrow> around_layout m ps) \<and>
    (\<forall>ps. mtdsplit_jimage_parse_generic m = done_with ps \<longrightarrow> around_layout m ps)"
proof -
  have r: "returns (split_around_image m off sz)" for off sz
    using find_rootfs_returns [OF assms(1) order_refl]
    by (simp add: split_around_image_def Let_def split: prod.split)
  have "returns (parse_uimage m np)" "returns (mtdsplit_jimage_parse_generic m)"
    using search_image_returns [OF assms(1)] r
    by (auto simp: parse_uimage_def mtdsplit_jimage_parse_generic_def parse_jimage_def Let_def
        split: option.split) (metis returns_simps(2))+
  moreover have "around_layout m ps" if "parse_uimage m np = done_with ps" for ps
    using that split_around_layout [OF assms(1) _ uimage_size_small [OF _ assms(2)]]
    by (auto simp: parse_uimage_def kzalloc_then_done Let_def split: option.splits)
  moreover have "around_layout m ps" if "mtdsplit_jimage_parse_generic m = done_with ps" for ps
    using that split_around_layout [OF assms(1) _ jimage_size_small]
    by (auto simp: mtdsplit_jimage_parse_generic_def parse_jimage_def kzalloc_then_done split: option.splits)
  ultimately show ?thesis by blast
qed


section \<open>An image that exceeds the device\<close>

lemma search_skips:
  assumes ok: "flash_ok m" and sz: "unat (fl_size m) = (n + 1) * unat (fl_erasesize m)"
    and none: "\<And>j. j < n \<Longrightarrow> \<exists>b. mtd_read_exact m (of_nat (j * unat (fl_erasesize m))) len = Inr b \<and> size_of b = None"
  shows "k \<le> n \<Longrightarrow> \<exists>s'. search_image m len size_of (of_nat (k * unat (fl_erasesize m))) s
      = search_image m len size_of (of_nat (n * unat (fl_erasesize m))) s'"
proof (induction "n - k" arbitrary: k s)
  case 0
  then show ?case by auto
next
  case (Suc d)
  let ?e = "unat (fl_erasesize m)"
  have k: "k < n" using Suc.hyps(2) by linarith
  then obtain b where b: "mtd_read_exact m (of_nat (k * ?e)) len = Inr b" "size_of b = None"
    using none by blast
  have "0 < ?e" using ok by (simp add: flash_ok_def unat_gt_0)
  then have "k * ?e < (n + 1) * ?e" using k by (intro mult_strict_right_mono) simp_all
  then have "(of_nat (k * ?e) :: u64) < fl_size m"
    using unat_of_nat_small [of "k * ?e", where 'a = 64] unat_lt_two_power [of "fl_size m"] sz
    by (simp add: word_less_nat_alt del: of_nat_mult)
  moreover have "(of_nat (k * ?e) :: u64) + ucast (fl_erasesize m) = of_nat (Suc k * ?e)"
    by (simp add: algebra_simps)
  ultimately have "search_image m len size_of (of_nat (k * ?e)) s = search_image m len size_of (of_nat (Suc k * ?e)) 0"
    using b by (simp add: search_image.simps [of m len size_of "of_nat (k * ?e)"] add.commute del: of_nat_mult)
  moreover have "\<exists>s'. search_image m len size_of (of_nat (Suc k * ?e)) 0
      = search_image m len size_of (of_nat (n * ?e)) s'"
    using Suc.hyps(2) k by (intro Suc.hyps(1)) simp_all
  ultimately show ?case by (simp only:)
qed

lemma parse_uimage_at_end:
  assumes "flash_ok m" "fl_kzalloc m" "unat (fl_size m) = (n + 1) * unat (fl_erasesize m)"
    "opt = uimage_parse_dt np" "len = 64 + ucast (header_offset opt)"
    "\<And>k. k < n \<Longrightarrow> \<exists>b. mtd_read_exact m (of_nat (k * unat (fl_erasesize m))) len = Inr b \<and> uimage_size_of opt b = None"
    "mtd_read_exact m (of_nat (n * unat (fl_erasesize m))) len = Inr b" "uimage_size_of opt b = Some sz"
    "fl_size m < of_nat (n * unat (fl_erasesize m)) + sz" "sz \<noteq> 0"
    "mtd_check_rootfs_magic m 0 = Inr type"
  shows "parse_uimage m np =
    done_with [rootfs_part (rootfs_name type) 0 (fl_size m), kernel_part (fl_size m) sz]"
proof -
  let ?e = "unat (fl_erasesize m)" and ?f = "uimage_size_of opt"
  let ?o = "of_nat (n * ?e) :: u64"
  obtain s' where s: "search_image m len ?f 0 0 = search_image m len ?f ?o s'"
    using search_skips [OF assms(1,3,6), of 0 0] by auto
  have "0 < ?e" using assms(1) by (simp add: flash_ok_def unat_gt_0)
  then have "?o < fl_size m"
    using unat_of_nat_small [of "n * ?e", where 'a = 64] unat_lt_two_power [of "fl_size m"] assms(3)
    by (simp add: word_less_nat_alt del: of_nat_mult)
  moreover have "of_nat ((n + 1) * ?e) = fl_size m" unfolding assms(3) [symmetric] by simp
  then have "?o + ucast (fl_erasesize m) = fl_size m" by (simp add: algebra_simps)
  ultimately have "search_image m len ?f ?o s' = search_image m len ?f (fl_size m) sz"
    using assms(7-9) by (simp add: search_image.simps [of m len ?f ?o] del: of_nat_mult)
  also have "\<dots> = Some (fl_size m, sz)" by (simp add: search_image.simps [of m len ?f "fl_size m"])
  finally have "search_image m len ?f 0 0 = Some (fl_size m, sz)" by (simp add: s)
  moreover have "fl_size m \<noteq> 0" using \<open>?o < fl_size m\<close> by auto
  ultimately show ?thesis
    using assms(2,4,5,10,11) by (simp add: parse_uimage_def kzalloc_then_def split_around_image_def Let_def)
qed

text \<open>
  If only the last erase block has a uImage header and its image exceeds the device, the
  loop ends with the size of that image: it is taken for an image that starts where the device ends,
  and its kernel partition is wholly outside the device.
\<close>

lemma uimage_beyond_device:
  assumes "flash_ok m" "fl_kzalloc m" "unat (fl_size m) = (n + 1) * unat (fl_erasesize m)"
    "opt = uimage_parse_dt np" "len = 64 + ucast (header_offset opt)"
    "\<And>k. k < n \<Longrightarrow> \<exists>b. mtd_read_exact m (of_nat (k * unat (fl_erasesize m))) len = Inr b \<and> uimage_size_of opt b = None"
    "mtd_read_exact m (of_nat (n * unat (fl_erasesize m))) len = Inr b" "uimage_size_of opt b = Some sz"
    "fl_size m < of_nat (n * unat (fl_erasesize m)) + sz" "sz \<noteq> 0"
    "mtd_check_rootfs_magic m 0 = Inr type"
  shows "parse_uimage m np =
    done_with [rootfs_part (rootfs_name type) 0 (fl_size m), kernel_part (fl_size m) sz]"
  by (rule parse_uimage_at_end [OF assms])

text \<open>A root file system at the start, and in the last block a header of an image of 1 MiB.\<close>

definition oversized_contents :: "(nat \<times> bytes) list" where
  "oversized_contents = [(0, [0x68, 0x73, 0x71, 0x73]), (0x30000, [0x27, 0x05, 0x19, 0x56]),
     (0x3000c, [0, 0x10, 0, 0]), (0x3001c, [5, 0, 2, 0])]"

definition oversized :: mtd_flash where
  "oversized = sample_flash (mem_of oversized_contents)"

lemma oversized_facts:
  "flash_ok oversized" "fl_kzalloc oversized" "unat (fl_size oversized) = (3 + 1) * unat (fl_erasesize oversized)"
  "uimage_parse_dt None = uimage_parse_dt None"
  "64 = 64 + ucast (header_offset (uimage_parse_dt None))"
  "\<And>k. k < 3 \<Longrightarrow> \<exists>b. mtd_read_exact oversized (of_nat (k * unat (fl_erasesize oversized))) 64 = Inr b
     \<and> uimage_size_of (uimage_parse_dt None) b = None"
  "mtd_read_exact oversized (of_nat (3 * unat (fl_erasesize oversized))) 64
     = Inr (map (\<lambda>i. mem_of oversized_contents (3 * 0x10000 + i)) [0..<64])"
  "uimage_size_of (uimage_parse_dt None) (map (\<lambda>i. mem_of oversized_contents (3 * 0x10000 + i)) [0..<64]) = Some 0x100040"
  "fl_size oversized < of_nat (3 * unat (fl_erasesize oversized)) + 0x100040" "(0x100040 :: u64) \<noteq> 0"
  "mtd_check_rootfs_magic oversized 0 = Inr MTDSPLIT_PART_TYPE_SQUASHFS"
proof -
  let ?opt = "uimage_parse_dt None"
  have opt: "header_offset ?opt = 0" "opt_magic ?opt = IH_MAGIC" "opt_type ?opt = 2" "extralen ?opt = 0"
    by (simp_all add: uimage_parse_dt_def IH_TYPE_KERNEL_def)
  have o: "flash_ok oversized" "fl_kzalloc oversized" "fl_size oversized = 0x40000"
    "fl_erasesize oversized = 0x10000"
    by (simp_all add: oversized_def sample_flash_ok)
  let ?mem = "\<lambda>k i. mem_of oversized_contents (k * 0x10000 + i)"
  have rd: "mtd_read_exact oversized (of_nat (k * 0x10000)) 64 = Inr (map (?mem k) [0..<64])" if "k \<le> 3" for k
  proof -
    have "unat (of_nat (k * 0x10000) :: u64) = k * 0x10000" using that by (intro unat_of_nat_small) simp
    then show ?thesis using that by (simp add: oversized_def sample_read del: of_nat_mult mem_of.simps)
  qed
  have none: "uimage_size_of ?opt (map (?mem k) [0..<64]) = None" if "k < 3" for k
  proof -
    have "k = 0 \<or> k = 1 \<or> k = 2" using that by linarith
    then have "be32_at (map (?mem k) [0..<64]) 0 \<noteq> IH_MAGIC"
      by (elim disjE) (simp_all add: be32_at_map IH_MAGIC_def oversized_contents_def bytes_u32_def)
    then show ?thesis
      by (simp add: uimage_size_of_def opt uimage_header_at_def uimage_verify_default_def EINVAL_def)
  qed
  have last: "uimage_size_of ?opt (map (?mem 3) [0..<64]) = Some 0x100040"
    by (simp add: uimage_size_of_def opt uimage_header_at_def uimage_verify_default_def be32_at_map
        IH_MAGIC_def IH_OS_LINUX_def oversized_contents_def bytes_u32_def)
  have root: "mtd_check_rootfs_magic oversized 0 = Inr MTDSPLIT_PART_TYPE_SQUASHFS"
    by (simp add: oversized_def sample_magic oversized_contents_def SQUASHFS_MAGIC_def bytes_u32_def)
  show "flash_ok oversized" "fl_kzalloc oversized" "unat (fl_size oversized) = (3 + 1) * unat (fl_erasesize oversized)"
    "64 = 64 + ucast (header_offset ?opt)" "?opt = ?opt" "(0x100040 :: u64) \<noteq> 0"
    "fl_size oversized < of_nat (3 * unat (fl_erasesize oversized)) + 0x100040"
    "mtd_check_rootfs_magic oversized 0 = Inr MTDSPLIT_PART_TYPE_SQUASHFS"
    by (simp_all add: o opt root)
  show "mtd_read_exact oversized (of_nat (3 * unat (fl_erasesize oversized))) 64 = Inr (map (?mem 3) [0..<64])"
    using rd [of 3] by (simp add: o del: mem_of.simps)
  show "uimage_size_of ?opt (map (?mem 3) [0..<64]) = Some 0x100040" by (rule last)
  show "\<exists>b. mtd_read_exact oversized (of_nat (k * unat (fl_erasesize oversized))) 64 = Inr b \<and> uimage_size_of ?opt b = None"
    if "k < 3" for k using rd [of k] none [of k] that by (simp add: o del: of_nat_mult mem_of.simps)
qed

lemma oversized_root: "fl_size oversized = 0x40000" "rootfs_name MTDSPLIT_PART_TYPE_SQUASHFS = ROOTFS_PART_NAME"
  by (simp_all add: oversized_def rootfs_name_def)

lemma uimage_beyond_device_witness:
  "parse_uimage oversized None =
    done_with [rootfs_part ROOTFS_PART_NAME 0 0x40000, kernel_part 0x40000 0x100040]"
  using uimage_beyond_device [OF oversized_facts] by (simp only: oversized_root)

theorem image_parsers_layout_witness:
  "parse_uimage oversized None = done_with [rootfs_part ROOTFS_PART_NAME 0 0x40000, kernel_part 0x40000 0x100040] \<and>
   around_layout oversized [rootfs_part ROOTFS_PART_NAME 0 0x40000, kernel_part 0x40000 0x100040] \<and>
   returns (mtdsplit_jimage_parse_generic oversized)"
proof -
  have p: "parse_uimage oversized None = done_with [rootfs_part ROOTFS_PART_NAME 0 0x40000, kernel_part 0x40000 0x100040]"
    using parse_uimage_at_end [OF oversized_facts] by (simp only: oversized_root)
  have x: "0 \<le> sint (extralen (uimage_parse_dt None))" by (simp add: uimage_parse_dt_def)
  show ?thesis using image_parsers_layout [OF oversized_facts(1) x] p by blast
qed

section \<open>FIT partitions\<close>

text \<open>
  The size of a FIT image is rounded up to whole erase blocks, and to one block more if it is
  one already: when the root file system follows the image directly, the kernel partition overlaps
  the partition of the root file system.
\<close>

lemma fit_overlaps_rootfs:
  assumes "flash_ok m" "fl_kzalloc m" "search_fit m 0 stack = done_with (off, hdr)" "fdt_totalsize hdr \<noteq> 0"
    "mtd_check_rootfs_magic m (off + ucast (fdt_totalsize hdr)) = Inr type"
    "unat off + unat (fdt_totalsize hdr) < unat (fl_size m)"
  shows "\<exists>k r. mtdsplit_fit_parse m stack = done_with [k, r] \<and> part_range k \<inter> part_range r \<noteq> {}"
proof -
  let ?t = "ucast (fdt_totalsize hdr) :: u64" and ?e = "unat (fl_erasesize m)"
  let ?o = "off + ?t"
  have sz: "unat (fl_size m) + ?e < 2 ^ 63" and e: "0 < ?e"
    using assms(1) by (simp_all add: flash_ok_def unat_gt_0)
  have p: "(2 :: nat) ^ 63 < 2 ^ LENGTH(64)" by simp
  have o: "unat ?o = unat off + unat ?t"
    by (rule unat_add_no_wrap) (use assms(6) sz p in simp)
  then have lt: "?o < fl_size m" using assms(6) by (simp add: word_less_nat_alt)
  have find: "mtd_find_rootfs_from m ?o (fl_size m) = done_with (?o, type)"
    using lt assms(5) by (simp add: mtd_find_rootfs_from.simps [of m ?o])
  have rd: "unat (fl_rounddown m ?t) = unat ?t div ?e * ?e"
    using assms(1) by (simp add: flash_ok_def)
  have "unat ?t div ?e * ?e + ?e \<le> unat ?t + ?e" by simp
  moreover have "unat ?t + ?e < 2 ^ 63" using sz assms(6) by simp
  ultimately have "unat ?t div ?e * ?e + ?e < 2 ^ LENGTH(64)" using p by linarith
  then have "unat (fl_rounddown m ?t) + unat (ucast (fl_erasesize m) :: u64) < 2 ^ LENGTH(64)"
    using rd by simp
  from unat_add_no_wrap [OF this] have k: "unat (fl_rounddown m ?t + ucast (fl_erasesize m)) = unat ?t div ?e * ?e + ?e"
    by (simp add: rd)
  have "unat ?t < unat ?t div ?e * ?e + ?e"
    using e by (metis div_mult_mod_eq add_less_cancel_left mod_less_divisor)
  then have "unat ?o \<in> part_range (kernel_part off (fl_rounddown m ?t + ucast (fl_erasesize m)))"
    by (simp add: part_range_def k o)
  moreover have "unat ?o \<in> part_range (rootfs_part ROOTFS_PART_NAME ?o (fl_size m - ?o))"
    using lt by (simp add: part_range_def unat_diff_le word_less_nat_alt)
  moreover have "mtdsplit_fit_parse m stack = done_with
      [kernel_part off (fl_rounddown m ?t + ucast (fl_erasesize m)), rootfs_part ROOTFS_PART_NAME ?o (fl_size m - ?o)]"
  proof -
    have "?t \<noteq> 0" using assms(4) unat_ucast_u32_u64 by (metis unat_0 word_unat_eq_iff)
    then show ?thesis using assms(2,3) find by (simp add: mtdsplit_fit_parse_def kzalloc_then_def Let_def)
  qed
  ultimately show ?thesis by blast
qed

text \<open>A FIT image of one erase block, and a squashfs in the second one.\<close>

definition fit_contents :: "(nat \<times> bytes) list" where
  "fit_contents = [(0, [0xd0, 0x0d, 0xfe, 0xed, 0, 1, 0, 0]), (0x10000, [0x68, 0x73, 0x71, 0x73])]"

lemma fit_overlaps_rootfs_witness:
  "\<exists>k r. mtdsplit_fit_parse (sample_flash (mem_of fit_contents)) \<lparr>fdt_magic = 0, fdt_totalsize = 0\<rparr>
      = done_with [k, r] \<and> part_range k \<inter> part_range r \<noteq> {}"
proof -
  let ?m = "sample_flash (mem_of fit_contents)" and ?st = "\<lparr>fdt_magic = 0, fdt_totalsize = 0\<rparr> :: fdt_header"
  let ?b = "map (mem_of fit_contents) [0..<40]"
  have "fdt_header_at ?b = \<lparr>fdt_magic = OF_DT_HEADER, fdt_totalsize = 0x10000\<rparr>"
    by (simp add: fdt_header_at_def be32_at_map fit_contents_def bytes_u32_def OF_DT_HEADER_def)
  then have s: "search_fit ?m 0 ?st = done_with (0, \<lparr>fdt_magic = OF_DT_HEADER, fdt_totalsize = 0x10000\<rparr>)"
    by (simp add: search_fit.simps [of ?m] sample_read del: mem_of.simps)
  have "mtd_check_rootfs_magic ?m 0x10000 = Inr MTDSPLIT_PART_TYPE_SQUASHFS"
    by (simp add: sample_magic fit_contents_def SQUASHFS_MAGIC_def bytes_u32_def)
  then show ?thesis
    by (intro fit_overlaps_rootfs [OF sample_flash_ok _ s]) simp_all
qed


end
