(* ===== verification/Mtdsplit_Tables.thy ===== *)
theory Mtdsplit_Tables
  imports Mtdsplit_Formats
begin

text \<open>
  The parsers that walk over tables on the device: the program header table of an ELF loader
  (\<open>mtdsplit_elf.c\<close>) and the JFFS2 nodes of a CFE boot file system
  (\<open>mtdsplit_cfe_bootfs.c\<close>). Fields that the code reads without a conversion are
  little-endian, as the processor is. The product of two 16-bit numbers is an \<open>int\<close> in C; it
  wraps around, as the kernel is compiled.
\<close>

section \<open>ELF\<close>

definition ELF_MAGIC :: u32 where "ELF_MAGIC = 0x7f454c46"
definition ELF_CLASS_32 :: u8 where "ELF_CLASS_32 = 1"
definition ELF_CLASS_64 :: u8 where "ELF_CLASS_64 = 2"

record elf_header_32 =
  phoff32 :: u32
  shoff32 :: u32
  phentsize32 :: u16
  phnum32 :: u16
  shentsize32 :: u16
  shnum32 :: u16

record elf_header_64 =
  phoff64 :: u64
  shoff64 :: u64
  phentsize64 :: u16
  phnum64 :: u16
  shentsize64 :: u16
  shnum64 :: u16

definition elf_header_32_at :: "bytes \<Rightarrow> elf_header_32" where
  "elf_header_32_at b = \<lparr>phoff32 = le32_at b 28, shoff32 = le32_at b 32, phentsize32 = le16_at b 42,
     phnum32 = le16_at b 44, shentsize32 = le16_at b 46, shnum32 = le16_at b 48\<rparr>"

definition elf_header_64_at :: "bytes \<Rightarrow> elf_header_64" where
  "elf_header_64_at b = \<lparr>phoff64 = le64_at b 32, shoff64 = le64_at b 40, phentsize64 = le16_at b 54,
     phnum64 = le16_at b 56, shentsize64 = le16_at b 58, shnum64 = le16_at b 60\<rparr>"

text \<open>\<open>offset + filesize\<close> of a program header; in the first kind the sum is a 32-bit number.\<close>

definition section_end_32 :: "bytes \<Rightarrow> u64" where
  "section_end_32 ph = ucast (le32_at ph 4 + le32_at ph 16)"

definition section_end_64 :: "bytes \<Rightarrow> u64" where
  "section_end_64 ph = le64_at ph 8 + le64_at ph 32"

definition mtdsplit_elf_read_mtd :: "mtd_flash \<Rightarrow> u64 \<Rightarrow> u64 \<Rightarrow> int + bytes" where
  "mtdsplit_elf_read_mtd m offset len = mtd_read_exact m offset len"

text \<open>The loop over the program headers, which both functions have.\<close>

partial_function (option) elf_ph_loop ::
  "mtd_flash \<Rightarrow> u64 \<Rightarrow> (bytes \<Rightarrow> u64) \<Rightarrow> u16 \<Rightarrow> u64 \<Rightarrow> u64 \<Rightarrow> u64 \<Rightarrow> u64 outcome" where
  "elf_ph_loop m ph_len section_end phentsize ph_table_end ph_entry sz =
     (if ph_entry < ph_table_end
      then case mtdsplit_elf_read_mtd m ph_entry ph_len of
             Inl err \<Rightarrow> Some (Inl err)
           | Inr ph \<Rightarrow>
             elf_ph_loop m ph_len section_end phentsize ph_table_end (ph_entry + ucast phentsize)
               (if section_end ph > sz then section_end ph else sz)
      else done_with sz)"

definition elf32_determine_size :: "mtd_flash \<Rightarrow> elf_header_32 \<Rightarrow> u64 outcome" where
  "elf32_determine_size m hdr32 =
     (if shoff32 hdr32 > 0
      then done_with (ucast (shoff32 hdr32 + ucast (shentsize32 hdr32) * ucast (shnum32 hdr32)))
      else
        let ph_table_end = ucast (phoff32 hdr32 + ucast (phentsize32 hdr32) * ucast (phnum32 hdr32))
        in elf_ph_loop m 28 section_end_32 (phentsize32 hdr32) ph_table_end (ucast (phoff32 hdr32)) 0)"

definition int_product :: "u16 \<Rightarrow> u16 \<Rightarrow> u64" where
  "int_product a b = scast (ucast a * ucast b :: u32)"

definition elf64_determine_size :: "mtd_flash \<Rightarrow> elf_header_64 \<Rightarrow> u64 outcome" where
  "elf64_determine_size m hdr64 =
     (if shoff64 hdr64 > 0
      then done_with (shoff64 hdr64 + int_product (shentsize64 hdr64) (shnum64 hdr64))
      else
        let ph_table_end = phoff64 hdr64 + int_product (phentsize64 hdr64) (phnum64 hdr64)
        in elf_ph_loop m 56 section_end_64 (phentsize64 hdr64) ph_table_end (phoff64 hdr64) 0)"

definition mtdsplit_parse_elf :: "mtd_flash \<Rightarrow> mtd_partition list outcome" where
  "mtdsplit_parse_elf m =
     andthen (Some (mtdsplit_elf_read_mtd m 0 64)) (\<lambda>hdr.
       if be32_at hdr 0 \<noteq> ELF_MAGIC then fail EINVAL
       else
         andthen
           (if hdr ! 4 = ELF_CLASS_32 then elf32_determine_size m (elf_header_32_at hdr)
            else if hdr ! 4 = ELF_CLASS_64 then elf64_determine_size m (elf_header_64_at hdr)
            else fail EINVAL) (\<lambda>loader_size.
           andthen (mtd_find_rootfs_from m loader_size (fl_size m)) (\<lambda>(rootfs_offset, type).
             if rootfs_offset = fl_size m then fail ENODEV
             else kzalloc_then m (done_with
               [kernel_part 0 rootfs_offset,
                rootfs_part (rootfs_name type) rootfs_offset (fl_size m - rootfs_offset)]))))"

section \<open>CFE boot file system\<close>

definition JFFS2_MAGIC_BITMASK :: u16 where "JFFS2_MAGIC_BITMASK = 0x1985"

record jffs2_node =
  node_magic :: u16
  node_totlen :: u32

definition jffs2_node_at :: "bytes \<Rightarrow> jffs2_node" where
  "jffs2_node_at b = \<lparr>node_magic = le16_at b 0, node_totlen = le32_at b 4\<rparr>"

text \<open>\<open>(offset + 0x3) & ~0x3\<close>, the mask being an \<open>int\<close>.\<close>

definition pad4 :: "u64 \<Rightarrow> u64" where
  "pad4 offset = (offset + 3) AND NOT 3"

partial_function (option) bootfs_end :: "mtd_flash \<Rightarrow> u64 \<Rightarrow> u64 option" where
  "bootfs_end m offset =
     (case mtd_read_exact m offset 40 of
        Inl _ \<Rightarrow> Some offset
      | Inr b \<Rightarrow>
        let node = jffs2_node_at b
        in if node_magic node \<noteq> JFFS2_MAGIC_BITMASK then Some offset
           else
             let offset = pad4 (offset + ucast (node_totlen node))
             in if offset < fl_size m then bootfs_end m offset else Some offset)"

text \<open>The root file system is looked for from the second erase block on.\<close>

definition mtdsplit_cfe_bootfs_parse :: "string \<Rightarrow> mtd_flash \<Rightarrow> mtd_partition list outcome" where
  "mtdsplit_cfe_bootfs_parse mtd_name m =
     (if mtd_name \<noteq> ''firmware'' then fail EINVAL
      else case bootfs_end m 0 of
        None \<Rightarrow> None
      | Some _ \<Rightarrow>
        andthen (mtd_find_rootfs_from m (ucast (fl_erasesize m)) (fl_size m)) (\<lambda>(rootfs_offset, type).
          kzalloc_then m (done_with
            [rootfs_part ''bootfs'' 0 rootfs_offset,
             rootfs_part (rootfs_name type) rootfs_offset (fl_size m - rootfs_offset)])))"

section \<open>The program header table\<close>

lemma read_within: "flash_ok m \<Longrightarrow> mtd_read_exact m off len = Inr b \<Longrightarrow> unat off + unat len \<le> unat (fl_size m)"
proof -
  assume ok: "flash_ok m" and "mtd_read_exact m off len = Inr b"
  then have "fst (fl_read m off len) = 0"
    by (auto simp: mtd_read_exact_def split_beta Let_def split: if_splits)
  then show ?thesis using ok unfolding flash_ok_def by blast
qed

text \<open>
  The loop ends: a header that can be read is within the device, so that the step to the next one
  does not wrap around, and it moves on unless the size of the entries is zero.
\<close>

lemma elf_ph_loop_returns:
  assumes ok: "flash_ok m" and e: "phentsize \<noteq> 0"
  shows "returns (elf_ph_loop m n f phentsize t p sz)"
proof (induction "unat t - unat p" arbitrary: p sz rule: less_induct)
  case less
  show ?case
  proof (cases "p < t")
    case False
    then show ?thesis by (simp add: elf_ph_loop.simps [of m n f phentsize t p])
  next
    case True
    show ?thesis
    proof (cases "mtdsplit_elf_read_mtd m p n")
      case (Inl x)
      then show ?thesis by (simp add: elf_ph_loop.simps [of m n f phentsize t p])
    next
      case (Inr ph)
      have "unat p < 2 ^ 63"
        using read_within [OF ok] Inr ok by (fastforce simp: mtdsplit_elf_read_mtd_def flash_ok_def)
      moreover have "(2 :: nat) ^ 63 + 2 ^ 16 < 2 ^ LENGTH(64)" by simp
      ultimately have "unat p + unat (ucast phentsize :: u64) < 2 ^ LENGTH(64)"
        using unat_ucast_small [of phentsize] by linarith
      from unat_add_no_wrap [OF this] have "unat (p + ucast phentsize) = unat p + unat phentsize"
        by (simp add: unat_ucast_small)
      moreover have "0 < unat phentsize" using e by (simp add: unat_gt_0)
      ultimately have "unat t - unat (p + ucast phentsize) < unat t - unat p"
        using True by (simp add: word_less_nat_alt)
      from less.hyps [OF this] show ?thesis
        using Inr by (simp add: elf_ph_loop.simps [of m n f phentsize t p])
    qed
  qed
qed

lemma elf_size_returns:
  assumes "flash_ok m"
  shows "returns (elf32_determine_size m h32)" "returns (elf64_determine_size m h64)"
proof -
  show "returns (elf32_determine_size m h32)"
    using elf_ph_loop_returns [OF assms, of "phentsize32 h32"]
    by (cases "phentsize32 h32 = 0")
      (simp_all add: elf32_determine_size_def elf_ph_loop.simps [of m _ _ 0] Let_def)
  show "returns (elf64_determine_size m h64)"
    using elf_ph_loop_returns [OF assms, of "phentsize64 h64"]
    by (cases "phentsize64 h64 = 0")
      (simp_all add: elf64_determine_size_def int_product_def elf_ph_loop.simps [of m _ _ 0] Let_def)
qed

interpretation elf: split_parser mtdsplit_parse_elf
proof
  fix m assume ok: "flash_ok m"
  show "returns (mtdsplit_parse_elf m)"
    by (simp add: mtdsplit_parse_elf_def elf_size_returns [OF ok] find_rootfs_returns [OF ok] split: prod.split)
next
  fix m ps assume ok: "flash_ok m" and p: "mtdsplit_parse_elf m = done_with ps"
  have "unat o1 \<le> unat (fl_size m)" if "mtd_find_rootfs_from m sz (fl_size m) = done_with (o1, type)" for sz o1 type
    using find_rootfs_result(4) [OF that ok order_refl] by simp
  then show "split_layout m ps"
    using p by (auto simp: mtdsplit_parse_elf_def andthen_done kzalloc_then_done split: if_splits prod.splits intro!: layoutI)
qed

section \<open>The parsers with one header\<close>

text \<open>
  C21. The Seama, WRGG, LZMA, minor, EVA and ELF parsers come back on every device with an error number or
  with two partitions, a kernel and a root partition. Every partition is within the device, no two
  of them overlap, and the kernel comes before the root file system.
\<close>

theorem header_parsers_layout:
  assumes "flash_ok m"
    "parse \<in> {mtdsplit_parse_seama, mtdsplit_parse_wrgg, mtdsplit_parse_lzma, mtdsplit_parse_minor,
      mtdsplit_parse_eva, mtdsplit_parse_elf}"
  shows "(\<exists>e. parse m = Some (Inl e)) \<or>
    (\<exists>k r. parse m = done_with [k, r] \<and> part_range k \<union> part_range r \<subseteq> {0..<unat (fl_size m)} \<and>
      part_range k \<inter> part_range r = {} \<and> unat (part_offset k) + unat (part_size k) \<le> unat (part_offset r))"
proof -
  have c: "split_parser parse"
    using assms(2) seama.split_parser_axioms wrgg.split_parser_axioms lzma.split_parser_axioms
      minor.split_parser_axioms eva.split_parser_axioms elf.split_parser_axioms by blast
  show ?thesis
  proof (cases "\<exists>e. parse m = Some (Inl e)")
    case False
    then obtain k r where p: "parse m = done_with [k, r]"
      using split_parser.parse_cases [OF c assms(1)] by blast
    have l: "split_layout m [k, r]" by (rule split_parser.parse_layout [OF c assms(1) p])
    have "part_range k \<subseteq> {0..<unat (fl_size m)}" "part_range r \<subseteq> {0..<unat (fl_size m)}"
      using split_parser.parts_within [OF c assms(1) p] by simp_all
    moreover have "part_range k \<inter> part_range r = {}"
      using split_parser.parts_disjoint [OF c assms(1) p, of 0 1] by simp
    ultimately show ?thesis using p l by (auto simp: split_layout_def)
  qed blast
qed

text \<open>An LZMA header at the start, a JFFS2 in the second erase block.\<close>

definition lzma_flash :: mtd_flash where
  "lzma_flash = sample_flash (mem_of [(0, [0x5d, 0, 0, 0x80, 0, 0, 0, 1, 0, 0, 0, 0, 0]), (0x10000, [3, 0x20, 0x85, 0x19])])"

lemma lzma_flash_parsed:
  "mtdsplit_parse_lzma lzma_flash = done_with [kernel_part 0 0x10000, rootfs_part ROOTFS_PART_NAME 0x10000 0x30000]"
proof -
  have ok: "flash_ok lzma_flash" "fl_size lzma_flash = 0x40000" "fl_erasesize lzma_flash = 0x10000" "fl_kzalloc lzma_flash"
    by (simp_all add: lzma_flash_def sample_flash_ok)
  have "mtd_check_rootfs_magic lzma_flash 0x10000 = Inr MTDSPLIT_PART_TYPE_JFFS2"
    by (simp add: lzma_flash_def sample_magic SQUASHFS_MAGIC_def bytes_u32_def)
  then have f: "mtd_find_rootfs_from lzma_flash 0x10000 0x40000 = done_with (0x10000, MTDSPLIT_PART_TYPE_JFFS2)"
    by (simp add: mtd_find_rootfs_from.simps [of lzma_flash "0x10000"])
  have r: "mtd_read_exact lzma_flash 0 13 = Inr [0x5d, 0, 0, 0x80, 0, 0, 0, 1, 0, 0, 0, 0, 0]"
    by (simp add: lzma_flash_def sample_read upt_rec)
  show ?thesis
    by (simp add: mtdsplit_parse_lzma_def r Let_def lzma_header_at_def le32_at_def bytes_u32_def
        kernel_is_power_of_2_def kernel_up_to_rootfs_def kzalloc_then_def ok f)
qed

theorem header_parsers_layout_witness:
  "mtdsplit_parse_lzma lzma_flash = done_with [kernel_part 0 0x10000, rootfs_part ROOTFS_PART_NAME 0x10000 0x30000] \<and>
   part_range (kernel_part 0 0x10000) \<inter> part_range (rootfs_part ROOTFS_PART_NAME 0x10000 0x30000) = {}"
proof -
  have "flash_ok lzma_flash" by (simp add: lzma_flash_def sample_flash_ok)
  from header_parsers_layout [OF this, of mtdsplit_parse_lzma] show ?thesis
    by (simp add: lzma_flash_parsed)
qed


section \<open>The size of an ELF loader\<close>

text \<open>The entries of the program header table, and the reference: the maximum of their ends.\<close>

definition ph_entries :: "u64 \<Rightarrow> u16 \<Rightarrow> nat \<Rightarrow> u64 list" where
  "ph_entries phoff phentsize n = map (\<lambda>i. phoff + of_nat (i * unat phentsize)) [0..<n]"

definition max_section_end :: "mtd_flash \<Rightarrow> u64 \<Rightarrow> (bytes \<Rightarrow> u64) \<Rightarrow> u64 list \<Rightarrow> u64" where
  "max_section_end m ph_len section_end es =
     fold max (map (\<lambda>e. section_end (projr (mtdsplit_elf_read_mtd m e ph_len))) es) 0"

lemma elf_ph_loop_end: "elf_ph_loop m len f phentsize t t sz = done_with sz"
  by (simp add: elf_ph_loop.simps [of m len f phentsize t t])

lemma elf_ph_loop_max:
  assumes "i \<le> n" "unat phoff + n * unat phentsize < 2 ^ 64" "phentsize \<noteq> 0"
    and rd: "\<And>e. e \<in> set (ph_entries phoff phentsize n) \<Longrightarrow> \<not> isl (mtdsplit_elf_read_mtd m e len)"
  shows "elf_ph_loop m len f phentsize (phoff + of_nat (n * unat phentsize)) (phoff + of_nat (i * unat phentsize)) sz
    = done_with (fold max (map (\<lambda>e. f (projr (mtdsplit_elf_read_mtd m e len))) (drop i (ph_entries phoff phentsize n))) sz)"
  using assms(1)
proof (induction "n - i" arbitrary: i sz)
  case 0
  then have "i = n" by simp
  then show ?case by (simp only: elf_ph_loop_end) (simp add: ph_entries_def)
next
  case (Suc d)
  let ?s = "unat phentsize" and ?e = "\<lambda>k. phoff + of_nat (k * unat phentsize) :: u64"
  have i: "i < n" using Suc.hyps(2) by linarith
  have s: "0 < ?s" using assms(3) by (simp add: unat_gt_0)
  have at: "unat (?e k) = unat phoff + k * ?s" if "k \<le> n" for k
  proof -
    have "k * ?s \<le> n * ?s" using that by (rule mult_le_mono1)
    then have "unat phoff + k * ?s < 2 ^ 64" using assms(2) by linarith
    then have b: "unat phoff + k * ?s < 2 ^ LENGTH(64)" by simp
    then have "unat (of_nat (k * ?s) :: u64) = k * ?s" by (intro unat_of_nat_small) linarith
    then show ?thesis using b unat_add_no_wrap [of phoff "of_nat (k * ?s)"] by simp
  qed
  have "i * ?s < n * ?s" using i s by (rule mult_strict_right_mono)
  then have lt: "?e i < ?e n" using at [of i] at [of n] i by (simp only: word_less_nat_alt)
  have m: "?e i \<in> set (ph_entries phoff phentsize n)" using i by (auto simp: ph_entries_def)
  obtain ph where ph: "mtdsplit_elf_read_mtd m (?e i) len = Inr ph"
    using rd [OF m] by (cases "mtdsplit_elf_read_mtd m (?e i) len") auto
  have nx: "?e i + ucast phentsize = ?e (Suc i)" by (simp add: algebra_simps)
  have d: "drop i (ph_entries phoff phentsize n) = ?e i # drop (Suc i) (ph_entries phoff phentsize n)"
    using i by (simp add: ph_entries_def drop_map [symmetric] Cons_nth_drop_Suc [symmetric])
  have mx: "(if f ph > sz then f ph else sz) = max (f ph) sz" by (auto simp: max_def)
  have "elf_ph_loop m len f phentsize (?e n) (?e i) sz = elf_ph_loop m len f phentsize (?e n) (?e (Suc i)) (max (f ph) sz)"
    using lt ph by (simp only: elf_ph_loop.simps [of m len f phentsize "?e n" "?e i"] nx mx if_True sum.case)
  also have "\<dots> = done_with (fold max (map (\<lambda>e. f (projr (mtdsplit_elf_read_mtd m e len))) (drop (Suc i) (ph_entries phoff phentsize n))) (max (f ph) sz))"
    using Suc.hyps(2) i by (intro Suc.hyps(1)) simp_all
  finally show ?case by (simp only: d list.map fold_simps ph sum.sel)
qed

text \<open>
  Without a section header table, and if the program header table is on the device and does
  not wrap around, the size of a 32-bit ELF loader is the largest end of a section of its program
  headers, and zero if there are none; with a section header table it is the end of that.
\<close>

lemma elf32_size:
  assumes "unat (phoff32 h) + unat (phentsize32 h) * unat (phnum32 h) < 2 ^ 32" "phentsize32 h \<noteq> 0"
    "\<And>e. e \<in> set (ph_entries (ucast (phoff32 h)) (phentsize32 h) (unat (phnum32 h))) \<Longrightarrow> \<not> isl (mtdsplit_elf_read_mtd m e 28)"
  shows "elf32_determine_size m h = done_with
    (if shoff32 h > 0 then ucast (shoff32 h + ucast (shentsize32 h) * ucast (shnum32 h))
     else max_section_end m 28 section_end_32 (ph_entries (ucast (phoff32 h)) (phentsize32 h) (unat (phnum32 h))))"
proof -
  let ?p = "ucast (phoff32 h) :: u64" and ?n = "unat (phnum32 h)" and ?s = "unat (phentsize32 h)"
  have u: "unat (ucast (x :: u16) :: u32) = unat x" for x
    using unsigned_less [of x, where ?'a = nat] by (simp add: unsigned_ucast_eq take_bit_nat_eq_self)
  have b: "unat ?p + ?n * ?s < 2 ^ 32" using assms(1) by (simp add: mult.commute)
  have "unat (ucast (phoff32 h + ucast (phentsize32 h) * ucast (phnum32 h)) :: u64) = unat ?p + ?n * ?s"
    using b by (simp add: unat_word_ariths u mult.commute)
  moreover have "unat (?p + of_nat (?n * ?s)) = unat ?p + ?n * ?s"
  proof -
    have l: "unat ?p + ?n * ?s < 2 ^ LENGTH(64)" using b by simp
    then have "unat (of_nat (?n * ?s) :: u64) = ?n * ?s" by (intro unat_of_nat_small) linarith
    then show ?thesis using l unat_add_no_wrap [of ?p "of_nat (?n * ?s)"] by simp
  qed
  ultimately have t: "ucast (phoff32 h + ucast (phentsize32 h) * ucast (phnum32 h)) = ?p + of_nat (?n * ?s)"
    by (metis word_unat_eq_iff)
  have "unat ?p + ?n * ?s < 2 ^ 64" using b by simp
  from elf_ph_loop_max [of 0 ?n ?p "phentsize32 h" m 28 section_end_32 0, OF _ this assms(2,3)] show ?thesis
    by (simp add: elf32_determine_size_def Let_def t max_section_end_def)
qed

text \<open>Two program headers at 52: a section that ends at 0x3000 and one that ends at 0x2000.\<close>

definition elf_contents :: "(nat \<times> bytes) list" where
  "elf_contents = [(56, [0, 0x10, 0, 0]), (68, [0, 0x20, 0, 0]), (88, [0, 0x10, 0, 0]), (100, [0, 0x10, 0, 0])]"

definition elf_sample :: elf_header_32 where
  "elf_sample = \<lparr>phoff32 = 52, shoff32 = 0, phentsize32 = 32, phnum32 = 2, shentsize32 = 0, shnum32 = 0\<rparr>"

lemma elf32_size_witness:
  "elf32_determine_size (sample_flash (mem_of elf_contents)) elf_sample = done_with 0x3000"
proof -
  let ?m = "sample_flash (mem_of elf_contents)"
  have es: "ph_entries 52 32 2 = [52, 84]" by (simp add: ph_entries_def upt_rec)
  have rd: "mtdsplit_elf_read_mtd ?m 52 28 = Inr (map (\<lambda>i. mem_of elf_contents (52 + i)) [0..<28])"
    "mtdsplit_elf_read_mtd ?m 84 28 = Inr (map (\<lambda>i. mem_of elf_contents (84 + i)) [0..<28])"
    by (simp_all add: mtdsplit_elf_read_mtd_def sample_read del: mem_of.simps)
  have "elf32_determine_size ?m elf_sample = done_with
      (if shoff32 elf_sample > 0 then ucast (shoff32 elf_sample + ucast (shentsize32 elf_sample) * ucast (shnum32 elf_sample))
       else max_section_end ?m 28 section_end_32 (ph_entries (ucast (phoff32 elf_sample)) (phentsize32 elf_sample) (unat (phnum32 elf_sample))))"
    by (rule elf32_size) (auto simp: elf_sample_def es rd simp del: mem_of.simps)
  also have "\<dots> = done_with 0x3000"
    unfolding max_section_end_def elf_sample_def
    by (simp add: es rd section_end_32_def del: mem_of.simps)
      (simp add: le32_at_map elf_contents_def bytes_u32_def)
  finally show ?thesis .
qed

section \<open>The boot file system\<close>

lemma align4_aligned:
  fixes off :: "'a::len word"
  assumes m: "unat off mod 4 = 0" and l: "2 < LENGTH('a)"
  shows "(off + 3) AND NOT 3 = off"
proof -
  have "take_bit 2 (unat off) = 0" using m by (simp add: take_bit_eq_mod)
  then have "unat (take_bit 2 off) = 0" by (simp only: unsigned_take_bit_eq)
  then have t: "take_bit 2 off = 0" by (simp only: unat_eq_0)
  have b: "\<not> bit off 0" "\<not> bit off (Suc 0)"
    using bit_take_bit_iff [of 2 off 0] bit_take_bit_iff [of 2 off 1] t by simp_all
  have k: "k = 0 \<or> k = Suc 0 \<or> 2 \<le> k" for k :: nat by linarith
  have three: "bit (3 :: 'a word) k \<longleftrightarrow> k < 2" for k
    using bit_mask_iff [of 2 k, where 'a = "'a word"] l by (auto simp: mask_eq_exp_minus_1)
  have "off + 3 = off OR 3"
  proof (rule disjunctive_add)
    show "\<not> bit off n \<or> \<not> bit (3 :: 'a word) n" for n
      using k [of n] b three [of n] by (auto simp only: less_2_cases_iff)
  qed
  then have "(off + 3) AND NOT 3 = (off OR 3) AND NOT 3" by (simp only:)
  also have "\<dots> = off AND NOT 3" by (simp only: bit.conj_disj_distrib2 bit.conj_cancel_right bit.disj_zero_right)
  also have "\<dots> = off"
  proof (rule bit_word_eqI)
    fix n assume "n < LENGTH('a)"
    then show "bit (off AND NOT 3) n = bit off n"
      using k [of n] b three [of n] by (auto simp only: bit_and_iff bit_not_iff possible_bit_word less_2_cases_iff)
  qed
  finally show ?thesis .
qed

lemma pad4_aligned: "unat off mod 4 = 0 \<Longrightarrow> pad4 off = off"
  unfolding pad4_def by (rule align4_aligned) simp_all

lemma bootfs_end_loops:
  "bootfs_end m off = Some y \<Longrightarrow>
    \<not> (unat off mod 4 = 0 \<and> off < fl_size m \<and> (\<exists>b. mtd_read_exact m off 40 = Inr b \<and>
       node_magic (jffs2_node_at b) = JFFS2_MAGIC_BITMASK \<and> node_totlen (jffs2_node_at b) = 0))"
proof (erule bootfs_end.raw_induct [where P = "\<lambda>m off y.
    \<not> (unat off mod 4 = 0 \<and> off < fl_size m \<and> (\<exists>b. mtd_read_exact m off 40 = Inr b \<and>
       node_magic (jffs2_node_at b) = JFFS2_MAGIC_BITMASK \<and> node_totlen (jffs2_node_at b) = 0))", rotated], rule notI)
  fix g :: "mtd_flash \<Rightarrow> u64 \<Rightarrow> u64 option" and m off y
  assume IH: "\<And>m off y. g m off = Some y \<Longrightarrow> \<not> (unat off mod 4 = 0 \<and> off < fl_size m \<and>
      (\<exists>b. mtd_read_exact m off 40 = Inr b \<and> node_magic (jffs2_node_at b) = JFFS2_MAGIC_BITMASK \<and> node_totlen (jffs2_node_at b) = 0))"
    and step: "(case mtd_read_exact m off 40 of
        Inl _ \<Rightarrow> Some off
      | Inr b \<Rightarrow>
        let node = jffs2_node_at b
        in if node_magic node \<noteq> JFFS2_MAGIC_BITMASK then Some off
           else
             let offset = pad4 (off + ucast (node_totlen node))
             in if offset < fl_size m then g m offset else Some offset) = Some y"
    and h: "unat off mod 4 = 0 \<and> off < fl_size m \<and> (\<exists>b. mtd_read_exact m off 40 = Inr b \<and>
       node_magic (jffs2_node_at b) = JFFS2_MAGIC_BITMASK \<and> node_totlen (jffs2_node_at b) = 0)"
  then obtain b where b: "mtd_read_exact m off 40 = Inr b" "node_magic (jffs2_node_at b) = JFFS2_MAGIC_BITMASK"
    "node_totlen (jffs2_node_at b) = 0" by blast
  have "pad4 off = off" using h by (intro pad4_aligned) simp
  then have "g m off = Some y" using step b h by (simp add: Let_def)
  from IH [OF this] h show False by blast
qed

text \<open>
  A JFFS2 node with a total length of zero on a four-byte boundary stops the walk from moving on:
  the parser never comes back if there is one at the start of the device.
\<close>

lemma cfe_bootfs_endless:
  assumes "mtd_read_exact m 0 40 = Inr b" "node_magic (jffs2_node_at b) = JFFS2_MAGIC_BITMASK"
    "node_totlen (jffs2_node_at b) = 0" "fl_size m \<noteq> 0"
  shows "mtdsplit_cfe_bootfs_parse ''firmware'' m = None"
proof -
  have "bootfs_end m 0 = None"
  proof (rule ccontr)
    assume "bootfs_end m 0 \<noteq> None"
    then obtain y where "bootfs_end m 0 = Some y" by blast
    from bootfs_end_loops [OF this] show False using assms by (simp add: word_gt_0)
  qed
  then show ?thesis by (simp add: mtdsplit_cfe_bootfs_parse_def)
qed

lemma cfe_bootfs_endless_witness:
  "mtdsplit_cfe_bootfs_parse ''firmware'' (sample_flash (mem_of [(0, [0x85, 0x19])])) = None"
proof -
  let ?mem = "mem_of [(0, [0x85, 0x19])]"
  have "mtd_read_exact (sample_flash ?mem) 0 40 = Inr (map ?mem [0..<40])"
    by (simp add: sample_read del: mem_of.simps)
  moreover have "node_magic (jffs2_node_at (map ?mem [0..<40])) = JFFS2_MAGIC_BITMASK"
    "node_totlen (jffs2_node_at (map ?mem [0..<40])) = 0"
    by (simp_all add: jffs2_node_at_def le16_at_def le32_at_map JFFS2_MAGIC_BITMASK_def bytes_u32_def)
  ultimately show ?thesis by (rule cfe_bootfs_endless) simp
qed

text \<open>
  When the walk comes to an end, its result is not used: the root partition is the first root file
  system on an erase block boundary behind the first block.
\<close>

lemma cfe_bootfs_first_root:
  assumes "flash_ok m" "fl_kzalloc m" "bootfs_end m 0 \<noteq> None"
  shows "mtdsplit_cfe_bootfs_parse ''firmware'' m =
    Some (case List.find (has_rootfs m) (eb_offsets m (ucast (fl_erasesize m)) (fl_size m)) of
            None \<Rightarrow> Inl (- ENODEV)
          | Some off \<Rightarrow> Inr [rootfs_part ''bootfs'' 0 off,
              rootfs_part (rootfs_name (projr (mtd_check_rootfs_magic m off))) off (fl_size m - off)])"
  using assms by (auto simp: mtdsplit_cfe_bootfs_parse_def find_rootfs_eq kzalloc_then_def split: option.split)

end
