(* ===== verification/Mtdsplit_Wfi.thy ===== *)
theory Mtdsplit_Wfi
  imports Mtdsplit_Tables
begin

text \<open>
  The parsers of Broadcom whole flash images (\<open>mtdsplit_bcm_wfi.c\<close>): a CFE RAM loader and a
  kernel as files of a JFFS2, and a UBI behind them, in the whole device or in one half of it.

  Offsets of the type \<open>loff_t\<close> are of type \<open>int\<close>: no offset leaves the range of a signed
  64-bit number on a device as \<open>flash_ok\<close> describes it. The code reads a directory entry at any
  multiple of four in the buffer of one erase block, and so behind the end of the buffer;
  \<open>behind\<close> is what is there. \<open>crc32\<close> stands for the kernel's function, with its seed of zero.
\<close>

definition CFERAM_NAME :: bytes where "CFERAM_NAME = [0x63, 0x66, 0x65, 0x72, 0x61, 0x6d]"
definition CFERAM_NAME_MAX_LEN :: nat where "CFERAM_NAME_MAX_LEN = 32"
definition KERNEL_NAME :: bytes where
  "KERNEL_NAME = [0x76, 0x6d, 0x6c, 0x69, 0x6e, 0x75, 0x78, 0x2e, 0x6c, 0x7a]"
definition OPENWRT_NAME :: bytes where
  "OPENWRT_NAME = [0x31, 0x2d, 0x6f, 0x70, 0x65, 0x6e, 0x77, 0x72, 0x74]"
definition CFE_MAGIC_PFX :: bytes where "CFE_MAGIC_PFX = CFERAM_NAME @ [0x2e]"
definition CFE_MAGIC_LEN :: nat where "CFE_MAGIC_LEN = 10"
definition SERCOMM_MAGIC_PFX :: bytes where
  "SERCOMM_MAGIC_PFX = [0x65, 0x52, 0x63, 0x4f, 0x6d, 0x4d, 0x2e]"
definition UBI_MAGIC :: u32 where "UBI_MAGIC = 0x55424923"
definition JFFS2_NODETYPE_DIRENT :: u16 where "JFFS2_NODETYPE_DIRENT = 0xe001"
definition MTD_WRITEABLE :: u32 where "MTD_WRITEABLE = 0x400"

definition PART_CFERAM :: string where "PART_CFERAM = ''cferam''"
definition PART_FIRMWARE :: string where "PART_FIRMWARE = ''firmware''"
definition PART_IMAGE_1 :: string where "PART_IMAGE_1 = ''img1''"
definition PART_IMAGE_2 :: string where "PART_IMAGE_2 = ''img2''"

definition char_to_num :: "u8 \<Rightarrow> int" where
  "char_to_num c = (if 0x30 \<le> c \<and> c \<le> 0x39 then uint (c - 0x30) else 0)"

section \<open>Files of a JFFS2\<close>

definition byte_at :: "(nat \<Rightarrow> u8) \<Rightarrow> bytes \<Rightarrow> nat \<Rightarrow> u8" where
  "byte_at behind b i = (if i < length b then b ! i else behind (i - length b))"

text \<open>A directory entry with a name of up to 255 bytes.\<close>

definition node_at :: "(nat \<Rightarrow> u8) \<Rightarrow> bytes \<Rightarrow> nat \<Rightarrow> bytes" where
  "node_at behind buf off = map (\<lambda>i. byte_at behind buf (off + i)) [0..<295]"

definition node_name :: "bytes \<Rightarrow> bytes" where
  "node_name node = drop 40 node"

definition jffs2_dirent_crc :: "(bytes \<Rightarrow> u32) \<Rightarrow> bytes \<Rightarrow> u32" where
  "jffs2_dirent_crc crc32 node = crc32 (take 32 node)"

definition jffs2_dirent_valid :: "(bytes \<Rightarrow> u32) \<Rightarrow> bytes \<Rightarrow> bool" where
  "jffs2_dirent_valid crc32 node \<longleftrightarrow>
     le16_at node 0 = JFFS2_MAGIC_BITMASK \<and> le16_at node 2 = JFFS2_NODETYPE_DIRENT \<and>
     le32_at node 20 \<noteq> 0 \<and> le32_at node 32 = jffs2_dirent_crc crc32 node"

definition memcmp_eq :: "bytes \<Rightarrow> bytes \<Rightarrow> bool" where
  "memcmp_eq b name \<longleftrightarrow> take (length name) b = name"

text \<open>The walk over one block: it ends behind the block, at the file, or at the file without the marker before it.\<close>

datatype scan_result = Scan_End bool | Scan_Invalid | Scan_Found bytes

partial_function (option) jffs2_scan ::
  "(bytes \<Rightarrow> u32) \<Rightarrow> (nat \<Rightarrow> u8) \<Rightarrow> bytes \<Rightarrow> u32 \<Rightarrow> bytes \<Rightarrow> bool \<Rightarrow> u32 \<Rightarrow> scan_result option" where
  "jffs2_scan crc32 behind buf erasesize name valid block_offs =
     (if block_offs < erasesize
      then
        let node = node_at behind buf (unat block_offs);
            next = ((block_offs + le32_at node 4) + 3) AND NOT 3
        in if \<not> jffs2_dirent_valid crc32 node
           then jffs2_scan crc32 behind buf erasesize name valid (block_offs + 4)
           else if memcmp_eq (node_name node) OPENWRT_NAME
           then jffs2_scan crc32 behind buf erasesize name True next
           else if memcmp_eq (node_name node) name
           then Some (if valid then Scan_Found node else Scan_Invalid)
           else jffs2_scan crc32 behind buf erasesize name valid next
      else Some (Scan_End valid))"

partial_function (option) jffs2_find_from ::
  "mtd_flash \<Rightarrow> (bytes \<Rightarrow> u32) \<Rightarrow> (nat \<Rightarrow> u8) \<Rightarrow> bytes \<Rightarrow> int \<Rightarrow> bool \<Rightarrow> int \<Rightarrow> (int \<times> bytes) outcome" where
  "jffs2_find_from m crc32 behind name end_offs valid offs =
     (if offs < end_offs
      then case mtd_read_exact m (of_int offs) 2 of
             Inl _ \<Rightarrow> jffs2_find_from m crc32 behind name end_offs valid (offs + uint (fl_erasesize m))
           | Inr magic \<Rightarrow>
             if le16_at magic 0 \<noteq> JFFS2_MAGIC_BITMASK
             then jffs2_find_from m crc32 behind name end_offs valid (offs + uint (fl_erasesize m))
             else
               let (rc, buf) = fl_read m (of_int offs) (ucast (fl_erasesize m))
               in if rc \<noteq> 0 then Some (Inl rc)
                  else if length buf \<noteq> unat (fl_erasesize m) then fail EINVAL
                  else case jffs2_scan crc32 behind buf (fl_erasesize m) name valid 0 of
                         None \<Rightarrow> None
                       | Some (Scan_End valid) \<Rightarrow>
                         jffs2_find_from m crc32 behind name end_offs valid (offs + uint (fl_erasesize m))
                       | Some Scan_Invalid \<Rightarrow> fail EINVAL
                       | Some (Scan_Found node) \<Rightarrow> done_with (offs, node)
      else fail ENOENT)"

text \<open>The result is \<open>*offs\<close> and the directory entry.\<close>

definition jffs2_find_file ::
  "mtd_flash \<Rightarrow> (bytes \<Rightarrow> u32) \<Rightarrow> (nat \<Rightarrow> u8) \<Rightarrow> bytes \<Rightarrow> int \<Rightarrow> int \<Rightarrow> (int \<times> bytes) outcome" where
  "jffs2_find_file m crc32 behind name offs sz = jffs2_find_from m crc32 behind name (offs + sz) False offs"

partial_function (option) ubifs_find_from :: "mtd_flash \<Rightarrow> int \<Rightarrow> int \<Rightarrow> int outcome" where
  "ubifs_find_from m end_offs offs =
     (if offs < end_offs
      then case mtd_read_exact m (of_int offs) 4 of
             Inl _ \<Rightarrow> ubifs_find_from m end_offs (offs + uint (fl_erasesize m))
           | Inr magic \<Rightarrow>
             if be32_at magic 0 = UBI_MAGIC then done_with offs
             else ubifs_find_from m end_offs (offs + uint (fl_erasesize m))
      else fail ENOENT)"

definition ubifs_find :: "mtd_flash \<Rightarrow> int \<Rightarrow> int \<Rightarrow> int outcome" where
  "ubifs_find m offs sz = ubifs_find_from m (offs + sz) offs"

section \<open>One image\<close>

text \<open>The properties \<open>brcm,cferam\<close> and \<open>brcm,no-cferam\<close> of the device's node.\<close>

record wfi_dt =
  dt_cferam :: "bytes option"
  dt_no_cferam :: bool

text \<open>A character less of the name is compared than it has.\<close>

definition cferam_prefix :: "wfi_dt option \<Rightarrow> bytes" where
  "cferam_prefix dt =
     (let name = (case dt of None \<Rightarrow> CFERAM_NAME
                  | Some d \<Rightarrow> (case dt_cferam d of None \<Rightarrow> CFERAM_NAME | Some n \<Rightarrow> n));
          len = min (length name) CFERAM_NAME_MAX_LEN;
          len = (if len > 0 then len - 1 else len)
      in take len name)"

definition wfi_part :: "string \<Rightarrow> u32 \<Rightarrow> int \<Rightarrow> int \<Rightarrow> mtd_partition" where
  "wfi_part name mask_flags off sz =
     \<lparr>part_name = name, part_offset = of_int off, part_size = of_int sz, part_mask_flags = mask_flags\<rparr>"

definition parse_bcm_wfi ::
  "mtd_flash \<Rightarrow> wfi_dt option \<Rightarrow> (bytes \<Rightarrow> u32) \<Rightarrow> (nat \<Rightarrow> u8) \<Rightarrow> int \<Rightarrow> int \<Rightarrow> bool \<Rightarrow> mtd_partition list outcome" where
  "parse_bcm_wfi m dt crc32 behind off sz cfe_part =
     andthen
       (if cfe_part
        then andthen (jffs2_find_file m crc32 behind (cferam_prefix dt) off sz) (\<lambda>(cfe_off, _).
          done_with (Some cfe_off, cfe_off + uint (fl_erasesize m)))
        else done_with (None, off)) (\<lambda>(cfe, kernel_off).
     andthen (jffs2_find_file m crc32 behind KERNEL_NAME kernel_off (sz - (kernel_off - off))) (\<lambda>(kernel_off, _).
       let rootfs_off = kernel_off + uint (fl_erasesize m)
       in andthen (ubifs_find m rootfs_off (sz - (rootfs_off - off))) (\<lambda>rootfs_off.
            kzalloc_then m (done_with
              ((case cfe of None \<Rightarrow> []
                | Some cfe_off \<Rightarrow> [wfi_part PART_CFERAM MTD_WRITEABLE cfe_off (kernel_off - cfe_off)]) @
               [wfi_part PART_FIRMWARE 0 kernel_off (sz - (kernel_off - off)),
                wfi_part KERNEL_PART_NAME 0 kernel_off (rootfs_off - kernel_off),
                wfi_part UBI_PART_NAME 0 rootfs_off (sz - (rootfs_off - off))])))))"

definition mtdsplit_parse_bcm_wfi ::
  "mtd_flash \<Rightarrow> wfi_dt option \<Rightarrow> (bytes \<Rightarrow> u32) \<Rightarrow> (nat \<Rightarrow> u8) \<Rightarrow> mtd_partition list outcome" where
  "mtdsplit_parse_bcm_wfi m dt crc32 behind =
     (case dt of
        None \<Rightarrow> fail EINVAL
      | Some d \<Rightarrow>
        kzalloc_then m
          (parse_bcm_wfi m dt crc32 behind 0 (uint (fl_size m)) (\<not> dt_no_cferam d)))"

section \<open>Two images\<close>

text \<open>The bytes of a string made by \<open>kstrndup\<close>, with the zero at its end.\<close>

definition kstrndup :: "bytes \<Rightarrow> nat \<Rightarrow> bytes" where
  "kstrndup b n = takeWhile (\<lambda>c. c \<noteq> 0) (take n b) @ [0]"

definition bootflag_digits :: "(nat \<Rightarrow> u8) \<Rightarrow> bytes \<Rightarrow> int" where
  "bootflag_digits behind b =
     char_to_num (byte_at behind b 7) * 100 + char_to_num (byte_at behind b 8) * 10 +
     char_to_num (byte_at behind b 9) * 1"

definition cferam_bootflag_value :: "(nat \<Rightarrow> u8) \<Rightarrow> bytes option \<Rightarrow> nat \<Rightarrow> int" where
  "cferam_bootflag_value behind name name_len =
     (case name of
        None \<Rightarrow> - ENOENT
      | Some n \<Rightarrow>
        if name_len \<ge> CFE_MAGIC_LEN \<and> memcmp_eq n CFE_MAGIC_PFX then bootflag_digits behind n
        else - ENOENT)"

text \<open>The flag of the image in one half, from the name of its loader; \<open>None\<close> if the search does not end.\<close>

definition image_bootflag ::
  "mtd_flash \<Rightarrow> (bytes \<Rightarrow> u32) \<Rightarrow> (nat \<Rightarrow> u8) \<Rightarrow> int \<Rightarrow> int \<Rightarrow> int option" where
  "image_bootflag m crc32 behind off sz =
     (case jffs2_find_file m crc32 behind CFERAM_NAME off sz of
        None \<Rightarrow> None
      | Some (Inl _) \<Rightarrow> Some (cferam_bootflag_value behind None 0)
      | Some (Inr (_, node)) \<Rightarrow>
        (let nsize = unat (node ! 28)
         in Some (cferam_bootflag_value behind (Some (kstrndup (node_name node) nsize)) nsize)))"

text \<open>What both parsers of two images end with: the return value, and \<open>*pparts\<close> if it is set.\<close>

definition split_images ::
  "mtd_flash \<Rightarrow> wfi_dt option \<Rightarrow> (bytes \<Rightarrow> u32) \<Rightarrow> (nat \<Rightarrow> u8) \<Rightarrow> int \<Rightarrow> int \<Rightarrow> bool \<Rightarrow>
    (int \<times> mtd_partition list option) option" where
  "split_images m dt crc32 behind bf1 bf2 cfe_part =
     (let img1_off = 0; img2_off = uint (fl_size m div 2);
          img1_size = img2_off - img1_off; img2_size = uint (fl_size m) - img2_off;
          (active_off, active_size, inactive) =
            (if bf1 \<ge> bf2 then (img1_off, img1_size, wfi_part PART_IMAGE_2 0 img2_off img2_size)
             else (img2_off, img2_size, wfi_part PART_IMAGE_1 0 img1_off img1_size))
      in case parse_bcm_wfi m dt crc32 behind active_off active_size cfe_part of
           None \<Rightarrow> None
         | Some (Inr parts) \<Rightarrow>
           (let parts = parts @ [inactive] in Some (int (length parts), Some parts))
         | Some (Inl ret) \<Rightarrow>
           Some (ret, Some [wfi_part PART_IMAGE_1 0 img1_off img1_size, wfi_part PART_IMAGE_2 0 img2_off img2_size]))"

definition mtdsplit_parse_bcm_wfi_split ::
  "mtd_flash \<Rightarrow> wfi_dt option \<Rightarrow> (bytes \<Rightarrow> u32) \<Rightarrow> (nat \<Rightarrow> u8) \<Rightarrow> (int \<times> mtd_partition list option) option" where
  "mtdsplit_parse_bcm_wfi_split m dt crc32 behind =
     (let img1_off = 0; img2_off = uint (fl_size m div 2);
          img1_size = img2_off - img1_off; img2_size = uint (fl_size m) - img2_off
      in if \<not> fl_kzalloc m then Some (- ENOMEM, None)
         else case image_bootflag m crc32 behind img1_off img1_size of
                None \<Rightarrow> None
              | Some bf1 \<Rightarrow>
                (case image_bootflag m crc32 behind img2_off img2_size of
                   None \<Rightarrow> None
                 | Some bf2 \<Rightarrow> split_images m dt crc32 behind bf1 bf2 True))"

text \<open>Sercomm devices have the flags on devices of their own.\<close>

partial_function (option) sercomm_bootflag_from :: "mtd_flash \<Rightarrow> (nat \<Rightarrow> u8) \<Rightarrow> int \<Rightarrow> int option" where
  "sercomm_bootflag_from m behind offs =
     (if offs < uint (fl_size m)
      then case mtd_read_exact m (of_int offs) 10 of
             Inl _ \<Rightarrow> sercomm_bootflag_from m behind (offs + uint (fl_erasesize m))
           | Inr buf \<Rightarrow>
             if \<not> memcmp_eq buf SERCOMM_MAGIC_PFX
             then sercomm_bootflag_from m behind (offs + uint (fl_erasesize m))
             else Some (bootflag_digits behind buf)
      else Some (- ENOENT))"

definition sercomm_bootflag_value :: "mtd_flash \<Rightarrow> (nat \<Rightarrow> u8) \<Rightarrow> int option" where
  "sercomm_bootflag_value m behind = sercomm_bootflag_from m behind 0"

text \<open>The last component of the result says whether the second flag's device is erased.\<close>

definition mtdsplit_parse_ser_wfi ::
  "mtd_flash \<Rightarrow> mtd_flash option \<Rightarrow> mtd_flash option \<Rightarrow> wfi_dt option \<Rightarrow> (bytes \<Rightarrow> u32) \<Rightarrow> (nat \<Rightarrow> u8) \<Rightarrow>
    ((int \<times> mtd_partition list option) \<times> bool) option" where
  "mtdsplit_parse_ser_wfi m mtd_bf1 mtd_bf2 dt crc32 behind =
     (case mtd_bf1 of
        None \<Rightarrow> Some ((- ENOENT, None), False)
      | Some d1 \<Rightarrow>
        (case mtd_bf2 of
           None \<Rightarrow> Some ((- ENOENT, None), False)
         | Some d2 \<Rightarrow>
           if \<not> fl_kzalloc m then Some ((- ENOMEM, None), False)
           else case sercomm_bootflag_value d1 behind of
             None \<Rightarrow> None
           | Some bf1 \<Rightarrow>
             (case sercomm_bootflag_value d2 behind of
                None \<Rightarrow> None
              | Some bf2 \<Rightarrow>
                (let erase = (bf1 = bf2 \<and> bf2 \<ge> 0);
                     bf2 = (if erase then - ENOENT else bf2)
                 in case split_images m dt crc32 behind bf1 bf2 False of
                      None \<Rightarrow> None
                    | Some r \<Rightarrow> Some (r, erase)))))"

section \<open>The search for files\<close>

text \<open>What every search keeps: the offset is that of a whole number of blocks behind the start.\<close>

definition block_from :: "mtd_flash \<Rightarrow> int \<Rightarrow> int \<Rightarrow> int \<Rightarrow> bool" where
  "block_from m start end_offs o1 \<longleftrightarrow> start \<le> o1 \<and> o1 < end_offs \<and> uint (fl_erasesize m) dvd o1 - start"

lemma block_from_step: "block_from m (start + uint (fl_erasesize m)) e o1 \<Longrightarrow> block_from m start e o1"
proof -
  assume b: "block_from m (start + uint (fl_erasesize m)) e o1"
  have "uint (fl_erasesize m) dvd (o1 - (start + uint (fl_erasesize m))) + uint (fl_erasesize m)"
    using b unfolding block_from_def by (intro dvd_add) simp_all
  moreover have "(0 :: int) \<le> uint (fl_erasesize m)" by simp
  ultimately show ?thesis using b by (auto simp: block_from_def algebra_simps)
qed

lemma block_from_start: "start < e \<Longrightarrow> block_from m start e start"
  by (simp add: block_from_def)

lemma block_from_trans:
  "block_from m start e o1 \<Longrightarrow> block_from m (o1 + uint (fl_erasesize m)) e o2 \<Longrightarrow> block_from m start e o2"
proof -
  assume a: "block_from m start e o1" and b: "block_from m (o1 + uint (fl_erasesize m)) e o2"
  have "uint (fl_erasesize m) dvd (o1 - start) + (o2 - o1)"
    using a block_from_step [OF b] unfolding block_from_def by (intro dvd_add) simp_all
  moreover have "start \<le> o2" "o2 < e" using a block_from_step [OF b] by (simp_all add: block_from_def)
  ultimately show ?thesis by (simp add: block_from_def)
qed

lemma ubifs_find_from_result:
  assumes "ubifs_find_from m e offs = Some r" "r = Inr o1"
  shows "block_from m offs e o1 \<and> (\<exists>b. mtd_read_exact m (of_int o1) 4 = Inr b \<and> be32_at b 0 = UBI_MAGIC)"
proof -
  have "ubifs_find_from m e offs = Some r \<Longrightarrow> \<forall>o1. r = Inr o1 \<longrightarrow> block_from m offs e o1 \<and>
      (\<exists>b. mtd_read_exact m (of_int o1) 4 = Inr b \<and> be32_at b 0 = UBI_MAGIC)"
  proof (erule ubifs_find_from.raw_induct [where P = "\<lambda>m e offs r. \<forall>o1. r = Inr o1 \<longrightarrow> block_from m offs e o1 \<and>
      (\<exists>b. mtd_read_exact m (of_int o1) 4 = Inr b \<and> be32_at b 0 = UBI_MAGIC)", rotated])
    fix g :: "mtd_flash \<Rightarrow> int \<Rightarrow> int \<Rightarrow> int outcome" and m e offs r
    assume "\<And>m e offs r. g m e offs = Some r \<Longrightarrow> \<forall>o1. r = Inr o1 \<longrightarrow> block_from m offs e o1 \<and>
        (\<exists>b. mtd_read_exact m (of_int o1) 4 = Inr b \<and> be32_at b 0 = UBI_MAGIC)"
      and "(if offs < e
        then case mtd_read_exact m (of_int offs) 4 of
               Inl _ \<Rightarrow> g m e (offs + uint (fl_erasesize m))
             | Inr magic \<Rightarrow> if be32_at magic 0 = UBI_MAGIC then done_with offs else g m e (offs + uint (fl_erasesize m))
        else fail ENOENT) = Some r"
    then show "\<forall>o1. r = Inr o1 \<longrightarrow> block_from m offs e o1 \<and>
        (\<exists>b. mtd_read_exact m (of_int o1) 4 = Inr b \<and> be32_at b 0 = UBI_MAGIC)"
      by (auto split: if_splits sum.splits intro: block_from_step block_from_start)
  qed
  then show ?thesis using assms by blast
qed

lemma erasesize_pos: "flash_ok m \<Longrightarrow> 0 < uint (fl_erasesize m)"
proof -
  assume "flash_ok m"
  then have "0 < unat (fl_erasesize m)" by (simp add: flash_ok_def unat_gt_0)
  then show ?thesis by (simp only: uint_nat of_nat_0_less_iff)
qed

lemma size_small: "flash_ok m \<Longrightarrow> uint (fl_size m) < 2 ^ 63"
proof -
  assume "flash_ok m"
  then have "unat (fl_size m) < 2 ^ 63" by (simp add: flash_ok_def)
  then have "int (unat (fl_size m)) < int (2 ^ 63)" by (simp only: of_nat_less_iff)
  then show ?thesis by (simp only: uint_nat of_nat_power of_nat_numeral)
qed

lemma ubifs_find_returns:
  assumes ok: "flash_ok m"
  shows "returns (ubifs_find_from m e offs)"
proof (induction "nat (e - offs)" arbitrary: offs rule: less_induct)
  case less
  show ?case
  proof (cases "offs < e")
    case True
    have "0 < uint (fl_erasesize m)" by (rule erasesize_pos [OF ok])
    then have "nat (e - (offs + uint (fl_erasesize m))) < nat (e - offs)" using True by simp
    from less.hyps [OF this] True show ?thesis
      by (simp add: ubifs_find_from.simps [of m e offs] split: sum.split)
  qed (simp add: ubifs_find_from.simps [of m e offs])
qed

lemma jffs2_find_from_result:
  assumes "jffs2_find_from m crc32 behind name e valid offs = Some (Inr (o1, node))"
  shows "block_from m offs e o1"
proof -
  have "jffs2_find_from m crc32 behind name e valid offs = Some r \<Longrightarrow>
      \<forall>o1 node. r = Inr (o1, node) \<longrightarrow> block_from m offs e o1" for r
  proof (erule jffs2_find_from.raw_induct [where P = "\<lambda>m crc32 behind name e valid offs r.
      \<forall>o1 node. r = Inr (o1, node) \<longrightarrow> block_from m offs e o1", rotated])
    fix g :: "mtd_flash \<Rightarrow> (bytes \<Rightarrow> u32) \<Rightarrow> (nat \<Rightarrow> u8) \<Rightarrow> bytes \<Rightarrow> int \<Rightarrow> bool \<Rightarrow> int \<Rightarrow> (int \<times> bytes) outcome"
      and m crc32 behind name e valid offs r
    assume "\<And>m crc32 behind name e valid offs r. g m crc32 behind name e valid offs = Some r \<Longrightarrow>
        \<forall>o1 node. r = Inr (o1, node) \<longrightarrow> block_from m offs e o1"
      and "(if offs < e
        then case mtd_read_exact m (of_int offs) 2 of
             Inl _ \<Rightarrow> g m crc32 behind name e valid (offs + uint (fl_erasesize m))
           | Inr magic \<Rightarrow>
             if le16_at magic 0 \<noteq> JFFS2_MAGIC_BITMASK
             then g m crc32 behind name e valid (offs + uint (fl_erasesize m))
             else
               let (rc, buf) = fl_read m (of_int offs) (ucast (fl_erasesize m))
               in if rc \<noteq> 0 then Some (Inl rc)
                  else if length buf \<noteq> unat (fl_erasesize m) then fail EINVAL
                  else case jffs2_scan crc32 behind buf (fl_erasesize m) name valid 0 of
                         None \<Rightarrow> None
                       | Some (Scan_End valid) \<Rightarrow> g m crc32 behind name e valid (offs + uint (fl_erasesize m))
                       | Some Scan_Invalid \<Rightarrow> fail EINVAL
                       | Some (Scan_Found node) \<Rightarrow> done_with (offs, node)
        else fail ENOENT) = Some r"
    then show "\<forall>o1 node. r = Inr (o1, node) \<longrightarrow> block_from m offs e o1"
      by (fastforce simp: Let_def split_beta split: if_splits sum.splits option.splits scan_result.splits
          intro: block_from_step block_from_start)
  qed
  then show ?thesis using assms by blast
qed

section \<open>The partitions of an image\<close>

lemma wfi_part_sels [simp]: "part_offset (wfi_part n f off sz) = of_int off" "part_size (wfi_part n f off sz) = of_int sz"
  by (simp_all add: wfi_part_def)

lemma unat_of_int: "0 \<le> i \<Longrightarrow> i < 2 ^ 63 \<Longrightarrow> unat (of_int i :: u64) = nat i"
proof -
  assume "0 \<le> i" "i < 2 ^ 63"
  then have "uint (of_int i :: u64) = i" by (simp add: uint_word_of_int_eq take_bit_int_eq_self)
  then show ?thesis by (simp only: unat_eq_nat_uint)
qed

lemma wfi_range:
  "0 \<le> off \<Longrightarrow> 0 \<le> sz \<Longrightarrow> off + sz < 2 ^ 63 \<Longrightarrow> part_range (wfi_part n f off sz) = {nat off..<nat (off + sz)}"
  by (simp add: part_range_def unat_of_int nat_add_distrib)

lemma jffs2_find_file_result:
  "jffs2_find_file m crc32 behind name offs s = done_with (o1, node) \<Longrightarrow> e = offs + s \<Longrightarrow> block_from m offs e o1"
  by (simp add: jffs2_find_file_def jffs2_find_from_result)

lemma ubifs_find_result: "ubifs_find m offs s = done_with o1 \<Longrightarrow> e = offs + s \<Longrightarrow> block_from m offs e o1"
  using ubifs_find_from_result by (fastforce simp: ubifs_find_def)

lemma parse_bcm_wfi_parts:
  assumes "parse_bcm_wfi m dt crc32 behind off sz cfe_part = done_with ps"
  obtains c k0 k r where
    "if cfe_part then block_from m off (off + sz) c \<and> k0 = c + uint (fl_erasesize m) else k0 = off"
    "block_from m k0 (off + sz) k" "block_from m (k + uint (fl_erasesize m)) (off + sz) r"
    "ps = (if cfe_part then [wfi_part PART_CFERAM MTD_WRITEABLE c (k - c)] else []) @
      [wfi_part PART_FIRMWARE 0 k (sz - (k - off)), wfi_part KERNEL_PART_NAME 0 k (r - k),
       wfi_part UBI_PART_NAME 0 r (sz - (r - off))]"
proof -
  obtain cfe k0 k r n where
    c: "(if cfe_part
         then andthen (jffs2_find_file m crc32 behind (cferam_prefix dt) off sz) (\<lambda>(cfe_off, _).
           done_with (Some cfe_off, cfe_off + uint (fl_erasesize m)))
         else done_with (None, off)) = done_with (cfe, k0)"
    and k: "jffs2_find_file m crc32 behind KERNEL_NAME k0 (sz - (k0 - off)) = done_with (k, n)"
    and r: "ubifs_find m (k + uint (fl_erasesize m)) (sz - (k + uint (fl_erasesize m) - off)) = done_with r"
    and ps: "ps = (case cfe of None \<Rightarrow> [] | Some c \<Rightarrow> [wfi_part PART_CFERAM MTD_WRITEABLE c (k - c)]) @
      [wfi_part PART_FIRMWARE 0 k (sz - (k - off)), wfi_part KERNEL_PART_NAME 0 k (r - k),
       wfi_part UBI_PART_NAME 0 r (sz - (r - off))]"
    using assms unfolding parse_bcm_wfi_def andthen_done [of _ _ ps] split_paired_Ex prod.case Let_def kzalloc_then_done
    by (elim exE conjE) (simp only: option.inject sum.inject)
  have b: "block_from m k0 (off + sz) k" by (rule jffs2_find_file_result [OF k]) simp
  have u: "block_from m (k + uint (fl_erasesize m)) (off + sz) r" by (rule ubifs_find_result [OF r]) simp
  show thesis
  proof (cases cfe_part)
    case True
    then obtain c0 n0 where "jffs2_find_file m crc32 behind (cferam_prefix dt) off sz = done_with (c0, n0)"
      and c1: "cfe = Some c0" "k0 = c0 + uint (fl_erasesize m)"
      using c by (auto simp: andthen_done)
    then have "block_from m off (off + sz) c0" by (intro jffs2_find_file_result) simp_all
    then show thesis using True c1 b u ps by (intro that [of c0 k0 k r]) simp_all
  next
    case False
    then show thesis using c b u ps by (intro that [of 0 k0 k r]) auto
  qed
qed


section \<open>Two images\<close>

lemma half_size: "0 \<le> uint (fl_size m div 2)" "uint (fl_size m div 2) \<le> uint (fl_size m)"
proof -
  have "uint (fl_size m div 2) = uint (fl_size m) div 2" by (simp add: uint_div)
  moreover have "0 \<le> uint (fl_size m)" by simp
  ultimately show "uint (fl_size m div 2) \<le> uint (fl_size m)" by presburger
qed simp


section \<open>A directory entry without a length\<close>

lemma jffs2_scan_loops:
  "jffs2_scan crc32 behind buf eb name valid off = Some y \<Longrightarrow>
    \<not> (unat off mod 4 = 0 \<and> off < eb \<and> jffs2_dirent_valid crc32 (node_at behind buf (unat off)) \<and>
       le32_at (node_at behind buf (unat off)) 4 = 0 \<and>
       (memcmp_eq (node_name (node_at behind buf (unat off))) OPENWRT_NAME \<or>
        \<not> memcmp_eq (node_name (node_at behind buf (unat off))) name))"
proof (erule jffs2_scan.raw_induct [where P = "\<lambda>crc32 behind buf eb name valid off y.
    \<not> (unat off mod 4 = 0 \<and> off < eb \<and> jffs2_dirent_valid crc32 (node_at behind buf (unat off)) \<and>
       le32_at (node_at behind buf (unat off)) 4 = 0 \<and>
       (memcmp_eq (node_name (node_at behind buf (unat off))) OPENWRT_NAME \<or>
        \<not> memcmp_eq (node_name (node_at behind buf (unat off))) name))", rotated], rule notI)
  fix g :: "(bytes \<Rightarrow> u32) \<Rightarrow> (nat \<Rightarrow> u8) \<Rightarrow> bytes \<Rightarrow> u32 \<Rightarrow> bytes \<Rightarrow> bool \<Rightarrow> u32 \<Rightarrow> scan_result option"
    and crc32 behind buf eb name valid off y
  assume IH: "\<And>crc32 behind buf eb name valid off y. g crc32 behind buf eb name valid off = Some y \<Longrightarrow>
     \<not> (unat off mod 4 = 0 \<and> off < eb \<and> jffs2_dirent_valid crc32 (node_at behind buf (unat off)) \<and>
       le32_at (node_at behind buf (unat off)) 4 = 0 \<and>
       (memcmp_eq (node_name (node_at behind buf (unat off))) OPENWRT_NAME \<or>
        \<not> memcmp_eq (node_name (node_at behind buf (unat off))) name))"
    and step: "(if off < eb
      then
        let node = node_at behind buf (unat off);
            next = ((off + le32_at node 4) + 3) AND NOT 3
        in if \<not> jffs2_dirent_valid crc32 node then g crc32 behind buf eb name valid (off + 4)
           else if memcmp_eq (node_name node) OPENWRT_NAME then g crc32 behind buf eb name True next
           else if memcmp_eq (node_name node) name then Some (if valid then Scan_Found node else Scan_Invalid)
           else g crc32 behind buf eb name valid next
      else Some (Scan_End valid)) = Some y"
    and h: "unat off mod 4 = 0 \<and> off < eb \<and> jffs2_dirent_valid crc32 (node_at behind buf (unat off)) \<and>
       le32_at (node_at behind buf (unat off)) 4 = 0 \<and>
       (memcmp_eq (node_name (node_at behind buf (unat off))) OPENWRT_NAME \<or>
        \<not> memcmp_eq (node_name (node_at behind buf (unat off))) name)"
  have p: "(off + 3) AND NOT 3 = off" using h by (intro align4_aligned) simp_all
  have "\<exists>v. g crc32 behind buf eb name v off = Some y"
    using step h unfolding Let_def by (simp only: p add_0_right if_True if_False not_not) (metis (full_types))
  then obtain v where "g crc32 behind buf eb name v off = Some y" ..
  from IH [OF this] h show False by blast
qed

text \<open>
  A valid directory entry with a total length of zero stops the walk over a block from moving on:
  the search does not come back if the first block begins with one that is not for the file.
\<close>

lemma find_file_endless:
  assumes "0 < sz" "mtd_read_exact m (of_int offs) 2 = Inr b" "le16_at b 0 = JFFS2_MAGIC_BITMASK"
    "fl_read m (of_int offs) (ucast (fl_erasesize m)) = (0, buf)" "length buf = unat (fl_erasesize m)"
    "fl_erasesize m \<noteq> 0" "jffs2_dirent_valid crc32 (node_at behind buf 0)" "le32_at (node_at behind buf 0) 4 = 0"
    "\<not> memcmp_eq (node_name (node_at behind buf 0)) name"
  shows "jffs2_find_file m crc32 behind name offs sz = None"
proof -
  have "jffs2_scan crc32 behind buf (fl_erasesize m) name False 0 = None"
  proof (rule ccontr)
    assume "jffs2_scan crc32 behind buf (fl_erasesize m) name False 0 \<noteq> None"
    then obtain y where "jffs2_scan crc32 behind buf (fl_erasesize m) name False 0 = Some y" by blast
    from jffs2_scan_loops [OF this] show False using assms(6-9) by (simp add: word_gt_0)
  qed
  then show ?thesis
    using assms(1-5) by (simp add: jffs2_find_file_def jffs2_find_from.simps [of m crc32 behind name _ _ offs])
qed

section \<open>A sample image\<close>

text \<open>
  In the first erase block the entries of the marker and of the kernel, and a UBI in the second; the
  checksum of every entry is zero.
\<close>

definition wfi_contents :: "(nat \<times> bytes) list" where
  "wfi_contents = [(0, [0x85, 0x19, 0x01, 0xe0, 52, 0, 0, 0]), (20, [1]), (40, OPENWRT_NAME),
     (52, [0x85, 0x19, 0x01, 0xe0, 52, 0, 0, 0]), (72, [1]), (92, KERNEL_NAME), (0x10000, [0x55, 0x42, 0x49, 0x23])]"

definition wfi_flash :: mtd_flash where
  "wfi_flash = sample_flash (mem_of wfi_contents)"

lemma sample_fl_read:
  "fl_read (sample_flash mem) 0 0x10000 = (0, map mem [0..<0x10000])"
  by (simp add: sample_flash_def)

lemma node_at_map: "off + 295 \<le> n \<Longrightarrow> node_at behind (map f [0..<n]) off = map (\<lambda>i. f (off + i)) [0..<295]"
  by (simp add: node_at_def byte_at_def)

lemma le16_at_map: "i + 2 \<le> n \<Longrightarrow> le16_at (map f [0..<n]) i = ucast (f i) OR push_bit 8 (ucast (f (i + 1)))"
  by (simp add: le16_at_def)

lemma memcmp_map:
  "length name \<le> 255 \<Longrightarrow> memcmp_eq (node_name (map f [0..<295])) name \<longleftrightarrow> map (\<lambda>i. f (40 + i)) [0..<length name] = name"
proof -
  assume n: "length name \<le> 255"
  have "drop 40 (map f [0..<295]) = map (\<lambda>i. f (40 + i)) [0..<255]"
    by (rule nth_equalityI) simp_all
  then show ?thesis using n by (simp add: memcmp_eq_def node_name_def take_map)
qed

lemma upts: "[0..<6] = [0, 1, 2, 3, 4, 5 :: nat]" "[0..<9] = [0, 1, 2, 3, 4, 5, 6, 7, 8 :: nat]"
  "[0..<10] = [0, 1, 2, 3, 4, 5, 6, 7, 8, 9 :: nat]"
  by (simp_all add: upt_rec)

lemma wfi_nodes:
  defines "n \<equiv> \<lambda>off. map (\<lambda>i. mem_of wfi_contents (off + i)) [0..<295]"
  shows "jffs2_dirent_valid (\<lambda>_. 0) (n 0)" "jffs2_dirent_valid (\<lambda>_. 0) (n 52)"
    "le32_at (n 0) 4 = 52" "memcmp_eq (node_name (n 0)) OPENWRT_NAME"
    "\<not> memcmp_eq (node_name (n 52)) OPENWRT_NAME" "memcmp_eq (node_name (n 52)) KERNEL_NAME"
    "\<not> memcmp_eq (node_name (n 0)) CFERAM_NAME"
proof -
  show "jffs2_dirent_valid (\<lambda>_. 0) (n 0)" "jffs2_dirent_valid (\<lambda>_. 0) (n 52)" "le32_at (n 0) 4 = 52"
    by (simp_all add: n_def jffs2_dirent_valid_def jffs2_dirent_crc_def le16_at_map le32_at_map wfi_contents_def
        OPENWRT_NAME_def KERNEL_NAME_def JFFS2_MAGIC_BITMASK_def JFFS2_NODETYPE_DIRENT_def bytes_u32_def)
  show "memcmp_eq (node_name (n 0)) OPENWRT_NAME" "\<not> memcmp_eq (node_name (n 52)) OPENWRT_NAME"
    "memcmp_eq (node_name (n 52)) KERNEL_NAME" "\<not> memcmp_eq (node_name (n 0)) CFERAM_NAME"
    unfolding n_def
    by (subst memcmp_map, simp add: OPENWRT_NAME_def KERNEL_NAME_def CFERAM_NAME_def,
      simp add: OPENWRT_NAME_def KERNEL_NAME_def CFERAM_NAME_def wfi_contents_def upts)+
qed

lemma wfi_kernel: "jffs2_scan (\<lambda>_. 0) behind (map (mem_of wfi_contents) [0..<0x10000]) 0x10000 KERNEL_NAME False 0
    = Some (Scan_Found (map (\<lambda>i. mem_of wfi_contents (52 + i)) [0..<295]))"
proof -
  let ?buf = "map (mem_of wfi_contents) [0..<0x10000]"
  have n: "node_at behind ?buf 0 = map (\<lambda>i. mem_of wfi_contents (0 + i)) [0..<295]"
    "node_at behind ?buf 52 = map (\<lambda>i. mem_of wfi_contents (52 + i)) [0..<295]"
    by (rule node_at_map; simp)+
  have "jffs2_scan (\<lambda>_. 0) behind ?buf 0x10000 KERNEL_NAME False 0 = jffs2_scan (\<lambda>_. 0) behind ?buf 0x10000 KERNEL_NAME True 52"
    by (subst jffs2_scan.simps) (simp add: n [simplified] wfi_nodes [simplified] Let_def del: mem_of.simps)
  also have "\<dots> = Some (Scan_Found (map (\<lambda>i. mem_of wfi_contents (52 + i)) [0..<295]))"
    by (subst jffs2_scan.simps) (simp add: n [simplified] wfi_nodes [simplified] Let_def del: mem_of.simps)
  finally show ?thesis .
qed

lemma wfi_parsed:
  assumes "0x10000 < sz"
  shows "parse_bcm_wfi wfi_flash None (\<lambda>_. 0) behind 0 sz False =
    done_with [wfi_part PART_FIRMWARE 0 0 sz, wfi_part KERNEL_PART_NAME 0 0 0x10000,
      wfi_part UBI_PART_NAME 0 0x10000 (sz - 0x10000)]"
proof -
  let ?buf = "map (mem_of wfi_contents) [0..<0x10000]"
  have sels: "fl_erasesize wfi_flash = 0x10000" "fl_kzalloc wfi_flash" "fl_read wfi_flash 0 0x10000 = (0, ?buf)"
    by (simp_all add: wfi_flash_def sample_fl_read)
  have r: "mtd_read_exact wfi_flash 0 2 = Inr (map (mem_of wfi_contents) [0..<2])"
    by (simp add: wfi_flash_def sample_read del: mem_of.simps)
  have mg: "le16_at (map (mem_of wfi_contents) [0..<2]) 0 = JFFS2_MAGIC_BITMASK"
    by (simp add: le16_at_map wfi_contents_def JFFS2_MAGIC_BITMASK_def)
  have "jffs2_find_file wfi_flash (\<lambda>_. 0) behind KERNEL_NAME 0 sz
      = done_with (0, map (\<lambda>i. mem_of wfi_contents (52 + i)) [0..<295])"
    using assms unfolding jffs2_find_file_def
    by (subst jffs2_find_from.simps) (simp add: sels r mg wfi_kernel del: mem_of.simps upt_rec)
  moreover have "ubifs_find wfi_flash 0x10000 (sz - 0x10000) = done_with 0x10000"
  proof -
    have "mtd_read_exact wfi_flash 0x10000 4 = Inr (map (\<lambda>i. mem_of wfi_contents (0x10000 + i)) [0..<4])"
      by (simp add: wfi_flash_def sample_read del: mem_of.simps)
    moreover have "be32_at (map (\<lambda>i. mem_of wfi_contents (0x10000 + i)) [0..<4]) 0 = UBI_MAGIC"
      by (simp add: be32_at_map wfi_contents_def OPENWRT_NAME_def KERNEL_NAME_def UBI_MAGIC_def bytes_u32_def)
    ultimately show ?thesis
      using assms unfolding ubifs_find_def by (subst ubifs_find_from.simps) simp
  qed
  ultimately show ?thesis
    using sels by (simp add: parse_bcm_wfi_def kzalloc_then_def)
qed



lemma find_file_endless_witness:
  "jffs2_find_file (sample_flash (mem_of [(0, [0x85, 0x19, 0x01, 0xe0]), (20, [1])])) (\<lambda>_. 0) (\<lambda>_. 0) KERNEL_NAME 0 0x40000 = None"
proof -
  define mem where "mem = mem_of [(0, [0x85, 0x19, 0x01, 0xe0]), (20, [1])]"
  let ?buf = "map mem [0..<0x10000]"
  have n: "node_at (\<lambda>_. 0) ?buf 0 = map (\<lambda>i. mem (0 + i)) [0..<295]" by (rule node_at_map) simp
  have "mtd_read_exact (sample_flash mem) (of_int 0) 2 = Inr (map mem [0..<2])" by (simp add: sample_read)
  moreover have "le16_at (map mem [0..<2]) 0 = JFFS2_MAGIC_BITMASK"
    by (simp add: le16_at_map mem_def JFFS2_MAGIC_BITMASK_def)
  moreover have "jffs2_dirent_valid (\<lambda>_. 0) (node_at (\<lambda>_. 0) ?buf 0)" "le32_at (node_at (\<lambda>_. 0) ?buf 0) 4 = 0"
    unfolding n by (simp_all add: jffs2_dirent_valid_def jffs2_dirent_crc_def le16_at_map le32_at_map mem_def
        JFFS2_MAGIC_BITMASK_def JFFS2_NODETYPE_DIRENT_def bytes_u32_def)
  moreover have "\<not> memcmp_eq (node_name (node_at (\<lambda>_. 0) ?buf 0)) KERNEL_NAME"
    unfolding n by (subst memcmp_map, simp add: KERNEL_NAME_def, simp add: KERNEL_NAME_def mem_def upts)
  ultimately have "jffs2_find_file (sample_flash mem) (\<lambda>_. 0) (\<lambda>_. 0) KERNEL_NAME 0 0x40000 = None"
    by (intro find_file_endless [where b = "map mem [0..<2]" and buf = ?buf]) (simp_all add: sample_fl_read)
  then show ?thesis by (simp only: mem_def)
qed

end
