(* ===== verification/Util_Mtd.thy ===== *)
theory Util_Mtd
  imports Prelude
begin

text \<open>
  The base of the \<open>mtd\<close> tool (\<open>package/system/mtd/src\<close>): its global variables, the calls of the
  kernel and the C library it relies on, and the primitives of \<open>mtd.c\<close> that open devices and test and
  erase blocks. Programs are functions of the state with the outcomes of a C program: a value,
  \<open>exit(1)\<close>, an access outside an allocation, or, as \<open>None\<close>, no return.

  A C \<open>int\<close> is an \<open>int\<close> here, and converted to \<open>size_t\<close> with \<open>of_int\<close>. C strings are lists of
  characters without the final zero.
\<close>

section \<open>Programs\<close>

datatype 'a outcome = Done 'a | Exit | Fault

record mtd_info_user =
  info_type :: u8
  info_size :: u32
  info_erasesize :: u32
  info_writesize :: u32

text \<open>What \<open>stat\<close> tells of a file.\<close>

record file_stat =
  st_mode :: u32
  st_size :: u64
  st_atime :: u32
  st_mtime :: u32
  st_ctime :: u32

text \<open>
  The calls of the kernel, on a state \<open>'k\<close> that the tool does not see. A read returns the bytes read,
  or the error number. \<open>k_mmap\<close> returns the mapped memory, and \<open>k_msync\<close> stores it. \<open>k_malloc\<close> returns memory with contents that are not specified, or a null pointer.
\<close>

record 'k kern =
  k_proc_mtd :: "'k \<Rightarrow> string list option \<times> 'k"
  k_open :: "string \<Rightarrow> 'k \<Rightarrow> int \<times> 'k"
  k_open_rd :: "string \<Rightarrow> 'k \<Rightarrow> int \<times> 'k"
  k_stat :: "string \<Rightarrow> 'k \<Rightarrow> file_stat option \<times> 'k"
  k_close :: "int \<Rightarrow> 'k \<Rightarrow> unit \<times> 'k"
  k_getinfo :: "int \<Rightarrow> 'k \<Rightarrow> mtd_info_user option \<times> 'k"
  k_getbadblock :: "int \<Rightarrow> int \<Rightarrow> 'k \<Rightarrow> int \<times> 'k"
  k_unlock :: "int \<Rightarrow> u32 \<Rightarrow> u32 \<Rightarrow> 'k \<Rightarrow> int \<times> 'k"
  k_erase :: "int \<Rightarrow> u32 \<Rightarrow> u32 \<Rightarrow> 'k \<Rightarrow> int \<times> 'k"
  k_pread :: "int \<Rightarrow> u64 \<Rightarrow> u64 \<Rightarrow> 'k \<Rightarrow> (int + bytes) \<times> 'k"
  k_pwrite :: "int \<Rightarrow> bytes \<Rightarrow> u64 \<Rightarrow> 'k \<Rightarrow> int \<times> 'k"
  k_read :: "int \<Rightarrow> u64 \<Rightarrow> 'k \<Rightarrow> (int + bytes) \<times> 'k"
  k_write :: "int \<Rightarrow> bytes \<Rightarrow> 'k \<Rightarrow> int \<times> 'k"
  k_lseek_set :: "int \<Rightarrow> int \<Rightarrow> 'k \<Rightarrow> unit \<times> 'k"
  k_lseek_cur :: "int \<Rightarrow> int \<Rightarrow> 'k \<Rightarrow> unit \<times> 'k"
  k_mmap :: "int \<Rightarrow> u64 \<Rightarrow> 'k \<Rightarrow> bytes option \<times> 'k"
  k_msync :: "int \<Rightarrow> bytes \<Rightarrow> 'k \<Rightarrow> unit \<times> 'k"
  k_malloc :: "u64 \<Rightarrow> 'k \<Rightarrow> bytes option \<times> 'k"

datatype mtd_image_format =
  MTD_IMAGE_FORMAT_UNKNOWN
| MTD_IMAGE_FORMAT_TRX
| MTD_IMAGE_FORMAT_SEAMA
| MTD_IMAGE_FORMAT_WRG
| MTD_IMAGE_FORMAT_WRGG03

text \<open>The state of the kernel, and the global variables of \<open>mtd.c\<close> and, from \<open>last_ino\<close> on, \<open>jffs2.c\<close>.\<close>

record 'k mtd_state =
  kst :: 'k
  mtdsize :: int
  erasesize :: int
  mtdtype :: int
  mtd_buf :: "bytes option"
  buflen :: int
  imageformat :: mtd_image_format
  no_erase :: bool
  jffs2file :: "string option"
  jffs2dir :: string
  jffs2_skip_bytes :: int
  tpl_uboot_args_part :: "string option"
  last_ino :: int
  last_version :: int
  jffs2_buf :: bytes
  jffs2_ofs :: int
  outfd :: int
  mtdofs :: int
  target_ino :: int

type_synonym ('k, 'a) prog = "'k mtd_state \<Rightarrow> ('a outcome \<times> 'k mtd_state) option"

definition ret :: "'a \<Rightarrow> 's \<Rightarrow> ('a outcome \<times> 's) option" where
  "ret a s = Some (Done a, s)"

definition exit1 :: "'s \<Rightarrow> ('a outcome \<times> 's) option" where
  "exit1 s = Some (Exit, s)"

definition fault :: "'s \<Rightarrow> ('a outcome \<times> 's) option" where
  "fault s = Some (Fault, s)"

definition bnd :: "('s \<Rightarrow> ('a outcome \<times> 's) option) \<Rightarrow> ('a \<Rightarrow> 's \<Rightarrow> ('b outcome \<times> 's) option) \<Rightarrow>
    's \<Rightarrow> ('b outcome \<times> 's) option" where
  "bnd m f s = Option.bind (m s) (\<lambda>(r, s). case r of Done a \<Rightarrow> f a s | Exit \<Rightarrow> Some (Exit, s) | Fault \<Rightarrow> Some (Fault, s))"

definition call :: "('k \<Rightarrow> 'a \<times> 'k) \<Rightarrow> ('k, 'a) prog" where
  "call f s = (let (a, k) = f (kst s) in Some (Done a, s\<lparr>kst := k\<rparr>))"

definition gets :: "('s \<Rightarrow> 'a) \<Rightarrow> 's \<Rightarrow> ('a outcome \<times> 's) option" where
  "gets f s = Some (Done (f s), s)"

definition puts :: "('s \<Rightarrow> 's) \<Rightarrow> 's \<Rightarrow> (unit outcome \<times> 's) option" where
  "puts f s = Some (Done (), f s)"

text \<open>Loops are \<open>partial_function (option)\<close>; these rules let their bodies be written with \<open>bnd\<close>.\<close>

lemma bnd_mono [partial_function_mono]:
  assumes "\<And>s. mono_option (\<lambda>f. B f s)" "\<And>a s. mono_option (\<lambda>f. C a f s)"
  shows "mono_option (\<lambda>f. bnd (B f) (\<lambda>a. C a f) s)"
  unfolding bnd_def
  apply (rule bind_mono)
   apply (rule assms)
  apply (simp only: split_beta)
  apply (rule monotoneI)
  subgoal for b x y
    using assms(2) by (cases "fst b") (auto simp: monotone_def flat_ord_def)
  done

lemma if_app_mono [partial_function_mono]:
  "mono_option (\<lambda>f. A f s) \<Longrightarrow> mono_option (\<lambda>f. B f s) \<Longrightarrow> mono_option (\<lambda>f. (if b then A f else B f) s)"
  by (cases b) simp_all

lemma option_app_mono [partial_function_mono]:
  "mono_option (\<lambda>f. A f s) \<Longrightarrow> (\<And>x. mono_option (\<lambda>f. C f x s)) \<Longrightarrow>
    mono_option (\<lambda>f. (case opt of None \<Rightarrow> A f | Some x \<Rightarrow> C f x) s)"
  by (cases opt) simp_all

lemma sum_app_mono [partial_function_mono]:
  "(\<And>x. mono_option (\<lambda>f. C f x s)) \<Longrightarrow> (\<And>y. mono_option (\<lambda>f. D f y s)) \<Longrightarrow>
    mono_option (\<lambda>f. (case sm of Inl x \<Rightarrow> C f x | Inr y \<Rightarrow> D f y) s)"
  by (cases sm) simp_all

lemma let_app_mono [partial_function_mono]:
  "mono_option (\<lambda>f. C f t s) \<Longrightarrow> mono_option (\<lambda>f. (let x = t in C f x) s)"
  by (simp add: Let_def)

text \<open>What a program does before and after a step.\<close>

lemma bnd_Done: "m s = Some (Done a, s') \<Longrightarrow> bnd m f s = f a s'"
  by (simp add: bnd_def)

lemma bnd_state [simp]:
  "bnd (gets g) f s = f (g s) s" "bnd (puts h) j s = j () (h s)"
  by (simp_all add: bnd_def gets_def puts_def)

lemma bnd_steps [simp]:
  "bnd (ret a) f = f a" "bnd exit1 g = exit1" "bnd fault h = fault"
  by (rule ext, simp add: bnd_def ret_def exit1_def fault_def)+

lemma bnd_call: "bnd (call g) f s = f (fst (g (kst s))) (s\<lparr>kst := snd (g (kst s))\<rparr>)"
  by (simp add: bnd_def call_def split_beta Let_def)

lemma bnd_eq_Done:
  "bnd m f s = Some (Done b, t) \<longleftrightarrow> (\<exists>a s'. m s = Some (Done a, s') \<and> f a s' = Some (Done b, t))"
proof (cases "m s")
  case (Some p)
  obtain r s' where "p = (r, s')" by (cases p)
  with Some show ?thesis by (cases r) (auto simp: bnd_def)
qed (simp add: bnd_def)

lemma bnd_assoc: "bnd (bnd m f) g s = bnd m (\<lambda>a. bnd (f a) g) s"
  by (cases "m s") (auto simp: bnd_def split: outcome.split)

lemma prog_simps [simp]:
  "ret a s = Some (Done b, t) \<longleftrightarrow> a = b \<and> s = t" "exit1 s \<noteq> Some (Done b, t)" "fault s \<noteq> Some (Done b, t)"
  "exit1 s \<noteq> None" "fault s \<noteq> None" "ret a s \<noteq> None"
  by (auto simp: ret_def exit1_def fault_def)

section \<open>Strings\<close>

fun strstr :: "string \<Rightarrow> string \<Rightarrow> bool" where
  "strstr [] needle = (needle = [])"
| "strstr (c # h) needle = (take (length needle) (c # h) = needle \<or> strstr h needle)"

fun scan_digits :: "string \<Rightarrow> int \<Rightarrow> int" where
  "scan_digits [] n = n"
| "scan_digits (c # h) n = (if c \<in> set ''0123456789'' then scan_digits h (10 * n + int (of_char c) - 48) else n)"

text \<open>\<open>sscanf(dev, "mtd%d:", &i)\<close> is 1 when a number follows \<open>mtd\<close>, whatever follows the number.\<close>

definition scan_mtd :: "string \<Rightarrow> int option" where
  "scan_mtd l =
     (if take 3 l \<noteq> ''mtd'' then None
      else let r = dropWhile (\<lambda>c. c \<in> set [CHR '' '', CHR 0x09, CHR 0x0A, CHR 0x0B, CHR 0x0C, CHR 0x0D]) (drop 3 l);
               sg = (if take 1 r = ''-'' then -1 else 1);
               d = (if take 1 r = ''-'' \<or> take 1 r = ''+'' then drop 1 r else r)
           in case d of [] \<Rightarrow> None
              | c # _ \<Rightarrow> if c \<in> set ''0123456789'' then Some (sg * scan_digits d 0) else None)"

fun show_nat :: "nat \<Rightarrow> string" where
  "show_nat n = (if n < 10 then [char_of (48 + n)] else show_nat (n div 10) @ [char_of (48 + n mod 10)])"

declare show_nat.simps [simp del]

definition show_int :: "int \<Rightarrow> string" where
  "show_int i = (if i < 0 then ''-'' @ show_nat (nat (- i)) else show_nat (nat i))"

section \<open>Devices\<close>

text \<open>\<open>mtd_open\<close>: the first line of \<open>/proc/mtd\<close> with the name in quotes, or the name as a path.\<close>

definition dev_line :: "string \<Rightarrow> string list \<Rightarrow> int option" where
  "dev_line mtd lines = (case find (\<lambda>l. scan_mtd l \<noteq> None \<and> strstr l (CHR 0x22 # mtd @ [CHR 0x22])) lines of
     None \<Rightarrow> None | Some l \<Rightarrow> scan_mtd l)"

definition mtd_open :: "'k kern \<Rightarrow> string \<Rightarrow> bool \<Rightarrow> ('k, int) prog" where
  "mtd_open K mtd block =
     bnd (call (k_proc_mtd K)) (\<lambda>fp.
     case (case fp of None \<Rightarrow> None | Some lines \<Rightarrow> dev_line mtd lines) of
       None \<Rightarrow> call (k_open K mtd)
     | Some i \<Rightarrow>
         let dev = ''/dev/mtd'' @ (if block then ''block'' else []) in
         bnd (call (k_open K (dev @ ''/'' @ show_int i))) (\<lambda>ret_fd.
         if ret_fd < 0 then call (k_open K (dev @ show_int i)) else ret ret_fd))"

definition mtd_check_open :: "'k kern \<Rightarrow> string \<Rightarrow> ('k, int) prog" where
  "mtd_check_open K mtd =
     bnd (mtd_open K mtd False) (\<lambda>fd.
     if fd < 0 then ret (-1) else
     bnd (call (k_getinfo K fd)) (\<lambda>info.
     case info of
       None \<Rightarrow> bnd (call (k_close K fd)) (\<lambda>_. ret (-1))
     | Some mtdInfo \<Rightarrow>
         bnd (puts (\<lambda>s. s\<lparr>mtdsize := sint (info_size mtdInfo), erasesize := sint (info_erasesize mtdInfo),
                mtdtype := uint (info_type mtdInfo)\<rparr>)) (\<lambda>_.
         ret fd)))"

definition MTD_NANDFLASH :: int where "MTD_NANDFLASH = 4"

definition mtd_block_is_bad :: "'k kern \<Rightarrow> int \<Rightarrow> int \<Rightarrow> ('k, int) prog" where
  "mtd_block_is_bad K fd offset =
     bnd (gets mtdtype) (\<lambda>t.
     if t = MTD_NANDFLASH then
       bnd (call (k_getbadblock K fd offset)) (\<lambda>r. if r < 0 then exit1 else ret r)
     else ret 0)"

definition mtd_erase_block :: "'k kern \<Rightarrow> int \<Rightarrow> int \<Rightarrow> ('k, int) prog" where
  "mtd_erase_block K fd offset =
     bnd (gets erasesize) (\<lambda>esz.
     bnd (call (k_unlock K fd (of_int offset) (of_int esz))) (\<lambda>_.
     bnd (call (k_erase K fd (of_int offset) (of_int esz))) (\<lambda>r.
     if r < 0 then ret (-1) else ret 0)))"

definition mtd_write_buffer :: "'k kern \<Rightarrow> int \<Rightarrow> bytes \<Rightarrow> int \<Rightarrow> int \<Rightarrow> ('k, int) prog" where
  "mtd_write_buffer K fd buf offset len =
     (if 0 \<le> len \<and> nat len \<le> length buf then
        bnd (call (k_lseek_set K fd offset)) (\<lambda>_.
        bnd (call (k_write K fd (take (nat len) buf))) (\<lambda>_.
        ret 0))
      else fault)"

section \<open>Memory\<close>

text \<open>Access to an allocation, with the number of bytes it has from the pointer on.\<close>

definition load :: "nat \<Rightarrow> nat \<Rightarrow> bytes \<Rightarrow> 's \<Rightarrow> (bytes outcome \<times> 's) option" where
  "load off n b = (if off + n \<le> length b then ret (buf_get off n b) else fault)"

definition store :: "nat \<Rightarrow> bytes \<Rightarrow> bytes \<Rightarrow> 's \<Rightarrow> (bytes outcome \<times> 's) option" where
  "store off xs b = (if off + length xs \<le> length b then ret (buf_put off xs b) else fault)"

text \<open>Big-endian fields, and the conversion of a \<open>size_t\<close> to \<open>int\<close>.\<close>

definition be32 :: "bytes \<Rightarrow> u32" where "be32 b = bytes_u32 (rev (take 4 b))"
definition be32_bytes :: "u32 \<Rightarrow> bytes" where "be32_bytes x = rev (u32_bytes x)"
definition be16 :: "bytes \<Rightarrow> u16" where "be16 b = push_bit 8 (ucast (b ! 0)) OR ucast (b ! 1)"
definition to_int :: "u64 \<Rightarrow> int" where "to_int x = sint (ucast x :: u32)"

end
