(* ===== verification/Util_Flash.thy ===== *)
theory Util_Flash
  imports Util_Mtd
begin

text \<open>
  Partial correctness of the programs of the \<open>mtd\<close> tool, the contract of a flash device towards them,
  and a simulated device that meets it.
\<close>

section \<open>Triples\<close>

text \<open>When \<open>m\<close> returns a value from a state with \<open>P\<close>, then \<open>Q\<close> holds of the value and the new state.\<close>

definition valid :: "('s \<Rightarrow> bool) \<Rightarrow> ('s \<Rightarrow> ('a outcome \<times> 's) option) \<Rightarrow> ('a \<Rightarrow> 's \<Rightarrow> bool) \<Rightarrow> bool" where
  "valid P m Q \<longleftrightarrow> (\<forall>s a t. P s \<longrightarrow> m s = Some (Done a, t) \<longrightarrow> Q a t)"

lemma validI: "(\<And>s a t. P s \<Longrightarrow> m s = Some (Done a, t) \<Longrightarrow> Q a t) \<Longrightarrow> valid P m Q"
  by (simp add: valid_def)

lemma validD: "valid P m Q \<Longrightarrow> P s \<Longrightarrow> m s = Some (Done a, t) \<Longrightarrow> Q a t"
  by (simp add: valid_def)

lemma valid_bnd: "valid P m R \<Longrightarrow> (\<And>a. valid (R a) (f a) Q) \<Longrightarrow> valid P (bnd m f) Q"
  unfolding valid_def by (metis bnd_eq_Done)

lemma valid_pre: "valid P m Q \<Longrightarrow> (\<And>s. P' s \<Longrightarrow> P s) \<Longrightarrow> valid P' m Q"
  by (auto simp: valid_def)

lemma valid_post: "valid P m Q \<Longrightarrow> (\<And>a s. Q a s \<Longrightarrow> Q' a s) \<Longrightarrow> valid P m Q'"
  by (auto simp: valid_def)

lemma valid_ret: "(\<And>s. P s \<Longrightarrow> Q a s) \<Longrightarrow> valid P (ret a) Q"
  by (auto simp: valid_def)

lemma valid_stop: "valid P exit1 Q" "valid P fault Q"
  by (simp_all add: valid_def)

lemma valid_gets: "(\<And>s. P s \<Longrightarrow> Q (f s) s) \<Longrightarrow> valid P (gets f) Q"
  by (auto simp: valid_def gets_def)

lemma valid_puts: "(\<And>s. P s \<Longrightarrow> Q () (f s)) \<Longrightarrow> valid P (puts f) Q"
  by (auto simp: valid_def puts_def)

lemma valid_call: "(\<And>s. P s \<Longrightarrow> Q (fst (f (kst s))) (s\<lparr>kst := snd (f (kst s))\<rparr>)) \<Longrightarrow> valid P (call f) Q"
  by (auto simp: valid_def call_def Let_def split: prod.splits) force

lemma valid_if: "(b \<Longrightarrow> valid P m Q) \<Longrightarrow> (\<not> b \<Longrightarrow> valid P n Q) \<Longrightarrow> valid P (if b then m else n) Q"
  by simp

lemma valid_load: "(\<And>s. P s \<Longrightarrow> off + n \<le> length b \<Longrightarrow> Q (buf_get off n b) s) \<Longrightarrow> valid P (load off n b) Q"
  by (auto simp: valid_def load_def)

lemma valid_store: "(\<And>s. P s \<Longrightarrow> off + length xs \<le> length b \<Longrightarrow> Q (buf_put off xs b) s) \<Longrightarrow> valid P (store off xs b) Q"
  by (auto simp: valid_def store_def)

lemma valid_option: "(opt = None \<Longrightarrow> valid P m Q) \<Longrightarrow> (\<And>x. opt = Some x \<Longrightarrow> valid P (f x) Q) \<Longrightarrow>
    valid P (case opt of None \<Rightarrow> m | Some x \<Rightarrow> f x) Q"
  by (cases opt) simp_all

lemma valid_sum: "(\<And>x. r = Inl x \<Longrightarrow> valid P (f x) Q) \<Longrightarrow> (\<And>x. r = Inr x \<Longrightarrow> valid P (g x) Q) \<Longrightarrow>
    valid P (case r of Inl x \<Rightarrow> f x | Inr x \<Rightarrow> g x) Q"
  by (cases r) simp_all

text \<open>A fact that does not depend on the state moves out of the precondition.\<close>

lemma valid_fact: "(A \<Longrightarrow> valid P m Q) \<Longrightarrow> valid (\<lambda>s. A \<and> P s) m Q" "(A \<Longrightarrow> valid P m Q) \<Longrightarrow> valid (\<lambda>s. P s \<and> A) m Q"
  by (auto simp: valid_def)

section \<open>The contract of a device\<close>

text \<open>
  The documented behaviour of an MTD device with the contents \<open>content\<close>: opening, asking and reading
  change nothing, a read returns what is there, at most as much as asked for; a successful erasure sets the range
  to \<open>0xff\<close>; a complete write to an erased range stores the data; \<open>malloc\<close> returns as
  much memory as asked for. Every call may fail. \<open>bad\<close> is the bad block table.
\<close>

locale flash_device =
  fixes K :: "'k kern" and info :: mtd_info_user and content :: "'k \<Rightarrow> bytes" and bad :: "int \<Rightarrow> bool"
  assumes proc_mtd: "content (snd (k_proc_mtd K k)) = content k"
    and open_path: "content (snd (k_open K p k)) = content k"
    and close_fd: "content (snd (k_close K fd k)) = content k"
    and getinfo: "content (snd (k_getinfo K fd k)) = content k" "fst (k_getinfo K fd k) = Some i \<Longrightarrow> i = info"
    and getbadblock: "content (snd (k_getbadblock K fd ofs k)) = content k"
      "0 \<le> fst (k_getbadblock K fd ofs k) \<Longrightarrow> (0 < fst (k_getbadblock K fd ofs k)) = bad ofs"
    and unlock: "content (snd (k_unlock K fd st len k)) = content k"
    and malloc: "content (snd (k_malloc K n k)) = content k" "fst (k_malloc K n k) = Some m \<Longrightarrow> length m = unat n"
    and pread: "content (snd (k_pread K fd n off k)) = content k"
      "fst (k_pread K fd n off k) = Inr b \<Longrightarrow> length b \<le> unat n \<and> b = buf_get (unat off) (length b) (content k)"
    and erase: "0 \<le> fst (k_erase K fd st len k) \<Longrightarrow> unat st + unat len \<le> length (content k) \<and>
       content (snd (k_erase K fd st len k)) = memset (unat st) 0xFF (unat len) (content k)"
    and pwrite: "fst (k_pwrite K fd b off k) = int (length b) \<Longrightarrow>
       buf_get (unat off) (length b) (content k) = replicate (length b) 0xFF \<Longrightarrow>
       content (snd (k_pwrite K fd b off k)) = buf_put (unat off) b (content k)"
    and content_size: "int (length (content k)) = uint (info_size info)" "uint (info_size info) < 2 ^ 31"

text \<open>The state with contents \<open>c\<close>; \<open>opened\<close> tells that the variables for the device are set.\<close>

definition dev :: "mtd_info_user \<Rightarrow> ('k \<Rightarrow> bytes) \<Rightarrow> bool \<Rightarrow> bytes \<Rightarrow> 'k mtd_state \<Rightarrow> bool" where
  "dev info content opened c s \<longleftrightarrow> content (kst s) = c \<and> (opened \<longrightarrow> mtdsize s = sint (info_size info) \<and>
     erasesize s = sint (info_erasesize info) \<and> mtdtype s = uint (info_type info))"

named_theorems dev_rules

context flash_device begin

abbreviation D :: "bool \<Rightarrow> bytes \<Rightarrow> 'k mtd_state \<Rightarrow> bool" where "D \<equiv> dev info content"

lemma dev_calls [dev_rules]:
  "valid (D v c) (call (k_proc_mtd K)) (\<lambda>_. D v c)"
  "valid (D v c) (call (k_open K p)) (\<lambda>_. D v c)"
  "valid (D v c) (call (k_close K fd)) (\<lambda>_. D v c)"
  "valid (D v c) (call (k_unlock K fd st len)) (\<lambda>_. D v c)"
  by (rule valid_call; simp add: dev_def proc_mtd open_path close_fd unlock)+

lemma dev_getinfo [dev_rules]:
  "valid (D v c) (call (k_getinfo K fd)) (\<lambda>r s. (\<forall>i. r = Some i \<longrightarrow> i = info) \<and> D v c s)"
  by (rule valid_call) (auto simp: dev_def getinfo)

lemma dev_malloc [dev_rules]:
  "valid (D v c) (call (k_malloc K n)) (\<lambda>r s. (\<forall>m. r = Some m \<longrightarrow> length m = unat n) \<and> D v c s)"
  by (rule valid_call) (auto simp: dev_def malloc)

lemma dev_pread [dev_rules]:
  "valid (D v c) (call (k_pread K fd n off)) (\<lambda>r s. (\<forall>b. r = Inr b \<longrightarrow> length b \<le> unat n \<and> b = buf_get (unat off) (length b) c) \<and> D v c s)"
  by (rule valid_call) (use pread in \<open>auto simp: dev_def\<close>)

lemma dev_open [dev_rules]: "valid (D v c) (mtd_open K mtd b) (\<lambda>_. D v c)"
  unfolding mtd_open_def Let_def
  by (intro valid_bnd [OF dev_calls(1)] valid_option valid_if valid_bnd [OF dev_calls(2)] dev_calls(2) valid_ret)

lemma dev_check_open [dev_rules]: "valid (D v c) (mtd_check_open K mtd) (\<lambda>fd. D (0 \<le> fd) c)"
  unfolding mtd_check_open_def Let_def
  apply (intro valid_bnd [OF dev_open] valid_if)
   apply (rule valid_ret, simp add: dev_def)
  apply (intro valid_bnd [OF dev_getinfo] valid_option)
   apply (intro valid_bnd [OF valid_pre [OF dev_calls(3)]] valid_ret)
  apply (auto simp: dev_def)[2]
  apply (intro valid_fact(1) valid_bnd [OF valid_puts] valid_ret)
  apply (auto simp: dev_def)
  done

lemma dev_block_is_bad [dev_rules]:
  "valid (D True c) (mtd_block_is_bad K fd off)
     (\<lambda>r s. (r \<noteq> 0) = (uint (info_type info) = MTD_NANDFLASH \<and> bad off) \<and> D True c s)"
  unfolding mtd_block_is_bad_def
  apply (intro valid_bnd [OF valid_gets [where Q = "\<lambda>t s. t = uint (info_type info) \<and> D True c s"]] valid_fact(1) valid_if)
    apply (simp add: dev_def)
   apply (rule valid_bnd [OF valid_call [where Q = "\<lambda>r s. (0 \<le> r \<longrightarrow> (0 < r) = bad off) \<and> D True c s"]])
    apply (use getbadblock in \<open>force simp: dev_def\<close>)
   apply (intro valid_fact(1) valid_if valid_stop)
   apply (auto intro!: valid_ret)
  done

lemma dev_erase_block [dev_rules]:
  "valid (D True c) (mtd_erase_block K fd off) (\<lambda>r s. r = 0 \<longrightarrow>
     unat (of_int off :: u32) + unat (info_erasesize info) \<le> length c \<and>
     D True (memset (unat (of_int off :: u32)) 0xFF (unat (info_erasesize info)) c) s)"
  unfolding mtd_erase_block_def
  apply (rule valid_bnd [OF valid_gets [where Q = "\<lambda>t s. t = sint (info_erasesize info) \<and> D True c s"]])
   apply (simp add: dev_def)
  apply (intro valid_fact(1) valid_bnd [OF dev_calls(4)])
  apply (rule valid_bnd [OF valid_call [where Q = "\<lambda>r s. 0 \<le> r \<longrightarrow>
     unat (of_int off :: u32) + unat (info_erasesize info) \<le> length c \<and>
     D True (memset (unat (of_int off :: u32)) 0xFF (unat (info_erasesize info)) c) s"]])
   apply (use erase in \<open>force simp: dev_def\<close>)
  apply (intro valid_if valid_ret)
   apply auto
  done

lemma length_dev: "D v c s \<Longrightarrow> length c < 2 ^ 31" "D v c s \<Longrightarrow> int (length c) = uint (info_size info)"
  using content_size(2) content_size(1) [of "kst s"] by (auto simp: dev_def)
end

section \<open>A simulated device\<close>

text \<open>
  A NAND chip of four blocks with 32 bytes, whose bad blocks are a parameter, and the file \<open>sim_in\<close> behind
  descriptor 0. Writing clears bits.
\<close>

record sim =
  sim_data :: bytes
  sim_pos :: int
  sim_in :: bytes

definition sim_info :: mtd_info_user where
  "sim_info = \<lparr>info_type = 4, info_size = 128, info_erasesize = 32, info_writesize = 1\<rparr>"

definition sim_content :: "sim \<Rightarrow> bytes" where
  "sim_content k = take 128 (sim_data k @ replicate 128 0xFF)"

definition sim_program :: "nat \<Rightarrow> bytes \<Rightarrow> sim \<Rightarrow> int \<times> sim" where
  "sim_program off b k =
     (if off + length b \<le> 128
      then (int (length b), k\<lparr>sim_data := buf_put off (map2 (AND) (buf_get off (length b) (sim_content k)) b) (sim_content k)\<rparr>)
      else (-1, k))"

definition sim_kern :: "(int \<Rightarrow> bool) \<Rightarrow> sim kern" where
  "sim_kern bad = \<lparr>
     k_proc_mtd = (\<lambda>k. (Some [''mtd5: 00000080 00000020 '' @ CHR 0x22 # ''firmware'' @ [CHR 0x22]], k)),
     k_open = (\<lambda>p k. (3, k)),
     k_open_rd = (\<lambda>p k. (0, k)),
     k_stat = (\<lambda>p k. (Some \<lparr>st_mode = 0x81A4, st_size = of_nat (length (sim_in k)), st_atime = 1, st_mtime = 2, st_ctime = 3\<rparr>, k)),
     k_close = (\<lambda>fd k. ((), k)),
     k_getinfo = (\<lambda>fd k. (Some sim_info, k)),
     k_getbadblock = (\<lambda>fd off k. (if bad off then 1 else 0, k)),
     k_unlock = (\<lambda>fd st len k. (0, k)),
     k_erase = (\<lambda>fd st len k. if unat st + unat len \<le> 128 \<and> \<not> bad (uint st)
        then (0, k\<lparr>sim_data := memset (unat st) 0xFF (unat len) (sim_content k)\<rparr>) else (-1, k)),
     k_pread = (\<lambda>fd n off k. (Inr (buf_get (unat off) (unat n) (sim_content k)), k)),
     k_pwrite = (\<lambda>fd b off k. sim_program (unat off) b k),
     k_read = (\<lambda>fd n k. if fd = 0 then (Inr (take (unat n) (sim_in k)), k\<lparr>sim_in := drop (unat n) (sim_in k)\<rparr>)
        else (let b = buf_get (nat (sim_pos k)) (unat n) (sim_content k) in (Inr b, k\<lparr>sim_pos := sim_pos k + int (length b)\<rparr>))),
     k_write = (\<lambda>fd b k. let (r, k) = sim_program (nat (sim_pos k)) b k in
        (r, if r < 0 then k else k\<lparr>sim_pos := sim_pos k + r\<rparr>)),
     k_lseek_set = (\<lambda>fd off k. ((), k\<lparr>sim_pos := off\<rparr>)),
     k_lseek_cur = (\<lambda>fd off k. ((), k\<lparr>sim_pos := sim_pos k + off\<rparr>)),
     k_mmap = (\<lambda>fd n k. (Some (buf_get 0 (unat n) (sim_content k)), k)),
     k_msync = (\<lambda>fd b k. ((), k\<lparr>sim_data := b\<rparr>)),
     k_malloc = (\<lambda>n k. (Some (replicate (unat n) 0xA5), k))\<rparr>"

definition sim_state :: "bytes \<Rightarrow> bytes \<Rightarrow> sim mtd_state" where
  "sim_state c img = \<lparr>kst = \<lparr>sim_data = c, sim_pos = 0, sim_in = img\<rparr>, mtdsize = 0, erasesize = 0, mtdtype = 0,
     mtd_buf = None, buflen = 0, imageformat = MTD_IMAGE_FORMAT_UNKNOWN, no_erase = False, jffs2file = None, jffs2dir = [],
     jffs2_skip_bytes = 0, tpl_uboot_args_part = None, last_ino = 0, last_version = 0, jffs2_buf = [], jffs2_ofs = 0,
     outfd = -1, mtdofs = 0, target_ino = 0\<rparr>"

lemma length_sim_content [simp]: "length (sim_content k) = 128"
  by (simp add: sim_content_def)

lemma sim_content_stored: "length b = 128 \<Longrightarrow> sim_content (k\<lparr>sim_data := b\<rparr>) = b"
  by (simp add: sim_content_def)

lemma and_erased: "map2 (AND) (replicate (length b) 0xFF) b = (b :: bytes)"
proof (induction b)
  case (Cons x b)
  have "(0xFF :: u8) = - 1" by simp
  then have "(0xFF :: u8) AND x = x" by (simp only: and.left_neutral)
  with Cons show ?case by simp
qed simp

interpretation sim: flash_device "sim_kern bad" sim_info sim_content bad for bad
proof
  fix fd b off k
  assume r: "fst (k_pwrite (sim_kern bad) fd b off k) = int (length b)"
    and e: "buf_get (unat off) (length b) (sim_content k) = replicate (length b) 0xFF"
  show "sim_content (snd (k_pwrite (sim_kern bad) fd b off k)) = buf_put (unat off) b (sim_content k)"
    using r by (auto simp: sim_kern_def sim_program_def e and_erased length_buf_put sim_content_stored split: if_splits)
qed (auto simp: sim_kern_def sim_info_def length_memset sim_content_stored buf_get_def min_def split: if_splits)


lemma sim_calls [simp]:
  "k_proc_mtd (sim_kern bad) = (\<lambda>k. (Some [''mtd5: 00000080 00000020 '' @ CHR 0x22 # ''firmware'' @ [CHR 0x22]], k))"
  "k_open (sim_kern bad) = (\<lambda>p k. (3, k))"
  "k_open_rd (sim_kern bad) = (\<lambda>p k. (0, k))"
  "k_stat (sim_kern bad) = (\<lambda>p k. (Some \<lparr>st_mode = 0x81A4, st_size = of_nat (length (sim_in k)), st_atime = 1, st_mtime = 2, st_ctime = 3\<rparr>, k))"
  "k_close (sim_kern bad) = (\<lambda>fd k. ((), k))"
  "k_getinfo (sim_kern bad) = (\<lambda>fd k. (Some sim_info, k))"
  "k_getbadblock (sim_kern bad) = (\<lambda>fd off k. (if bad off then 1 else 0, k))"
  "k_unlock (sim_kern bad) = (\<lambda>fd st len k. (0, k))"
  "k_erase (sim_kern bad) = (\<lambda>fd st len k. if unat st + unat len \<le> 128 \<and> \<not> bad (uint st)
        then (0, k\<lparr>sim_data := memset (unat st) 0xFF (unat len) (sim_content k)\<rparr>) else (-1, k))"
  "k_pread (sim_kern bad) = (\<lambda>fd n off k. (Inr (buf_get (unat off) (unat n) (sim_content k)), k))"
  "k_pwrite (sim_kern bad) = (\<lambda>fd b off k. sim_program (unat off) b k)"
  "k_read (sim_kern bad) = (\<lambda>fd n k. if fd = 0 then (Inr (take (unat n) (sim_in k)), k\<lparr>sim_in := drop (unat n) (sim_in k)\<rparr>)
        else (let b = buf_get (nat (sim_pos k)) (unat n) (sim_content k) in (Inr b, k\<lparr>sim_pos := sim_pos k + int (length b)\<rparr>)))"
  "k_write (sim_kern bad) = (\<lambda>fd b k. let (r, k) = sim_program (nat (sim_pos k)) b k in
        (r, if r < 0 then k else k\<lparr>sim_pos := sim_pos k + r\<rparr>))"
  "k_lseek_set (sim_kern bad) = (\<lambda>fd off k. ((), k\<lparr>sim_pos := off\<rparr>))"
  "k_lseek_cur (sim_kern bad) = (\<lambda>fd off k. ((), k\<lparr>sim_pos := sim_pos k + off\<rparr>))"
  "k_mmap (sim_kern bad) = (\<lambda>fd n k. (Some (buf_get 0 (unat n) (sim_content k)), k))"
  "k_msync (sim_kern bad) = (\<lambda>fd b k. ((), k\<lparr>sim_data := b\<rparr>))"
  "k_malloc (sim_kern bad) = (\<lambda>n k. (Some (replicate (unat n) 0xA5), k))"
  by (simp_all add: sim_kern_def)

lemma sim_open: "mtd_open (sim_kern bad) ''firmware'' b s = Some (Done 3, s)"
  by (simp add: mtd_open_def bnd_call call_def ret_def Let_def dev_line_def scan_mtd_def split: option.split)

lemma sim_check_open:
  "mtd_check_open (sim_kern bad) ''firmware'' s = Some (Done 3, s\<lparr>mtdsize := 128, erasesize := 32, mtdtype := 4\<rparr>)"
  unfolding mtd_check_open_def by (simp add: bnd_Done [OF sim_open] bnd_call sim_info_def ret_def)

end
