(* ===== verification/Md5.thy ===== *)
theory Md5
  imports Prelude
begin

text \<open>
  The MD5 of the mtd tool (\<open>package/system/mtd/src/md5.c\<close>), and that it computes the digest of
  RFC 1321: the unrolled rounds are the uniform 64 steps, the bit counter in two 32-bit words counts
  modulo \<open>2 ^ 64\<close>, and it does not matter into which pieces a message is divided.
\<close>

section \<open>The code\<close>

definition F :: "u32 \<Rightarrow> u32 \<Rightarrow> u32 \<Rightarrow> u32" where "F x y z = (x AND y) OR (NOT x AND z)"
definition G :: "u32 \<Rightarrow> u32 \<Rightarrow> u32 \<Rightarrow> u32" where "G x y z = (x AND z) OR (y AND NOT z)"
definition H :: "u32 \<Rightarrow> u32 \<Rightarrow> u32 \<Rightarrow> u32" where "H x y z = x XOR y XOR z"
definition I :: "u32 \<Rightarrow> u32 \<Rightarrow> u32 \<Rightarrow> u32" where "I x y z = y XOR (x OR NOT z)"

definition ROTATE_LEFT :: "u32 \<Rightarrow> nat \<Rightarrow> u32" where
  "ROTATE_LEFT x n = push_bit n x OR drop_bit (32 - n) x"

text \<open>The macros give the new value of their first argument.\<close>

definition FF :: "u32 \<Rightarrow> u32 \<Rightarrow> u32 \<Rightarrow> u32 \<Rightarrow> u32 \<Rightarrow> nat \<Rightarrow> u32 \<Rightarrow> u32" where
  "FF a b c d x s ac = ROTATE_LEFT (a + (F b c d + x + ac)) s + b"

definition GG :: "u32 \<Rightarrow> u32 \<Rightarrow> u32 \<Rightarrow> u32 \<Rightarrow> u32 \<Rightarrow> nat \<Rightarrow> u32 \<Rightarrow> u32" where
  "GG a b c d x s ac = ROTATE_LEFT (a + (G b c d + x + ac)) s + b"

definition HH :: "u32 \<Rightarrow> u32 \<Rightarrow> u32 \<Rightarrow> u32 \<Rightarrow> u32 \<Rightarrow> nat \<Rightarrow> u32 \<Rightarrow> u32" where
  "HH a b c d x s ac = ROTATE_LEFT (a + (H b c d + x + ac)) s + b"

definition II :: "u32 \<Rightarrow> u32 \<Rightarrow> u32 \<Rightarrow> u32 \<Rightarrow> u32 \<Rightarrow> nat \<Rightarrow> u32 \<Rightarrow> u32" where
  "II a b c d x s ac = ROTATE_LEFT (a + (I b c d + x + ac)) s + b"

type_synonym md5_state = "u32 \<times> u32 \<times> u32 \<times> u32"

text \<open>Four lines of \<open>Transform\<close>, which always update \<open>a\<close>, \<open>d\<close>, \<open>c\<close> and \<open>b\<close> in this order.\<close>

definition step4 ::
  "(u32 \<Rightarrow> u32 \<Rightarrow> u32 \<Rightarrow> u32 \<Rightarrow> u32 \<Rightarrow> nat \<Rightarrow> u32 \<Rightarrow> u32) \<Rightarrow> u32 list \<Rightarrow> nat \<times> nat \<times> nat \<times> nat \<Rightarrow>
    nat \<times> nat \<times> nat \<times> nat \<Rightarrow> u32 \<times> u32 \<times> u32 \<times> u32 \<Rightarrow> md5_state \<Rightarrow> md5_state" where
  "step4 op inp = (\<lambda>(i1, i2, i3, i4) (s1, s2, s3, s4) (k1, k2, k3, k4) (a, b, c, d).
     let a = op a b c d (inp ! i1) s1 k1;
         d = op d a b c (inp ! i2) s2 k2;
         c = op c d a b (inp ! i3) s3 k3;
         b = op b c d a (inp ! i4) s4 k4
     in (a, b, c, d))"

definition Transform :: "md5_state \<Rightarrow> u32 list \<Rightarrow> md5_state" where
  "Transform = (\<lambda>(b0, b1, b2, b3) inp.
     let s = (b0, b1, b2, b3);
          s = step4 FF inp (0, 1, 2, 3) (7, 12, 17, 22) (3614090360, 3905402710, 606105819, 3250441966) s;
          s = step4 FF inp (4, 5, 6, 7) (7, 12, 17, 22) (4118548399, 1200080426, 2821735955, 4249261313) s;
          s = step4 FF inp (8, 9, 10, 11) (7, 12, 17, 22) (1770035416, 2336552879, 4294925233, 2304563134) s;
          s = step4 FF inp (12, 13, 14, 15) (7, 12, 17, 22) (1804603682, 4254626195, 2792965006, 1236535329) s;
          s = step4 GG inp (1, 6, 11, 0) (5, 9, 14, 20) (4129170786, 3225465664, 643717713, 3921069994) s;
          s = step4 GG inp (5, 10, 15, 4) (5, 9, 14, 20) (3593408605, 38016083, 3634488961, 3889429448) s;
          s = step4 GG inp (9, 14, 3, 8) (5, 9, 14, 20) (568446438, 3275163606, 4107603335, 1163531501) s;
          s = step4 GG inp (13, 2, 7, 12) (5, 9, 14, 20) (2850285829, 4243563512, 1735328473, 2368359562) s;
          s = step4 HH inp (5, 8, 11, 14) (4, 11, 16, 23) (4294588738, 2272392833, 1839030562, 4259657740) s;
          s = step4 HH inp (1, 4, 7, 10) (4, 11, 16, 23) (2763975236, 1272893353, 4139469664, 3200236656) s;
          s = step4 HH inp (13, 0, 3, 6) (4, 11, 16, 23) (681279174, 3936430074, 3572445317, 76029189) s;
          s = step4 HH inp (9, 12, 15, 2) (4, 11, 16, 23) (3654602809, 3873151461, 530742520, 3299628645) s;
          s = step4 II inp (0, 7, 14, 5) (6, 10, 15, 21) (4096336452, 1126891415, 2878612391, 4237533241) s;
          s = step4 II inp (12, 3, 10, 1) (6, 10, 15, 21) (1700485571, 2399980690, 4293915773, 2240044497) s;
          s = step4 II inp (8, 15, 6, 13) (6, 10, 15, 21) (1873313359, 4264355552, 2734768916, 1309151649) s;
          s = step4 II inp (4, 11, 2, 9) (6, 10, 15, 21) (4149444226, 3174756917, 718787259, 3951481745) s;
          (a, b, c, d) = s
     in (b0 + a, b1 + b, b2 + c, b3 + d))"

record md5_ctx =
  ctx_i0 :: u32
  ctx_i1 :: u32
  ctx_buf :: md5_state
  ctx_in :: bytes
  ctx_digest :: bytes

definition MD5_Init :: "md5_ctx \<Rightarrow> md5_ctx" where
  "MD5_Init mdContext = mdContext\<lparr>ctx_i0 := 0, ctx_i1 := 0,
     ctx_buf := (0x67452301, 0xefcdab89, 0x98badcfe, 0x10325476)\<rparr>"

text \<open>The words of the input buffer, the first byte being the least significant.\<close>

definition in_word :: "bytes \<Rightarrow> nat \<Rightarrow> u32" where
  "in_word b ii = push_bit 24 (ucast (b ! (ii + 3))) OR push_bit 16 (ucast (b ! (ii + 2))) OR
     push_bit 8 (ucast (b ! (ii + 1))) OR ucast (b ! ii)"

definition in_words :: "bytes \<Rightarrow> nat \<Rightarrow> u32 list" where
  "in_words b n = map (\<lambda>i. in_word b (4 * i)) [0..<n]"

fun update_bytes :: "bytes \<Rightarrow> nat \<Rightarrow> md5_ctx \<Rightarrow> md5_ctx" where
  "update_bytes [] mdi ctx = ctx"
| "update_bytes (c # rest) mdi ctx =
     (let ctx = ctx\<lparr>ctx_in := (ctx_in ctx)[mdi := c]\<rparr>;
          mdi = mdi + 1
      in if mdi = 0x40
         then update_bytes rest 0 (ctx\<lparr>ctx_buf := Transform (ctx_buf ctx) (in_words (ctx_in ctx) 16)\<rparr>)
         else update_bytes rest mdi ctx)"

definition ctx_mdi :: "md5_ctx \<Rightarrow> nat" where
  "ctx_mdi ctx = unat (drop_bit 3 (ctx_i0 ctx) AND 0x3F)"

definition MD5_Update :: "md5_ctx \<Rightarrow> bytes \<Rightarrow> u32 \<Rightarrow> md5_ctx" where
  "MD5_Update mdContext inBuf inLen =
     (let mdi = ctx_mdi mdContext;
          ctx = (if ctx_i0 mdContext + push_bit 3 inLen < ctx_i0 mdContext
                 then mdContext\<lparr>ctx_i1 := ctx_i1 mdContext + 1\<rparr> else mdContext);
          ctx = ctx\<lparr>ctx_i0 := ctx_i0 ctx + push_bit 3 inLen\<rparr>;
          ctx = ctx\<lparr>ctx_i1 := ctx_i1 ctx + drop_bit 29 inLen\<rparr>
      in update_bytes (take (unat inLen) inBuf) mdi ctx)"

definition PADDING :: bytes where
  "PADDING = 0x80 # replicate 63 0"

definition MD5_Final :: "md5_ctx \<Rightarrow> bytes \<times> md5_ctx" where
  "MD5_Final mdContext =
     (let in14 = ctx_i0 mdContext; in15 = ctx_i1 mdContext;
          mdi = ctx_mdi mdContext;
          padLen = (if mdi < 56 then 56 - mdi else 120 - mdi);
          ctx = MD5_Update mdContext PADDING (of_nat padLen);
          ctx = ctx\<lparr>ctx_buf := Transform (ctx_buf ctx) (in_words (ctx_in ctx) 14 @ [in14, in15])\<rparr>;
          (a, b, c, d) = ctx_buf ctx;
          ctx = ctx\<lparr>ctx_digest := u32_bytes a @ u32_bytes b @ u32_bytes c @ u32_bytes d\<rparr>
      in (ctx_digest ctx, ctx))"

section \<open>The reference\<close>

text \<open>
  RFC 1321 in its uniform form: step \<open>i\<close> of 64 uses a function, a word of the block, a shift and a
  constant that depend on \<open>i\<close>, and moves the four registers on by one.
\<close>

definition md5_fun :: "nat \<Rightarrow> u32 \<Rightarrow> u32 \<Rightarrow> u32 \<Rightarrow> u32" where
  "md5_fun i = (if i < 16 then F else if i < 32 then G else if i < 48 then H else I)"

definition md5_index :: "nat \<Rightarrow> nat" where
  "md5_index i = (if i < 16 then i else if i < 32 then (5 * i + 1) mod 16
     else if i < 48 then (3 * i + 5) mod 16 else (7 * i) mod 16)"

definition md5_shift :: "nat \<Rightarrow> nat" where
  "md5_shift i = (if i < 16 then [7, 12, 17, 22] else if i < 32 then [5, 9, 14, 20]
     else if i < 48 then [4, 11, 16, 23] else [6, 10, 15, 21]) ! (i mod 4)"

definition md5_const :: "u32 list" where
  "md5_const = [
   3614090360, 3905402710, 606105819, 3250441966, 4118548399, 1200080426,
   2821735955, 4249261313, 1770035416, 2336552879, 4294925233, 2304563134,
   1804603682, 4254626195, 2792965006, 1236535329, 4129170786, 3225465664,
   643717713, 3921069994, 3593408605, 38016083, 3634488961, 3889429448,
   568446438, 3275163606, 4107603335, 1163531501, 2850285829, 4243563512,
   1735328473, 2368359562, 4294588738, 2272392833, 1839030562, 4259657740,
   2763975236, 1272893353, 4139469664, 3200236656, 681279174, 3936430074,
   3572445317, 76029189, 3654602809, 3873151461, 530742520, 3299628645,
   4096336452, 1126891415, 2878612391, 4237533241, 1700485571, 2399980690,
   4293915773, 2240044497, 1873313359, 4264355552, 2734768916, 1309151649,
   4149444226, 3174756917, 718787259, 3951481745]"

definition md5_step :: "u32 list \<Rightarrow> md5_state \<Rightarrow> nat \<Rightarrow> md5_state" where
  "md5_step X = (\<lambda>(a, b, c, d) i.
     (d, b + word_rotl (md5_shift i) (a + md5_fun i b c d + X ! md5_index i + md5_const ! i), b, c))"

definition md5_block :: "md5_state \<Rightarrow> u32 list \<Rightarrow> md5_state" where
  "md5_block h X =
     (let (a, b, c, d) = h; (a', b', c', d') = foldl (md5_step X) h [0..<64]
      in (a + a', b + b', c + c', d + d'))"

definition md5_start :: md5_state where
  "md5_start = (0x67452301, 0xefcdab89, 0x98badcfe, 0x10325476)"

definition block_words :: "bytes \<Rightarrow> nat \<Rightarrow> u32 list" where
  "block_words m j = map (\<lambda>i. bytes_u32 (drop (64 * j + 4 * i) m)) [0..<16]"

definition md5_chain :: "bytes \<Rightarrow> md5_state" where
  "md5_chain m = foldl md5_block md5_start (map (block_words m) [0..<length m div 64])"

text \<open>The message with a bit, zeros up to 56 modulo 64, and its length in bits.\<close>

definition md5_pad :: "bytes \<Rightarrow> bytes" where
  "md5_pad m = m @ 0x80 # replicate ((119 - length m mod 64) mod 64) 0 @ u64_bytes (of_nat (8 * length m))"

definition md5 :: "bytes \<Rightarrow> bytes" where
  "md5 m = (let (a, b, c, d) = md5_chain (md5_pad m) in u32_bytes a @ u32_bytes b @ u32_bytes c @ u32_bytes d)"

section \<open>The rounds\<close>

lemma ROTATE_LEFT_rotl:
  assumes "0 < n" "n < 32"
  shows "ROTATE_LEFT x n = word_rotl n x"
proof (rule bit_word_eqI)
  fix k assume k: "k < LENGTH(32)"
  show "bit (ROTATE_LEFT x n) k = bit (word_rotl n x) k"
  proof (cases "k < n")
    case True
    then have "(k + (32 - n)) mod 32 = 32 - n + k" using assms by simp
    then show ?thesis using True k assms by (simp add: ROTATE_LEFT_def bit_simps bit_word_rotl_iff del: diff_add_assoc2)
  next
    case False
    then have "(k + (32 - n)) mod 32 = k - n" using assms k by (simp add: mod_if)
    moreover have "\<not> bit x (32 - n + k)" using False assms by (auto dest: bit_imp_le_length)
    ultimately show ?thesis using False k assms by (simp add: ROTATE_LEFT_def bit_simps bit_word_rotl_iff)
  qed
qed

text \<open>Four lines of the code are four uniform steps.\<close>

lemma step4_steps:
  assumes "md5_fun i1 = f" "md5_fun i2 = f" "md5_fun i3 = f" "md5_fun i4 = f"
    and "md5_index i1 = g1" "md5_index i2 = g2" "md5_index i3 = g3" "md5_index i4 = g4"
    and "md5_shift i1 = s1" "md5_shift i2 = s2" "md5_shift i3 = s3" "md5_shift i4 = s4"
    and "md5_const ! i1 = k1" "md5_const ! i2 = k2" "md5_const ! i3 = k3" "md5_const ! i4 = k4"
    and "0 < s1" "s1 < 32" "0 < s2" "s2 < 32" "0 < s3" "s3 < 32" "0 < s4" "s4 < 32"
  shows "step4 (\<lambda>a b c d x s ac. ROTATE_LEFT (a + (f b c d + x + ac)) s + b) X (g1, g2, g3, g4) (s1, s2, s3, s4) (k1, k2, k3, k4) s
    = foldl (md5_step X) s [i1, i2, i3, i4]"
  using assms by (cases s) (simp add: step4_def md5_step_def Let_def ROTATE_LEFT_rotl add.assoc add.commute add.left_commute)

lemma macros:
  "FF = (\<lambda>a b c d x s ac. ROTATE_LEFT (a + (F b c d + x + ac)) s + b)"
  "GG = (\<lambda>a b c d x s ac. ROTATE_LEFT (a + (G b c d + x + ac)) s + b)"
  "HH = (\<lambda>a b c d x s ac. ROTATE_LEFT (a + (H b c d + x + ac)) s + b)"
  "II = (\<lambda>a b c d x s ac. ROTATE_LEFT (a + (I b c d + x + ac)) s + b)"
  by (intro ext, simp add: FF_def GG_def HH_def II_def)+

lemma step4_table:
  "step4 FF X (0, 1, 2, 3) (7, 12, 17, 22) (3614090360, 3905402710, 606105819, 3250441966) s = foldl (md5_step X) s [0, 1, 2, 3]"
  "step4 FF X (4, 5, 6, 7) (7, 12, 17, 22) (4118548399, 1200080426, 2821735955, 4249261313) s = foldl (md5_step X) s [4, 5, 6, 7]"
  "step4 FF X (8, 9, 10, 11) (7, 12, 17, 22) (1770035416, 2336552879, 4294925233, 2304563134) s = foldl (md5_step X) s [8, 9, 10, 11]"
  "step4 FF X (12, 13, 14, 15) (7, 12, 17, 22) (1804603682, 4254626195, 2792965006, 1236535329) s = foldl (md5_step X) s [12, 13, 14, 15]"
  "step4 GG X (1, 6, 11, 0) (5, 9, 14, 20) (4129170786, 3225465664, 643717713, 3921069994) s = foldl (md5_step X) s [16, 17, 18, 19]"
  "step4 GG X (5, 10, 15, 4) (5, 9, 14, 20) (3593408605, 38016083, 3634488961, 3889429448) s = foldl (md5_step X) s [20, 21, 22, 23]"
  "step4 GG X (9, 14, 3, 8) (5, 9, 14, 20) (568446438, 3275163606, 4107603335, 1163531501) s = foldl (md5_step X) s [24, 25, 26, 27]"
  "step4 GG X (13, 2, 7, 12) (5, 9, 14, 20) (2850285829, 4243563512, 1735328473, 2368359562) s = foldl (md5_step X) s [28, 29, 30, 31]"
  "step4 HH X (5, 8, 11, 14) (4, 11, 16, 23) (4294588738, 2272392833, 1839030562, 4259657740) s = foldl (md5_step X) s [32, 33, 34, 35]"
  "step4 HH X (1, 4, 7, 10) (4, 11, 16, 23) (2763975236, 1272893353, 4139469664, 3200236656) s = foldl (md5_step X) s [36, 37, 38, 39]"
  "step4 HH X (13, 0, 3, 6) (4, 11, 16, 23) (681279174, 3936430074, 3572445317, 76029189) s = foldl (md5_step X) s [40, 41, 42, 43]"
  "step4 HH X (9, 12, 15, 2) (4, 11, 16, 23) (3654602809, 3873151461, 530742520, 3299628645) s = foldl (md5_step X) s [44, 45, 46, 47]"
  "step4 II X (0, 7, 14, 5) (6, 10, 15, 21) (4096336452, 1126891415, 2878612391, 4237533241) s = foldl (md5_step X) s [48, 49, 50, 51]"
  "step4 II X (12, 3, 10, 1) (6, 10, 15, 21) (1700485571, 2399980690, 4293915773, 2240044497) s = foldl (md5_step X) s [52, 53, 54, 55]"
  "step4 II X (8, 15, 6, 13) (6, 10, 15, 21) (1873313359, 4264355552, 2734768916, 1309151649) s = foldl (md5_step X) s [56, 57, 58, 59]"
  "step4 II X (4, 11, 2, 9) (6, 10, 15, 21) (4149444226, 3174756917, 718787259, 3951481745) s = foldl (md5_step X) s [60, 61, 62, 63]"
  unfolding macros
  by (rule step4_steps; simp add: md5_fun_def md5_index_def md5_shift_def md5_const_def)+

lemma Transform_block: "Transform h X = md5_block h X"
proof -
  have u: "[0..<64] = [0, 1, 2, 3] @ [4, 5, 6, 7] @ [8, 9, 10, 11] @ [12, 13, 14, 15] @ [16, 17, 18, 19] @ [20, 21, 22, 23] @
      [24, 25, 26, 27] @ [28, 29, 30, 31] @ [32, 33, 34, 35] @ [36, 37, 38, 39] @ [40, 41, 42, 43] @ [44, 45, 46, 47] @
      [48, 49, 50, 51] @ [52, 53, 54, 55] @ [56, 57, 58, 59] @ [60, 61, 62, 63 :: nat]"
    by (simp add: upt_rec)
  obtain a b c d where h: "h = (a, b, c, d)" by (cases h)
  show ?thesis
    unfolding Transform_def md5_block_def h u foldl_append step4_table Let_def prod.case by (rule refl)
qed

section \<open>Absorbing bytes\<close>

lemma in_word_le: "in_word b ii = bytes_u32 (drop ii b)" if "ii + 4 \<le> length b"
  using that by (simp add: in_word_def bytes_u32_def or.assoc or.commute or.left_commute add.commute)

lemma in_words_block:
  assumes "length b = 64" "b = take 64 (drop (64 * j) m)"
  shows "in_words b 16 = block_words m j"
proof (unfold in_words_def block_words_def, rule map_cong [OF refl])
  fix i assume "i \<in> set [0..<16 :: nat]"
  then have i: "i < 16" by simp
  have len: "64 * j + 64 \<le> length m" using assms by (auto simp: min_def split: if_splits)
  have "bytes_u32 (drop (4 * i) b) = bytes_u32 (drop (64 * j + 4 * i) m)"
    using i len by (intro bytes_u32_cong) (auto simp: assms(2) drop_take min_def add.commute)
  then show "in_word b (4 * i) = bytes_u32 (drop (64 * j + 4 * i) m)"
    using i assms(1) by (simp add: in_word_le)
qed

text \<open>The context after the bytes \<open>m\<close>, apart from the bit counter.\<close>

definition holds :: "md5_ctx \<Rightarrow> bytes \<Rightarrow> bool" where
  "holds ctx m \<longleftrightarrow> ctx_buf ctx = md5_chain m \<and> length (ctx_in ctx) = 64 \<and>
     take (length m mod 64) (ctx_in ctx) = drop (64 * (length m div 64)) m"

lemma block_words_append: "64 * j + 64 \<le> length m \<Longrightarrow> block_words (m @ r) j = block_words m j"
proof -
  assume len: "64 * j + 64 \<le> length m"
  show ?thesis
    unfolding block_words_def
  proof (rule map_cong [OF refl])
    fix i assume "i \<in> set [0..<16 :: nat]"
    then have "i < 16" by simp
    then show "bytes_u32 (drop (64 * j + 4 * i) (m @ r)) = bytes_u32 (drop (64 * j + 4 * i) m)"
      using len by (intro bytes_u32_cong) simp_all
  qed
qed

lemma md5_chain_last:
  assumes "length (m @ r) = 64 * Suc (length m div 64)"
  shows "md5_chain (m @ r) = md5_block (md5_chain m) (block_words (m @ r) (length m div 64))"
proof -
  have l: "length (m @ r) div 64 = Suc (length m div 64)" unfolding assms by (rule nonzero_mult_div_cancel_left) simp
  have "map (block_words (m @ r)) [0..<length m div 64] = map (block_words m) [0..<length m div 64]"
    by (intro map_cong refl) (simp add: block_words_append)
  then show ?thesis unfolding md5_chain_def l by (simp del: map_eq_conv)
qed

lemma holds_byte:
  assumes h: "holds ctx m"
  shows "Suc (length m mod 64) < 64 \<Longrightarrow> holds (ctx\<lparr>ctx_in := (ctx_in ctx)[length m mod 64 := c]\<rparr>) (m @ [c])"
    "Suc (length m mod 64) = 64 \<Longrightarrow> holds (ctx\<lparr>ctx_in := (ctx_in ctx)[length m mod 64 := c],
       ctx_buf := Transform (ctx_buf ctx) (in_words ((ctx_in ctx)[length m mod 64 := c]) 16)\<rparr>) (m @ [c])"
proof -
  let ?r = "length m mod 64" and ?q = "length m div 64" and ?b = "(ctx_in ctx)[length m mod 64 := c]"
  have len: "length (ctx_in ctx) = 64" and tk: "take ?r (ctx_in ctx) = drop (64 * ?q) m"
    and buf: "ctx_buf ctx = md5_chain m" using h by (simp_all add: holds_def)
  have qr: "length m = 64 * ?q + ?r" by simp
  have b: "take (Suc ?r) ?b = drop (64 * ?q) (m @ [c])"
    using len tk by (simp add: take_Suc_conv_app_nth)
  have same: "md5_chain (m @ [c]) = md5_chain m" if "Suc ?r < 64"
  proof -
    have q: "length (m @ [c]) div 64 = ?q" using that by (simp add: div_Suc mod_Suc)
    show ?thesis unfolding md5_chain_def q by (intro arg_cong2 [of _ _ _ _ "foldl md5_block"] map_cong refl) (simp add: block_words_append)
  qed
  show "holds (ctx\<lparr>ctx_in := ?b\<rparr>) (m @ [c])" if "Suc ?r < 64"
  proof -
    have "length (m @ [c]) mod 64 = Suc ?r" "length (m @ [c]) div 64 = ?q" using that by (simp_all add: div_Suc mod_Suc)
    then show ?thesis using same [OF that] b len buf by (simp add: holds_def)
  qed
  show "holds (ctx\<lparr>ctx_in := ?b, ctx_buf := Transform (ctx_buf ctx) (in_words ?b 16)\<rparr>) (m @ [c])" if r: "Suc ?r = 64"
  proof -
    have q: "length (m @ [c]) = 64 * Suc ?q" using r qr by simp
    have "length (drop (64 * ?q) (m @ [c])) = 64" using q by simp
    then have "take 64 (drop (64 * ?q) (m @ [c])) = drop (64 * ?q) (m @ [c])" by (simp only: take_all order_refl)
    also have "\<dots> = take 64 ?b" by (simp only: b [symmetric] r)
    also have "\<dots> = ?b" using len by simp
    finally have eq: "?b = take 64 (drop (64 * ?q) (m @ [c]))" by (rule sym)
    have "length ?b = 64" using len by (simp only: length_list_update)
    then have w: "in_words ?b 16 = block_words (m @ [c]) ?q" using eq by (rule in_words_block)
    have "md5_chain (m @ [c]) = md5_block (md5_chain m) (block_words (m @ [c]) ?q)"
      using q by (rule md5_chain_last)
    moreover have "length (m @ [c]) mod 64 = 0" unfolding q by (rule mod_mult_self1_is_0)
    ultimately show ?thesis using q len buf w by (simp add: holds_def Transform_block del: length_append)
  qed
qed

lemma update_bytes_holds:
  "holds ctx m \<Longrightarrow> mdi = length m mod 64 \<Longrightarrow> holds (update_bytes b mdi ctx) (m @ b)"
proof (induction b arbitrary: m mdi ctx)
  case Nil
  then show ?case by simp
next
  case (Cons c rest)
  let ?r = "length m mod 64" and ?b = "(ctx_in ctx)[length m mod 64 := c]"
  have "?r < 64" by simp
  then consider "Suc ?r < 64" | "Suc ?r = 64" by linarith
  then show ?case
  proof cases
    case 1
    then have "length (m @ [c]) mod 64 = Suc ?r" by (simp add: mod_Suc)
    then show ?thesis
      using Cons.IH [OF holds_byte(1) [OF Cons.prems(1) 1], of "Suc ?r"] 1 Cons.prems(2) by (simp add: Let_def)
  next
    case 2
    then have "length (m @ [c]) mod 64 = 0" by (simp add: mod_Suc)
    then show ?thesis
      using Cons.IH [OF holds_byte(2) [OF Cons.prems(1) 2], of 0] 2 Cons.prems(2) by (simp add: Let_def)
  qed
qed

lemma update_bytes_counter:
  "ctx_i0 (update_bytes b mdi ctx) = ctx_i0 ctx" "ctx_i1 (update_bytes b mdi ctx) = ctx_i1 ctx"
  by (induction b arbitrary: mdi ctx) (simp_all add: Let_def)

section \<open>The bit counter\<close>

definition counts :: "md5_ctx \<Rightarrow> nat \<Rightarrow> bool" where
  "counts ctx n \<longleftrightarrow> unat (ctx_i0 ctx) + 2 ^ 32 * unat (ctx_i1 ctx) = 8 * n mod 2 ^ 64"

lemma counts_mdi: "counts ctx n \<Longrightarrow> ctx_mdi ctx = n mod 64"
proof -
  assume c: "counts ctx n"
  have "unat (ctx_i0 ctx) < 2 ^ 32" by (rule u32_less_2p32)
  then have "unat (ctx_i0 ctx) = (unat (ctx_i0 ctx) + 2 ^ 32 * unat (ctx_i1 ctx)) mod 2 ^ 32"
    by (simp only: mod_mult_self2 mod_less)
  also have "\<dots> = (8 * n mod 2 ^ 64) mod 2 ^ 32" using c by (simp only: counts_def)
  also have "\<dots> = 8 * n mod 2 ^ 32" by (simp add: mod_mod_cancel)
  finally have i0: "unat (ctx_i0 ctx) = 8 * n mod 2 ^ 32" .
  have m: "(0x3F :: u32) = mask 6" by (simp add: mask_eq_exp_minus_1)
  have "ctx_mdi ctx = unat (ctx_i0 ctx) div 8 mod 64"
    by (simp add: ctx_mdi_def m unsigned_take_bit_eq take_bit_eq_mod drop_bit_eq_div unat_div unat_mod flip: take_bit_eq_mask)
  also have "\<dots> = n mod 64"
  proof -
    have "8 * n mod 2 ^ 32 = 8 * (n mod 2 ^ 29)" using mult_mod_right [of 8 n "2 ^ 29"] by simp
    then show ?thesis unfolding i0 by (simp add: mod_mod_cancel)
  qed
  finally show ?thesis .
qed

lemma carry: "x < M \<Longrightarrow> l < M \<Longrightarrow> (x + l) div M = (if M \<le> x + l then 1 else 0)" for x l M :: nat
  by (auto intro!: div_nat_eqI)

lemma carry_less: "x < M \<Longrightarrow> l < M \<Longrightarrow> (x + l) mod M < x \<longleftrightarrow> M \<le> x + l" for x l M :: nat
  by (auto simp: mod_if)

lemma low_digit: "a < M \<Longrightarrow> (a + M * y) mod (M * N) = a + M * (y mod N)" for a M y N :: nat
  by (simp add: mod_mult2_eq)

lemma counter_step:
  fixes i0 i1 len :: u32
  assumes "unat i0 + 2 ^ 32 * unat i1 = 8 * n mod 2 ^ 64"
  shows "unat (i0 + push_bit 3 len) + 2 ^ 32 * unat ((if i0 + push_bit 3 len < i0 then i1 + 1 else i1) + drop_bit 29 len)
    = 8 * (n + unat len) mod 2 ^ 64"
proof -
  let ?l = "unat len" and ?M = "2 ^ 32 :: nat"
  let ?lo = "8 * ?l mod ?M" and ?hi = "?l div 2 ^ 29"
  have lo: "unat (push_bit 3 len) = ?lo" by (simp add: push_bit_eq_mult unat_word_ariths mult.commute)
  have hi: "unat (drop_bit 29 len) = ?hi" by (simp add: drop_bit_eq_div unat_div)
  have l: "?l < ?M" by (rule u32_less_2p32)
  have "8 * ?l div (8 * 2 ^ 29) = ?hi" by (rule div_mult_mult1) simp
  then have "8 * ?l div ?M = ?hi" by simp
  then have split: "8 * ?l = ?lo + ?M * ?hi" using mod_mult_div_eq [of "8 * ?l" ?M] by simp
  define cy where "cy = (unat i0 + ?lo) div ?M"
  have a: "unat (i0 + push_bit 3 len) = (unat i0 + ?lo) mod ?M" by (simp add: unat_word_ariths lo)
  have i0: "unat i0 < ?M" by (rule u32_less_2p32)
  have lolt: "?lo < ?M" by simp
  have cases: "i0 + push_bit 3 len < i0 \<longleftrightarrow> ?M \<le> unat i0 + ?lo"
    unfolding word_less_nat_alt a by (rule carry_less [OF i0 lolt])
  have cy: "cy = (if i0 + push_bit 3 len < i0 then 1 else 0)"
    unfolding cy_def cases using carry [OF i0 lolt] by simp
  have b: "unat ((if i0 + push_bit 3 len < i0 then i1 + 1 else i1) + drop_bit 29 len) = (unat i1 + cy + ?hi) mod ?M"
    by (simp add: cy unat_word_ariths hi mod_simps)
  let ?x = "unat i0 + ?lo" and ?y = "unat i1 + cy + ?hi"
  have MM: "(2 :: nat) ^ 64 = ?M * ?M" by simp
  have l1: "?x mod ?M + ?M * (?y mod ?M) = (?x mod ?M + ?M * ?y) mod (?M * ?M)"
    by (rule low_digit [symmetric]) simp
  have "?x mod ?M + ?M * ?y = ?x + ?M * (unat i1 + ?hi)"
    unfolding cy_def using mod_mult_div_eq [of ?x ?M] by (simp add: algebra_simps)
  also have "\<dots> = unat i0 + ?M * unat i1 + 8 * ?l" using split by (simp add: algebra_simps)
  finally have l2: "?x mod ?M + ?M * ?y = 8 * n mod (?M * ?M) + 8 * ?l" using assms MM by simp
  show ?thesis
    unfolding a b l1 l2 MM by (simp only: mod_add_left_eq distrib_left)
qed

lemma counts_update: "counts ctx n \<Longrightarrow> counts (MD5_Update ctx b len) (n + unat len)"
  unfolding counts_def using counter_step [of "ctx_i0 ctx" "ctx_i1 ctx" n len]
  by (auto simp: MD5_Update_def Let_def update_bytes_counter split: if_splits)

section \<open>The digest\<close>

definition represents :: "md5_ctx \<Rightarrow> bytes \<Rightarrow> bool" where
  "represents ctx m \<longleftrightarrow> holds ctx m \<and> counts ctx (length m)"

lemma represents_Init: "length (ctx_in ctx) = 64 \<Longrightarrow> represents (MD5_Init ctx) []"
  by (simp add: represents_def holds_def counts_def MD5_Init_def md5_chain_def md5_start_def)

lemma represents_Update:
  assumes "represents ctx m" "n \<le> length b" "n < 2 ^ 32"
  shows "represents (MD5_Update ctx b (of_nat n)) (m @ take n b)"
proof -
  have l: "unat (of_nat n :: u32) = n" using assms(3) by (simp add: unat_of_nat_small)
  have mdi: "ctx_mdi ctx = length m mod 64" using assms(1) by (simp add: represents_def counts_mdi)
  have "holds (MD5_Update ctx b (of_nat n)) (m @ take n b)"
    unfolding MD5_Update_def Let_def l
    by (rule update_bytes_holds) (use assms(1) mdi in \<open>auto simp: represents_def holds_def\<close>)
  then show ?thesis
    using assms(1,2) counts_update [of ctx "length m" b "of_nat n"] by (simp add: represents_def l)
qed

text \<open>The padding fills the block up to the two words of the counter.\<close>

definition pad_len :: "nat \<Rightarrow> nat" where
  "pad_len mdi = (if mdi < 56 then 56 - mdi else 120 - mdi)"

lemma pad_len_mod:
  "(n + pad_len (n mod 64)) mod 64 = 56"
  "0 < pad_len (n mod 64)" "pad_len (n mod 64) \<le> 64" "pad_len (n mod 64) - 1 = (119 - n mod 64) mod 64" for n :: nat
proof -
  define r where "r = n mod 64"
  have r: "r < 64" by (simp add: r_def)
  have "(n + pad_len r) mod 64 = (r + pad_len r) mod 64" by (simp add: r_def mod_add_left_eq)
  also have "\<dots> = 56" using r by (auto simp: pad_len_def)
  finally show "(n + pad_len (n mod 64)) mod 64 = 56" by (simp only: r_def)
  show "0 < pad_len (n mod 64)" "pad_len (n mod 64) \<le> 64"
    unfolding r_def [symmetric] using r by (auto simp: pad_len_def)
  show "pad_len (n mod 64) - 1 = (119 - n mod 64) mod 64"
    unfolding r_def [symmetric] using r by (auto simp: pad_len_def mod_if)
qed

lemma md5_pad_padding:
  "md5_pad m = (m @ take (pad_len (length m mod 64)) PADDING) @ u64_bytes (of_nat (8 * length m))"
proof -
  have "take (pad_len (length m mod 64)) PADDING = 0x80 # replicate (pad_len (length m mod 64) - 1) 0"
    using pad_len_mod(2,3) [of "length m"] by (simp add: PADDING_def take_Cons' min_def)
  then show ?thesis unfolding md5_pad_def pad_len_mod(4) by simp
qed

lemma counts_words:
  assumes "counts ctx n"
  shows "ctx_i0 ctx = ucast (of_nat (8 * n) :: u64)" "ctx_i1 ctx = ucast (drop_bit 32 (of_nat (8 * n) :: u64))"
proof -
  let ?v = "of_nat (8 * n) :: u64"
  have v: "unat ?v = unat (ctx_i0 ctx) + 2 ^ 32 * unat (ctx_i1 ctx)"
    using assms unfolding counts_def by (simp add: unat_of_nat del: of_nat_mult)
  have i0: "unat (ctx_i0 ctx) < 2 ^ 32" and i1: "unat (ctx_i1 ctx) < 2 ^ 32" by (rule u32_less_2p32)+
  have m: "unat (ctx_i0 ctx) mod 2 ^ 32 = unat (ctx_i0 ctx)" using i0 by (rule mod_less)
  have d: "(unat (ctx_i0 ctx) + 2 ^ 32 * unat (ctx_i1 ctx)) div 2 ^ 32 = unat (ctx_i1 ctx)"
    using i0 by (simp only: div_mult_self2 power_eq_0_iff zero_neq_numeral simp_thms div_less add_0_right zero_less_numeral)
  show "ctx_i0 ctx = ucast ?v"
    unfolding word_unat_eq_iff unat_ucast_u64_u32 v by (simp only: mod_mult_self2 m)
  show "ctx_i1 ctx = ucast (drop_bit 32 ?v)"
    unfolding word_unat_eq_iff unat_ucast_u64_u32 drop_bit_eq_div unat_div v
    using d i1 by (simp add: unat_two_power [where 'a = 64])
qed

lemma represents_Final:
  assumes "represents ctx m"
  shows "fst (MD5_Final ctx) = md5 m"
proof -
  let ?n = "pad_len (length m mod 64)"
  define p where "p = m @ take ?n PADDING"
  define c where "c = MD5_Update ctx PADDING (of_nat ?n)"
  let ?w = "in_words (ctx_in c) 14 @ [ctx_i0 ctx, ctx_i1 ctx]"
  have mdi: "ctx_mdi ctx = length m mod 64" and cnt: "counts ctx (length m)"
    using assms by (simp_all add: represents_def counts_mdi)
  have nP: "?n \<le> length PADDING" using pad_len_mod(3) by (simp add: PADDING_def)
  have "represents c p"
    unfolding c_def p_def using pad_len_mod(3) [of "length m"] by (intro represents_Update [OF assms nP]) simp
  then have buf: "ctx_buf c = md5_chain p" and len: "length (ctx_in c) = 64"
    and tk: "take (length p mod 64) (ctx_in c) = drop (64 * (length p div 64)) p"
    by (simp_all add: represents_def holds_def)
  have pmod: "length p mod 64 = 56" using pad_len_mod(1) [of "length m"] nP by (simp add: p_def min_def)
  have pl: "length p = 64 * (length p div 64) + 56" using pmod mult_div_mod_eq [of 64 "length p"] by simp
  have pad: "md5_pad m = p @ u64_bytes (of_nat (8 * length m))" by (simp only: md5_pad_padding p_def)
  have w: "?w = block_words (md5_pad m) (length p div 64)"
  proof -
    have low: "in_word (ctx_in c) (4 * i) = bytes_u32 (drop (64 * (length p div 64) + 4 * i) (md5_pad m))" if i: "i < 14" for i
    proof -
      have "in_word (ctx_in c) (4 * i) = bytes_u32 (drop (4 * i) (ctx_in c))" using i len by (simp add: in_word_le)
      also have "\<dots> = bytes_u32 (drop (4 * i) (take 56 (ctx_in c)))"
        using i len by (intro bytes_u32_cong) (simp_all add: drop_take)
      also have "drop (4 * i) (take 56 (ctx_in c)) = drop (64 * (length p div 64) + 4 * i) p"
        using tk pmod by (simp add: add.commute)
      also have "bytes_u32 \<dots> = bytes_u32 (drop (64 * (length p div 64) + 4 * i) (md5_pad m))"
        unfolding pad using i pl by (intro bytes_u32_cong) simp_all
      finally show ?thesis .
    qed
    have e: "64 * (length p div 64) + 56 = length p" "64 * (length p div 64) + 60 = length p + 4" using pl by simp_all
    have "drop (64 * (length p div 64) + 56) (md5_pad m) = u64_bytes (of_nat (8 * length m))"
      "drop (64 * (length p div 64) + 60) (md5_pad m) = drop 4 (u64_bytes (of_nat (8 * length m)))"
      unfolding pad e by (simp_all del: of_nat_mult)
    then have high: "bytes_u32 (drop (64 * (length p div 64) + 56) (md5_pad m)) = ctx_i0 ctx"
      "bytes_u32 (drop (64 * (length p div 64) + 60) (md5_pad m)) = ctx_i1 ctx"
      using bytes_u32_u32_bytes [of "ctx_i1 ctx" "[]"]
      by (simp_all add: u64_bytes_def counts_words [OF cnt] del: of_nat_mult)
    have u: "[0..<16] = [0..<14] @ [14, 15 :: nat]" by (simp add: upt_rec)
    show ?thesis
      unfolding in_words_def block_words_def u map_append using low high by simp
  qed
  have "md5_chain (md5_pad m) = md5_block (md5_chain p) (block_words (md5_pad m) (length p div 64))"
    unfolding pad by (rule md5_chain_last) (use pl in simp)
  then have "Transform (ctx_buf c) ?w = md5_chain (md5_pad m)" by (simp only: Transform_block buf w)
  then show ?thesis
    unfolding MD5_Final_def Let_def mdi pad_len_def [symmetric] c_def [symmetric]
    by (simp add: md5_def split: prod.split)
qed

lemma represents_updates:
  "represents ctx m \<Longrightarrow> \<forall>b\<in>set bs. length b < 2 ^ 32 \<Longrightarrow>
    represents (fold (\<lambda>b ctx. MD5_Update ctx b (of_nat (length b))) bs ctx) (m @ concat bs)"
proof (induction bs arbitrary: ctx m)
  case (Cons b bs)
  have "represents (MD5_Update ctx b (of_nat (length b))) (m @ b)"
    using represents_Update [OF Cons.prems(1), of "length b" b] Cons.prems(2) by simp
  from Cons.IH [OF this] Cons.prems(2) show ?case by simp
qed simp

lemma md5_abc: "md5 [0x61, 0x62, 0x63] = [0x90, 0x1, 0x50, 0x98, 0x3c, 0xd2, 0x4f, 0xb0, 0xd6, 0x96, 0x3f, 0x7d, 0x28, 0xe1, 0x7f, 0x72]"
proof -
  let ?w = "[0x80636261, 0x0, 0x0, 0x0, 0x0, 0x0, 0x0, 0x0, 0x0, 0x0, 0x0, 0x0, 0x0, 0x0, 0x18, 0x0] :: u32 list"
  have p: "md5_pad [0x61, 0x62, 0x63] = [0x61, 0x62, 0x63, 0x80] @ replicate 52 0 @ [24, 0, 0, 0, 0, 0, 0, 0]" by code_simp
  have "block_words (md5_pad [0x61, 0x62, 0x63]) 0 = ?w" unfolding p by code_simp
  moreover have "md5_block md5_start ?w = (0x98500190, 0xb04fd23c, 0x7d3f96d6, 0x727fe128)" by code_simp
  moreover have "length (md5_pad [0x61, 0x62, 0x63]) div 64 = 1" unfolding p by simp
  ultimately have "md5_chain (md5_pad [0x61, 0x62, 0x63]) = (0x98500190, 0xb04fd23c, 0x7d3f96d6, 0x727fe128)" unfolding md5_chain_def One_nat_def upt_rec[of 0 1] by simp
  then show ?thesis unfolding md5_def Let_def by (simp only: prod.case) (simp add: u32_bytes_def)
qed

text \<open>
  C31. The mtd tool computes the MD5 digest of RFC 1321, whatever pieces the message is handed to it in:
  initialising a context, updating it with each piece, and finishing gives the digest of all pieces
  together, also when the bit count carries into its second word.
\<close>

theorem md5_streaming:
  assumes "length (ctx_in ctx) = 64" "\<forall>b\<in>set bs. length b < 2 ^ 32"
  shows "fst (MD5_Final (fold (\<lambda>b ctx. MD5_Update ctx b (of_nat (length b))) bs (MD5_Init ctx))) = md5 (concat bs)"
  using represents_Final [OF represents_updates [OF represents_Init [OF assms(1)] assms(2)]] by simp

theorem md5_streaming_witness:
  "fst (MD5_Final (MD5_Update (MD5_Update (MD5_Init \<lparr>ctx_i0 = 7, ctx_i1 = 9, ctx_buf = (1, 2, 3, 4), ctx_in = replicate 64 0xAA,
      ctx_digest = []\<rparr>) [0x61] 1) [0x62, 0x63] 2)) =
    [0x90, 0x1, 0x50, 0x98, 0x3c, 0xd2, 0x4f, 0xb0, 0xd6, 0x96, 0x3f, 0x7d, 0x28, 0xe1, 0x7f, 0x72]"
  using md5_streaming [of "\<lparr>ctx_i0 = 7, ctx_i1 = 9, ctx_buf = (1, 2, 3, 4), ctx_in = replicate 64 0xAA, ctx_digest = []\<rparr>"
      "[[0x61], [0x62, 0x63]]"]
  by (simp add: md5_abc)

end
