(* ===== verification/Util_Fix.thy ===== *)
theory Util_Fix
  imports Util_Flash Crc32 Md5
begin

text \<open>
  The functions that repair the header of an image after its data has changed (\<open>trx.c\<close>, \<open>seama.c\<close>,
  \<open>wrg.c\<close>, \<open>wrgg.c\<close>). Each reads the block with the header, computes a checksum of the data, and
  rewrites the block. What they leave on the device is stated for every device that meets the contract
  \<open>flash_device\<close>.
\<close>

section \<open>The block with the header\<close>

definition read_block :: "'k kern \<Rightarrow> int \<Rightarrow> u64 \<Rightarrow> ('k, bytes) prog" where
  "read_block K fd block_offset =
     bnd (gets erasesize) (\<lambda>esz.
     bnd (call (k_malloc K (of_int esz))) (\<lambda>m.
     case m of None \<Rightarrow> exit1 | Some first_block \<Rightarrow>
     bnd (call (k_pread K fd (of_int esz) block_offset)) (\<lambda>res.
     case res of Inl _ \<Rightarrow> exit1 | Inr b \<Rightarrow>
     if int (length b) \<noteq> esz then exit1 else ret (buf_put 0 b first_block))))"

definition write_block :: "'k kern \<Rightarrow> int \<Rightarrow> bytes \<Rightarrow> u64 \<Rightarrow> ('k, unit) prog" where
  "write_block K fd first_block block_offset =
     bnd (mtd_erase_block K fd (to_int block_offset)) (\<lambda>r.
     if r \<noteq> 0 then exit1 else
     bnd (gets erasesize) (\<lambda>esz.
     bnd (call (k_pwrite K fd (take (nat esz) first_block) block_offset)) (\<lambda>w.
     if w \<noteq> esz then exit1 else ret ())))"

section \<open>TRX\<close>

definition TRX_MAGIC :: u32 where "TRX_MAGIC = 0x30524448"
definition TRX_CRC32_DATA_OFFSET :: u64 where "TRX_CRC32_DATA_OFFSET = 12"
definition TRX_CRC32_DATA_SIZE :: u64 where "TRX_CRC32_DATA_SIZE = 16"

text \<open>\<open>crc32buf(buf, len)\<close>, whose \<open>size_t\<close> length becomes an \<open>int\<close>; a negative length reads nothing.\<close>

definition crc32buf_prog :: "nat \<Rightarrow> u64 \<Rightarrow> bytes \<Rightarrow> 's \<Rightarrow> (u32 outcome \<times> 's) option" where
  "crc32buf_prog off len b =
     (if off + nat (to_int len) \<le> length b then ret (crc32 0xFFFFFFFF (drop off b) (to_int len)) else fault)"

definition trx_fixup :: "'k kern \<Rightarrow> int \<Rightarrow> string \<Rightarrow> ('k, int) prog" where
  "trx_fixup K fd name =
     bnd (call (k_getinfo K fd)) (\<lambda>info.
     case info of None \<Rightarrow> ret (-1) | Some mtdInfo \<Rightarrow>
     if info_size mtdInfo \<le> 0 then ret (-1) else
     let len = ucast (info_size mtdInfo) in
     bnd (mtd_open K name True) (\<lambda>bfd.
     bnd (call (k_mmap K bfd len)) (\<lambda>m.
     case m of None \<Rightarrow> bnd (call (k_close K bfd)) (\<lambda>_. ret (-1)) | Some ptr \<Rightarrow>
     bnd (load 0 4 ptr) (\<lambda>magic.
     if bytes_u32 magic \<noteq> TRX_MAGIC then ret (-1) else
     bnd (load 4 4 ptr) (\<lambda>trx_len.
     bnd (crc32buf_prog 12 (ucast (bytes_u32 trx_len) - 12) ptr) (\<lambda>crc.
     bnd (store 8 (u32_bytes crc) ptr) (\<lambda>ptr.
     bnd (call (k_msync K bfd ptr)) (\<lambda>_.
     bnd (call (k_close K bfd)) (\<lambda>_.
     ret 0)))))))))"

text \<open>The buffer and its fill level are those of the caller; the new ones are returned with the result.\<close>

definition trx_check :: "'k kern \<Rightarrow> int \<Rightarrow> string \<Rightarrow> bytes \<Rightarrow> int \<Rightarrow> ('k, int \<times> bytes \<times> int) prog" where
  "trx_check K imagefd mtd buf len =
     (if mtd \<noteq> ''firmware'' then ret (1, buf, len) else
     bnd (if len < 32 then
            bnd (call (k_read K imagefd (of_int (32 - len)))) (\<lambda>r.
            case r of Inl _ \<Rightarrow> ret (buf, len - 1)
            | Inr b \<Rightarrow> bnd (store (nat len) b buf) (\<lambda>buf. ret (buf, len + int (length b))))
          else ret (buf, len)) (\<lambda>(buf, len).
     if len < 32 then ret (0, buf, len) else
     bnd (load 0 8 buf) (\<lambda>trx.
     if bytes_u32 trx \<noteq> TRX_MAGIC \<or> bytes_u32 (drop 4 trx) < 28 then ret (0, buf, len) else
     bnd (mtd_check_open K mtd) (\<lambda>fd.
     if fd < 0 then exit1 else
     bnd (gets mtdsize) (\<lambda>msz.
     bnd (call (k_close K fd)) (\<lambda>_.
     if of_int msz < bytes_u32 (drop 4 trx) then ret (0, buf, len) else ret (1, buf, len)))))))"

partial_function (option) trx_read_data ::
  "'k kern \<Rightarrow> int \<Rightarrow> u64 \<Rightarrow> u64 \<Rightarrow> bytes \<Rightarrow> 'k mtd_state \<Rightarrow> (bytes outcome \<times> 'k mtd_state) option" where
  "trx_read_data K fd data_offset data_size acc s =
     (if data_size = 0 then ret acc else
     bnd (gets erasesize) (\<lambda>esz.
     let read_block_offset = data_offset AND NOT (of_int (esz - 1));
         read_chunk = min (of_int esz - (data_offset AND of_int (esz - 1))) data_size in
     bnd (mtd_block_is_bad K fd (to_int read_block_offset)) (\<lambda>bad.
     bnd (if bad = 0 then
            bnd (call (k_pread K fd read_chunk data_offset)) (\<lambda>res.
            case res of Inl _ \<Rightarrow> exit1 | Inr b \<Rightarrow>
            if of_nat (length b) \<noteq> read_chunk then exit1 else ret (acc @ b))
          else ret acc) (\<lambda>acc.
     trx_read_data K fd (data_offset + read_chunk) (data_size - read_chunk) acc)))) s"

definition mtd_fixtrx :: "'k kern \<Rightarrow> string \<Rightarrow> u64 \<Rightarrow> u64 \<Rightarrow> ('k, int) prog" where
  "mtd_fixtrx K mtd offset data_size =
     bnd (mtd_check_open K mtd) (\<lambda>fd.
     if fd < 0 then exit1 else
     bnd (gets erasesize) (\<lambda>esz.
     bnd (gets mtdsize) (\<lambda>msz.
     let data_offset = offset + TRX_CRC32_DATA_OFFSET;
         data_size = (if data_size \<noteq> 0 then data_size + TRX_CRC32_DATA_SIZE else of_int (esz - 12));
         block_offset = offset AND NOT (of_int (esz - 1));
         offset = offset - block_offset in
     if data_offset + data_size > of_int msz then exit1 else
     bnd (read_block K fd block_offset) (\<lambda>first_block.
     bnd (load (unat offset) 4 first_block) (\<lambda>magic.
     if bytes_u32 magic \<noteq> 0x30524448 then exit1 else
     bnd (call (k_malloc K data_size)) (\<lambda>m.
     if m = None then exit1 else
     bnd (trx_read_data K fd data_offset data_size []) (\<lambda>buf.
     let data_size = of_nat (length buf) :: u64 in
     bnd (load (unat offset + 4) 8 first_block) (\<lambda>lc.
     bnd (crc32buf_prog 0 data_size buf) (\<lambda>crc.
     if ucast (bytes_u32 lc) = data_size + TRX_CRC32_DATA_OFFSET \<and> bytes_u32 (drop 4 lc) = crc
     then bnd (call (k_close K fd)) (\<lambda>_. ret 0)
     else
     bnd (store (unat offset + 4) (u32_bytes (ucast (data_size + 12))) first_block) (\<lambda>first_block.
     bnd (store (unat offset + 8) (u32_bytes crc) first_block) (\<lambda>first_block.
     bnd (write_block K fd first_block block_offset) (\<lambda>_.
     bnd (call (k_close K fd)) (\<lambda>_.
     ret 0)))))))))))))"

section \<open>SEAMA\<close>

definition SEAMA_MAGIC :: u32 where "SEAMA_MAGIC = 0x5EA3A417"

text \<open>
  A context on the stack has unspecified contents; the digest does not depend on them. The header is
  given as its place in the block.
\<close>

definition md5_stack :: md5_ctx where
  "md5_stack = \<lparr>ctx_i0 = 0, ctx_i1 = 0, ctx_buf = (0, 0, 0, 0), ctx_in = replicate 64 0, ctx_digest = replicate 16 0\<rparr>"

definition seama_fix_md5 :: "'k kern \<Rightarrow> bytes \<Rightarrow> nat \<Rightarrow> int \<Rightarrow> u64 \<Rightarrow> u64 \<Rightarrow> ('k, int \<times> bytes) prog" where
  "seama_fix_md5 K block shdr fd data_offset data_size =
     bnd (call (k_malloc K data_size)) (\<lambda>m.
     if m = None then ret (- ENOMEM, block) else
     bnd (call (k_pread K fd data_size data_offset)) (\<lambda>res.
     case res of Inl _ \<Rightarrow> ret (- EIO, block) | Inr buf \<Rightarrow>
     if of_nat (length buf) \<noteq> data_size then ret (- EIO, block) else
     let ctx = MD5_Init md5_stack;
         ctx = MD5_Update ctx buf (ucast data_size);
         digest = fst (MD5_Final ctx) in
     bnd (load (shdr + 12) 16 block) (\<lambda>md5.
     if digest = md5 then ret (-1, block) else
     bnd (store (shdr + 8) (be32_bytes (ucast data_size)) block) (\<lambda>block.
     bnd (store (shdr + 12) digest block) (\<lambda>block.
     ret (0, block))))))"

definition mtd_fixseama :: "'k kern \<Rightarrow> string \<Rightarrow> u64 \<Rightarrow> u64 \<Rightarrow> ('k, int) prog" where
  "mtd_fixseama K mtd offset data_size =
     bnd (gets erasesize) (\<lambda>esz.
     let block_offset = offset AND NOT (of_int (esz - 1));
         offset = offset - block_offset in
     bnd (mtd_check_open K mtd) (\<lambda>fd.
     if fd < 0 then exit1 else
     bnd (gets erasesize) (\<lambda>esz.
     bnd (gets mtdsize) (\<lambda>msz.
     if block_offset + of_int esz > of_int msz then exit1 else
     bnd (read_block K fd block_offset) (\<lambda>first_block.
     bnd (load (unat offset) 4 first_block) (\<lambda>magic.
     if be32 magic \<noteq> SEAMA_MAGIC then exit1 else
     bnd (load (unat offset) 12 first_block) (\<lambda>shdr.
     if be32 (drop 8 shdr) = 0 then exit1 else
     let data_offset = offset + 28 + ucast (be16 (drop 6 shdr));
         data_size = (if data_size = 0 then of_int msz - data_offset else data_size);
         data_size = (if data_size > ucast (be32 (drop 8 shdr)) then ucast (be32 (drop 8 shdr)) else data_size) in
     bnd (seama_fix_md5 K first_block (unat offset) fd data_offset data_size) (\<lambda>(err, first_block).
     bnd (if err \<noteq> 0 then ret () else write_block K fd first_block block_offset) (\<lambda>_.
     bnd (call (k_close K fd)) (\<lambda>_.
     ret 0))))))))))"

section \<open>WRG\<close>

definition WRG_MAGIC :: u32 where "WRG_MAGIC = 0x20040220"

definition wrg_fix_md5 :: "'k kern \<Rightarrow> bytes \<Rightarrow> nat \<Rightarrow> int \<Rightarrow> u64 \<Rightarrow> u64 \<Rightarrow> ('k, int \<times> bytes) prog" where
  "wrg_fix_md5 K block shdr fd data_offset data_size =
     bnd (call (k_malloc K data_size)) (\<lambda>m.
     if m = None then ret (- ENOMEM, block) else
     bnd (call (k_pread K fd data_size data_offset)) (\<lambda>res.
     case res of Inl _ \<Rightarrow> ret (- EIO, block) | Inr buf \<Rightarrow>
     if of_nat (length buf) \<noteq> data_size then ret (- EIO, block) else
     bnd (load (shdr + 44) 4 block) (\<lambda>offset.
     bnd (load (shdr + 48) 32 block) (\<lambda>devname.
     let ctx = MD5_Init md5_stack;
         ctx = MD5_Update ctx offset 4;
         ctx = MD5_Update ctx devname 32;
         ctx = MD5_Update ctx buf (ucast data_size);
         digest = fst (MD5_Final ctx) in
     bnd (load (shdr + 80) 16 block) (\<lambda>md5.
     if digest = md5 then ret (-1, block) else
     bnd (store (shdr + 40) (u32_bytes (ucast data_size)) block) (\<lambda>block.
     bnd (store (shdr + 80) digest block) (\<lambda>block.
     ret (0, block))))))))"

definition mtd_fixwrg :: "'k kern \<Rightarrow> string \<Rightarrow> u64 \<Rightarrow> u64 \<Rightarrow> ('k, int) prog" where
  "mtd_fixwrg K mtd offset data_size =
     bnd (gets erasesize) (\<lambda>esz.
     let block_offset = offset AND NOT (of_int (esz - 1));
         offset = offset - block_offset in
     bnd (mtd_check_open K mtd) (\<lambda>fd.
     if fd < 0 then exit1 else
     bnd (gets erasesize) (\<lambda>esz.
     bnd (gets mtdsize) (\<lambda>msz.
     if block_offset + of_int esz > of_int msz then exit1 else
     bnd (read_block K fd block_offset) (\<lambda>first_block.
     bnd (load (unat offset + 32) 4 first_block) (\<lambda>magic1.
     if bytes_u32 magic1 \<noteq> WRG_MAGIC then exit1 else
     bnd (load (unat offset + 40) 4 first_block) (\<lambda>size.
     if bytes_u32 size = 0 then exit1 else
     let data_offset = offset + 96;
         data_size = (if data_size = 0 then of_int msz - data_offset else data_size);
         data_size = (if data_size > ucast (bytes_u32 size) then ucast (bytes_u32 size) else data_size) in
     bnd (wrg_fix_md5 K first_block (unat offset) fd data_offset data_size) (\<lambda>(err, first_block).
     bnd (if err \<noteq> 0 then ret () else write_block K fd first_block block_offset) (\<lambda>_.
     bnd (call (k_close K fd)) (\<lambda>_.
     ret 0))))))))))"

section \<open>WRGG\<close>

definition WRGG03_MAGIC :: u32 where "WRGG03_MAGIC = 0x20080321"

definition wrgg_fix_md5 :: "'k kern \<Rightarrow> bytes \<Rightarrow> nat \<Rightarrow> int \<Rightarrow> u64 \<Rightarrow> u64 \<Rightarrow> ('k, int \<times> bytes) prog" where
  "wrgg_fix_md5 K block shdr fd data_offset data_size =
     bnd (call (k_malloc K data_size)) (\<lambda>m.
     if m = None then ret (- ENOMEM, block) else
     bnd (call (k_pread K fd data_size data_offset)) (\<lambda>res.
     case res of Inl _ \<Rightarrow> ret (- EIO, block) | Inr buf \<Rightarrow>
     if of_nat (length buf) \<noteq> data_size then ret (- EIO, block) else
     bnd (load (shdr + 108) 4 block) (\<lambda>offset.
     bnd (load (shdr + 112) 32 block) (\<lambda>dev_name.
     let ctx = MD5_Init md5_stack;
         ctx = MD5_Update ctx offset 4;
         ctx = MD5_Update ctx dev_name 32;
         ctx = MD5_Update ctx buf (ucast data_size);
         digest = fst (MD5_Final ctx) in
     bnd (load (shdr + 144) 16 block) (\<lambda>md5.
     if digest = md5 then ret (-1, block) else
     bnd (store (shdr + 104) (u32_bytes (ucast data_size)) block) (\<lambda>block.
     bnd (store (shdr + 144) digest block) (\<lambda>block.
     ret (0, block))))))))"

definition mtd_fixwrgg :: "'k kern \<Rightarrow> string \<Rightarrow> u64 \<Rightarrow> u64 \<Rightarrow> ('k, int) prog" where
  "mtd_fixwrgg K mtd offset data_size =
     bnd (gets erasesize) (\<lambda>esz.
     let block_offset = offset AND NOT (of_int (esz - 1));
         offset = offset - block_offset in
     bnd (mtd_check_open K mtd) (\<lambda>fd.
     if fd < 0 then exit1 else
     bnd (gets erasesize) (\<lambda>esz.
     bnd (gets mtdsize) (\<lambda>msz.
     if block_offset + of_int esz > of_int msz then exit1 else
     bnd (read_block K fd block_offset) (\<lambda>first_block.
     bnd (load (unat offset + 32) 4 first_block) (\<lambda>magic1.
     if bytes_u32 magic1 \<noteq> WRGG03_MAGIC then exit1 else
     bnd (load (unat offset + 104) 4 first_block) (\<lambda>size.
     if bytes_u32 size = 0 then exit1 else
     let data_offset = offset + 160;
         data_size = (if data_size = 0 then of_int msz - data_offset else data_size);
         data_size = (if data_size > ucast (bytes_u32 size) then ucast (bytes_u32 size) else data_size) in
     bnd (wrgg_fix_md5 K first_block (unat offset) fd data_offset data_size) (\<lambda>(err, first_block).
     bnd (if err \<noteq> 0 then ret () else write_block K fd first_block block_offset) (\<lambda>_.
     bnd (call (k_close K fd)) (\<lambda>_.
     ret 0))))))))))"

section \<open>Reading and rewriting the block\<close>

lemma sint_of_nonneg: "0 \<le> sint (x :: u32) \<Longrightarrow> sint x = uint x"
proof -
  assume a: "0 \<le> sint x"
  have s: "sint x = signed_take_bit 31 (uint x)" by (simp add: sint_uint)
  then have b: "\<not> bit (uint x) 31" using a by (simp add: flip: signed_take_bit_negative_iff)
  have "uint x = take_bit (Suc 31) (uint x)" using uint_lt2p [of x] by (simp add: take_bit_int_eq_self)
  also have "\<dots> = take_bit 31 (uint x)" using b by (simp only: take_bit_Suc_from_most of_bool_eq mult_0_right add_0)
  finally show "sint x = uint x" using s b by (simp add: signed_take_bit_eq_if_positive)
qed

lemma of_int_to_int: "(of_int (to_int x) :: u32) = ucast x"
  by (simp add: to_int_def)

lemma unat_ucast_low: "unat (x :: u64) < 2 ^ 32 \<Longrightarrow> unat (ucast x :: u32) = unat x"
  by (simp add: unat_ucast_u64_u32)

context flash_device begin

abbreviation E :: nat where "E \<equiv> unat (info_erasesize info)"

lemma erasesize_nat: "0 \<le> sint (info_erasesize info) \<Longrightarrow> sint (info_erasesize info) = int E"
  "0 \<le> sint (info_erasesize info) \<Longrightarrow> unat (of_int (sint (info_erasesize info)) :: u64) = E"
proof -
  assume a: "0 \<le> sint (info_erasesize info)"
  show e: "sint (info_erasesize info) = int E" unfolding sint_of_nonneg [OF a] by simp
  have "E < 2 ^ 64" using u32_less_2p32 [of "info_erasesize info"] by simp
  then show "unat (of_int (sint (info_erasesize info)) :: u64) = E"
    using unat_of_nat_small [where 'a = 64, of E] unfolding e by simp
qed

lemma dev_read_block [dev_rules]:
  "valid (D True c) (read_block K fd bo) (\<lambda>blk s. (blk = buf_get (unat bo) E c \<and> length blk = E \<and>
     sint (info_erasesize info) = int E) \<and> D True c s)"
  unfolding read_block_def
  apply (rule valid_bnd [OF valid_gets [where Q = "\<lambda>t s. t = sint (info_erasesize info) \<and> D True c s"]])
   apply (simp add: dev_def)
  apply (intro valid_fact(1) valid_bnd [OF dev_malloc] valid_option valid_stop valid_bnd [OF dev_pread] valid_sum valid_if valid_ret)
  subgoal for e r first_block res b s
    using erasesize_nat by (cases "0 \<le> e") (auto simp: buf_put_def simp del: of_nat_unat of_int_sint)
  done

lemma dev_write_block [dev_rules]:
  assumes "length blk = E" "sint (info_erasesize info) = int E" "unat bo + E \<le> length c"
  shows "valid (D True c) (write_block K fd blk bo) (\<lambda>_. D True (buf_put (unat bo) blk c))"
proof (rule validI)
  fix s a t
  assume s: "D True c s" and run: "write_block K fd blk bo s = Some (Done a, t)"
  have len: "length c < 2 ^ 31" using s by (rule length_dev)
  let ?c = "memset (unat bo) 0xFF E c"
  have bo: "unat (of_int (to_int bo) :: u32) = unat bo"
    unfolding of_int_to_int using assms(3) len by (intro unat_ucast_low) simp
  have "valid (D True c) (write_block K fd blk bo) (\<lambda>_. D True (buf_put (unat bo) blk c))"
    unfolding write_block_def
    apply (intro valid_bnd [OF dev_erase_block] valid_if valid_stop)
    apply (rule valid_pre [where P = "D True ?c"])
     apply (rule valid_bnd [OF valid_gets [where Q = "\<lambda>t s. t = int E \<and> D True ?c s"]])
      apply (simp add: dev_def assms(2))
     apply (intro valid_fact(1) valid_bnd [OF valid_call [where Q = "\<lambda>w s. w = int E \<longrightarrow> D True (buf_put (unat bo) blk ?c) s"]] valid_if valid_stop valid_ret)
    subgoal for r e s
      using pwrite [of fd blk bo "kst s"] assms
      by (auto simp: dev_def memset_def buf_get_put_same)
    using assms(1,3) bo by (auto simp: memset_def buf_put_put_same)
  from validD [OF this s run] show "D True (buf_put (unat bo) blk c) t" .
qed
end

section \<open>Digests in headers\<close>

text \<open>The data at an offset can be read, and there is memory for it.\<close>

definition readable :: "'k kern \<Rightarrow> ('k \<Rightarrow> bytes) \<Rightarrow> bytes \<Rightarrow> u64 \<Rightarrow> u64 \<Rightarrow> bool" where
  "readable K content c off n \<longleftrightarrow> unat off + unat n \<le> length c \<and>
     (\<forall>k. content k = c \<longrightarrow> fst (k_malloc K n k) \<noteq> None) \<and>
     (\<forall>fd k. content k = c \<longrightarrow> fst (k_pread K fd n off k) = Inr (buf_get (unat off) (unat n) c))"

lemma md5_pieces:
  "length a < 2 ^ 32 \<Longrightarrow> fst (MD5_Final (MD5_Update (MD5_Init md5_stack) a (of_nat (length a)))) = md5 a"
  "length x = 4 \<Longrightarrow> length y = 32 \<Longrightarrow> length a < 2 ^ 32 \<Longrightarrow>
    fst (MD5_Final (MD5_Update (MD5_Update (MD5_Update (MD5_Init md5_stack) x 4) y 32) a (of_nat (length a)))) = md5 ((x @ y) @ a)"
  using represents_Final [OF represents_updates [OF represents_Init [of md5_stack]], of "[a]"]
    represents_Final [OF represents_updates [OF represents_Init [of md5_stack]], of "[x, y, a]"]
  by (simp_all add: md5_stack_def)

lemma buf_get_append: "buf_get off (n + m) b = buf_get off n b @ buf_get (off + n) m b"
  by (simp add: buf_get_def take_add add.commute [of off n])

text \<open>
  What the three functions that compute a digest promise: they change nothing outside the size at \<open>lo\<close> and
  the digest at \<open>doff\<close>, and when the data can be read, the digest is that of the part of the header at
  \<open>ioff\<close> and the data.
\<close>

locale md5_fixer = flash_device K info content bad for K :: "'k kern" and info content bad +
  fixes fix_md5 :: "bytes \<Rightarrow> nat \<Rightarrow> int \<Rightarrow> u64 \<Rightarrow> u64 \<Rightarrow> ('k, int \<times> bytes) prog"
    and lo ioff ilen doff :: nat
  assumes layout: "lo + 4 \<le> ioff" "ioff + ilen \<le> doff"
    and fix_md5: "doff + 16 \<le> unat off \<Longrightarrow> valid (dev info content True c) (fix_md5 blk 0 fd off n)
      (\<lambda>(err, blk') s. (err \<noteq> 0 \<longrightarrow> blk' = blk) \<and> length blk' = length blk \<and> take lo blk' = take lo blk \<and>
         buf_get ioff ilen blk' = buf_get ioff ilen blk \<and> drop (doff + 16) blk' = drop (doff + 16) blk \<and>
         (readable K content c off n \<longrightarrow> doff + 16 \<le> length blk \<and>
           buf_get doff 16 blk' = md5 (buf_get ioff ilen blk @ buf_get (unat off) (unat n) c)) \<and> dev info content True c s)"

lemma take_buf_put: "n \<le> off \<Longrightarrow> off \<le> length b \<Longrightarrow> take n (buf_put off xs b) = take n b"
  by (simp add: buf_put_def min_def)

lemma drop_buf_put: "off + length xs \<le> n \<Longrightarrow> off \<le> length b \<Longrightarrow> drop n (buf_put off xs b) = drop n b"
  by (simp add: buf_put_def)

lemma drop_buf_put_0: "length xs \<le> n \<Longrightarrow> drop n (buf_put 0 xs b) = drop n b"
  by (simp add: buf_put_def)

lemma length_u32_bytes_be [simp]: "length (be32_bytes x) = 4"
  by (simp add: be32_bytes_def)

lemma length_md5 [simp]: "length (md5 m) = 16"
  by (simp add: md5_def split: prod.split)

lemma data_length:
  fixes n :: u64
  assumes "of_nat (length (b :: bytes)) = n" "length b \<le> unat n" "length b < 2 ^ 31"
  shows "unat n = length b" "(ucast n :: u32) = of_nat (length b)" "length b < 2 ^ 32"
proof -
  show "unat n = length b" unfolding assms(1) [symmetric] using assms(3) by (intro unat_of_nat_small) simp
  show "length b < 2 ^ 32" using assms(3) by simp
  show "(ucast n :: u32) = of_nat (length b)" unfolding word_unat_eq_iff unat_ucast_u64_u32 assms(1) [symmetric]
    using assms(3) by (simp add: unat_of_nat)
qed

context flash_device begin

lemma full_length: "readable K content c off n \<Longrightarrow> of_nat (length (buf_get (unat off) (unat n) c)) = n"
  unfolding length_buf_get by (subst min_absorb1) (auto simp: readable_def)

text \<open>How the three begin: the data, or an error.\<close>

lemma fix_data:
  assumes g: "\<And>buf. buf = buf_get (unat off) (unat n) c \<Longrightarrow> fst (MD5_Final (MD5_Update (MD5_Init md5_stack) buf (ucast n))) = md5 buf \<Longrightarrow>
      (\<And>x y. length x = 4 \<Longrightarrow> length y = 32 \<Longrightarrow> fst (MD5_Final (MD5_Update (MD5_Update (MD5_Update (MD5_Init md5_stack) x 4) y 32)
        buf (ucast n))) = md5 ((x @ y) @ buf)) \<Longrightarrow> valid (D True c) (g buf) Q"
    and Q: "\<And>e s. \<not> readable K content c off n \<Longrightarrow> e \<noteq> 0 \<Longrightarrow> D True c s \<Longrightarrow> Q (e, blk) s"
  shows "valid (D True c) (bnd (call (k_malloc K n)) (\<lambda>m. if m = None then ret (- ENOMEM, blk) else
     bnd (call (k_pread K fd n off)) (\<lambda>res. case res of Inl _ \<Rightarrow> ret (- EIO, blk) | Inr buf \<Rightarrow>
     if of_nat (length buf) \<noteq> n then ret (- EIO, blk) else g buf))) Q"
  apply (rule valid_bnd [OF valid_call [where Q = "\<lambda>m s. (m = None \<longrightarrow> \<not> readable K content c off n) \<and> D True c s"]])
   apply (use malloc(1) in \<open>auto simp: dev_def readable_def\<close>)[1]
  apply (intro valid_fact(1) valid_if)
   apply (rule valid_ret, rule Q; simp add: errno_simps)
  apply (rule valid_bnd [OF valid_call [where Q = "\<lambda>r s. (readable K content c off n \<longrightarrow> r = Inr (buf_get (unat off) (unat n) c)) \<and>
     (\<forall>b. r = Inr b \<longrightarrow> length b \<le> unat n \<and> b = buf_get (unat off) (length b) c \<and> length c < 2 ^ 31) \<and> D True c s"]])
  subgoal for m s
    using pread [of fd n off "kst s"] length_dev(1) [of True c s] by (simp add: dev_def readable_def)
  apply (intro valid_fact(1) valid_sum)
   apply (rule valid_ret, rule Q; simp add: errno_simps)
  apply (rule valid_if)
   apply (rule valid_ret, rule Q)
     apply (use full_length in blast)
    apply (simp_all only: errno_simps) [2]
  subgoal premises p for m r buf
  proof -
    have b: "of_nat (length buf) = n" "length buf \<le> unat n" "buf = buf_get (unat off) (length buf) c" "length c < 2 ^ 31"
      using p by blast+
    have "length buf \<le> length c" using arg_cong [OF b(3), of length] unfolding length_buf_get by linarith
    then have "length buf < 2 ^ 31" using b(4) by linarith
    note l = data_length [OF b(1,2) this]
    have "buf = buf_get (unat off) (unat n) c" unfolding l(1) by (rule b(3))
    then show ?thesis
      using md5_pieces(1) [OF l(3)] md5_pieces(2) [OF _ _ l(3)] unfolding l(2) [symmetric] by (rule g)
  qed
  done
end


text \<open>How the three end: compare the digest, and store the size and the digest.\<close>

lemma valid_set_header:
  assumes "lo + 4 \<le> ioff" "ioff + ilen \<le> doff" "length x = 4"
  shows "valid P (bnd (load doff 16 blk) (\<lambda>d. if md5 m = d then ret (-1, blk) else
      bnd (store lo x blk) (\<lambda>block. bnd (store doff (md5 m) block) (\<lambda>block. ret (0, block)))))
    (\<lambda>(err, blk') s. (err \<noteq> 0 \<longrightarrow> blk' = blk) \<and> length blk' = length blk \<and> take lo blk' = take lo blk \<and>
       buf_get ioff ilen blk' = buf_get ioff ilen blk \<and> drop (doff + 16) blk' = drop (doff + 16) blk \<and>
       (R \<longrightarrow> doff + 16 \<le> length blk \<and> buf_get doff 16 blk' = md5 m) \<and> P s)"
  apply (rule valid_bnd [OF valid_load [where Q = "\<lambda>md5 s. (doff + 16 \<le> length blk \<and> md5 = buf_get doff 16 blk) \<and> P s"]])
   apply simp
  apply (intro valid_fact(1) valid_if)
   apply (rule valid_ret, simp)
  using assms
  apply (auto simp: store_def length_buf_put take_buf_put drop_buf_put buf_get_put_same buf_get_put_before buf_get_put_after
      intro!: valid_ret)
  done

sublocale flash_device < seama: md5_fixer K info content bad "seama_fix_md5 K" 8 12 0 12
proof
  show "valid (D True c) (seama_fix_md5 K blk 0 fd off n) (\<lambda>(err, blk') s. (err \<noteq> 0 \<longrightarrow> blk' = blk) \<and>
     length blk' = length blk \<and> take 8 blk' = take 8 blk \<and> buf_get 12 0 blk' = buf_get 12 0 blk \<and>
     drop (12 + 16) blk' = drop (12 + 16) blk \<and> (readable K content c off n \<longrightarrow> 12 + 16 \<le> length blk \<and>
       buf_get 12 16 blk' = md5 (buf_get 12 0 blk @ buf_get (unat off) (unat n) c)) \<and> D True c s)" for c blk fd off n
    unfolding seama_fix_md5_def Let_def
    apply (rule fix_data)
     apply (simp only: add_0)
     apply (rule valid_post [OF valid_set_header [where ioff = 12 and ilen = 0 and R = True]])
        apply simp_all [3]
     apply (auto simp: buf_get_def [of 12 0])
    done
qed simp_all

sublocale flash_device < wrg: md5_fixer K info content bad "wrg_fix_md5 K" 40 44 36 80
proof
  show "valid (D True c) (wrg_fix_md5 K blk 0 fd off n) (\<lambda>(err, blk') s. (err \<noteq> 0 \<longrightarrow> blk' = blk) \<and>
     length blk' = length blk \<and> take 40 blk' = take 40 blk \<and> buf_get 44 36 blk' = buf_get 44 36 blk \<and>
     drop (80 + 16) blk' = drop (80 + 16) blk \<and> (readable K content c off n \<longrightarrow> 80 + 16 \<le> length blk \<and>
       buf_get 80 16 blk' = md5 (buf_get 44 36 blk @ buf_get (unat off) (unat n) c)) \<and> D True c s)" for c blk fd off n
    unfolding wrg_fix_md5_def Let_def
    apply (rule fix_data)
     apply (simp only: add_0)
     apply (rule valid_bnd [OF valid_load [where Q = "\<lambda>x s. (length x = 4 \<and> x = buf_get 44 4 blk) \<and> D True c s"]], simp)
     apply (intro valid_fact(1))
     apply (rule valid_bnd [OF valid_load [where Q = "\<lambda>y s. (length y = 32 \<and> y = buf_get 48 32 blk) \<and> D True c s"]], simp)
     apply (intro valid_fact(1))
    subgoal premises p for buf x y
    proof -
      have xy: "x @ y = buf_get 44 36 blk" using p buf_get_append [of 44 4 32 blk] by simp
      note dig = p(3) [of x y, unfolded xy]
      show ?thesis
        unfolding dig [OF conjunct1 [OF p(4)] conjunct1 [OF p(5)]]
        by (rule valid_post [OF valid_set_header [where ioff = 44 and ilen = 36 and R = True]]) auto
    qed
    by (simp add: split_beta)
qed simp_all

sublocale flash_device < wrgg: md5_fixer K info content bad "wrgg_fix_md5 K" 104 108 36 144
proof
  show "valid (D True c) (wrgg_fix_md5 K blk 0 fd off n) (\<lambda>(err, blk') s. (err \<noteq> 0 \<longrightarrow> blk' = blk) \<and>
     length blk' = length blk \<and> take 104 blk' = take 104 blk \<and> buf_get 108 36 blk' = buf_get 108 36 blk \<and>
     drop (144 + 16) blk' = drop (144 + 16) blk \<and> (readable K content c off n \<longrightarrow> 144 + 16 \<le> length blk \<and>
       buf_get 144 16 blk' = md5 (buf_get 108 36 blk @ buf_get (unat off) (unat n) c)) \<and> D True c s)" for c blk fd off n
    unfolding wrgg_fix_md5_def Let_def
    apply (rule fix_data)
     apply (simp only: add_0)
     apply (rule valid_bnd [OF valid_load [where Q = "\<lambda>x s. (length x = 4 \<and> x = buf_get 108 4 blk) \<and> D True c s"]], simp)
     apply (intro valid_fact(1))
     apply (rule valid_bnd [OF valid_load [where Q = "\<lambda>y s. (length y = 32 \<and> y = buf_get 112 32 blk) \<and> D True c s"]], simp)
     apply (intro valid_fact(1))
    subgoal premises p for buf x y
    proof -
      have xy: "x @ y = buf_get 108 36 blk" using p buf_get_append [of 108 4 32 blk] by simp
      note dig = p(3) [of x y, unfolded xy]
      show ?thesis
        unfolding dig [OF conjunct1 [OF p(4)] conjunct1 [OF p(5)]]
        by (rule valid_post [OF valid_set_header [where ioff = 108 and ilen = 36 and R = True]]) auto
    qed
    by (simp add: split_beta)
qed simp_all

lemma buf_get_drop: "m \<le> off \<Longrightarrow> buf_get off n b = buf_get (off - m) n (drop m b)"
  by (simp add: buf_get_def)

lemma buf_get_append_left: "off + n \<le> length a \<Longrightarrow> buf_get off n (a @ b) = buf_get off n a"
  by (simp add: buf_get_def)

text \<open>The block with the header is written when the digest has changed.\<close>

definition md5_header_fixed :: "nat \<Rightarrow> nat \<Rightarrow> nat \<Rightarrow> nat \<Rightarrow> nat \<Rightarrow> nat \<Rightarrow> bytes \<Rightarrow> bytes \<Rightarrow> bool \<Rightarrow> bool" where
  "md5_header_fixed lo ioff ilen doff off n c c' read_ok \<longleftrightarrow>
     length c' = length c \<and> take lo c' = take lo c \<and> drop (doff + 16) c' = drop (doff + 16) c \<and>
     (read_ok \<longrightarrow> buf_get doff 16 c' = md5 (buf_get ioff ilen c' @ buf_get off n c'))"

lemma md5_header_fixed_block:
  assumes "length blk' = length blk" "take lo blk' = take lo blk" "buf_get ioff ilen blk' = buf_get ioff ilen blk"
    "drop (doff + 16) blk' = drop (doff + 16) blk"
    and "R \<Longrightarrow> doff + 16 \<le> length blk \<and> buf_get doff 16 blk' = md5 (buf_get ioff ilen blk @ buf_get off n (blk @ r))"
    and "ioff + ilen \<le> doff" "doff + 16 \<le> off"
  shows "md5_header_fixed lo ioff ilen doff off n (blk @ r) (blk' @ r) R"
  using assms by (auto simp: md5_header_fixed_def buf_get_append_left buf_get_drop [OF assms(7)])

context md5_fixer begin

lemma fixed_block:
  assumes blk: "blk = buf_get 0 E c" "length blk = E" "sint (info_erasesize info) = int E" and off: "doff + 16 \<le> unat off"
  shows "valid (D True c)
    (bnd (fix_md5 blk 0 fd off n) (\<lambda>(err, first_block).
     bnd (if err \<noteq> 0 then ret () else write_block K fd first_block 0) (\<lambda>_.
     bnd (call (k_close K fd)) (\<lambda>_.
     ret (0 :: int)))))
    (\<lambda>r s. r = 0 \<and> (\<exists>c'. D True c' s \<and>
       md5_header_fixed lo ioff ilen doff (unat off) (unat n) c c' (readable K content c off n)))"
proof -
  let ?Q = "\<lambda>c'. md5_header_fixed lo ioff ilen doff (unat off) (unat n) c c' (readable K content c off n)"
  have c: "c = blk @ drop E c" using blk(1) by (simp add: buf_get_def)
  have E: "E \<le> length c" using blk(1,2) by (simp add: buf_get_def)
  show ?thesis
  proof (rule valid_bnd [OF fix_md5 [OF off]])
    fix r :: "int \<times> bytes"
    obtain err b where r: "r = (err, b)" by (cases r)
    let ?A = "(err \<noteq> 0 \<longrightarrow> b = blk) \<and> length b = length blk \<and> take lo b = take lo blk \<and>
         buf_get ioff ilen b = buf_get ioff ilen blk \<and> drop (doff + 16) b = drop (doff + 16) blk \<and>
         (readable K content c off n \<longrightarrow> doff + 16 \<le> length blk \<and>
           buf_get doff 16 b = md5 (buf_get ioff ilen blk @ buf_get (unat off) (unat n) c))"
    have "valid (\<lambda>s. ?A \<and> D True c s)
      (bnd (if err \<noteq> 0 then ret () else write_block K fd b 0) (\<lambda>_. bnd (call (k_close K fd)) (\<lambda>_. ret 0)))
      (\<lambda>r s. r = 0 \<and> (\<exists>c'. D True c' s \<and> ?Q c'))"
    proof (rule valid_fact(1))
      assume A: ?A
      have q: "?Q (b @ drop E c)"
        using A layout off c [symmetric] md5_header_fixed_block [of b blk lo ioff ilen doff "readable K content c off n" "unat off" "unat n" "drop E c"]
        by simp
      have "valid (D True c) (if err \<noteq> 0 then ret () else write_block K fd b 0) (\<lambda>_. D True (b @ drop E c))"
      proof (rule valid_if)
        assume "err \<noteq> 0"
        then have "b = blk" using A by blast
        then have "b @ drop E c = c" using c by metis
        then show "valid (D True c) (ret ()) (\<lambda>_. D True (b @ drop E c))" by (intro valid_ret) simp
      next
        have l: "length b = E" using A blk(2) by metis
        then have p: "buf_put (unat (0 :: u64)) b c = b @ drop E c" by (simp add: buf_put_def)
        have "unat (0 :: u64) + E \<le> length c" using E by simp
        from dev_write_block [OF l blk(3) this] show "valid (D True c) (write_block K fd b 0) (\<lambda>_. D True (b @ drop E c))"
          unfolding p .
      qed
      then show "valid (D True c) (bnd (if err \<noteq> 0 then ret () else write_block K fd b 0) (\<lambda>_. bnd (call (k_close K fd)) (\<lambda>_. ret 0)))
        (\<lambda>r s. r = 0 \<and> (\<exists>c'. D True c' s \<and> ?Q c'))"
        by (rule valid_bnd) (rule valid_bnd [OF dev_calls(3)], rule valid_ret, use q in blast)
    qed
    then show "valid (case r of (err, blk') \<Rightarrow> \<lambda>s. (err \<noteq> 0 \<longrightarrow> blk' = blk) \<and> length blk' = length blk \<and> take lo blk' = take lo blk \<and>
         buf_get ioff ilen blk' = buf_get ioff ilen blk \<and> drop (doff + 16) blk' = drop (doff + 16) blk \<and>
         (readable K content c off n \<longrightarrow> doff + 16 \<le> length blk \<and>
           buf_get doff 16 blk' = md5 (buf_get ioff ilen blk @ buf_get (unat off) (unat n) c)) \<and> D True c s)
      (case r of (err, first_block) \<Rightarrow>
        bnd (if err \<noteq> 0 then ret () else write_block K fd first_block 0) (\<lambda>_. bnd (call (k_close K fd)) (\<lambda>_. ret 0)))
      (\<lambda>r s. r = 0 \<and> (\<exists>c'. D True c' s \<and> ?Q c'))"
      by (auto simp: r elim!: valid_pre)
  qed
qed
end

text \<open>The fields of the headers, and the amount of data they describe for a given \<open>data_size\<close>.\<close>

definition fix_data_size :: "u64 \<Rightarrow> u64 \<Rightarrow> u64 \<Rightarrow> u32 \<Rightarrow> u64" where
  "fix_data_size msz data_offset data_size len =
     (let data_size = (if data_size = 0 then msz - data_offset else data_size)
      in if data_size > ucast len then ucast len else data_size)"

definition seama_data_offset :: "bytes \<Rightarrow> u64" where
  "seama_data_offset c = 28 + ucast (be16 (drop 6 c))"

lemma seama_data_offset_ge: "12 + 16 \<le> unat (seama_data_offset c)"
proof -
  let ?m = "be16 (drop 6 c)"
  have "unat (ucast ?m :: u64) = unat ?m" by (simp add: unsigned_ucast_eq take_bit_nat_eq_self order.strict_trans2 [OF unsigned_less])
  moreover have "unat ?m < 2 ^ 16" using unsigned_less [of ?m, where 'a = nat] by simp
  ultimately have "unat (28 + ucast ?m :: u64) = 28 + unat ?m" by (subst unat_add_no_wrap) simp_all
  then show ?thesis by (simp add: seama_data_offset_def)
qed

lemma be16_take: "2 \<le> n \<Longrightarrow> be16 (take n b) = be16 b"
  by (simp add: be16_def)

lemma buf_get_take: "off + n \<le> m \<Longrightarrow> buf_get off n (take m b) = buf_get off n b"
  by (simp add: buf_get_def drop_take)

context flash_device begin

lemma size_int: "sint (info_size info) = uint (info_size info)"
  using content_size(2) uint_ge_0 [of "info_size info"]
  by (simp add: sint_uint signed_take_bit_int_eq_self_iff) (rule order_trans [of _ 0], simp, rule uint_ge_0)

lemma size_word: "of_int (sint (info_size info)) = (ucast (info_size info) :: u64)"
  unfolding size_int by simp

text \<open>The part before the header is looked at, for the offset \<open>0\<close> of all callers.\<close>

lemma fix_front:
  assumes g: "\<And>fd fb. fb = buf_get 0 E c \<Longrightarrow> length fb = E \<Longrightarrow> sint (info_erasesize info) = int E \<Longrightarrow>
    valid (D True c) (g fd 0 0 (sint (info_size info)) fb) Q"
  shows "valid (D False c)
    (bnd (gets erasesize) (\<lambda>esz.
     let block_offset = 0 AND NOT (of_int (esz - 1)); offset = 0 - block_offset in
     bnd (mtd_check_open K mtd) (\<lambda>fd. if fd < 0 then exit1 else
     bnd (gets erasesize) (\<lambda>esz. bnd (gets mtdsize) (\<lambda>msz.
     if block_offset + of_int esz > of_int msz then exit1 else
     bnd (read_block K fd block_offset) (\<lambda>first_block. g fd block_offset offset msz first_block)))))) Q"
proof -
  have z: "(0 :: u64) AND x = 0" "(0 :: u64) - 0 = 0" for x by simp_all
  show ?thesis
    unfolding Let_def z
    apply (rule valid_bnd [OF valid_gets [where Q = "\<lambda>_. D False c"]], assumption)
    apply (rule valid_bnd [OF dev_check_open])
    apply (rule valid_if, rule valid_stop)
    apply (simp only: not_less)
    apply (rule valid_bnd [OF valid_gets [where Q = "\<lambda>e s. e = sint (info_erasesize info) \<and> D True c s"]], simp add: dev_def)
    apply (intro valid_fact(1))
    apply (rule valid_bnd [OF valid_gets [where Q = "\<lambda>e s. e = sint (info_size info) \<and> D True c s"]], simp add: dev_def)
    apply (intro valid_fact(1) valid_if valid_stop)
    apply (rule valid_bnd [OF dev_read_block], intro valid_fact(1))
    apply (simp only:)
    apply (rule g; simp)
    done
qed

lemma fixseama_valid:
  defines "n c m \<equiv> fix_data_size (ucast (info_size info)) (seama_data_offset c) m (be32 (drop 8 c))"
  shows "valid (D False c) (mtd_fixseama K mtd 0 data_size) (\<lambda>r s. r = 0 \<and> (\<exists>c'. D True c' s \<and>
    md5_header_fixed 8 12 0 12 (unat (seama_data_offset c)) (unat (n c data_size)) c c' (readable K content c (seama_data_offset c) (n c data_size))))"
  unfolding mtd_fixseama_def
  apply (rule fix_front)
  subgoal premises p for fd fb
    apply (rule valid_bnd [OF valid_load [where Q = "\<lambda>_. D True c"]], assumption)
    apply (intro valid_if valid_stop)
    apply (rule valid_bnd [OF valid_load [where Q = "\<lambda>x s. x = buf_get 0 12 fb \<and> 12 \<le> E \<and> D True c s"]])
     apply (use p in simp)
    apply (intro valid_fact(1) valid_if valid_stop)
    subgoal premises q for a x
    proof -
      have x: "be32 (drop 8 x) = be32 (drop 8 c)" "be16 (drop 6 x) = be16 (drop 6 c)"
        using q by (simp_all add: p(1) be32_def be16_take buf_get_def drop_take)
      note m = seama.fixed_block [OF p(1,2,3) seama_data_offset_ge]
      show ?thesis
        unfolding x Let_def add_0 unat_0 size_word n_def seama_data_offset_def fix_data_size_def
        by (rule m [unfolded seama_data_offset_def])
    qed
    done
  done

lemma fixwrg_valid:
  defines "n c m \<equiv> fix_data_size (ucast (info_size info)) 96 m (bytes_u32 (drop 40 c))"
  shows "valid (D False c) (mtd_fixwrg K mtd 0 data_size) (\<lambda>r s. r = 0 \<and> (\<exists>c'. D True c' s \<and>
    md5_header_fixed 40 44 36 80 96 (unat (n c data_size)) c c' (readable K content c 96 (n c data_size))))"
  unfolding mtd_fixwrg_def
  apply (rule fix_front)
  subgoal premises p for fd fb
    apply (rule valid_bnd [OF valid_load [where Q = "\<lambda>_. D True c"]], assumption)
    apply (intro valid_if valid_stop)
    apply (rule valid_bnd [OF valid_load [where Q = "\<lambda>x s. x = buf_get 40 4 fb \<and> 40 + 4 \<le> E \<and> D True c s"]])
     apply (use p in simp)
    apply (intro valid_fact(1) valid_if valid_stop)
    subgoal premises q for a x
    proof -
      have x: "bytes_u32 x = bytes_u32 (drop 40 c)"
        using q p(2) by (auto simp: p(1) buf_get_def drop_take intro!: bytes_u32_cong)
      have "80 + 16 \<le> unat (96 :: u64)" by simp
      note m = wrg.fixed_block [OF p(1,2,3) this]
      show ?thesis
        unfolding x Let_def add_0 unat_0 size_word
        using m [unfolded n_def fix_data_size_def Let_def, simplified] unfolding n_def fix_data_size_def Let_def by simp
    qed
    done
  done

lemma fixwrgg_valid:
  defines "n c m \<equiv> fix_data_size (ucast (info_size info)) 160 m (bytes_u32 (drop 104 c))"
  shows "valid (D False c) (mtd_fixwrgg K mtd 0 data_size) (\<lambda>r s. r = 0 \<and> (\<exists>c'. D True c' s \<and>
    md5_header_fixed 104 108 36 144 160 (unat (n c data_size)) c c' (readable K content c 160 (n c data_size))))"
  unfolding mtd_fixwrgg_def
  apply (rule fix_front)
  subgoal premises p for fd fb
    apply (rule valid_bnd [OF valid_load [where Q = "\<lambda>_. D True c"]], assumption)
    apply (intro valid_if valid_stop)
    apply (rule valid_bnd [OF valid_load [where Q = "\<lambda>x s. x = buf_get 104 4 fb \<and> 104 + 4 \<le> E \<and> D True c s"]])
     apply (use p in simp)
    apply (intro valid_fact(1) valid_if valid_stop)
    subgoal premises q for a x
    proof -
      have x: "bytes_u32 x = bytes_u32 (drop 104 c)"
        using q p(2) by (auto simp: p(1) buf_get_def drop_take intro!: bytes_u32_cong)
      have "144 + 16 \<le> unat (160 :: u64)" by simp
      note m = wrgg.fixed_block [OF p(1,2,3) this]
      show ?thesis
        unfolding x Let_def add_0 unat_0 size_word
        using m [unfolded n_def fix_data_size_def Let_def, simplified] unfolding n_def fix_data_size_def Let_def by simp
    qed
    done
  done
end


text \<open>
  C33. Repairing a SEAMA header touches only the size and the digest, and it leaves, for every device, a digest that is the MD5
  of the data the header describes, when these can be read and there is memory for them; the result is 0 in any case,
  also when they cannot.
\<close>

theorem fixseama_header:
  assumes "flash_device K info content bad" "mtd_fixseama K mtd 0 data_size s = Some (Done r, t)"
    and "c = content (kst s)" "c' = content (kst t)" "d = seama_data_offset c"
    and "n = fix_data_size (ucast (info_size info)) d data_size (be32 (drop 8 c))"
  shows "r = 0 \<and> length c' = length c \<and> take 8 c' = take 8 c \<and> drop 28 c' = drop 28 c \<and>
    (readable K content c d n \<longrightarrow> buf_get 12 16 c' = md5 (buf_get (unat d) (unat n) c'))"
  using validD [OF flash_device.fixseama_valid [OF assms(1)] _ assms(2), of c] assms(3-)
  by (auto simp: dev_def md5_header_fixed_def buf_get_def [of 12 0])

definition seama_head :: bytes where
  "seama_head = [0x5E, 0xA3, 0xA4, 0x17, 0, 0, 0, 0, 0, 0, 0, 3, 1, 1, 1, 1, 1, 1, 1, 1, 1, 1, 1, 1, 1, 1, 1, 1, 0x61, 0x62, 0x63, 0]"

lemma md5_abc_pieces: "fst (MD5_Final (MD5_Update (MD5_Init md5_stack) [0x61, 0x62, 0x63] 3)) =
    [0x90, 0x1, 0x50, 0x98, 0x3c, 0xd2, 0x4f, 0xb0, 0xd6, 0x96, 0x3f, 0x7d, 0x28, 0xe1, 0x7f, 0x72]"
  using md5_pieces(1) [of "[0x61, 0x62, 0x63]"] by (simp add: md5_abc)

lemma sim_read_block:
  assumes "erasesize s = 32" "unat bo + 32 \<le> 128"
  shows "read_block (sim_kern bad) fd bo s = Some (Done (buf_get (unat bo) 32 (sim_content (kst s))), s)"
proof -
  have "buf_put 0 (buf_get (unat bo) 32 (sim_content (kst s))) (replicate 32 0xA5) = buf_get (unat bo) 32 (sim_content (kst s))"
    using assms(2) by (simp add: buf_put_def)
  then show ?thesis using assms by (simp add: read_block_def bnd_call ret_def)
qed

lemma sim_write_block:
  assumes "erasesize s = 32" "unat bo + 32 \<le> 128" "length b = 32" "\<not> bad (int (unat bo))"
  shows "write_block (sim_kern bad) fd b bo s =
    Some (Done (), s\<lparr>kst := (kst s)\<lparr>sim_data := buf_put (unat bo) b (sim_content (kst s))\<rparr>\<rparr>)"
proof -
  have u: "unat (of_int (to_int bo) :: u32) = unat bo"
    unfolding of_int_to_int using assms(2) by (intro unat_ucast_low) simp
  have "uint (of_int (to_int bo) :: u32) = int (unat bo)" unfolding u [symmetric] by simp
  moreover have "buf_get (unat bo) 32 (memset (unat bo) 0xFF 32 (sim_content (kst s))) = replicate 32 0xFF"
    using assms(2) by (simp add: memset_def buf_get_put_same)
  moreover have "map2 (AND) (replicate 32 0xFF) b = b" using and_erased [of b] assms(3) by simp
  ultimately show ?thesis
    using assms u
    by (simp add: write_block_def mtd_erase_block_def bnd_assoc bnd_call ret_def sim_program_def sim_content_stored length_memset
      memset_def length_buf_put buf_put_put_same buf_get_put_same)
qed

definition seama_fixed :: bytes where
  "seama_fixed = [0x5E, 0xA3, 0xA4, 0x17, 0, 0, 0, 0, 0, 0, 0, 3, 0x90, 0x1, 0x50, 0x98, 0x3c, 0xd2, 0x4f, 0xb0,
     0xd6, 0x96, 0x3f, 0x7d, 0x28, 0xe1, 0x7f, 0x72, 0x61, 0x62, 0x63, 0]"

lemma seama_head_facts:
  "length seama_head = 32" "be32 (buf_get 0 4 seama_head) = SEAMA_MAGIC" "be32 (drop 8 (buf_get 0 12 seama_head)) = 3"
  "be16 (drop 6 (buf_get 0 12 seama_head)) = 0" "buf_get 28 3 seama_head = [0x61, 0x62, 0x63]"
  "buf_get 12 16 seama_head = [1, 1, 1, 1, 1, 1, 1, 1, 1, 1, 1, 1, 1, 1, 1, 1]"
  "buf_put 12 [0x90, 0x1, 0x50, 0x98, 0x3c, 0xd2, 0x4f, 0xb0, 0xd6, 0x96, 0x3f, 0x7d, 0x28, 0xe1, 0x7f, 0x72]
    (buf_put 8 (be32_bytes 3) seama_head) = seama_fixed"
  by code_simp+

lemma sim_fixseama:
  assumes "sim_content (kst s) = seama_head @ replicate 96 0xFF"
  shows "mtd_fixseama (sim_kern (\<lambda>_. False)) ''firmware'' 0 0 s =
    Some (Done 0, s\<lparr>kst := (kst s)\<lparr>sim_data := seama_fixed @ replicate 96 0xFF\<rparr>, mtdsize := 128, erasesize := 32, mtdtype := 4\<rparr>)"
proof -
  let ?s = "s\<lparr>mtdsize := 128, erasesize := 32, mtdtype := 4\<rparr>"
  have rd: "read_block (sim_kern (\<lambda>_. False)) 3 0 ?s = Some (Done seama_head, ?s)"
    using sim_read_block [of ?s 0] assms seama_head_facts(1) by (simp add: buf_get_def)
  have fx: "seama_fix_md5 (sim_kern (\<lambda>_. False)) seama_head 0 3 28 3 ?s = Some (Done (0, seama_fixed), ?s)"
    using assms seama_head_facts
    by (simp add: seama_fix_md5_def bnd_call buf_get_append_left Let_def load_def md5_abc_pieces store_def length_buf_put ret_def  )
  have l: "length seama_fixed = 32" by (simp add: seama_fixed_def)
  have wr: "write_block (sim_kern (\<lambda>_. False)) 3 seama_fixed 0 ?s =
      Some (Done (), ?s\<lparr>kst := (kst s)\<lparr>sim_data := seama_fixed @ replicate 96 0xFF\<rparr>\<rparr>)"
    using sim_write_block [of ?s 0 seama_fixed "\<lambda>_. False"] assms l seama_head_facts(1) by (simp add: buf_put_def)
  show ?thesis
    using seama_head_facts(1-4)
    by (simp add: mtd_fixseama_def Let_def bnd_Done [OF sim_check_open] bnd_Done [of "read_block (sim_kern (\<lambda>_. False)) 3 0" ?s, OF rd]
      bnd_Done [of "seama_fix_md5 (sim_kern (\<lambda>_. False)) seama_head 0 3 28 3" ?s, OF fx]
      bnd_Done [of "write_block (sim_kern (\<lambda>_. False)) 3 seama_fixed 0" ?s, OF wr] load_def bnd_call ret_def)
qed

theorem fixseama_header_witness:
  "buf_get 12 16 (seama_fixed @ replicate 96 0xFF) = md5 [0x61, 0x62, 0x63]"
proof -
  let ?c = "seama_head @ replicate 96 0xFF" and ?c' = "seama_fixed @ replicate 96 0xFF"
  have l: "length seama_head = 32" "length seama_fixed = 32" by (simp_all add: seama_head_def seama_fixed_def)
  have c: "sim_content (kst (sim_state ?c [])) = ?c" using l by (simp add: sim_state_def sim_content_def)
  have d: "seama_data_offset ?c = 28" by (simp add: seama_data_offset_def seama_head_def be16_def)
  have n: "fix_data_size (ucast (info_size sim_info)) 28 0 (be32 (drop 8 ?c)) = 3"
    by (simp add: fix_data_size_def sim_info_def seama_head_def be32_def bytes_u32_def)
  have r: "readable (sim_kern (\<lambda>_. False)) sim_content ?c 28 3" using l by (auto simp: readable_def)
  note f = fixseama_header [OF sim.flash_device_axioms sim_fixseama [OF c] refl refl refl refl, unfolded c d n]
  have "buf_get 12 16 (sim_content ((kst (sim_state ?c []))\<lparr>sim_data := ?c'\<rparr>)) =
      md5 (buf_get 28 3 (sim_content ((kst (sim_state ?c []))\<lparr>sim_data := ?c'\<rparr>)))"
    using f r by simp
  moreover have "sim_content ((kst (sim_state ?c []))\<lparr>sim_data := ?c'\<rparr>) = ?c'" using l by (intro sim_content_stored) simp
  moreover have "buf_get 28 3 ?c' = [0x61, 0x62, 0x63]" by (simp add: seama_fixed_def buf_get_def)
  ultimately show ?thesis by simp
qed


section \<open>TRX headers\<close>

text \<open>The bytes of a range that are in good blocks.\<close>

definition good_bytes :: "(nat \<Rightarrow> bool) \<Rightarrow> nat \<Rightarrow> bytes \<Rightarrow> nat \<Rightarrow> nat \<Rightarrow> bytes" where
  "good_bytes good esz c a n = map (nth c) (filter (\<lambda>i. good (i div esz * esz)) [a..<a + n])"

lemma good_bytes_0 [simp]: "good_bytes good esz c a 0 = []"
  by (simp add: good_bytes_def)

lemma good_bytes_add: "good_bytes good esz c a (m + n) = good_bytes good esz c a m @ good_bytes good esz c (a + m) n"
  using upt_add_eq_append [of a "a + m" n] by (simp add: good_bytes_def add.assoc)

lemma filter_block:
  assumes "m \<le> esz - a mod esz" "0 < esz"
  shows "filter (\<lambda>i. good (i div esz * esz)) [a..<a + m] = filter (\<lambda>i. good (a div esz * esz)) [a..<a + m]"
proof -
  have "i div esz = a div esz" if "a \<le> i" "i < a + m" for i
  proof -
    have a: "esz * (a div esz) + a mod esz = a" by (rule mult_div_mod_eq)
    have "a mod esz + (i - a) < esz" using that assms(1) mod_less_divisor [OF assms(2), of a] by linarith
    then have "esz * (a div esz) \<le> i" "i < esz * Suc (a div esz)"
      using that a unfolding mult_Suc_right by linarith+
    then show ?thesis by (rule div_nat_eqI)
  qed
  then show ?thesis
    by (intro filter_cong refl arg_cong [of _ _ "\<lambda>q. good (q * esz)"]) (simp only: set_upt atLeastLessThan_iff)
qed

lemma good_bytes_block:
  assumes "m \<le> esz - a mod esz" "0 < esz"
  shows "\<not> good (a div esz * esz) \<Longrightarrow> good_bytes good esz c a m = []"
    "good (a div esz * esz) \<Longrightarrow> a + m \<le> length c \<Longrightarrow> good_bytes good esz c a m = buf_get a m c"
  using filter_block [OF assms, of good] by (auto simp: good_bytes_def buf_get_def intro!: nth_equalityI)

lemma mask_nat: "unat ((x :: u64) AND (2 ^ p - 1)) = unat x mod 2 ^ p" if "p < 64"
proof -
  have "(2 :: u64) ^ p - 1 = mask p" by (simp add: mask_eq_exp_minus_1)
  then have "x AND (2 ^ p - 1) = x mod 2 ^ p" by (simp add: take_bit_eq_mod flip: take_bit_eq_mask)
  then show ?thesis using unat_two_power [of p, where 'a = 64] that by (simp add: unat_mod)
qed

lemma not_mask_nat: "unat ((x :: u64) AND NOT (2 ^ p - 1)) = unat x div 2 ^ p * 2 ^ p" if "p < 64"
proof -
  have m: "(2 :: u64) ^ p - 1 = mask p" by (simp add: mask_eq_exp_minus_1)
  have "x AND NOT (mask p) = push_bit p (drop_bit p x)"
    by (rule bit_word_eqI) (auto simp: bit_simps)
  moreover have "push_bit p (drop_bit p x) = x - take_bit p x" using bits_ident [of p x] by (simp add: algebra_simps)
  ultimately have e: "x AND NOT (2 ^ p - 1) = x - (x AND (2 ^ p - 1))" by (simp only: m take_bit_eq_mask)
  have "unat (x AND (2 ^ p - 1)) \<le> unat x" unfolding mask_nat [OF that] by (rule mod_less_eq_dividend)
  then have "unat (x - (x AND (2 ^ p - 1))) = unat x - unat x mod 2 ^ p"
    by (simp add: unat_sub word_le_nat_alt mask_nat [OF that])
  then show ?thesis unfolding e by (simp add: minus_mod_eq_div_mult)
qed

lemma valid_cong: "(\<And>s. m s = m' s) \<Longrightarrow> valid P m' Q \<Longrightarrow> valid P m Q"
  by (simp add: valid_def)

lemma sint_two_power: "p < 31 \<Longrightarrow> sint (2 ^ p :: u32) = 2 ^ p"
proof -
  assume p: "p < 31"
  have "(2 :: int) ^ p < 2 ^ 31" using p by (intro power_strict_increasing) simp_all
  moreover have "0 \<le> (2 :: int) ^ p" by simp
  ultimately have "signed_take_bit 31 ((2 :: int) ^ p) = 2 ^ p" by (intro signed_take_bit_int_eq_self) linarith+
  then show ?thesis using sint_sbintrunc' [where 'a = 32, of "2 ^ p"] by simp
qed

lemma signed_small: "m < 2 ^ 31 \<Longrightarrow> signed_take_bit 31 (int m) = int m"
  by (intro signed_take_bit_int_eq_self) simp_all

lemma to_int_small: "unat x < 2 ^ 31 \<Longrightarrow> to_int x = int (unat x)"
proof -
  assume a: "unat x < 2 ^ 31"
  have "uint (ucast x :: u32) = int (unat x)"
    using a unfolding uint_nat of_nat_eq_iff by (intro unat_ucast_low) simp
  moreover have "signed_take_bit 31 (int (unat x)) = int (unat x)" using a by (rule signed_small)
  ultimately show ?thesis unfolding to_int_def sint_uint by simp
qed

lemma page_chunk:
  fixes x n :: u64
  assumes p: "p < 31"
  defines "chunk \<equiv> min (2 ^ p - (x AND (2 ^ p - 1))) n"
  shows "unat chunk = min (2 ^ p - unat x mod 2 ^ p) (unat n)"
proof -
  have two: "unat (2 ^ p :: u64) = 2 ^ p" using p by (intro unat_two_power) simp
  have m: "unat (x AND (2 ^ p - 1)) = unat x mod 2 ^ p" using p by (intro mask_nat) simp
  have "unat (2 ^ p - (x AND (2 ^ p - 1))) = 2 ^ p - unat x mod 2 ^ p"
    by (subst unat_sub) (simp_all add: word_le_nat_alt two m less_imp_le)
  then show ?thesis by (simp add: chunk_def min_def word_le_nat_alt)
qed

context flash_device begin

abbreviation is_good :: "nat \<Rightarrow> bool" where
  "is_good i \<equiv> \<not> (uint (info_type info) = MTD_NANDFLASH \<and> bad (int i))"

lemma dev_trx_read_data:
  assumes p: "info_erasesize info = 2 ^ p" "p < 31"
  shows "unat x + unat n < 2 ^ 31 \<Longrightarrow> valid (D True c) (trx_read_data K fd x n acc)
    (\<lambda>buf. \<lambda>s. buf = acc @ good_bytes is_good E c (unat x) (unat n) \<and> D True c s)"
proof (induction "unat n" arbitrary: x n acc rule: less_induct)
  case less
  have E: "E = 2 ^ p" unfolding p(1) using p(2) by (intro unat_two_power) simp
  have e: "sint (info_erasesize info) = 2 ^ p" unfolding p(1) using p(2) by (rule sint_two_power)
  let ?chunk = "min (2 ^ p - (x AND (2 ^ p - 1))) n"
  have ch: "unat ?chunk = min (E - unat x mod E) (unat n)" unfolding E using page_chunk [OF p(2)] .
  show ?case
  proof (cases "n = 0")
    case True
    then show ?thesis by (intro valid_cong [OF trx_read_data.simps]) (auto simp: valid_def)
  next
    case False
    have of_e: "of_int (2 ^ p - 1) = (2 ^ p - 1 :: u64)" "of_int (2 ^ p) = (2 ^ p :: u64)" by simp_all
    have E0: "0 < E" unfolding E by simp
    have blk: "to_int (x AND NOT (2 ^ p - 1)) = int (unat x div E * E)"
    proof -
      have u: "unat (x AND NOT (2 ^ p - 1)) = unat x div E * E" unfolding E using p(2) by (intro not_mask_nat) simp
      have "unat x div E * E \<le> unat x" by (rule div_times_less_eq_dividend)
      then have "unat x div E * E < 2 ^ 31" using less.prems by linarith
      then show ?thesis using to_int_small [of "x AND NOT (2 ^ p - 1)"] unfolding u by blast
    qed
    have n0: "0 < unat n" using False by (metis gr0I unat_eq_zero)
    have chn: "unat ?chunk \<le> unat n" "0 < unat ?chunk" unfolding ch using n0 E0 by auto
    have next_x: "unat (x + ?chunk) = unat x + unat ?chunk" using less.prems chn by (intro unat_add_no_wrap) simp
    have next_n: "unat (n - ?chunk) = unat n - unat ?chunk" using chn by (intro unat_sub) (simp add: word_le_nat_alt)
    have split: "good_bytes is_good E c (unat x) (unat n) = good_bytes is_good E c (unat x) (unat ?chunk) @
        good_bytes is_good E c (unat (x + ?chunk)) (unat (n - ?chunk))"
      unfolding next_x next_n good_bytes_add [symmetric] using chn by simp
    show ?thesis
      apply (rule valid_cong [OF trx_read_data.simps])
      apply (simp only: False if_False)
      apply (rule valid_bnd [OF valid_gets [where Q = "\<lambda>e s. e = 2 ^ p \<and> D True c s"]], simp add: dev_def e)
      apply (intro valid_fact(1))
      apply (simp only: Let_def of_e)
      apply (rule valid_bnd [OF dev_block_is_bad], intro valid_fact(1))
      apply (rule valid_bnd [where R = "\<lambda>a s. a = acc @ good_bytes is_good E c (unat x) (unat ?chunk) \<and> D True c s"])
       apply (rule valid_if)
        apply (rule valid_bnd [OF dev_pread], intro valid_fact(1) valid_sum valid_stop valid_if valid_ret)
      subgoal premises q for e isbad res b s
      proof -
        have b: "of_nat (length b) = ?chunk" "length b \<le> unat ?chunk" "b = buf_get (unat x) (length b) c" using q by auto
        have "length b < 2 ^ 31" using b(2) chn(1) less.prems by linarith
        then have len: "length b = unat ?chunk" using data_length(1) [OF b(1,2)] by simp
        have b': "b = buf_get (unat x) (unat ?chunk) c" using b(3) unfolding len .
        have "length b \<le> length c - unat x" using arg_cong [OF b(3), of length] unfolding length_buf_get by linarith
        then have "unat x + unat ?chunk \<le> length c" using len chn(2) by linarith
        moreover have "is_good (unat x div E * E)" using q by (simp add: blk)
        ultimately have "good_bytes is_good E c (unat x) (unat ?chunk) = b"
          using good_bytes_block(2) [of "unat ?chunk" E "unat x" is_good c] E0 b' ch by simp
        then show ?thesis using q by simp
      qed
       apply (rule valid_ret)
      subgoal premises q for e isbad s
        using q good_bytes_block(1) [of "unat ?chunk" E "unat x" is_good c] E0 ch by (simp add: blk)
      apply (intro valid_fact(1))
      subgoal for e isbad a
        using less.hyps [of "n - ?chunk" "x + ?chunk" a] chn less.prems unfolding next_x next_n split by simp
      done
  qed
qed
end

lemma u32_bytes_bytes_u32: "length b = 4 \<Longrightarrow> u32_bytes (bytes_u32 b) = b"
proof -
  assume l: "length b = 4"
  have "ucast (bytes_u32 b) = b ! 0" "ucast (drop_bit 8 (bytes_u32 b)) = b ! 1"
    "ucast (drop_bit 16 (bytes_u32 b)) = b ! 2" "ucast (drop_bit 24 (bytes_u32 b)) = b ! 3"
    by (rule bit_word_eqI, auto simp: bytes_u32_def bit_simps dest: bit_imp_le_length)+
  then have "u32_bytes (bytes_u32 b) = [b ! 0, b ! 1, b ! 2, b ! 3]" by (simp only: u32_bytes_def)
  also have "\<dots> = b" using l by (cases b rule: list.exhaust; auto simp: numeral_eq_Suc length_Suc_conv)
  finally show ?thesis .
qed

lemma buf_put_block:
  "k + length x \<le> n \<Longrightarrow> bo + n \<le> length c \<Longrightarrow> buf_put bo (buf_put k x (buf_get bo n c)) c = buf_put (bo + k) x c"
proof -
  assume k: "k + length x \<le> n" and n: "bo + n \<le> length c"
  define A B C where "A = take bo c" and "B = take n (drop bo c)" and "C = drop n (drop bo c)"
  have c: "c = A @ B @ C" by (simp only: A_def B_def C_def append_take_drop_id)
  have l: "length A = bo" "length B = n" using n by (simp_all add: A_def B_def)
  show ?thesis using k by (simp add: c l buf_put_def buf_get_def)
qed

lemma buf_get_buf_get: "k + n \<le> m \<Longrightarrow> buf_get k n (buf_get off m b) = buf_get (off + k) n b"
  by (simp add: buf_get_def drop_take min_def add.commute)

lemma buf_put_append: "length x = m \<Longrightarrow> k + m + length y \<le> length b \<Longrightarrow> buf_put (k + m) y (buf_put k x b) = buf_put k (x @ y) b"
  by (simp add: buf_put_def take_append add.commute add.left_commute)

lemma buf_put_same: "k + n \<le> length b \<Longrightarrow> buf_put k (buf_get k n b) b = b"
  by (simp add: buf_put_def buf_get_def add.commute) (metis append_assoc append_take_drop_id drop_drop take_add)

lemma trx_len_word:
  assumes "l + 12 < 2 ^ 32"
  shows "ucast (of_nat l + 12 :: u64) = (of_nat (l + 12) :: u32)"
    "(ucast (w :: u32) = (of_nat l + 12 :: u64)) = (w = of_nat (l + 12))"
proof -
  have u: "unat (of_nat l + 12 :: u64) = l + 12"
    using unat_of_nat_small [of "l + 12", where 'a = 64] assms by simp
  have v: "unat (of_nat (l + 12) :: u32) = l + 12" using assms by (intro unat_of_nat_small) simp
  show "ucast (of_nat l + 12 :: u64) = (of_nat (l + 12) :: u32)"
    unfolding word_unat_eq_iff unat_ucast_u64_u32 u v using assms by simp
  show "(ucast (w :: u32) = (of_nat l + 12 :: u64)) = (w = of_nat (l + 12))"
    unfolding word_unat_eq_iff u v by simp
qed

lemma crc32buf_prog_all: "length b < 2 ^ 31 \<Longrightarrow> crc32buf_prog 0 (of_nat (length b)) b = ret (crc32buf b)"
proof -
  assume b: "length b < 2 ^ 31"
  then have "unat (of_nat (length b) :: u64) = length b" by (intro unat_of_nat_small) simp
  then have "to_int (of_nat (length b)) = int (length b)" using to_int_small [of "of_nat (length b)"] b by simp
  then show ?thesis by (simp add: crc32buf_prog_def crc32buf_def fun_eq_iff)
qed

lemma length_good_bytes: "length (good_bytes good esz c a n) \<le> n"
  using length_filter_le [of _ "[a..<a + n]"] by (simp add: good_bytes_def)

context flash_device begin

lemma valid_dev:
  "(length c < 2 ^ 31 \<Longrightarrow> length c = unat (info_size info) \<Longrightarrow> valid (D v c) m Q) \<Longrightarrow> valid (D v c) m Q"
proof (rule validI)
  fix s a t
  assume v: "length c < 2 ^ 31 \<Longrightarrow> length c = unat (info_size info) \<Longrightarrow> valid (D v c) m Q"
    and s: "D v c s" and run: "m s = Some (Done a, t)"
  have "length c = unat (info_size info)" using length_dev(2) [OF s] unfolding uint_nat of_nat_eq_iff .
  from validD [OF v [OF length_dev(1) [OF s] this] s run] show "Q a t" .
qed

lemma fixtrx_valid:
  assumes p: "info_erasesize info = 2 ^ p" "4 \<le> p" "p < 31"
    and small: "unat offset + unat data_size < 2 ^ 63"
  defines "n \<equiv> if data_size = 0 then E - 12 else unat data_size + 16"
  shows "valid (D False c) (mtd_fixtrx K mtd offset data_size) (\<lambda>r s. r = 0 \<and>
    (\<exists>d. d = good_bytes is_good E c (unat offset + 12) n \<and> unat offset + 12 + n \<le> length c \<and>
       D True (buf_put (unat offset + 4) (u32_bytes (of_nat (length d + 12)) @ u32_bytes (crc32buf d)) c) s))"
proof -
  let ?d = "good_bytes is_good E c (unat offset + 12) n"
  let ?new = "u32_bytes (of_nat (length ?d + 12)) @ u32_bytes (crc32buf ?d)"
  have E: "E = 2 ^ p" unfolding p(1) using p(3) by (intro unat_two_power) simp
  have e: "sint (info_erasesize info) = 2 ^ p" unfolding p(1) using p(3) by (rule sint_two_power)
  have E16: "16 \<le> E" unfolding E using power_increasing [OF p(2), of "2 :: nat"] by simp
  have E0: "0 < E" using E16 by simp
  have of_e: "of_int (2 ^ p - 1) = (2 ^ p - 1 :: u64)" by simp
  define bo where "bo = offset AND NOT (2 ^ p - 1 :: u64)"
  define o' where "o' = offset - bo"
  have bo: "unat bo = unat offset div E * E" unfolding bo_def E using p(3) by (intro not_mask_nat) simp
  have bo_le: "unat bo \<le> unat offset" unfolding bo by (rule div_times_less_eq_dividend)
  then have o': "unat o' = unat offset - unat bo" unfolding o'_def by (intro unat_sub) (simp add: word_le_nat_alt)
  have off: "unat offset = unat bo + unat o'" using o' bo_le by simp
  have do': "unat (offset + 12) = unat offset + 12" using small by (subst unat_add_no_wrap) simp_all
  define dsz where "dsz = (if data_size \<noteq> 0 then data_size + 16 else of_int (2 ^ p - 12) :: u64)"
  have "(12 :: nat) \<le> 2 ^ p" using E16 unfolding E by simp
  then have "of_int (2 ^ p - 12) = (of_nat (2 ^ p - 12) :: u64)" by (simp add: of_nat_diff)
  moreover have "(2 :: nat) ^ p < 2 ^ 31" using p(3) by (intro power_strict_increasing) simp_all
  ultimately have "unat (of_int (2 ^ p - 12) :: u64) = E - 12" unfolding E by (simp only:) (intro unat_of_nat_small, simp)
  moreover have "unat (data_size + 16) = unat data_size + 16" using small by (subst unat_add_no_wrap) simp_all
  ultimately have dsz: "unat dsz = n" unfolding dsz_def n_def by simp
  show ?thesis
  proof (rule valid_dev)
  assume len: "length c < 2 ^ 31" "length c = unat (info_size info)"
  show ?thesis
    unfolding mtd_fixtrx_def TRX_CRC32_DATA_OFFSET_def TRX_CRC32_DATA_SIZE_def
    apply (rule valid_bnd [OF dev_check_open])
    apply (rule valid_if, rule valid_stop)
    apply (simp only: not_less)
    apply (rule valid_bnd [OF valid_gets [where Q = "\<lambda>e s. e = 2 ^ p \<and> D True c s"]], simp add: dev_def e)
    apply (intro valid_fact(1))
    apply (rule valid_bnd [OF valid_gets [where Q = "\<lambda>e s. e = sint (info_size info) \<and> D True c s"]], simp add: dev_def)
    apply (intro valid_fact(1))
    apply (simp only: Let_def of_e size_word bo_def [symmetric] o'_def [symmetric] dsz_def [symmetric])
    apply (rule valid_if, rule valid_stop)
    apply (rule valid_bnd [OF dev_read_block], intro valid_fact(1))
    apply (rule valid_bnd [OF valid_load [where Q = "\<lambda>_. D True c"]], assumption)
    apply (rule valid_if, rule valid_stop)
    apply (rule valid_bnd [OF dev_malloc], intro valid_fact(1))
    apply (rule valid_if, rule valid_stop)
    subgoal premises q for fd e z fb magic m
    proof -
      have fb: "fb = buf_get (unat bo) E c" "length fb = E" using q by blast+
      have "E < 2 ^ 31" unfolding E using p(3) by (intro power_strict_increasing) simp_all
      moreover have "n \<le> E + unat data_size + 16" unfolding n_def using diff_le_self [of E 12] by (split if_split) linarith
      ultimately have "unat offset + 12 + n < 2 ^ 64" using small by simp
      then have sum: "unat (offset + 12 + dsz) = unat offset + 12 + n" using do' dsz by (subst unat_add_no_wrap) simp_all
      have range: "unat offset + 12 + n \<le> length c"
      proof -
        have "\<not> ucast (info_size info) < offset + 12 + dsz" using q by blast
        then show ?thesis unfolding word_less_nat_alt sum len(2) by simp
      qed
      have "length ?d \<le> n" by (rule length_good_bytes)
      then have d31: "length ?d < 2 ^ 31" and d32: "length ?d + 12 < 2 ^ 32" using range len(1) by simp_all
      have bE: "unat bo + E \<le> length c" using fb E0 by (simp add: buf_get_def)
      have rd: "valid (D True c) (trx_read_data K fd (offset + 12) dsz []) (\<lambda>buf s. buf = ?d \<and> D True c s)"
        using dev_trx_read_data [OF p(1,3), of "offset + 12" dsz c fd "[]"] range len(1) unfolding do' dsz by simp
      show ?thesis
        apply (rule valid_bnd [OF rd], intro valid_fact(1))
        apply (rule valid_bnd [OF valid_load [where Q = "\<lambda>x s. (unat o' + 12 \<le> E \<and> x = buf_get (unat offset + 4) 8 c) \<and> D True c s"]])
         apply (use fb off in \<open>simp add: buf_get_buf_get add.assoc\<close>)
        apply (intro valid_fact(1))
        apply (simp only: crc32buf_prog_all [OF d31] bnd_steps trx_len_word [OF d32])
        subgoal premises r for buf lc
        proof -
          have lc: "lc = buf_get (unat offset + 4) 8 c" "unat o' + 12 \<le> E" using r by blast+
          have l8: "length lc = 8" using lc bE off by simp
          have "lc = take 4 lc @ drop 4 lc" by simp
          moreover have "u32_bytes (bytes_u32 lc) = take 4 lc"
            using u32_bytes_bytes_u32 [of "take 4 lc"] bytes_u32_cong [of "take 4 lc" lc] l8 by simp
          moreover have "u32_bytes (bytes_u32 (drop 4 lc)) = drop 4 lc" using l8 by (intro u32_bytes_bytes_u32) simp
          ultimately have same: "buf_put (unat offset + 4) (u32_bytes (bytes_u32 lc) @ u32_bytes (bytes_u32 (drop 4 lc))) c = c"
            using buf_put_same [of "unat offset + 4" 8 c] lc bE off by simp
          have wr: "buf_put (unat bo) (buf_put (unat o' + 8) (u32_bytes (crc32buf ?d))
              (buf_put (unat o' + 4) (u32_bytes (of_nat (length ?d + 12))) fb)) c = buf_put (unat offset + 4) ?new c"
            using buf_put_append [of "u32_bytes (of_nat (length ?d + 12))" 4 "unat o' + 4" "u32_bytes (crc32buf ?d)" fb]
              buf_put_block [of "unat o' + 4" ?new E "unat bo" c] fb lc(2) bE off by (simp add: add.assoc del: of_nat_add)
          have st: "bnd (store (unat o' + 4) (u32_bytes (of_nat (length ?d + 12))) fb) (\<lambda>fb.
              bnd (store (unat o' + 8) (u32_bytes (crc32buf ?d)) fb) f) =
            f (buf_put (unat o' + 8) (u32_bytes (crc32buf ?d)) (buf_put (unat o' + 4) (u32_bytes (of_nat (length ?d + 12))) fb))" for f
            using fb lc(2) by (simp add: store_def length_buf_put del: of_nat_add)
          have wb: "valid (D True c) (write_block K fd (buf_put (unat o' + 8) (u32_bytes (crc32buf ?d))
              (buf_put (unat o' + 4) (u32_bytes (of_nat (length ?d + 12))) fb)) bo) (\<lambda>_. D True (buf_put (unat offset + 4) ?new c))"
            unfolding wr [symmetric] using fb lc(2) bE E e by (intro dev_write_block) (simp_all add: length_buf_put del: of_nat_add)
          show ?thesis
            apply (rule valid_if)
             apply (rule valid_bnd [OF dev_calls(3)], rule valid_ret)
            subgoal premises u for _ s
            proof -
              have "bytes_u32 lc = of_nat (length ?d + 12)" "bytes_u32 (drop 4 lc) = crc32buf ?d"
                using u lc(1) by (simp_all only:)
              then show ?thesis using same u range by simp
            qed
            unfolding st
            apply (rule valid_bnd [OF wb], rule valid_bnd [OF dev_calls(3)], rule valid_ret)
            apply (use range in blast)
            done
        qed
        done
    qed
    done
  qed
qed
end

lemma good_bytes_cong: "drop a c' = drop a c \<Longrightarrow> a + n \<le> length c \<Longrightarrow> length c' = length c \<Longrightarrow> good_bytes g e c' a n = good_bytes g e c a n"
proof -
  assume d: "drop a c' = drop a c" and l: "a + n \<le> length c" "length c' = length c"
  have "c' ! i = c ! i" if "a \<le> i" "i < a + n" for i
    using arg_cong [OF d, of "\<lambda>x. x ! (i - a)"] that l by simp
  then show ?thesis by (simp add: good_bytes_def)
qed

text \<open>
  C32. Repairing a TRX header: when \<open>mtd_fixtrx\<close> returns, the length and the checksum in the header at
  \<open>offset\<close> are those of the data behind them without the bytes in bad blocks, which the boot loader skips, too, and no
  other byte of the device has changed.
\<close>

theorem fixtrx_header:
  assumes "flash_device K info content bad" "info_erasesize info = 2 ^ p" "4 \<le> p" "p < 31"
    and "unat offset + unat data_size < 2 ^ 63" "mtd_fixtrx K mtd offset data_size s = Some (Done r, t)"
    and "c = content (kst s)" "c' = content (kst t)" "n = (if data_size = 0 then 2 ^ p - 12 else unat data_size + 16)"
    and "d = good_bytes (\<lambda>i. \<not> (uint (info_type info) = MTD_NANDFLASH \<and> bad (int i))) (2 ^ p) c' (unat offset + 12) n"
  shows "r = 0 \<and> bytes_u32 (drop (unat offset + 4) c') = of_nat (length d + 12) \<and>
    bytes_u32 (drop (unat offset + 8) c') = crc32buf d \<and>
    take (unat offset + 4) c' = take (unat offset + 4) c \<and> drop (unat offset + 12) c' = drop (unat offset + 12) c"
proof -
  let ?g = "\<lambda>i. \<not> (uint (info_type info) = MTD_NANDFLASH \<and> bad (int i))"
  have E: "unat (info_erasesize info) = 2 ^ p" unfolding assms(2) using assms(4) by (intro unat_two_power) simp
  have "dev info content False c s" using assms(7) by (simp add: dev_def)
  from validD [OF flash_device.fixtrx_valid [OF assms(1-5)] this assms(6)]
  obtain d' where r: "r = 0" and d': "d' = good_bytes ?g (2 ^ p) c (unat offset + 12) n"
    and len: "unat offset + 12 + n \<le> length c"
    and c': "c' = buf_put (unat offset + 4) (u32_bytes (of_nat (length d' + 12)) @ u32_bytes (crc32buf d')) c"
    unfolding E assms(8,9) by (auto simp: dev_def)
  have dr: "drop (unat offset + 12) c' = drop (unat offset + 12) c" unfolding c' using len by (intro drop_buf_put) simp_all
  have "length c' = length c" unfolding c' using len by (intro length_buf_put) simp
  then have d: "d = d'" unfolding assms(10) d' using good_bytes_cong [OF dr] len by simp
  have "drop (unat offset + 4) c' = u32_bytes (of_nat (length d' + 12)) @ u32_bytes (crc32buf d') @ drop (unat offset + 12) c"
    "drop (unat offset + 8) c' = u32_bytes (crc32buf d') @ drop (unat offset + 12) c"
    unfolding c' using len by (simp_all add: buf_put_def add.commute)
  moreover have "take (unat offset + 4) c' = take (unat offset + 4) c" unfolding c' using len by (intro take_buf_put) simp_all
  ultimately show ?thesis using r dr d by simp
qed

definition trx_sample :: bytes where
  "trx_sample = [0x48, 0x44, 0x52, 0x30] @ replicate 124 7"

lemma trx_sample_parts: "buf_get 12 20 trx_sample @ buf_get 64 4 trx_sample = replicate 24 7"
  "length trx_sample = 128" "bytes_u32 (buf_get 0 4 (buf_get 0 32 trx_sample)) = TRX_MAGIC"
  "bytes_u32 (buf_get 4 8 (buf_get 0 32 trx_sample)) = 0x07070707"
  by code_simp+

lemma sim_read_data:
  assumes "sim_content (kst s) = trx_sample" "erasesize s = 32" "mtdtype s = 4"
  shows "trx_read_data (sim_kern (\<lambda>off. off = 32)) 3 12 56 [] s = Some (Done (replicate 24 7), s)"
  apply (subst trx_read_data.simps)
  using assms 
  apply (simp add: mtd_block_is_bad_def bnd_call bnd_assoc Let_def MTD_NANDFLASH_def to_int_def)
  apply (subst trx_read_data.simps)
  apply (simp add: mtd_block_is_bad_def bnd_call bnd_assoc Let_def MTD_NANDFLASH_def to_int_def)
  apply (subst trx_read_data.simps)
  apply (simp add: mtd_block_is_bad_def bnd_call bnd_assoc Let_def MTD_NANDFLASH_def to_int_def)
  apply (subst trx_read_data.simps)
  apply (simp add: mtd_block_is_bad_def bnd_call bnd_assoc Let_def MTD_NANDFLASH_def to_int_def trx_sample_parts)
  done

lemma sim_fixtrx:
  assumes "sim_content (kst s) = trx_sample"
  shows "\<exists>t. mtd_fixtrx (sim_kern (\<lambda>off. off = 32)) ''firmware'' 0 40 s = Some (Done 0, t)"
proof -
  let ?K = "sim_kern (\<lambda>off. off = 32)" and ?s = "s\<lparr>mtdsize := 128, erasesize := 32, mtdtype := 4\<rparr>"
  let ?f = "buf_get 0 32 trx_sample"
  have rd: "bnd (read_block ?K 3 0) f ?s = f ?f ?s" for f
    using sim_read_block [of ?s 0] assms by (intro bnd_Done) simp
  have rt: "bnd (trx_read_data ?K 3 12 56 []) f ?s = f (replicate 24 7) ?s" for f
    using assms by (intro bnd_Done sim_read_data) simp_all
  let ?b = "buf_put 8 (u32_bytes (crc32buf (replicate 24 7))) (buf_put 4 (u32_bytes 36) ?f)"
  have "length ?b = 32" by (simp add: length_buf_put trx_sample_parts)
  then have "write_block ?K 3 ?b 0 ?s = Some (Done (), ?s\<lparr>kst := (kst s)\<lparr>sim_data := buf_put 0 ?b (sim_content (kst s))\<rparr>\<rparr>)"
    using sim_write_block [of ?s 0 ?b "\<lambda>off. off = 32"] by simp
  note wr = bnd_Done [of "write_block ?K 3 ?b 0" ?s, OF this]
  have c: "crc32buf_prog 0 0x18 (replicate 24 7) = ret (crc32buf (replicate 24 7))"
    using crc32buf_prog_all [of "replicate 24 7"] by simp
  show ?thesis
    unfolding mtd_fixtrx_def TRX_CRC32_DATA_OFFSET_def TRX_CRC32_DATA_SIZE_def
    apply (simp add: bnd_Done [OF sim_check_open] Let_def rd load_def trx_sample_parts bnd_call rt c store_def length_buf_put TRX_MAGIC_def wr ret_def)
    done
qed

theorem fixtrx_header_witness:
  "\<exists>t. mtd_fixtrx (sim_kern (\<lambda>off. off = 32)) ''firmware'' 0 40 (sim_state trx_sample []) = Some (Done 0, t) \<and>
    bytes_u32 (drop 4 (sim_content (kst t))) = 36 \<and> take 4 (sim_content (kst t)) = take 4 trx_sample"
proof -
  let ?s = "sim_state trx_sample []"
  have c: "sim_content (kst ?s) = trx_sample"
    using trx_sample_parts(2) by (simp add: sim_state_def sim_content_def)
  from sim_fixtrx [OF c] obtain t
    where t: "mtd_fixtrx (sim_kern (\<lambda>off. off = 32)) ''firmware'' 0 40 ?s = Some (Done 0, t)" by blast
  have p: "info_erasesize sim_info = 2 ^ 5" by (simp add: sim_info_def)
  have len: "length (good_bytes (\<lambda>i. \<not> (uint (info_type sim_info) = MTD_NANDFLASH \<and> int i = 32)) (2 ^ 5) b (unat (0 :: u64) + 12) 56) = 24" for b
    by (simp add: good_bytes_def sim_info_def MTD_NANDFLASH_def upt_rec)
  from fixtrx_header [OF sim.flash_device_axioms p _ _ _ t refl refl refl refl]
  show ?thesis using t len c by simp
qed


text \<open>
  The repair after JFFS2 data were replaced trusts the length in the header: when it is larger than the mapped
  device, the checksum is computed over memory behind the mapping.
\<close>

lemma trx_fixup_overread:
  assumes "k_getinfo K fd (kst s) = (Some i, k1)" "info_size i \<noteq> 0"
    and "mtd_open K name True (s\<lparr>kst := k1\<rparr>) = Some (Done bfd, s1)"
    and "k_mmap K bfd (ucast (info_size i)) (kst s1) = (Some ptr, k2)" "12 \<le> length ptr"
    and "bytes_u32 ptr = TRX_MAGIC" "length ptr < unat (bytes_u32 (drop 4 ptr))" "unat (bytes_u32 (drop 4 ptr)) < 2 ^ 31"
  shows "trx_fixup K fd name s = Some (Fault, s1\<lparr>kst := k2\<rparr>)"
proof -
  let ?l = "bytes_u32 (drop 4 ptr)"
  have b: "bytes_u32 (buf_get 0 4 ptr) = TRX_MAGIC" "bytes_u32 (buf_get 4 4 ptr) = ?l"
    using assms(5,6) bytes_u32_cong [of "buf_get 0 4 ptr" ptr] bytes_u32_cong [of "buf_get 4 4 ptr" "drop 4 ptr"]
    by (simp_all add: buf_get_def)
  have u: "unat (ucast ?l - 12 :: u64) = unat ?l - 12"
    using assms(5,7) by (subst unat_sub) (simp_all add: word_le_nat_alt)
  then have "to_int (ucast ?l - 12) = int (unat ?l - 12)"
    using to_int_small [of "ucast ?l - 12"] assms(8) by simp
  then have "\<not> 12 + nat (to_int (ucast ?l - 12)) \<le> length ptr" using assms(5,7) by (simp only: nat_int)
  then have "crc32buf_prog 12 (ucast ?l - 12) ptr = (fault :: 'a mtd_state \<Rightarrow> _)"
    by (simp add: crc32buf_prog_def)
  moreover have "\<not> info_size i \<le> 0" using assms(2) by (simp add: word_le_nat_alt unat_0_iff)
  ultimately show ?thesis
    using assms(1-5) b
    by (simp add: trx_fixup_def bnd_call Let_def bnd_Done [of "mtd_open K name True" "s\<lparr>kst := k1\<rparr>", OF assms(3)] load_def fault_def)
qed

lemma trx_fixup_overread_witness:
  "\<exists>t. trx_fixup (sim_kern (\<lambda>_. False)) 3 ''firmware'' (sim_state trx_sample []) = Some (Fault, t)"
proof -
  let ?s = "sim_state trx_sample []" and ?K = "sim_kern (\<lambda>_. False)"
  have c: "sim_content (kst ?s) = trx_sample"
    using trx_sample_parts(2) by (simp add: sim_state_def sim_content_def)
  have "bytes_u32 trx_sample = TRX_MAGIC" "bytes_u32 (drop 4 trx_sample) = 0x07070707" by code_simp+
  with trx_fixup_overread [of ?K 3 ?s sim_info "kst ?s" "''firmware''" 3 ?s trx_sample "kst ?s"]
  show ?thesis
    using c trx_sample_parts(2) by (simp add: sim_open sim_info_def buf_get_def)
qed

end
