(* ===== verification/Util_Jffs2.thy ===== *)
theory Util_Jffs2
  imports Util_Fix
begin

text \<open>
  The part of the mtd tool that appends a file to a JFFS2 file system (\<open>jffs2.c\<close>): nodes are assembled in
  a buffer of one erase block, which is written when it is full.
\<close>

section \<open>Nodes\<close>

definition JFFS2_MAGIC_BITMASK :: u16 where "JFFS2_MAGIC_BITMASK = 0x1985"
definition JFFS2_NODETYPE_DIRENT :: u16 where "JFFS2_NODETYPE_DIRENT = 0xC000 OR 0x2000 OR 1"
definition JFFS2_NODETYPE_INODE :: u16 where "JFFS2_NODETYPE_INODE = 0xC000 OR 0x2000 OR 2"
definition DT_DIR :: u8 where "DT_DIR = 4"
definition DT_REG :: u8 where "DT_REG = 8"

definition u16_bytes :: "u16 \<Rightarrow> bytes" where
  "u16_bytes x = [ucast x, ucast (drop_bit 8 x)]"

definition bytes_u16 :: "bytes \<Rightarrow> u16" where
  "bytes_u16 b = ucast (b ! 0) OR push_bit 8 (ucast (b ! 1))"

definition CLEANMARKER :: bytes where
  "CLEANMARKER = [0x85, 0x19, 0x03, 0x20, 0x0c, 0x00, 0x00, 0x00, 0xb1, 0xb0, 0x1e, 0xe4]"

definition JFFS2_EOF :: bytes where
  "JFFS2_EOF = [0xde, 0xad, 0xc0, 0xde]"

record jffs2_raw_dirent =
  de_totlen :: u32
  de_hdr_crc :: u32
  de_pino :: u32
  de_version :: u32
  de_ino :: u32
  de_mctime :: u32
  de_nsize :: u8
  de_type :: u8
  de_node_crc :: u32
  de_name_crc :: u32

definition dirent_bytes :: "jffs2_raw_dirent \<Rightarrow> bytes" where
  "dirent_bytes de = u16_bytes JFFS2_MAGIC_BITMASK @ u16_bytes JFFS2_NODETYPE_DIRENT @ u32_bytes (de_totlen de) @
     u32_bytes (de_hdr_crc de) @ u32_bytes (de_pino de) @ u32_bytes (de_version de) @ u32_bytes (de_ino de) @
     u32_bytes (de_mctime de) @ [de_nsize de, de_type de, 0, 0] @ u32_bytes (de_node_crc de) @ u32_bytes (de_name_crc de)"

record jffs2_raw_inode =
  ri_totlen :: u32
  ri_hdr_crc :: u32
  ri_ino :: u32
  ri_version :: u32
  ri_mode :: u32
  ri_isize :: u32
  ri_atime :: u32
  ri_mtime :: u32
  ri_ctime :: u32
  ri_offset :: u32
  ri_csize :: u32
  ri_dsize :: u32
  ri_data_crc :: u32
  ri_node_crc :: u32

definition inode_bytes :: "jffs2_raw_inode \<Rightarrow> bytes" where
  "inode_bytes ri = u16_bytes JFFS2_MAGIC_BITMASK @ u16_bytes JFFS2_NODETYPE_INODE @ u32_bytes (ri_totlen ri) @
     u32_bytes (ri_hdr_crc ri) @ u32_bytes (ri_ino ri) @ u32_bytes (ri_version ri) @ u32_bytes (ri_mode ri) @
     [0, 0, 0, 0] @ u32_bytes (ri_isize ri) @ u32_bytes (ri_atime ri) @ u32_bytes (ri_mtime ri) @ u32_bytes (ri_ctime ri) @
     u32_bytes (ri_offset ri) @ u32_bytes (ri_csize ri) @ u32_bytes (ri_dsize ri) @ [0, 0, 0, 0] @
     u32_bytes (ri_data_crc ri) @ u32_bytes (ri_node_crc ri)"

definition zero_dirent :: jffs2_raw_dirent where
  "zero_dirent = \<lparr>de_totlen = 0, de_hdr_crc = 0, de_pino = 0, de_version = 0, de_ino = 0, de_mctime = 0, de_nsize = 0,
     de_type = 0, de_node_crc = 0, de_name_crc = 0\<rparr>"

definition zero_inode :: jffs2_raw_inode where
  "zero_inode = \<lparr>ri_totlen = 0, ri_hdr_crc = 0, ri_ino = 0, ri_version = 0, ri_mode = 0, ri_isize = 0, ri_atime = 0,
     ri_mtime = 0, ri_ctime = 0, ri_offset = 0, ri_csize = 0, ri_dsize = 0, ri_data_crc = 0, ri_node_crc = 0\<rparr>"

section \<open>The block buffer\<close>

text \<open>A copy into the buffer at the given place.\<close>

definition buf_store :: "int \<Rightarrow> bytes \<Rightarrow> ('k, unit) prog" where
  "buf_store off xs =
     (if off < 0 then fault else
      bnd (gets jffs2_buf) (\<lambda>b.
      bnd (store (nat off) xs b) (\<lambda>b.
      puts (\<lambda>s. s\<lparr>jffs2_buf := b\<rparr>))))"

partial_function (option) pad_skip_bad :: "'k kern \<Rightarrow> 'k mtd_state \<Rightarrow> (unit outcome \<times> 'k mtd_state) option" where
  "pad_skip_bad K s =
     bnd (gets outfd) (\<lambda>fd. bnd (gets mtdofs) (\<lambda>pos.
     bnd (mtd_block_is_bad K fd pos) (\<lambda>bad.
     bnd (gets mtdsize) (\<lambda>msz.
     if bad \<noteq> 0 \<and> pos < msz then
       bnd (gets erasesize) (\<lambda>esz.
       bnd (puts (\<lambda>s. s\<lparr>mtdofs := mtdofs s + esz\<rparr>)) (\<lambda>_.
       bnd (call (k_lseek_cur K fd esz)) (\<lambda>_.
       pad_skip_bad K)))
     else ret ())))) s"

definition pad_write :: "'k kern \<Rightarrow> ('k, unit) prog" where
  "pad_write K =
     bnd (pad_skip_bad K) (\<lambda>_.
     bnd (gets outfd) (\<lambda>fd. bnd (gets mtdofs) (\<lambda>pos. bnd (gets erasesize) (\<lambda>esz. bnd (gets jffs2_buf) (\<lambda>b.
     bnd (mtd_erase_block K fd pos) (\<lambda>_.
     bnd (call (k_write K fd (take (nat esz) b))) (\<lambda>_.
     puts (\<lambda>s. s\<lparr>mtdofs := mtdofs s + esz\<rparr>))))))))"

definition pad :: "'k kern \<Rightarrow> int \<Rightarrow> ('k, unit) prog" where
  "pad K sz =
     bnd (gets jffs2_ofs) (\<lambda>ofs. bnd (gets erasesize) (\<lambda>esz.
     if sz = 0 then fault
     else if ofs mod sz = 0 \<and> ofs < esz then ret ()
     else
     bnd (if ofs < esz then
            bnd (buf_store ofs (replicate (nat (sz - ofs mod sz)) 0xFF)) (\<lambda>_.
            puts (\<lambda>s. s\<lparr>jffs2_ofs := ofs + (sz - ofs mod sz)\<rparr>))
          else ret ()) (\<lambda>_.
     if esz = 0 then fault else
     bnd (puts (\<lambda>s. s\<lparr>jffs2_ofs := jffs2_ofs s mod esz\<rparr>)) (\<lambda>_.
     bnd (gets jffs2_ofs) (\<lambda>ofs.
     if ofs = 0 then pad_write K else ret ())))))"

definition rbytes :: "'k mtd_state \<Rightarrow> int" where
  "rbytes s = erasesize s - jffs2_ofs s mod erasesize s"

text \<open>\<open>add_data\<close>, with \<open>prep_eraseblock\<close>, which calls it again, in place.\<close>

partial_function (option) add_data :: "'k kern \<Rightarrow> bytes \<Rightarrow> 'k mtd_state \<Rightarrow> (unit outcome \<times> 'k mtd_state) option" where
  "add_data K ptr s =
     bnd (gets jffs2_ofs) (\<lambda>ofs. bnd (gets erasesize) (\<lambda>esz.
     bnd (if ofs + int (length ptr) > esz then
            bnd (pad K esz) (\<lambda>_.
            bnd (gets jffs2_ofs) (\<lambda>ofs.
            if ofs > 0 then ret () else add_data K CLEANMARKER))
          else ret ()) (\<lambda>_.
     bnd (gets jffs2_ofs) (\<lambda>ofs.
     bnd (buf_store ofs ptr) (\<lambda>_.
     puts (\<lambda>s. s\<lparr>jffs2_ofs := jffs2_ofs s + int (length ptr)\<rparr>)))))) s"

definition prep_eraseblock :: "'k kern \<Rightarrow> ('k, unit) prog" where
  "prep_eraseblock K = bnd (gets jffs2_ofs) (\<lambda>ofs. if ofs > 0 then ret () else add_data K CLEANMARKER)"

section \<open>Directory entries and files\<close>

definition add_dirent :: "'k kern \<Rightarrow> bytes \<Rightarrow> u8 \<Rightarrow> int \<Rightarrow> ('k, int) prog" where
  "add_dirent K name type parent =
     bnd (gets jffs2_ofs) (\<lambda>ofs. bnd (gets erasesize) (\<lambda>esz.
     bnd (if (of_int (ofs - esz) :: u64) < 40 + of_nat (length name) then pad K esz else ret ()) (\<lambda>_.
     bnd (prep_eraseblock K) (\<lambda>_.
     bnd (puts (\<lambda>s. s\<lparr>last_ino := last_ino s + 1\<rparr>)) (\<lambda>_.
     bnd (gets jffs2_ofs) (\<lambda>ofs.
     bnd (buf_store ofs (replicate 40 0)) (\<lambda>_.
     bnd (gets last_ino) (\<lambda>ino.
     bnd (puts (\<lambda>s. s\<lparr>last_ino := last_ino s + 1\<rparr>)) (\<lambda>_.
     bnd (gets last_version) (\<lambda>version.
     bnd (puts (\<lambda>s. s\<lparr>last_version := last_version s + 1\<rparr>)) (\<lambda>_.
     let de = zero_dirent\<lparr>de_type := type, de_name_crc := crc32 0 name (int (length name)), de_ino := of_int ino,
                de_pino := of_int parent, de_totlen := 40 + of_nat (length name)\<rparr>;
         de = de\<lparr>de_hdr_crc := crc32 0 (dirent_bytes de) 8\<rparr>;
         de = de\<lparr>de_version := of_int version, de_nsize := of_nat (length name)\<rparr>;
         de = de\<lparr>de_node_crc := crc32 0 (dirent_bytes de) 32\<rparr> in
     bnd (buf_store ofs (dirent_bytes de)) (\<lambda>_.
     bnd (buf_store (ofs + 40) name) (\<lambda>_.
     bnd (puts (\<lambda>s. s\<lparr>jffs2_ofs := jffs2_ofs s + 40 + int (unat (de_nsize de))\<rparr>)) (\<lambda>_.
     bnd (pad K 4) (\<lambda>_.
     ret (sint (de_ino de)))))))))))))))))"

definition add_dir :: "'k kern \<Rightarrow> bytes \<Rightarrow> int \<Rightarrow> ('k, int) prog" where
  "add_dir K name parent =
     bnd (add_dirent K name DT_DIR parent) (\<lambda>inode.
     bnd (gets rbytes) (\<lambda>rb. bnd (gets erasesize) (\<lambda>esz.
     bnd (if (of_int rb :: u64) < 68 then pad K esz else ret ()) (\<lambda>_.
     bnd (prep_eraseblock K) (\<lambda>_.
     let ri = zero_inode\<lparr>ri_totlen := 68\<rparr>;
         ri = ri\<lparr>ri_hdr_crc := crc32 0 (inode_bytes ri) 8\<rparr>;
         ri = ri\<lparr>ri_ino := of_int inode, ri_mode := 0x41ED, ri_version := 1\<rparr>;
         ri = ri\<lparr>ri_node_crc := crc32 0 (inode_bytes ri) 60\<rparr> in
     bnd (add_data K (inode_bytes ri)) (\<lambda>_.
     bnd (pad K 4) (\<lambda>_.
     ret inode)))))))"

partial_function (option) make_room :: "'k kern \<Rightarrow> 'k mtd_state \<Rightarrow> (int outcome \<times> 'k mtd_state) option" where
  "make_room K s =
     bnd (gets rbytes) (\<lambda>rb.
     let len = rb - 68 in
     if len > 128 then ret len else
     bnd (gets erasesize) (\<lambda>esz.
     bnd (pad K esz) (\<lambda>_.
     bnd (prep_eraseblock K) (\<lambda>_.
     make_room K)))) s"

partial_function (option) add_file_data ::
  "'k kern \<Rightarrow> int \<Rightarrow> jffs2_raw_inode \<Rightarrow> int \<Rightarrow> 'k mtd_state \<Rightarrow> (unit outcome \<times> 'k mtd_state) option" where
  "add_file_data K fd ri f_offset s =
     bnd (make_room K) (\<lambda>len.
     let len = (if len > 4096 then 4096 else len) in
     bnd (call (k_read K fd (of_int len))) (\<lambda>res.
     case res of Inl _ \<Rightarrow> ret () | Inr wbuf \<Rightarrow>
     if wbuf = [] then ret () else
     bnd (puts (\<lambda>s. s\<lparr>last_version := last_version s + 1\<rparr>)) (\<lambda>_.
     bnd (gets last_version) (\<lambda>version.
     let len = of_nat (length wbuf);
         ri = ri\<lparr>ri_totlen := 68 + len\<rparr>;
         ri = ri\<lparr>ri_hdr_crc := crc32 0 (inode_bytes ri) 8\<rparr>;
         ri = ri\<lparr>ri_version := of_int version, ri_offset := of_int f_offset, ri_csize := len, ri_dsize := len\<rparr>;
         ri = ri\<lparr>ri_node_crc := crc32 0 (inode_bytes ri) 60\<rparr>;
         ri = ri\<lparr>ri_data_crc := crc32 0 wbuf (int (length wbuf))\<rparr> in
     bnd (add_data K (inode_bytes ri)) (\<lambda>_.
     bnd (add_data K wbuf) (\<lambda>_.
     bnd (pad K 4) (\<lambda>_.
     bnd (prep_eraseblock K) (\<lambda>_.
     add_file_data K fd ri (f_offset + int (length wbuf)))))))))) s"

definition file_basename :: "string \<Rightarrow> string" where
  "file_basename name = rev (takeWhile (\<lambda>c. c \<noteq> CHR ''/'') (rev name))"

definition add_file :: "'k kern \<Rightarrow> string \<Rightarrow> int \<Rightarrow> ('k, unit) prog" where
  "add_file K name parent =
     bnd (call (k_stat K name)) (\<lambda>st.
     case st of None \<Rightarrow> ret () | Some st \<Rightarrow>
     bnd (add_dirent K (map of_char (file_basename name)) DT_REG parent) (\<lambda>inode.
     let ri = zero_inode\<lparr>ri_ino := of_int inode, ri_mode := st_mode st, ri_atime := st_atime st, ri_ctime := st_ctime st,
                ri_mtime := st_mtime st, ri_isize := ucast (st_size st)\<rparr> in
     bnd (call (k_open_rd K name)) (\<lambda>fd.
     if fd < 0 then ret () else
     bnd (add_file_data K fd ri 0) (\<lambda>_.
     call (k_close K fd)))))"

definition mtd_replace_jffs2 :: "'k kern \<Rightarrow> string \<Rightarrow> int \<Rightarrow> int \<Rightarrow> string \<Rightarrow> ('k, int) prog" where
  "mtd_replace_jffs2 K mtd fd ofs filename =
     bnd (gets erasesize) (\<lambda>esz.
     bnd (puts (\<lambda>s. s\<lparr>outfd := fd, mtdofs := ofs\<rparr>)) (\<lambda>_.
     bnd (call (k_malloc K (of_int esz))) (\<lambda>m.
     bnd (puts (\<lambda>s. s\<lparr>jffs2_buf := (case m of None \<Rightarrow> [] | Some b \<Rightarrow> b), target_ino := 1,
            last_ino := (if last_ino s = 0 then 1 else last_ino s)\<rparr>)) (\<lambda>_.
     bnd (add_file K filename 1) (\<lambda>_.
     bnd (pad K esz) (\<lambda>_.
     bnd (add_data K JFFS2_EOF) (\<lambda>_.
     bnd (pad K esz) (\<lambda>_.
     bnd (gets mtdofs) (\<lambda>pos.
     ret (pos - ofs))))))))))"

section \<open>Reading what is there\<close>

text \<open>\<open>strncmp\<close> is 0 for a string in a buffer and a string of its own.\<close>

fun strncmp_eq :: "bytes \<Rightarrow> bytes \<Rightarrow> nat \<Rightarrow> bool" where
  "strncmp_eq a b 0 = True"
| "strncmp_eq (x # a) (y # b) (Suc n) = (x = y \<and> (x = 0 \<or> strncmp_eq a b n))"
| "strncmp_eq (x # a) [] (Suc n) = (x = 0)"
| "strncmp_eq [] _ (Suc n) = False"

definition PAD :: "u32 \<Rightarrow> u32" where
  "PAD x = (x + 3) AND NOT 3"

text \<open>One node at \<open>ofs\<close>: none of JFFS2, or the place of the next one.\<close>

definition parse_node :: "bytes \<Rightarrow> string \<Rightarrow> u32 \<Rightarrow> ('k, u32 option) prog" where
  "parse_node buf dir ofs =
     bnd (load (unat ofs) 2 buf) (\<lambda>magic.
     if bytes_u16 magic \<noteq> 0x1985 then ret None else
     bnd (load (unat ofs) 8 buf) (\<lambda>node.
     let ofs' = ofs + PAD (bytes_u32 (drop 4 node)) in
     if bytes_u16 (drop 2 node) = JFFS2_NODETYPE_DIRENT then
       bnd (load (unat ofs) 40 buf) (\<lambda>de.
       let pino = bytes_u32 (drop 12 de); version = bytes_u32 (drop 16 de); ino = bytes_u32 (drop 20 de);
           nsize = unat (de ! 28) in
       bnd (puts (\<lambda>s. s\<lparr>
              target_ino := (if dir \<noteq> [] \<and> pino = 1 \<and> strncmp_eq (drop (unat ofs + 40) buf) (map of_char dir) nsize
                then sint ino else target_ino s),
              last_ino := (if of_int (last_ino s) < ino then sint ino else last_ino s),
              last_version := (if of_int (last_version s) < version then sint version else last_version s)\<rparr>)) (\<lambda>_.
       ret (Some ofs')))
     else ret (Some ofs')))"

partial_function (option) parse_nodes :: "bytes \<Rightarrow> string \<Rightarrow> u32 \<Rightarrow> 'k mtd_state \<Rightarrow> (unit outcome \<times> 'k mtd_state) option" where
  "parse_nodes buf dir ofs s =
     bnd (gets erasesize) (\<lambda>esz.
     if \<not> ofs < of_int esz then ret () else
     bnd (parse_node buf dir ofs) (\<lambda>next_ofs.
     case next_ofs of None \<Rightarrow> ret () | Some ofs \<Rightarrow> parse_nodes buf dir ofs)) s"

definition mtd_parse_jffs2data :: "bytes \<Rightarrow> string \<Rightarrow> ('k, unit) prog" where
  "mtd_parse_jffs2data buf dir = parse_nodes buf dir 0"

text \<open>The search for the end of the file system: \<open>None\<close> when the device ends before.\<close>

partial_function (option) find_end :: "'k kern \<Rightarrow> string \<Rightarrow> bytes \<Rightarrow> 'k mtd_state \<Rightarrow> (bool option outcome \<times> 'k mtd_state) option" where
  "find_end K dir buf s =
     bnd (gets outfd) (\<lambda>fd. bnd (gets erasesize) (\<lambda>esz.
     bnd (call (k_read K fd (of_int esz))) (\<lambda>res.
     case res of Inl _ \<Rightarrow> ret (Some True) | Inr b \<Rightarrow>
     if int (length b) \<noteq> esz then ret (Some True) else
     let buf = buf_put 0 b buf in
     bnd (puts (\<lambda>s. s\<lparr>mtdofs := mtdofs s + esz, jffs2_buf := buf\<rparr>)) (\<lambda>_.
     bnd (load 0 2 buf) (\<lambda>magic.
     if bytes_u16 magic = 0x8519 then ret None
     else if bytes_u16 magic \<noteq> 0x1985 then ret (Some False) else
     bnd (mtd_parse_jffs2data buf dir) (\<lambda>_.
     find_end K dir buf)))))) s"

text \<open>\<open>fixup\<close> is the \<open>trx_fixup\<close> that the target links, if any: a weak symbol.\<close>

definition mtd_write_jffs2 :: "'k kern \<Rightarrow> (int \<Rightarrow> string \<Rightarrow> ('k, int) prog) option \<Rightarrow> string \<Rightarrow> string \<Rightarrow> string \<Rightarrow> ('k, int) prog" where
  "mtd_write_jffs2 K fixup mtd filename dir =
     bnd (mtd_check_open K mtd) (\<lambda>fd.
     bnd (puts (\<lambda>s. s\<lparr>outfd := fd\<rparr>)) (\<lambda>_.
     if fd < 0 then ret (-1) else
     bnd (gets erasesize) (\<lambda>esz.
     bnd (call (k_malloc K (of_int esz))) (\<lambda>m.
     case m of None \<Rightarrow> bnd (call (k_close K fd)) (\<lambda>_. ret (-1)) | Some buf \<Rightarrow>
     bnd (puts (\<lambda>s. s\<lparr>jffs2_buf := buf, target_ino := (if dir = [] then 1 else target_ino s)\<rparr>)) (\<lambda>_.
     bnd (find_end K dir buf) (\<lambda>r.
     if r \<noteq> Some False then bnd (call (k_close K fd)) (\<lambda>_. ret (-1)) else
     bnd (puts (\<lambda>s. s\<lparr>mtdofs := mtdofs s - esz\<rparr>)) (\<lambda>_.
     bnd (gets mtdofs) (\<lambda>pos.
     bnd (call (k_lseek_set K fd pos)) (\<lambda>_.
     bnd (puts (\<lambda>s. s\<lparr>jffs2_ofs := 0, last_ino := (if last_ino s = 0 then 1 else last_ino s)\<rparr>)) (\<lambda>_.
     bnd (gets target_ino) (\<lambda>t.
     bnd (if t = 0 then bnd (add_dir K (map of_char dir) 1) (\<lambda>i. puts (\<lambda>s. s\<lparr>target_ino := i\<rparr>)) else ret ()) (\<lambda>_.
     bnd (gets target_ino) (\<lambda>t.
     bnd (add_file K filename t) (\<lambda>_.
     bnd (pad K esz) (\<lambda>_.
     bnd (add_data K JFFS2_EOF) (\<lambda>_.
     bnd (pad K esz) (\<lambda>_.
     bnd (case fixup of None \<Rightarrow> ret 0 | Some f \<Rightarrow> f fd mtd) (\<lambda>_.
     bnd (call (k_close K fd)) (\<lambda>_.
     ret 0)))))))))))))))))))"

end
