(* ===== verification/Util_Jffs2_Write.thy ===== *)
theory Util_Jffs2_Write
  imports Util_Jffs2
begin

text \<open>
  What the JFFS2 writer puts on the device can be read back: a strict scanner finds the nodes, and the data of the
  nodes of the new file are its contents. The programs are shown to return, without an access outside of the
  block buffer.
\<close>

section \<open>Total correctness\<close>

text \<open>From a state with \<open>P\<close>, \<open>m\<close> returns a value with \<open>Q\<close>, or, only if \<open>x\<close>, ends the process.\<close>

definition total :: "bool \<Rightarrow> ('s \<Rightarrow> bool) \<Rightarrow> ('s \<Rightarrow> ('a outcome \<times> 's) option) \<Rightarrow> ('a \<Rightarrow> 's \<Rightarrow> bool) \<Rightarrow> bool" where
  "total x P m Q \<longleftrightarrow> (\<forall>s. P s \<longrightarrow> (\<exists>t. m s = Some (Exit, t) \<and> x \<or> (\<exists>a. m s = Some (Done a, t) \<and> Q a t)))"

lemma totalI: "(\<And>s. P s \<Longrightarrow> \<exists>t. m s = Some (Exit, t) \<and> x \<or> (\<exists>a. m s = Some (Done a, t) \<and> Q a t)) \<Longrightarrow> total x P m Q"
  by (simp add: total_def)

lemma totalD: "total x P m Q \<Longrightarrow> P s \<Longrightarrow> \<exists>t. m s = Some (Exit, t) \<and> x \<or> (\<exists>a. m s = Some (Done a, t) \<and> Q a t)"
  by (simp add: total_def)

lemma total_bnd:
  assumes m: "total x P m R" and f: "\<And>a. total x (R a) (f a) Q"
  shows "total x P (bnd m f) Q"
proof (rule totalI)
  fix s
  assume "P s"
  with m consider t where "m s = Some (Exit, t)" x | a t where "m s = Some (Done a, t)" "R a t"
    by (blast dest: totalD)
  then show "\<exists>t. bnd m f s = Some (Exit, t) \<and> x \<or> (\<exists>a. bnd m f s = Some (Done a, t) \<and> Q a t)"
  proof cases
    case 1
    then show ?thesis by (auto simp: bnd_def)
  next
    case 2
    then show ?thesis using totalD [OF f] by (simp add: bnd_Done)
  qed
qed

lemma total_pre: "total x P m Q \<Longrightarrow> (\<And>s. P' s \<Longrightarrow> P s) \<Longrightarrow> total x P' m Q"
  by (simp add: total_def)

lemma total_post: "total x P m Q \<Longrightarrow> (\<And>a s. Q a s \<Longrightarrow> Q' a s) \<Longrightarrow> total x P m Q'"
  unfolding total_def by blast

lemma total_ret: "(\<And>s. P s \<Longrightarrow> Q a s) \<Longrightarrow> total x P (ret a) Q"
  by (simp add: total_def ret_def)

lemma total_exit: "(\<And>s. P s \<Longrightarrow> x) \<Longrightarrow> total x P exit1 Q"
  by (auto simp: total_def exit1_def)

lemma total_gets: "(\<And>s. P s \<Longrightarrow> Q (f s) s) \<Longrightarrow> total x P (gets f) Q"
  by (simp add: total_def gets_def)

lemma total_puts: "(\<And>s. P s \<Longrightarrow> Q () (f s)) \<Longrightarrow> total x P (puts f) Q"
  by (simp add: total_def puts_def)

lemma total_call: "(\<And>s. P s \<Longrightarrow> Q (fst (f (kst s))) (s\<lparr>kst := snd (f (kst s))\<rparr>)) \<Longrightarrow> total x P (call f) Q"
  by (simp add: total_def call_def Let_def split_beta)

lemma total_if: "(b \<Longrightarrow> total x P m Q) \<Longrightarrow> (\<not> b \<Longrightarrow> total x P n Q) \<Longrightarrow> total x P (if b then m else n) Q"
  by simp

lemma total_sum: "(\<And>y. r = Inl y \<Longrightarrow> total x P (f y) Q) \<Longrightarrow> (\<And>y. r = Inr y \<Longrightarrow> total x P (g y) Q) \<Longrightarrow>
    total x P (case r of Inl y \<Rightarrow> f y | Inr y \<Rightarrow> g y) Q"
  by (cases r) simp_all

lemma total_option: "(opt = None \<Longrightarrow> total x P m Q) \<Longrightarrow> (\<And>y. opt = Some y \<Longrightarrow> total x P (f y) Q) \<Longrightarrow>
    total x P (case opt of None \<Rightarrow> m | Some y \<Rightarrow> f y) Q"
  by (cases opt) simp_all

lemma total_fact: "(A \<Longrightarrow> total x P m Q) \<Longrightarrow> total x (\<lambda>s. A \<and> P s) m Q" "(A \<Longrightarrow> total x P m Q) \<Longrightarrow> total x (\<lambda>s. P s \<and> A) m Q"
  by (auto simp: total_def)

lemma total_ex: "(\<And>y. total x (P y) m Q) \<Longrightarrow> total x (\<lambda>s. \<exists>y. P y s) m Q"
  unfolding total_def by blast

lemma total_cong: "(\<And>s. m s = n s) \<Longrightarrow> total x P n Q \<Longrightarrow> total x P m Q"
  by (simp add: total_def)

text \<open>A recursion with a measure of the state.\<close>

lemma total_rec:
  assumes "\<And>n :: nat. (\<And>i. i < n \<Longrightarrow> total x (\<lambda>s. P s \<and> h s = i) m Q) \<Longrightarrow> total x (\<lambda>s. P s \<and> h s = n) m Q"
  shows "total x P m Q"
proof (rule totalI)
  fix s
  assume s: "P s"
  have "total x (\<lambda>s. P s \<and> h s = n) m Q" for n
    by (induction n rule: less_induct) (rule assms)
  then show "\<exists>t. m s = Some (Exit, t) \<and> x \<or> (\<exists>a. m s = Some (Done a, t) \<and> Q a t)"
    by (rule totalD) (use s in auto)
qed

section \<open>Reading back: a strict scanner\<close>

text \<open>Nodes begin at multiples of four; the rest of a block is erased.\<close>

definition pad_of :: "nat \<Rightarrow> nat" where
  "pad_of l = (4 - l mod 4) mod 4"

definition flat :: "bytes list \<Rightarrow> bytes" where
  "flat ns = concat (map (\<lambda>n. n @ replicate (pad_of (length n)) 0xFF) ns)"

function scan :: "bytes \<Rightarrow> bytes list" where
  "scan b =
     (if length b < 12 \<or> bytes_u16 b \<noteq> JFFS2_MAGIC_BITMASK then []
      else let t = unat (bytes_u32 (drop 4 b))
      in if t < 12 \<or> length b < t then [] else take t b # scan (drop (t + pad_of t) b))"
  by auto
termination by (relation "measure length") auto

declare scan.simps [simp del]

definition wf_node :: "bytes \<Rightarrow> bool" where
  "wf_node n \<longleftrightarrow> 12 \<le> length n \<and> bytes_u16 n = JFFS2_MAGIC_BITMASK \<and> unat (bytes_u32 (drop 4 n)) = length n"

text \<open>A node with file data: its three checksums are right.\<close>

definition valid_inode :: "bytes \<Rightarrow> bool" where
  "valid_inode n \<longleftrightarrow> 68 \<le> length n \<and> bytes_u16 (drop 2 n) = JFFS2_NODETYPE_INODE \<and>
     bytes_u32 (drop 8 n) = crc32 0 n 8 \<and> bytes_u32 (drop 64 n) = crc32 0 n 60 \<and>
     bytes_u32 (drop 60 n) = crc32 0 (drop 68 n) (int (length n - 68)) \<and>
     bytes_u32 (drop 48 n) = of_nat (length n - 68) \<and> bytes_u32 (drop 52 n) = of_nat (length n - 68)"

text \<open>The contents of a file: the data of its nodes, each at the place it names.\<close>

fun assemble :: "u32 \<Rightarrow> bytes list \<Rightarrow> bytes \<Rightarrow> bytes option" where
  "assemble ino [] acc = Some acc"
| "assemble ino (n # ns) acc =
     (if bytes_u16 (drop 2 n) = JFFS2_NODETYPE_INODE \<and> bytes_u32 (drop 12 n) = ino
      then if valid_inode n \<and> bytes_u32 (drop 44 n) = of_nat (length acc) then assemble ino ns (acc @ drop 68 n) else None
      else assemble ino ns acc)"

lemma assemble_append: "assemble ino (ns @ ms) acc = Option.bind (assemble ino ns acc) (assemble ino ms)"
  by (induction ino ns acc rule: assemble.induct) auto

lemma flat_simps [simp]: "flat [] = []" "flat (n # ns) = n @ replicate (pad_of (length n)) 0xFF @ flat ns"
  "flat (ns @ ms) = flat ns @ flat ms"
  by (simp_all add: flat_def)

lemma pad_of_mod: "(l + pad_of l) mod 4 = 0"
proof -
  define r where "r = l mod 4"
  have "r < 4" by (simp add: r_def)
  then consider "r = 0" | "r = 1" | "r = 2" | "r = 3" by linarith
  then have "(r + (4 - r) mod 4) mod 4 = 0" by cases simp_all
  then show ?thesis unfolding pad_of_def r_def by (simp only: mod_add_left_eq)
qed

lemma length_flat_mod: "length (flat ns) mod 4 = 0"
proof (induction ns)
  case (Cons n ns)
  have "length (flat (n # ns)) = (length n + pad_of (length n)) + length (flat ns)" by simp
  then show ?case using Cons.IH pad_of_mod [of "length n"] by (metis add.right_neutral mod_add_eq mod_0)
qed simp

lemma bytes_u16_append: "2 \<le> length n \<Longrightarrow> bytes_u16 (n @ r) = bytes_u16 n"
  by (cases n) (auto simp: bytes_u16_def nth_append)

lemma bytes_u32_append: "off + 4 \<le> length n \<Longrightarrow> bytes_u32 (drop off (n @ r)) = bytes_u32 (drop off n)"
  by (rule bytes_u32_cong) simp_all

lemma scan_erased: "scan (replicate k 0xFF) = []"
proof -
  have "bytes_u16 (replicate k 0xFF) \<noteq> JFFS2_MAGIC_BITMASK" if "2 \<le> k"
    using that by (simp add: bytes_u16_def JFFS2_MAGIC_BITMASK_def)
  then show ?thesis by (subst scan.simps) auto
qed

lemma scan_flat: "\<forall>n\<in>set ns. wf_node n \<Longrightarrow> scan (flat ns @ replicate k 0xFF) = ns"
proof (induction ns)
  case (Cons n ns)
  then have n: "12 \<le> length n" "bytes_u16 n = JFFS2_MAGIC_BITMASK" "unat (bytes_u32 (drop 4 n)) = length n"
    by (simp_all add: wf_node_def)
  let ?b = "flat (n # ns) @ replicate k 0xFF"
  have b: "?b = n @ replicate (pad_of (length n)) 0xFF @ flat ns @ replicate k 0xFF" by simp
  have "bytes_u16 ?b = JFFS2_MAGIC_BITMASK" "unat (bytes_u32 (drop 4 ?b)) = length n"
    unfolding b using n by (simp_all only: bytes_u16_append bytes_u32_append)
  moreover have "take (length n) ?b = n" "drop (length n + pad_of (length n)) ?b = flat ns @ replicate k 0xFF"
    unfolding b by simp_all
  ultimately show ?case using Cons n(1) by (subst scan.simps) simp
qed (simp add: scan_erased)

text \<open>All nodes but clean markers.\<close>

definition payload :: "bytes list \<Rightarrow> bytes list" where
  "payload = filter (\<lambda>n. bytes_u16 (drop 2 n) \<noteq> 0x2003)"

lemma payload_append [simp]: "payload (ns @ ms) = payload ns @ payload ms" "payload [] = []"
  by (simp_all add: payload_def)

section \<open>The blocks that are written\<close>

text \<open>
  The contract of the calls towards the writer: \<open>log\<close> is the list of the blocks that were handed to the kernel for
  writing, \<open>rest\<close> the unread part of the file, which is opened as descriptor \<open>fdin\<close>. Reading takes a part of the file
  from the front, nothing only at its end; there is memory.
\<close>

locale jffs2_env =
  fixes K :: "'k kern" and fdin :: int and log :: "'k \<Rightarrow> bytes list" and rest :: "'k \<Rightarrow> bytes"
  assumes same:
      "log (snd (k_getbadblock K fd off k)) = log k" "rest (snd (k_getbadblock K fd off k)) = rest k"
      "log (snd (k_unlock K fd st len k)) = log k" "rest (snd (k_unlock K fd st len k)) = rest k"
      "log (snd (k_erase K fd st len k)) = log k" "rest (snd (k_erase K fd st len k)) = rest k"
      "log (snd (k_lseek_cur K fd off k)) = log k" "rest (snd (k_lseek_cur K fd off k)) = rest k"
      "log (snd (k_stat K p k)) = log k" "rest (snd (k_stat K p k)) = rest k"
      "log (snd (k_open_rd K p k)) = log k" "rest (snd (k_open_rd K p k)) = rest k"
      "log (snd (k_close K fd k)) = log k" "rest (snd (k_close K fd k)) = rest k"
      "log (snd (k_malloc K n k)) = log k" "rest (snd (k_malloc K n k)) = rest k"
    and open_rd: "fst (k_open_rd K p k) = fdin" "0 \<le> fdin"
    and malloc: "\<exists>b. fst (k_malloc K n k) = Some b \<and> length b = unat n"
    and "write": "log (snd (k_write K fd b k)) = log k @ [b]" "rest (snd (k_write K fd b k)) = rest k"
    and read: "\<exists>m. fst (k_read K fdin n k) = Inr (take m (rest k)) \<and> m \<le> unat n \<and> (rest k \<noteq> [] \<longrightarrow> 0 < n \<longrightarrow> 0 < m) \<and>
      rest (snd (k_read K fdin n k)) = drop m (rest k) \<and> log (snd (k_read K fdin n k)) = log k"

text \<open>The state with the blocks \<open>bl\<close> written, \<open>pre\<close> in the buffer, \<open>p\<close> as its fill level, and \<open>f\<close> to be read.\<close>

definition jstate :: "('k \<Rightarrow> bytes list) \<Rightarrow> ('k \<Rightarrow> bytes) \<Rightarrow> nat \<Rightarrow> bytes list \<Rightarrow> nat \<Rightarrow> bytes \<Rightarrow> bytes \<Rightarrow>
    'k mtd_state \<Rightarrow> bool" where
  "jstate log rest esz bl p pre f s \<longleftrightarrow> erasesize s = int esz \<and> log (kst s) = bl \<and> rest (kst s) = f \<and>
     length (jffs2_buf s) = esz \<and> jffs2_ofs s = int p \<and> take (length pre) (jffs2_buf s) = pre \<and> length pre \<le> esz"

definition padded :: "nat \<Rightarrow> bytes \<Rightarrow> bytes" where
  "padded sz pre = pre @ replicate ((sz - length pre mod sz) mod sz) 0xFF"

text \<open>The kernel fails to say whether some block is bad.\<close>

definition refuses :: "'k kern \<Rightarrow> bool" where
  "refuses K \<longleftrightarrow> (\<exists>fd ofs k. fst (k_getbadblock K fd ofs k) < 0)"

lemma total_buf_store:
  assumes "0 \<le> off" "\<And>s. P s \<Longrightarrow> nat off + length xs \<le> length (jffs2_buf s)"
    "\<And>s. P s \<Longrightarrow> Q () (s\<lparr>jffs2_buf := buf_put (nat off) xs (jffs2_buf s)\<rparr>)"
  shows "total x P (buf_store off xs) Q"
  using assms by (simp add: total_def buf_store_def store_def puts_def)

context jffs2_env begin

abbreviation J :: "nat \<Rightarrow> bytes list \<Rightarrow> nat \<Rightarrow> bytes \<Rightarrow> bytes \<Rightarrow> 'k mtd_state \<Rightarrow> bool" where "J \<equiv> jstate log rest"

abbreviation T :: "('k mtd_state \<Rightarrow> bool) \<Rightarrow> ('k, 'a) prog \<Rightarrow> ('a \<Rightarrow> 'k mtd_state \<Rightarrow> bool) \<Rightarrow> bool" where
  "T \<equiv> total (refuses K)"

lemma J_store:
  assumes h: "\<And>s. jffs2_ofs s = int (length pre) \<Longrightarrow> h s = s\<lparr>jffs2_ofs := int (length (pre @ xs))\<rparr>"
    and len: "length (pre @ xs) \<le> esz"
  shows "T (J esz bl (length pre) pre f) (bnd (buf_store (int (length pre)) xs) (\<lambda>_. puts h))
     (\<lambda>_. J esz bl (length (pre @ xs)) (pre @ xs) f)"
  apply (rule total_bnd [where R = "\<lambda>_ s. jffs2_ofs s = int (length pre) \<and> J esz bl (length (pre @ xs)) (pre @ xs) f (s\<lparr>jffs2_ofs := int (length (pre @ xs))\<rparr>)"])
   apply (rule total_buf_store)
     apply (use len in \<open>auto simp: jstate_def buf_put_def length_buf_put min_def\<close>)[3]
  apply (rule total_puts, simp only: h)
  done

lemma J_call:
  assumes "\<And>k. log (snd (g k)) = log k" "\<And>k. rest (snd (g k)) = rest k"
  shows "T (J esz bl p pre f) (call g) (\<lambda>_. J esz bl p pre f)"
  by (rule total_call) (simp add: jstate_def assms)

lemma J_puts:
  assumes "\<And>s. kst (h s) = kst s" "\<And>s. jffs2_buf (h s) = jffs2_buf s" "\<And>s. jffs2_ofs (h s) = jffs2_ofs s"
    "\<And>s. erasesize (h s) = erasesize s"
  shows "T (J esz bl p pre f) (puts h) (\<lambda>_. J esz bl p pre f)"
  by (rule total_puts) (simp add: jstate_def assms)

lemma J_gets: "T (J esz bl p pre f) (gets g) (\<lambda>a s. a = g s \<and> J esz bl p pre f s)"
  by (rule total_gets) simp

lemma J_gets': "T (J esz bl p pre f) (gets g) (\<lambda>_. J esz bl p pre f)"
  by (rule total_gets) simp

lemma J_erasesize: "T (J esz bl p pre f) (gets erasesize) (\<lambda>e s. e = int esz \<and> J esz bl p pre f s)"
  by (rule total_gets) (simp add: jstate_def)

lemma J_ofs: "T (J esz bl p pre f) (gets jffs2_ofs) (\<lambda>e s. e = int p \<and> J esz bl p pre f s)"
  by (rule total_gets) (simp add: jstate_def)

lemma J_is_bad:
  assumes "\<And>s k. P (s\<lparr>kst := k\<rparr>) = P s"
  shows "T (\<lambda>s. J esz bl p pre f s \<and> P s) (mtd_block_is_bad K fd off) (\<lambda>_ s. J esz bl p pre f s \<and> P s)"
proof -
  have r: "refuses K" if "fst (k_getbadblock K fd off k) < 0" for k
    using that by (auto simp: refuses_def)
  show ?thesis
    unfolding mtd_block_is_bad_def
    apply (rule total_bnd [OF total_gets [where Q = "\<lambda>_ s. J esz bl p pre f s \<and> P s"]], simp)
    apply (rule total_if)
    subgoal
      apply (rule total_bnd [OF total_call [where Q = "\<lambda>r s. (r < 0 \<longrightarrow> refuses K) \<and> J esz bl p pre f s \<and> P s"]])
       apply (use r in \<open>simp add: jstate_def same assms\<close>)
      apply (intro total_fact(1) total_if total_exit total_ret)
       apply blast+
      done
    apply (rule total_ret, simp)
    done
qed

lemma J_erase: "T (J esz bl p pre f) (mtd_erase_block K fd off) (\<lambda>_. J esz bl p pre f)"
  unfolding mtd_erase_block_def
  by (intro total_bnd [OF J_gets'] total_if total_bnd [OF J_call] total_ret same)

lemma J_skip_bad:
  assumes "0 < esz"
  shows "T (J esz bl p pre f) (pad_skip_bad K) (\<lambda>_. J esz bl p pre f)"
proof (rule total_rec [where h = "\<lambda>s. nat (mtdsize s - mtdofs s)"])
  fix n
  assume IH: "T (\<lambda>s. J esz bl p pre f s \<and> nat (mtdsize s - mtdofs s) = i) (pad_skip_bad K) (\<lambda>_. J esz bl p pre f)" if "i < n" for i
  show "T (\<lambda>s. J esz bl p pre f s \<and> nat (mtdsize s - mtdofs s) = n) (pad_skip_bad K) (\<lambda>_. J esz bl p pre f)"
    apply (rule total_cong [OF pad_skip_bad.simps])
    apply (rule total_bnd [OF total_gets [where Q = "\<lambda>_ s. J esz bl p pre f s \<and> nat (mtdsize s - mtdofs s) = n"]], simp)
    apply (rule total_bnd [OF total_gets [where Q = "\<lambda>pos s. J esz bl p pre f s \<and> nat (mtdsize s - mtdofs s) = n \<and> pos = mtdofs s"]], simp)
    apply (rule total_bnd [OF J_is_bad], simp)
    apply (rule total_bnd [OF total_gets [where Q = "\<lambda>msz s. J esz bl p pre f s \<and> nat (msz - mtdofs s) = n \<and> pos = mtdofs s \<and> msz = mtdsize s" for pos]], simp)
    apply (rule total_if)
    subgoal for fd pos bad msz
      apply (rule total_bnd [OF total_gets [where Q = "\<lambda>e s. e = int esz \<and> J esz bl p pre f s \<and> nat (msz - mtdofs s) = n \<and> pos = mtdofs s \<and> msz = mtdsize s"]])
       apply (auto simp: jstate_def)[1]
      apply (rule total_fact(1))
      apply (rule total_bnd [OF total_puts [where Q = "\<lambda>_ s. J esz bl p pre f s \<and> nat (mtdsize s - mtdofs s) = nat (msz - pos - int esz) \<and> nat (msz - pos - int esz) < n"]])
       apply (use assms in \<open>auto simp: jstate_def algebra_simps\<close>)[1]
      apply (rule total_bnd [OF total_call [where Q = "\<lambda>_ s. (J esz bl p pre f s \<and> nat (mtdsize s - mtdofs s) = nat (msz - pos - int esz)) \<and> nat (msz - pos - int esz) < n"]])
       apply (simp add: jstate_def same)
      apply (rule total_fact(2), erule IH)
      done
    apply (rule total_ret, simp)
    done
qed

lemma J_pad_write:
  assumes "length pre = esz" "0 < esz"
  shows "T (J esz bl 0 pre f) (pad_write K) (\<lambda>_. J esz (bl @ [pre]) 0 [] f)"
  unfolding pad_write_def
  apply (rule total_bnd [OF J_skip_bad [OF assms(2)]], rule total_bnd [OF J_gets'], rule total_bnd [OF J_gets'])
  apply (rule total_bnd [OF J_erasesize], rule total_fact(1))
  apply (rule total_bnd [OF total_gets [where Q = "\<lambda>b s. b = pre \<and> J esz bl 0 pre f s"]])
   apply (use assms in \<open>auto simp: jstate_def\<close>)[1]
  apply (intro total_fact(1) total_bnd [OF J_erase])
  apply (rule total_bnd [where R = "\<lambda>_. J esz (bl @ [pre]) 0 [] f"])
   apply (rule total_call, use assms in \<open>simp add: jstate_def write\<close>)
  apply (rule J_puts; simp)
  done

text \<open>Padding writes the block when it is full then.\<close>

lemma J_pad:
  assumes "0 < sz" "sz dvd esz" "0 < esz" "length pre \<le> esz"
  defines "q \<equiv> padded sz pre"
  shows "T (J esz bl (length pre) pre f) (pad K (int sz))
    (\<lambda>_. if length q = esz then J esz (bl @ [q]) 0 [] f else J esz bl (length q) q f)"
proof -
  let ?n = "length pre" and ?P = "\<lambda>_ :: unit. if length q = esz then J esz (bl @ [q]) 0 [] f else J esz bl (length q) q f"
  have r: "?n mod sz < sz" using assms(1) by (rule mod_less_divisor)
  have m: "int ?n mod int sz = int (?n mod sz)" "(int ?n mod int sz = 0) = (?n mod sz = 0)"
    by (simp_all only: zmod_int [symmetric] of_nat_eq_0_iff)
  have rep: "nat (int sz - int ?n mod int sz) = sz - ?n mod sz"
    "int ?n + (int sz - int ?n mod int sz) = int (?n + (sz - ?n mod sz))"
    unfolding m(1) of_nat_diff [OF less_imp_le [OF r], symmetric] of_nat_add by (simp_all only: nat_int)
  have flush: "T (J esz bl (length q) q f) (bnd (puts (\<lambda>s. s\<lparr>jffs2_ofs := jffs2_ofs s mod int esz\<rparr>)) (\<lambda>_.
      bnd (gets jffs2_ofs) (\<lambda>ofs. if ofs = 0 then pad_write K else ret ()))) ?P" if "0 < length q" "length q \<le> esz"
    apply (rule total_bnd [OF total_puts [where Q = "\<lambda>_. J esz bl (length q mod esz) q f"]])
     apply (simp add: jstate_def zmod_int)
    apply (rule total_bnd [OF J_ofs], rule total_fact(1), rule total_if)
    subgoal using that J_pad_write [of q esz bl f] by (cases "length q = esz") simp_all
    subgoal using that by (intro total_ret) (cases "length q = esz"; simp)
    done
  show ?thesis
    unfolding pad_def
    apply (rule total_bnd [OF J_ofs], rule total_fact(1), rule total_bnd [OF J_erasesize], rule total_fact(1))
    apply (rule total_if, use assms(1) in simp)
    apply (rule total_if)
    subgoal for ofs e
      using m(2) by (intro total_ret) (auto simp: q_def padded_def)
    subgoal premises u for ofs e
    proof -
      show ?thesis
      proof (cases "?n < esz")
        case True
        have nz: "?n mod sz \<noteq> 0" using u True m(2) by auto
        have lq: "q = pre @ replicate (sz - ?n mod sz) 0xFF" using nz assms(1) by (simp add: q_def padded_def mod_less)
        have l: "length q = ?n + (sz - ?n mod sz)" by (simp add: lq)
        then have lm: "length q = (?n div sz + 1) * sz" using r div_mult_mod_eq [of ?n sz] unfolding add_mult_distrib mult_1 by linarith
        obtain k where k: "esz = sz * k" using assms(2) by (rule dvdE)
        then have "?n div sz < k" using True by (simp add: less_mult_imp_div_less mult.commute)
        then have le: "length q \<le> esz" unfolding lm k mult.commute [of sz] by (intro mult_le_mono1) simp
        show ?thesis
          unfolding u(1,2) rep
          apply (simp only: True of_nat_less_iff if_True)
          apply (rule total_bnd [where R = "\<lambda>_. J esz bl (length q) q f"])
          subgoal
            unfolding lq by (rule J_store) (use le lq in simp_all)
          apply (rule total_if, use assms(3) in simp, rule flush)
          using l r le by simp_all
      next
        case False
        then have n: "?n = esz" using assms(4) by simp
        have q: "q = pre" using assms(2) by (simp add: q_def padded_def n)
        show ?thesis
          unfolding u(1,2)
          using False flush n assms(3) by (simp add: q del: bnd_state)
      qed
    qed
    done
qed
end


lemma pad_of_flat: "(4 - length (flat cur @ n) mod 4) mod 4 = pad_of (length n)"
  using length_flat_mod [of cur] by (simp add: pad_of_def mod_add_eq [of "length (flat cur)", symmetric])

lemma padded_flat: "padded 4 (flat cur @ n) = flat (cur @ [n])"
  unfolding padded_def pad_of_flat by simp

lemma wf_CLEANMARKER: "wf_node CLEANMARKER" "flat [CLEANMARKER] = CLEANMARKER" "payload [CLEANMARKER] = []"
  "length CLEANMARKER = 12"
  by code_simp+

lemma flat_empty: "\<forall>n\<in>set cur. wf_node n \<Longrightarrow> (flat cur = []) = (cur = [])"
  by (cases cur) (auto simp: wf_node_def)

text \<open>The nodes that were written, apart from clean markers, are \<open>ms\<close>.\<close>

definition jnodes :: "('k \<Rightarrow> bytes list) \<Rightarrow> ('k \<Rightarrow> bytes) \<Rightarrow> nat \<Rightarrow> bytes list \<Rightarrow> bytes list \<Rightarrow> bytes \<Rightarrow> 'k mtd_state \<Rightarrow> bool" where
  "jnodes log rest esz log0 ms f s \<longleftrightarrow> (\<exists>blocks cur.
     payload (concat (map scan blocks) @ cur) = ms \<and> (\<forall>n\<in>set cur. wf_node n) \<and> length (flat cur) < esz \<and>
     jstate log rest esz (log0 @ blocks) (length (flat cur)) (flat cur) f s)"

context jffs2_env begin

abbreviation N :: "nat \<Rightarrow> bytes list \<Rightarrow> bytes list \<Rightarrow> bytes \<Rightarrow> 'k mtd_state \<Rightarrow> bool" where "N \<equiv> jnodes log rest"

lemma J_put: "length (pre @ xs) \<le> esz \<Longrightarrow> T (J esz bl p pre f) (buf_store (int (length pre)) xs) (\<lambda>_. J esz bl p (pre @ xs) f)"
  by (rule total_buf_store) (auto simp: jstate_def buf_put_def length_buf_put min_def)

lemma J_weaken: "J esz bl p (pre @ xs) f s \<Longrightarrow> J esz bl p pre f s"
  by (auto simp: jstate_def take_add dest!: arg_cong [of "take _ _" _ "take (length pre)"])

lemma J_add_data:
  assumes "length pre + length xs \<le> esz"
  shows "T (J esz bl (length pre) pre f) (add_data K xs) (\<lambda>_. J esz bl (length (pre @ xs)) (pre @ xs) f)"
  apply (rule total_cong [OF add_data.simps])
  apply (rule total_bnd [OF J_ofs], rule total_fact(1), rule total_bnd [OF J_erasesize], rule total_fact(1))
  apply (rule total_bnd [where R = "\<lambda>_. J esz bl (length pre) pre f"])
  subgoal using assms by (intro total_if total_ret) auto
  apply (rule total_bnd [OF J_ofs], rule total_fact(1))
  apply (simp only:)
  apply (rule J_store, simp, use assms in simp)
  done

lemma N_node:
  assumes "4 dvd esz" "0 < esz" "wf_node n" "\<forall>n\<in>set cur. wf_node n" "payload (concat (map scan blocks) @ cur) = ms"
    and "length (flat cur @ n) \<le> esz"
  shows "T (J esz (log0 @ blocks) (length (flat cur @ n)) (flat cur @ n) f) (pad K 4) (\<lambda>_. N esz log0 (ms @ payload [n]) f)"
proof -
  have wf: "\<forall>m\<in>set (cur @ [n]). wf_node m" using assms(3,4) by simp
  let ?q = "flat (cur @ [n])"
  have "T (J esz (log0 @ blocks) (length (flat cur @ n)) (flat cur @ n) f) (pad K (int 4))
    (\<lambda>_. if length ?q = esz then J esz ((log0 @ blocks) @ [?q]) 0 [] f else J esz (log0 @ blocks) (length ?q) ?q f)"
    using J_pad [OF _ assms(1,2,6)] unfolding padded_flat by simp
  then show ?thesis
    unfolding of_nat_numeral
  proof (rule total_post)
    fix a s
    assume s: "(if length ?q = esz then J esz ((log0 @ blocks) @ [?q]) 0 [] f else J esz (log0 @ blocks) (length ?q) ?q f) s"
    show "N esz log0 (ms @ payload [n]) f s"
    proof (cases "length ?q = esz")
      case True
      have "scan ?q = cur @ [n]" using scan_flat [OF wf, of 0] by simp
      then have "payload (concat (map scan (blocks @ [?q])) @ []) = ms @ payload [n]" using assms(5) by (simp flip: assms(5))
      then show ?thesis
        unfolding jnodes_def using s True assms(2) by (intro exI [of _ "blocks @ [?q]"] exI [of _ "[]"]) simp
    next
      case False
      have "length ?q \<le> esz" using s False by (simp add: jstate_def)
      then show ?thesis
        unfolding jnodes_def using s False wf assms(5) by (intro exI [of _ blocks] exI [of _ "cur @ [n]"]) (simp flip: assms(5))
    qed
  qed
qed

lemma N_flush:
  assumes "0 < esz"
  shows "T (N esz log0 ms f) (pad K (int esz)) (\<lambda>_ s. \<exists>blocks. payload (concat (map scan blocks)) = ms \<and>
    J esz (log0 @ blocks) 0 [] f s)"
  unfolding jnodes_def
proof (intro total_ex total_fact(1))
  fix blocks cur
  assume ms: "payload (concat (map scan blocks) @ cur) = ms" and wf: "\<forall>n\<in>set cur. wf_node n" and len: "length (flat cur) < esz"
  let ?q = "padded esz (flat cur)"
  have q: "flat cur = [] \<longrightarrow> ?q = []" "flat cur \<noteq> [] \<longrightarrow> length ?q = esz \<and> scan ?q = cur"
    using len scan_flat [OF wf] assms by (auto simp: padded_def)
  show "T (J esz (log0 @ blocks) (length (flat cur)) (flat cur) f) (pad K (int esz))
      (\<lambda>_ s. \<exists>blocks. payload (concat (map scan blocks)) = ms \<and> J esz (log0 @ blocks) 0 [] f s)"
    apply (rule total_post [OF J_pad [OF assms dvd_refl assms less_imp_le [OF len]]])
  proof -
    fix a s
    assume s: "(if length ?q = esz then J esz ((log0 @ blocks) @ [?q]) 0 [] f else J esz (log0 @ blocks) (length ?q) ?q f) s"
    show "\<exists>blocks. payload (concat (map scan blocks)) = ms \<and> J esz (log0 @ blocks) 0 [] f s"
    proof (cases "flat cur = []")
      case True
      then have "cur = []" using flat_empty [OF wf] by simp
      then show ?thesis using s q True ms assms by (intro exI [of _ blocks]) simp
    next
      case False
      then show ?thesis using s q ms by (intro exI [of _ "blocks @ [?q]"]) simp
    qed
  qed
qed

lemma N_start: "0 < esz \<Longrightarrow> payload (concat (map scan blocks)) = ms \<Longrightarrow> J esz (log0 @ blocks) 0 [] f s \<Longrightarrow> N esz log0 ms f s"
  unfolding jnodes_def by (intro exI [of _ blocks] exI [of _ "[]"]) simp

lemma N_prep:
  assumes "12 < esz"
  shows "T (N esz log0 ms f) (prep_eraseblock K) (\<lambda>_ s. N esz log0 ms f s \<and> 0 < jffs2_ofs s)"
  unfolding jnodes_def [of _ _ _ _ _ _ "_"]
proof (intro total_ex total_fact(1))
  fix blocks cur
  assume ms: "payload (concat (map scan blocks) @ cur) = ms" and wf: "\<forall>n\<in>set cur. wf_node n" and len: "length (flat cur) < esz"
  show "T (J esz (log0 @ blocks) (length (flat cur)) (flat cur) f) (prep_eraseblock K) (\<lambda>_ s. (\<exists>blocks cur.
     payload (concat (map scan blocks) @ cur) = ms \<and> (\<forall>n\<in>set cur. wf_node n) \<and> length (flat cur) < esz \<and>
     J esz (log0 @ blocks) (length (flat cur)) (flat cur) f s) \<and> 0 < jffs2_ofs s)"
    unfolding prep_eraseblock_def
    apply (rule total_bnd [OF J_ofs], rule total_fact(1), rule total_if)
    subgoal using ms wf len by (intro total_ret conjI exI [of _ blocks] exI [of _ cur]) (auto simp: jstate_def)
    subgoal premises p for ofs
    proof -
      have cur: "cur = []" using p flat_empty [OF wf] by simp
      have "T (J esz (log0 @ blocks) 0 [] f) (add_data K CLEANMARKER) (\<lambda>_. J esz (log0 @ blocks) 12 CLEANMARKER f)"
        using J_add_data [of "[]" CLEANMARKER esz "log0 @ blocks" f] assms wf_CLEANMARKER(4) by simp
      then show ?thesis
        unfolding cur flat_simps list.size
      proof (rule total_post)
        fix a s
        assume s: "J esz (log0 @ blocks) 12 CLEANMARKER f s"
        show "(\<exists>blocks cur. payload (concat (map scan blocks) @ cur) = ms \<and> (\<forall>n\<in>set cur. wf_node n) \<and> length (flat cur) < esz \<and>
            J esz (log0 @ blocks) (length (flat cur)) (flat cur) f s) \<and> 0 < jffs2_ofs s"
          using s ms cur assms wf_CLEANMARKER
          by (intro conjI exI [of _ blocks] exI [of _ "[CLEANMARKER]"]) (auto simp: jstate_def)
      qed
    qed
    done
qed

end
section \<open>The nodes of a file\<close>

lemma length_nodes [simp]: "length (dirent_bytes de) = 40" "length (inode_bytes ri) = 68" "length (u16_bytes x) = 2"
  by (simp_all add: dirent_bytes_def inode_bytes_def u16_bytes_def)

lemma crc32_take_cong: "take n b = take n c \<Longrightarrow> crc32 v b (int n) = crc32 v c (int n)"
  by (simp add: crc32_def)

lemma bytes_u16_u16_bytes [simp]: "bytes_u16 (u16_bytes x @ r) = x"
proof -
  have "bit (bytes_u16 (u16_bytes x @ r)) i = bit x i" for i
    by (cases "i < 16") (auto simp: bytes_u16_def u16_bytes_def bit_or_iff bit_push_bit_iff bit_ucast_iff bit_drop_bit_eq dest: bit_imp_le_length)
  then show ?thesis by (simp add: bit_eq_iff)
qed

definition dirent_ok :: "u32 \<Rightarrow> u32 \<Rightarrow> u8 \<Rightarrow> bytes \<Rightarrow> bytes \<Rightarrow> bool" where
  "dirent_ok parent ino type name n \<longleftrightarrow> 40 \<le> length n \<and> bytes_u16 (drop 2 n) = JFFS2_NODETYPE_DIRENT \<and>
     bytes_u32 (drop 8 n) = crc32 0 n 8 \<and> bytes_u32 (drop 32 n) = crc32 0 n 32 \<and>
     bytes_u32 (drop 36 n) = crc32 0 name (int (length name)) \<and> bytes_u32 (drop 12 n) = parent \<and>
     bytes_u32 (drop 20 n) = ino \<and> unat (n ! 28) = length name \<and> n ! 29 = type \<and> drop 40 n = name"

definition dirent_node :: "u32 \<Rightarrow> u32 \<Rightarrow> u32 \<Rightarrow> u8 \<Rightarrow> bytes \<Rightarrow> jffs2_raw_dirent" where
  "dirent_node parent ino version type name = (
     let de = zero_dirent\<lparr>de_type := type, de_name_crc := crc32 0 name (int (length name)), de_ino := ino,
                de_pino := parent, de_totlen := 40 + of_nat (length name)\<rparr>;
         de = de\<lparr>de_hdr_crc := crc32 0 (dirent_bytes de) 8\<rparr>;
         de = de\<lparr>de_version := version, de_nsize := of_nat (length name)\<rparr>
     in de\<lparr>de_node_crc := crc32 0 (dirent_bytes de) 32\<rparr>)"

lemma wf_dirent:
  assumes "de_totlen de = 40 + of_nat (length name)" "length name < 256"
  shows "wf_node (dirent_bytes de @ name)"
proof -
  have "unat (40 + of_nat (length name) :: u32) = 40 + length name"
    using assms(2) by (subst unat_add_no_wrap) (simp_all add: unat_of_nat_small)
  moreover have "bytes_u32 (drop 4 (dirent_bytes de @ name)) = de_totlen de"
    by (simp add: dirent_bytes_def)
  ultimately show ?thesis
    using assms(1) by (simp add: wf_node_def) (simp add: dirent_bytes_def)
qed

lemma dirent_node_ok:
  assumes "length name < 256"
  shows "wf_node (dirent_bytes (dirent_node parent ino version type name) @ name)"
    "dirent_ok parent ino type name (dirent_bytes (dirent_node parent ino version type name) @ name)"
    "de_nsize (dirent_node parent ino version type name) = of_nat (length name)"
    "de_ino (dirent_node parent ino version type name) = ino"
proof -
  let ?d = "dirent_node parent ino version type name"
  show "wf_node (dirent_bytes ?d @ name)"
    by (rule wf_dirent) (simp_all add: dirent_node_def Let_def assms)
  show "de_nsize ?d = of_nat (length name)" "de_ino ?d = ino" by (simp_all add: dirent_node_def Let_def)
  have crc: "de_hdr_crc ?d = crc32 0 (dirent_bytes ?d @ name) (int 8)" "de_node_crc ?d = crc32 0 (dirent_bytes ?d @ name) (int 32)"
    unfolding dirent_node_def Let_def
    by (simp, rule crc32_take_cong [of 8, simplified], simp add: dirent_bytes_def zero_dirent_def)
       (simp, rule crc32_take_cong [of 32, simplified], simp add: dirent_bytes_def zero_dirent_def)
  have n: "unat (of_nat (length name) :: u8) = length name" using assms by (simp add: unat_of_nat_small)
  have f: "de_pino ?d = parent" "de_type ?d = type" "de_name_crc ?d = crc32 0 name (int (length name))" "de_nsize ?d = of_nat (length name)"
    "de_ino ?d = ino" by (simp_all add: dirent_node_def Let_def)
  have b: "bytes_u16 (drop 2 (dirent_bytes de @ name)) = JFFS2_NODETYPE_DIRENT" "bytes_u32 (drop 8 (dirent_bytes de @ name)) = de_hdr_crc de"
    "bytes_u32 (drop 32 (dirent_bytes de @ name)) = de_node_crc de" "bytes_u32 (drop 36 (dirent_bytes de @ name)) = de_name_crc de"
    "bytes_u32 (drop 12 (dirent_bytes de @ name)) = de_pino de" "bytes_u32 (drop 20 (dirent_bytes de @ name)) = de_ino de"
    "(dirent_bytes de @ name) ! 28 = de_nsize de" "(dirent_bytes de @ name) ! 29 = de_type de" for de
    by (simp_all add: dirent_bytes_def nth_append)
  show "dirent_ok parent ino type name (dirent_bytes ?d @ name)"
    unfolding dirent_ok_def b f n using crc by simp
qed

definition inode_node :: "jffs2_raw_inode \<Rightarrow> u32 \<Rightarrow> u32 \<Rightarrow> bytes \<Rightarrow> jffs2_raw_inode" where
  "inode_node ri version off wbuf = (
     let len = of_nat (length wbuf);
         ri = ri\<lparr>ri_totlen := 68 + len\<rparr>;
         ri = ri\<lparr>ri_hdr_crc := crc32 0 (inode_bytes ri) 8\<rparr>;
         ri = ri\<lparr>ri_version := version, ri_offset := off, ri_csize := len, ri_dsize := len\<rparr>;
         ri = ri\<lparr>ri_node_crc := crc32 0 (inode_bytes ri) 60\<rparr>
     in ri\<lparr>ri_data_crc := crc32 0 wbuf (int (length wbuf))\<rparr>)"

lemma inode_node_ok:
  assumes "length w < 2 ^ 31"
  shows "wf_node (inode_bytes (inode_node ri version off w) @ w)"
    "valid_inode (inode_bytes (inode_node ri version off w) @ w)"
    "bytes_u32 (drop 12 (inode_bytes (inode_node ri version off w) @ w)) = ri_ino ri"
    "bytes_u32 (drop 44 (inode_bytes (inode_node ri version off w) @ w)) = off"
    "bytes_u16 (drop 2 (inode_bytes (inode_node ri version off w) @ w)) = JFFS2_NODETYPE_INODE"
    "drop 68 (inode_bytes (inode_node ri version off w) @ w) = w"
    "ri_ino (inode_node ri version off w) = ri_ino ri"
proof -
  let ?i = "inode_node ri version off w"
  show "ri_ino ?i = ri_ino ri" by (simp add: inode_node_def Let_def)
  have f: "ri_ino ?i = ri_ino ri" "ri_offset ?i = off" "ri_csize ?i = of_nat (length w)" "ri_dsize ?i = of_nat (length w)"
    "ri_totlen ?i = 68 + of_nat (length w)" "ri_data_crc ?i = crc32 0 w (int (length w))"
    by (simp_all add: inode_node_def Let_def)
  have b: "bytes_u16 (drop 2 (inode_bytes i @ w)) = JFFS2_NODETYPE_INODE" "bytes_u32 (drop 8 (inode_bytes i @ w)) = ri_hdr_crc i"
    "bytes_u32 (drop 4 (inode_bytes i @ w)) = ri_totlen i" "bytes_u16 (inode_bytes i @ w) = JFFS2_MAGIC_BITMASK"
    "bytes_u32 (drop 12 (inode_bytes i @ w)) = ri_ino i" "bytes_u32 (drop 44 (inode_bytes i @ w)) = ri_offset i"
    "bytes_u32 (drop 48 (inode_bytes i @ w)) = ri_csize i" "bytes_u32 (drop 52 (inode_bytes i @ w)) = ri_dsize i"
    "bytes_u32 (drop 60 (inode_bytes i @ w)) = ri_data_crc i" "bytes_u32 (drop 64 (inode_bytes i @ w)) = ri_node_crc i" for i
    by (simp_all add: inode_bytes_def)
  have crc: "ri_hdr_crc ?i = crc32 0 (inode_bytes ?i @ w) (int 8)" "ri_node_crc ?i = crc32 0 (inode_bytes ?i @ w) (int 60)"
    unfolding inode_node_def Let_def
    by (simp, rule crc32_take_cong [of 8, simplified], simp add: inode_bytes_def)
       (simp, rule crc32_take_cong [of 60, simplified], simp add: inode_bytes_def)
  show d: "drop 68 (inode_bytes ?i @ w) = w" by simp
  have t: "unat (68 + of_nat (length w) :: u32) = 68 + length w"
    using assms by (subst unat_add_no_wrap) (simp_all add: unat_of_nat_small)
  show "wf_node (inode_bytes ?i @ w)" unfolding wf_node_def b f t by simp
  show "valid_inode (inode_bytes ?i @ w)" unfolding valid_inode_def b d f using crc by simp
  show "bytes_u32 (drop 12 (inode_bytes ?i @ w)) = ri_ino ri" "bytes_u32 (drop 44 (inode_bytes ?i @ w)) = off"
    "bytes_u16 (drop 2 (inode_bytes ?i @ w)) = JFFS2_NODETYPE_INODE"
    unfolding b f by (rule refl)+
qed


section \<open>Writing a file\<close>

lemma add_dirent_eq: "add_dirent K name type parent =
   bnd (gets jffs2_ofs) (\<lambda>ofs. bnd (gets erasesize) (\<lambda>esz.
   bnd (if (of_int (ofs - esz) :: u64) < 40 + of_nat (length name) then pad K esz else ret ()) (\<lambda>_.
   bnd (prep_eraseblock K) (\<lambda>_.
   bnd (puts (\<lambda>s. s\<lparr>last_ino := last_ino s + 1\<rparr>)) (\<lambda>_.
   bnd (gets jffs2_ofs) (\<lambda>ofs.
   bnd (buf_store ofs (replicate 40 0)) (\<lambda>_.
   bnd (gets last_ino) (\<lambda>ino.
   bnd (puts (\<lambda>s. s\<lparr>last_ino := last_ino s + 1\<rparr>)) (\<lambda>_.
   bnd (gets last_version) (\<lambda>version.
   bnd (puts (\<lambda>s. s\<lparr>last_version := last_version s + 1\<rparr>)) (\<lambda>_.
   bnd (buf_store ofs (dirent_bytes (dirent_node (of_int parent) (of_int ino) (of_int version) type name))) (\<lambda>_.
   bnd (buf_store (ofs + 40) name) (\<lambda>_.
   bnd (puts (\<lambda>s. s\<lparr>jffs2_ofs := jffs2_ofs s + 40 +
     int (unat (de_nsize (dirent_node (of_int parent) (of_int ino) (of_int version) type name)))\<rparr>)) (\<lambda>_.
   bnd (pad K 4) (\<lambda>_.
   ret (sint (de_ino (dirent_node (of_int parent) (of_int ino) (of_int version) type name))))))))))))))))))"
  by (simp only: add_dirent_def dirent_node_def Let_def)

text \<open>The comparison that should find out that a directory entry does not fit never does.\<close>

lemma room_check:
  assumes "p < esz" "esz < 2 ^ 31" "l < 256"
  shows "\<not> (of_int (int p - int esz) :: u64) < 40 + of_nat l"
proof -
  have "uint (of_int (int p - int esz) :: u64) = 2 ^ 64 + (int p - int esz)"
  proof -
    have "(int p - int esz) mod 2 ^ 64 = (int p - int esz + 2 ^ 64) mod 2 ^ 64" by simp
    also have "\<dots> = int p - int esz + 2 ^ 64" using assms(1,2) by (intro mod_pos_pos_trivial) auto
    finally show ?thesis by (simp add: uint_word_of_int del: of_int_diff of_int_of_nat_eq)
  qed
  moreover have "uint (40 + of_nat l :: u64) = 40 + int l"
  proof -
    have "unat (40 + of_nat l :: u64) = 40 + l"
      using assms(3) by (subst unat_add_no_wrap) (simp_all add: unat_of_nat_small)
    then show ?thesis by (metis of_nat_add of_nat_numeral uint_nat)
  qed
  ultimately show ?thesis using assms by (simp add: word_less_def)
qed

context jffs2_env begin

lemma J_prep:
  assumes "12 < esz" "\<forall>n\<in>set cur. wf_node n"
  defines "cur' \<equiv> if cur = [] then [CLEANMARKER] else cur"
  shows "T (J esz bl (length (flat cur)) (flat cur) f) (prep_eraseblock K) (\<lambda>_. J esz bl (length (flat cur')) (flat cur') f)"
  unfolding prep_eraseblock_def
  apply (rule total_bnd [OF J_ofs], rule total_fact(1), rule total_if)
  subgoal using flat_empty [OF assms(2)] by (intro total_ret) (auto simp: cur'_def)
  subgoal premises p for ofs
  proof -
    have "cur = []" using p flat_empty [OF assms(2)] by simp
    then show ?thesis
      using J_add_data [of "[]" CLEANMARKER esz bl f] assms(1) wf_CLEANMARKER(2,4) by (simp add: cur'_def)
  qed
  done

lemma J_move:
  assumes h: "\<And>s. h s = s\<lparr>jffs2_ofs := jffs2_ofs s + int n\<rparr>"
  shows "T (J esz bl p pre f) (puts h) (\<lambda>_. J esz bl (p + n) pre f)"
  by (rule total_puts) (simp add: jstate_def h)

lemma J_dirent:
  assumes "4 dvd esz" "12 < esz" "esz < 2 ^ 31" "length name < 256" "\<forall>n\<in>set cur. wf_node n"
    "payload (concat (map scan blocks) @ cur) = ms" "length (flat cur) + 12 + 40 + length name \<le> esz"
  shows "T (J esz (log0 @ blocks) (length (flat cur)) (flat cur) f) (add_dirent K name type parent)
    (\<lambda>r s. \<exists>ino v. r = sint ino \<and>
      N esz log0 (ms @ [dirent_bytes (dirent_node (of_int parent) ino v type name) @ name]) f s)"
proof -
  define cur' where "cur' = (if cur = [] then [CLEANMARKER] else cur)"
  let ?p = "length (flat cur')" and ?pre = "flat cur'" and ?bl = "log0 @ blocks"
  have wf': "\<forall>n\<in>set cur'. wf_node n" "payload (concat (map scan blocks) @ cur') = ms"
    using assms(5,6) wf_CLEANMARKER by (auto simp: cur'_def)
  have len: "?p + 40 + length name \<le> esz" using assms(7) wf_CLEANMARKER by (auto simp: cur'_def)
  have put: "T (J esz ?bl ?p ?pre f) (buf_store (int ?p) (replicate 40 0)) (\<lambda>_. J esz ?bl ?p ?pre f)"
    by (rule total_post [OF J_put]) (use len J_weaken in auto)
  have off: "int ?p + 40 = int (length (?pre @ dirent_bytes de))" for de by simp
  show ?thesis
    unfolding add_dirent_eq
    apply (rule total_bnd [OF J_ofs], rule total_fact(1), rule total_bnd [OF J_erasesize], rule total_fact(1))
    apply (rule total_bnd [where R = "\<lambda>_. J esz ?bl (length (flat cur)) (flat cur) f"])
    subgoal
      apply (rule total_if)
       apply (use room_check [of "length (flat cur)" esz "length name"] assms in simp)
      apply (rule total_ret, simp)
      done
    apply (rule total_bnd [OF J_prep [OF assms(2,5), folded cur'_def]])
    apply (rule total_bnd [OF J_puts], simp, simp, simp, simp)
    apply (rule total_bnd [OF J_ofs], rule total_fact(1))
    apply (simp only:)
    apply (rule total_bnd [OF put])
    apply (rule total_bnd [OF J_gets'])
    apply (rule total_bnd [OF J_puts], simp, simp, simp, simp)
    apply (rule total_bnd [OF J_gets'])
    apply (rule total_bnd [OF J_puts], simp, simp, simp, simp)
    subgoal for _ _ _ _ _ ofs _ ino _ v
      apply (rule total_bnd [OF J_put], use len in simp)
      apply (subst off [of "dirent_node (of_int parent) (of_int ino) (of_int v) type name"])
      apply (rule total_bnd [OF J_put], use len in simp)
      apply (rule total_bnd [OF J_move [where n = "40 + length name"]])
       apply (simp add: dirent_node_ok(3) [OF assms(4)] unat_of_nat_small assms(4))
      apply (rule total_bnd [where R = "\<lambda>_. N esz log0 (ms @ [dirent_bytes (dirent_node (of_int parent) (of_int ino) (of_int v) type name) @ name]) f"])
      subgoal
      proof -
        let ?n = "dirent_bytes (dirent_node (of_int parent) (of_int ino) (of_int v) type name) @ name"
        have "payload [?n] = [?n]" by (simp add: payload_def dirent_bytes_def JFFS2_NODETYPE_DIRENT_def)
        then show ?thesis
          using N_node [OF assms(1) _ _ wf', of ?n log0 f] dirent_node_ok(1) [OF assms(4)] len assms(2)
          by (simp add: add.assoc)
      qed
      apply (rule total_ret)
      apply (rule exI [of _ "of_int ino"], rule exI [of _ "of_int v"], rule conjI)
       apply (simp add: dirent_node_ok(4) [OF assms(4)])
      apply assumption
      done
    done
qed

end


lemma add_file_data_eq: "add_file_data K fd ri f_offset s =
   bnd (make_room K) (\<lambda>len.
   bnd (call (k_read K fd (of_int (if len > 4096 then 4096 else len)))) (\<lambda>res.
   case res of Inl _ \<Rightarrow> ret () | Inr wbuf \<Rightarrow>
   if wbuf = [] then ret () else
   bnd (puts (\<lambda>s. s\<lparr>last_version := last_version s + 1\<rparr>)) (\<lambda>_.
   bnd (gets last_version) (\<lambda>version.
   bnd (add_data K (inode_bytes (inode_node ri (of_int version) (of_int f_offset) wbuf))) (\<lambda>_.
   bnd (add_data K wbuf) (\<lambda>_.
   bnd (pad K 4) (\<lambda>_.
   bnd (prep_eraseblock K) (\<lambda>_.
   add_file_data K fd (inode_node ri (of_int version) (of_int f_offset) wbuf) (f_offset + int (length wbuf)))))))))) s"
  by (subst add_file_data.simps) (simp only: inode_node_def Let_def)

context jffs2_env begin

lemma J_make_room:
  assumes "p + 196 < esz"
  shows "T (J esz bl p pre f) (make_room K) (\<lambda>len s. len = int (esz - p - 68) \<and> J esz bl p pre f s)"
  apply (rule total_cong [OF make_room.simps])
  apply (rule total_bnd [OF total_gets [where Q = "\<lambda>rb s. rb = int (esz - p) \<and> J esz bl p pre f s"]])
  subgoal using assms by (simp add: jstate_def rbytes_def of_nat_diff)
  apply (rule total_fact(1))
  apply (simp only: Let_def)
  apply (rule total_if)
   apply (rule total_ret, use assms in \<open>simp add: of_nat_diff\<close>)
  apply (use assms in simp)
  done

lemma N_make_room:
  assumes "208 < esz"
  shows "T (N esz log0 ms f) (make_room K) (\<lambda>len s. \<exists>blocks cur. payload (concat (map scan blocks) @ cur) = ms \<and>
     (\<forall>n\<in>set cur. wf_node n) \<and> length (flat cur) + 196 < esz \<and> len = int (esz - length (flat cur) - 68) \<and>
     J esz (log0 @ blocks) (length (flat cur)) (flat cur) f s)" (is "T _ _ ?Q")
  unfolding jnodes_def
proof (intro total_ex total_fact(1))
  fix blocks cur
  assume ms: "payload (concat (map scan blocks) @ cur) = ms" and wf: "\<forall>n\<in>set cur. wf_node n" and len: "length (flat cur) < esz"
  let ?p = "length (flat cur)" and ?bl = "log0 @ blocks"
  show "T (J esz ?bl ?p (flat cur) f) (make_room K) ?Q"
  proof (cases "?p + 196 < esz")
    case True
    show ?thesis
      by (rule total_post [OF J_make_room [OF True]], rule exI [of _ blocks], rule exI [of _ cur]) (use True ms wf in simp)
  next
    case False
    have N: "N esz log0 ms f s" if "J esz ?bl ?p (flat cur) f s" for s
      unfolding jnodes_def using that ms wf len by blast
    have e: "0 < esz" "12 < esz" "12 + 196 < esz" using assms by simp_all
    show ?thesis
      apply (rule total_cong [OF make_room.simps])
      apply (rule total_bnd [OF total_gets [where Q = "\<lambda>rb s. rb = int (esz - ?p) \<and> J esz ?bl ?p (flat cur) f s"]])
      subgoal using len by (simp add: jstate_def rbytes_def of_nat_diff)
      apply (rule total_fact(1))
      apply (simp only: Let_def)
      apply (rule total_if)
      subgoal using False len by (simp add: of_nat_diff)
      apply (rule total_bnd [OF J_erasesize], rule total_fact(1), simp only:)
      apply (rule total_bnd [OF total_pre [OF N_flush [OF e(1)]]], erule N)
      apply (intro total_ex total_fact(1))
      subgoal for _ _ _ blocks'
        apply (rule total_bnd [where R = "\<lambda>_. J esz (log0 @ blocks') 12 CLEANMARKER f"])
         apply (use J_prep [OF e(2), of "[]" "log0 @ blocks'" f] wf_CLEANMARKER(2,4) in \<open>simp del: flat_simps(2) add: flat_simps(1)\<close>)
        apply (rule total_post [OF J_make_room [OF e(3)]], rule exI [of _ blocks'], rule exI [of _ "[CLEANMARKER]"])
        apply (use e wf_CLEANMARKER in \<open>simp del: flat_simps(2)\<close>)
        done
      done
  qed
qed

lemma N_I: "payload (concat (map scan blocks) @ cur) = ms \<Longrightarrow> \<forall>n\<in>set cur. wf_node n \<Longrightarrow> length (flat cur) < esz \<Longrightarrow>
    J esz (log0 @ blocks) (length (flat cur)) (flat cur) f s \<Longrightarrow> N esz log0 ms f s"
  unfolding jnodes_def by blast

lemma N_file_data:
  assumes "4 dvd esz" "208 < esz" "esz < 2 ^ 31"
  shows "T (N esz log0 ms f) (add_file_data K fdin ri (int (length acc)))
    (\<lambda>_ s. \<exists>ms'. N esz log0 (ms @ ms') [] s \<and> assemble (ri_ino ri) ms' acc = Some (acc @ f))"
proof (induction f arbitrary: ms ri acc rule: length_induct)
  case (1 f)
  let ?Q = "\<lambda>_ s. \<exists>ms'. N esz log0 (ms @ ms') [] s \<and> assemble (ri_ino ri) ms' acc = Some (acc @ f)"
  have IH: "T (N esz log0 ms g) (add_file_data K fdin ri (int (length acc)))
    (\<lambda>_ s. \<exists>ms'. N esz log0 (ms @ ms') [] s \<and> assemble (ri_ino ri) ms' acc = Some (acc @ g))" if "length g < length f" for g ms ri acc
    using 1 that by blast
  show ?case
    apply (rule total_cong [OF add_file_data_eq])
    apply (rule total_bnd [OF N_make_room [OF assms(2)]])
    apply (intro total_ex total_fact(1))
    subgoal premises p for len blocks cur
    proof -
      let ?n = "if len > 4096 then 4096 else len" and ?bl = "log0 @ blocks" and ?p = "length (flat cur)"
      have n: "0 < (of_int ?n :: u64)" "unat (of_int ?n :: u64) \<le> esz - ?p - 68"
      proof -
        have len: "len = int (esz - ?p - 68)" "?p + 196 < esz" using p by blast+
        define k where "k = (if 4096 < esz - ?p - 68 then 4096 else esz - ?p - 68)"
        have k: "?n = int k" "k < 2 ^ 64" "0 < k" "k \<le> esz - ?p - 68" using len by (auto simp: k_def)
        then have "unat (of_int ?n :: u64) = k" by (simp only: of_int_of_nat_eq) (rule unat_of_nat_small, simp)
        then show "0 < (of_int ?n :: u64)" "unat (of_int ?n :: u64) \<le> esz - ?p - 68"
          using k(3,4) unfolding word_less_nat_alt by (simp_all only: unat_0)
      qed
      have read: "T (J esz ?bl ?p (flat cur) f) (call (k_read K fdin (of_int ?n)))
          (\<lambda>r s. \<exists>m. (r = Inr (take m f) \<and> m \<le> esz - ?p - 68 \<and> (f \<noteq> [] \<longrightarrow> 0 < m)) \<and> J esz ?bl ?p (flat cur) (drop m f) s)"
      proof (rule total_call)
        fix s
        assume s: "J esz ?bl ?p (flat cur) f s"
        obtain m where m: "fst (k_read K fdin (of_int ?n) (kst s)) = Inr (take m (rest (kst s)))" "m \<le> unat (of_int ?n :: u64)"
          "rest (kst s) \<noteq> [] \<longrightarrow> 0 < (of_int ?n :: u64) \<longrightarrow> 0 < m" "rest (snd (k_read K fdin (of_int ?n) (kst s))) = drop m (rest (kst s))"
          "log (snd (k_read K fdin (of_int ?n) (kst s))) = log (kst s)"
          using read by blast
        have r: "rest (kst s) = f" using s by (simp add: jstate_def)
        show "\<exists>m. (fst (k_read K fdin (of_int ?n) (kst s)) = Inr (take m f) \<and> m \<le> esz - ?p - 68 \<and> (f \<noteq> [] \<longrightarrow> 0 < m)) \<and>
            J esz ?bl ?p (flat cur) (drop m f) (s\<lparr>kst := snd (k_read K fdin (of_int ?n) (kst s))\<rparr>)"
          using s m n r by (intro exI [of _ m]) (simp add: jstate_def)
      qed
      show ?thesis
        apply (rule total_bnd [OF read])
        apply (intro total_ex total_fact(1))
        apply (rule total_sum, simp)
        apply (rule total_if)
        subgoal for r m wbuf
          apply (rule total_ret, rule exI [of _ "[]"])
          apply (use p in \<open>cases "f = []"\<close>)
           apply (rule conjI, simp only: append_Nil2)
            apply (rule N_I, assumption, blast, linarith, simp)
           apply simp
          apply fastforce
          done
        subgoal premises q for r m wbuf
        proof -
          have w: "wbuf = take m f" "wbuf \<noteq> []" "length wbuf \<le> m" "m \<le> esz - ?p - 68" using q by auto
          have l: "length wbuf < 2 ^ 31" "?p + (68 + length wbuf) \<le> esz" using w(3,4) p assms(3) by linarith+
          have d: "length (drop m f) < length f" using w by (cases m; cases f) auto
          have f: "acc @ f = (acc @ wbuf) @ drop m f" by (simp add: w(1))
          let ?i = "\<lambda>v. inode_node ri (of_int v) (of_int (int (length acc))) wbuf"
          let ?b = "\<lambda>v. inode_bytes (?i v) @ wbuf"
          have pl: "payload [?b v] = [?b v]" for v
            unfolding payload_def filter.simps inode_node_ok(5) [OF l(1)] by (simp add: JFFS2_NODETYPE_INODE_def)
          have node: "T (J esz ?bl (length (flat cur @ ?b v)) (flat cur @ ?b v) (drop m f)) (pad K 4)
              (\<lambda>_. N esz log0 (ms @ [?b v]) (drop m f))" for v
          proof -
            have "T (J esz ?bl (length (flat cur @ ?b v)) (flat cur @ ?b v) (drop m f)) (pad K 4)
                (\<lambda>_. N esz log0 (ms @ payload [?b v]) (drop m f))"
              by (rule N_node [OF assms(1) _ inode_node_ok(1) [OF l(1)]]) (use p l assms(2) in \<open>blast | simp\<close>)+
            then show ?thesis by (simp only: pl)
          qed
          show ?thesis
            apply (rule total_bnd [OF J_puts], simp, simp, simp, simp)
            apply (rule total_bnd [OF J_gets'])
            apply (rule total_bnd [OF J_add_data], use l in simp)
            apply (rule total_bnd [OF J_add_data], use l in simp)
            apply (simp only: append_assoc)
            apply (rule total_bnd [OF node])
            apply (rule total_bnd [OF N_prep], use assms(2) in simp)
            apply (rule total_pre [where P = "N esz log0 (ms @ [?b v]) (drop m f)" for v])
             prefer 2 apply blast
            subgoal for _ v
              apply (simp only: length_append [symmetric] of_nat_add [symmetric])
              apply (rule total_post [OF IH [OF d]])
              apply (elim exE conjE)
              subgoal for _ s ms'
                apply (rule exI [of _ "?b v # ms'"])
                apply (unfold f assemble.simps inode_node_ok(3,4,5,6,7) [OF l(1)])
                apply (simp add: inode_node_ok(2) [OF l(1)])
                done
              done
            done
        qed
        done
    qed
    done
qed

end


context jffs2_env begin

lemma N_add_file:
  assumes "4 dvd esz" "208 < esz" "esz < 2 ^ 31" "\<forall>n\<in>set cur. wf_node n" "payload (concat (map scan blocks) @ cur) = ms"
    and len: "length (file_basename name) < 256" "length (flat cur) + 52 + length (file_basename name) \<le> esz"
    and exist: "\<And>k. fst (k_stat K name k) \<noteq> None"
  shows "T (J esz (log0 @ blocks) (length (flat cur)) (flat cur) f) (add_file K name parent)
    (\<lambda>_ s. \<exists>ino d ms'. N esz log0 (ms @ d # ms') [] s \<and>
      dirent_ok (of_int parent) ino DT_REG (map of_char (file_basename name)) d \<and> assemble ino ms' [] = Some f)"
  (is "T ?P _ ?Q")
proof -
  let ?name = "map of_char (file_basename name) :: bytes"
  let ?d = "\<lambda>ino v. dirent_bytes (dirent_node (of_int parent) ino v DT_REG ?name) @ ?name"
  have stat: "T ?P (call (k_stat K name)) (\<lambda>r s. r \<noteq> None \<and> ?P s)"
    by (rule total_call) (use exist in \<open>simp add: jstate_def same\<close>)
  have opn: "T (N esz log0 ms f) (call (k_open_rd K name)) (\<lambda>r s. r = fdin \<and> N esz log0 ms f s)" for ms
    by (rule total_call) (simp add: jnodes_def jstate_def same open_rd)
  have cls: "T (N esz log0 ms []) (call (k_close K fd)) (\<lambda>_. N esz log0 ms [])" for ms fd
    by (rule total_call) (simp add: jnodes_def jstate_def same)
  have l: "length ?name < 256" "length (flat cur) + 12 + 40 + length ?name \<le> esz" using len by simp_all
  show ?thesis
    unfolding add_file_def
    apply (rule total_bnd [OF stat], rule total_fact(1), rule total_option, simp)
    apply (rule total_bnd [OF J_dirent [OF assms(1) _ assms(3) l(1) assms(4,5) l(2)]], use assms(2) in simp)
    apply (intro total_ex total_fact(1))
    apply (unfold Let_def)
    apply (rule total_bnd [OF opn], rule total_fact(1), rule total_if, use open_rd(2) in simp)
    subgoal premises p for _ st inode ino v fd
    proof -
      have i: "(of_int inode :: u32) = ino" by (simp add: p(3))
      have data: "T (N esz log0 ms f) (add_file_data K fdin ri 0) (\<lambda>_ s. \<exists>ms'. N esz log0 (ms @ ms') [] s \<and> assemble (ri_ino ri) ms' [] = Some f)" for ms ri
        using N_file_data [OF assms(1-3), of log0 ms f ri "[]"] by simp
      show ?thesis
        unfolding p(4)
        apply (rule total_bnd [OF data])
        apply (intro total_ex total_fact(2))
        subgoal for _ ms'
          apply (rule total_post [OF cls], rule exI [of _ ino], rule exI [of _ "?d ino v"], rule exI [of _ ms'])
          using dirent_node_ok(2) [OF l(1), of "of_int parent" ino DT_REG v] by (simp add: i)
        done
    qed
    done
qed

lemma N_replace:
  assumes "4 dvd esz" "208 < esz" "esz < 2 ^ 31"
    and len: "length (file_basename name) < 256" "52 + length (file_basename name) \<le> esz"
    and exist: "\<And>k. fst (k_stat K name k) \<noteq> None"
  shows "T (\<lambda>s. erasesize s = int esz \<and> jffs2_ofs s = 0 \<and> log (kst s) = log0 \<and> rest (kst s) = f) (mtd_replace_jffs2 K mtd fd ofs name)
    (\<lambda>r s. \<exists>blocks ino d ms. log (kst s) = log0 @ blocks @ [JFFS2_EOF @ replicate (esz - 4) 0xFF] \<and>
      payload (concat (map scan blocks)) = d # ms \<and>
      dirent_ok 1 ino DT_REG (map of_char (file_basename name)) d \<and> assemble ino ms [] = Some f)"
  (is "T ?P _ ?Q")
proof -
  have e: "0 < esz" "length JFFS2_EOF = 4" using assms(2) by (simp_all add: JFFS2_EOF_def)
  have malloc': "T ?P (call (k_malloc K (of_int (int esz)))) (\<lambda>m s. (\<exists>b. m = Some b \<and> length b = esz) \<and> ?P s)"
  proof (rule total_call)
    fix s
    assume s: "?P s"
    have "unat (of_nat esz :: u64) = esz" using assms(3) by (simp add: unat_of_nat_small)
    then show "(\<exists>b. fst (k_malloc K (of_int (int esz)) (kst s)) = Some b \<and> length b = esz) \<and>
        ?P (s\<lparr>kst := snd (k_malloc K (of_int (int esz)) (kst s))\<rparr>)"
      using malloc [of "of_int (int esz)" "kst s"] s by (simp add: same)
  qed
  show ?thesis
    unfolding mtd_replace_jffs2_def
    apply (rule total_bnd [OF total_gets [where Q = "\<lambda>e s. e = int esz \<and> ?P s"]], simp)
    apply (rule total_fact(1), simp only:)
    apply (rule total_bnd [OF total_puts [where Q = "\<lambda>_. ?P"]], simp)
    apply (rule total_bnd [OF malloc'], rule total_fact(1))
    apply (rule total_bnd [OF total_puts [where Q = "\<lambda>_. J esz log0 0 [] f"]], force simp: jstate_def)
    apply (rule total_bnd)
     apply (rule total_pre [OF N_add_file [OF assms(1-3), of "[]" "[]" "[]" name log0 f 1]], simp, simp, rule len(1), use len in simp, rule exist)
     apply simp
    apply (intro total_ex total_fact(2))
    apply (rule total_bnd [OF N_flush [OF e(1)]])
    apply (intro total_ex total_fact(1))
    subgoal premises p for _ _ m _ _ ino d ms _ blocks
      apply (rule total_bnd [where R = "\<lambda>_. J esz (log0 @ blocks) (length JFFS2_EOF) JFFS2_EOF []"])
      subgoal using J_add_data [of "[]" JFFS2_EOF esz "log0 @ blocks" "[]"] assms(2) e by simp
      apply (rule total_bnd [OF J_pad [OF e(1) dvd_refl e(1)]], use assms(2) e in simp)
      apply (rule total_bnd [OF total_gets [where Q = "\<lambda>_ s. log (kst s) = log0 @ blocks @ [JFFS2_EOF @ replicate (esz - 4) 0xFF]"]])
      subgoal using assms(2) e by (simp add: padded_def jstate_def)
      apply (rule total_ret)
      apply (rule exI [of _ blocks], rule exI [of _ ino], rule exI [of _ d], rule exI [of _ ms])
      using p by simp
    done
qed

end


section \<open>Replacing the file system\<close>

text \<open>A kernel that keeps, beside the state of another one, the list of the blocks it was asked to write.\<close>

definition beside :: "('k \<Rightarrow> 'a \<times> 'k) \<Rightarrow> 'k \<times> 'l \<Rightarrow> 'a \<times> 'k \<times> 'l" where
  "beside f = (\<lambda>(k, l). (fst (f k), snd (f k), l))"

definition logged :: "'k kern \<Rightarrow> ('k \<times> bytes list) kern" where
  "logged K = \<lparr>k_proc_mtd = beside (k_proc_mtd K), k_open = (\<lambda>p. beside (k_open K p)), k_open_rd = (\<lambda>p. beside (k_open_rd K p)),
     k_stat = (\<lambda>p. beside (k_stat K p)), k_close = (\<lambda>fd. beside (k_close K fd)), k_getinfo = (\<lambda>fd. beside (k_getinfo K fd)),
     k_getbadblock = (\<lambda>fd off. beside (k_getbadblock K fd off)), k_unlock = (\<lambda>fd st n. beside (k_unlock K fd st n)),
     k_erase = (\<lambda>fd st n. beside (k_erase K fd st n)), k_pread = (\<lambda>fd n off. beside (k_pread K fd n off)),
     k_pwrite = (\<lambda>fd b off. beside (k_pwrite K fd b off)), k_read = (\<lambda>fd n. beside (k_read K fd n)),
     k_write = (\<lambda>fd b (k, l). (fst (k_write K fd b k), snd (k_write K fd b k), l @ [b])),
     k_lseek_set = (\<lambda>fd off. beside (k_lseek_set K fd off)), k_lseek_cur = (\<lambda>fd off. beside (k_lseek_cur K fd off)),
     k_mmap = (\<lambda>fd n. beside (k_mmap K fd n)), k_msync = (\<lambda>fd b. beside (k_msync K fd b)), k_malloc = (\<lambda>n. beside (k_malloc K n))\<rparr>"

interpretation jlog: jffs2_env "logged (sim_kern bad)" 0 snd "\<lambda>(k, l). sim_in k" for bad
proof (unfold_locales, goal_cases)
  case (19 n k)
  then show ?case by (simp add: logged_def beside_def split_beta)
next
  case (22 n k)
  show ?case
    by (rule exI [of _ "unat n"]) (simp add: logged_def beside_def split_beta unat_gt_0 word_less_nat_alt)
qed (auto simp: logged_def beside_def split_beta sim_program_def Let_def)

lemma logged_sim: "\<not> refuses (logged (sim_kern bad))" "fst (k_stat (logged (sim_kern bad)) p k) \<noteq> None"
  by (auto simp: refuses_def logged_def beside_def split_beta)

definition sim_state_in :: "bytes \<Rightarrow> (sim \<times> bytes list) mtd_state" where
  "sim_state_in f = \<lparr>kst = (\<lparr>sim_data = [], sim_pos = 0, sim_in = f\<rparr>, []), mtdsize = 4096, erasesize = 512, mtdtype = 4,
     mtd_buf = None, buflen = 0, imageformat = MTD_IMAGE_FORMAT_UNKNOWN, no_erase = False, jffs2file = None, jffs2dir = [],
     jffs2_skip_bytes = 0, tpl_uboot_args_part = None, last_ino = 0, last_version = 0, jffs2_buf = [], jffs2_ofs = 0,
     outfd = -1, mtdofs = 0, target_ino = 0\<rparr>"

text \<open>
  C6. Replacing the JFFS2 by one file returns, without an access outside of the block buffer, unless the kernel refuses to say
  whether a block is bad. The blocks written, up to the last one with the end mark, can be read back: they
  consist of clean markers, one directory entry with the name of the file, and nodes whose data, each at the place the node
  names and with correct checksums, make up the contents of the file.
\<close>

theorem jffs2_roundtrip:
  assumes "jffs2_env K fdin log rest" "4 dvd esz" "208 < esz" "esz < 2 ^ 31" "\<forall>k. fst (k_stat K name k) \<noteq> None"
    and "length (file_basename name) < 256" "52 + length (file_basename name) \<le> esz"
    and "erasesize s = int esz" "jffs2_ofs s = 0"
  shows "\<exists>t. mtd_replace_jffs2 K mtd fd ofs name s = Some (Exit, t) \<and> refuses K \<or>
    (\<exists>r blocks ino d ms. mtd_replace_jffs2 K mtd fd ofs name s = Some (Done r, t) \<and>
       log (kst t) = log (kst s) @ blocks @ [JFFS2_EOF @ replicate (esz - 4) 0xFF] \<and>
       payload (concat (map scan blocks)) = d # ms \<and> dirent_ok 1 ino DT_REG (map of_char (file_basename name)) d \<and>
       assemble ino ms [] = Some (rest (kst s)))"
  using totalD [OF jffs2_env.N_replace [OF assms(1-4,6,7)], of s "log (kst s)" "rest (kst s)" mtd fd ofs] assms(5,8,9)
  by blast

theorem jffs2_roundtrip_witness:
  "\<exists>t r blocks ino d ms. mtd_replace_jffs2 (logged (sim_kern (\<lambda>_. False))) ''rootfs_data'' 3 0 ''/tmp/cfg''
      (sim_state_in [1, 2, 3]) = Some (Done r, t) \<and>
    snd (kst t) = blocks @ [JFFS2_EOF @ replicate 508 0xFF] \<and> payload (concat (map scan blocks)) = d # ms \<and>
    dirent_ok 1 ino DT_REG [0x63, 0x66, 0x67] d \<and> assemble ino ms [] = Some [1, 2, 3]"
proof -
  let ?K = "logged (sim_kern (\<lambda>_. False))"
  have n: "file_basename ''/tmp/cfg'' = ''cfg''" by code_simp
  have "map of_char ''cfg'' = [0x63, 0x66, 0x67 :: u8]" by code_simp
  with jffs2_roundtrip [of ?K 0 snd "\<lambda>(k, l). sim_in k" 512 "''/tmp/cfg''" "sim_state_in [1, 2, 3]" "''rootfs_data''" 3 0,
      OF jlog.jffs2_env_axioms] n logged_sim
  show ?thesis by (simp add: sim_state_in_def)
qed


section \<open>A torn node\<close>

lemma parse_node_stays:
  assumes "bytes_u16 buf = 0x1985" "PAD (bytes_u32 (drop 4 buf)) = 0" "40 \<le> length buf"
  shows "\<exists>t. parse_node buf dir 0 s = Some (Done (Some 0), t) \<and> erasesize t = erasesize s"
proof -
  have b: "bytes_u16 (buf_get 0 2 buf) = bytes_u16 buf" "bytes_u32 (drop 4 (buf_get 0 8 buf)) = bytes_u32 (drop 4 buf)"
    using assms(3) by (auto simp: buf_get_def bytes_u16_def drop_take intro!: bytes_u32_cong)
  show ?thesis
    unfolding parse_node_def using assms b by (auto simp: load_def ret_def Let_def)
qed



end
