(* ===== verification/Util_Boards.thy ===== *)
theory Util_Boards
  imports Util_Fix
begin

text \<open>
  Records that boot loaders keep on their own partitions: the boot counter of Linksys devices
  (\<open>linksys_bootcount.c\<close>) and the recovery flag of TP-Link devices (\<open>tpl_ramips_recoveryflag.c\<close>).
\<close>

section \<open>Boot counter\<close>

definition BOOTCOUNT_MAGIC :: u32 where "BOOTCOUNT_MAGIC = 0x20110811"
definition BC_OFFSET_INCREMENT_MIN :: u32 where "BC_OFFSET_INCREMENT_MIN = 16"

record bootcounter =
  bc_magic :: u32
  bc_count :: u32
  bc_checksum :: u32

definition bootcounter_bytes :: "bootcounter \<Rightarrow> bytes" where
  "bootcounter_bytes b = u32_bytes (bc_magic b) @ u32_bytes (bc_count b) @ u32_bytes (bc_checksum b)"

definition bytes_bootcounter :: "bytes \<Rightarrow> bootcounter" where
  "bytes_bootcounter b = \<lparr>bc_magic = bytes_u32 b, bc_count = bytes_u32 (drop 4 b), bc_checksum = bytes_u32 (drop 8 b)\<rparr>"

text \<open>The static buffer is all zero when the tool starts.\<close>

definition bc_page :: bytes where "bc_page = replicate 2048 0"

definition offset_increment :: "mtd_info_user \<Rightarrow> u32" where
  "offset_increment i =
     (if info_writesize i < BC_OFFSET_INCREMENT_MIN then BC_OFFSET_INCREMENT_MIN else info_writesize i)"

text \<open>
  The walk over the records of the given numbers: the return code of an abortion, or the number of the first free
  record, if any, the last count and the buffer.
\<close>

fun bc_scan :: "'k kern \<Rightarrow> int \<Rightarrow> u32 \<Rightarrow> u32 list \<Rightarrow> u32 \<Rightarrow> bytes \<Rightarrow> ('k, int + u32 option \<times> u32 \<times> bytes) prog" where
  "bc_scan K fd inc [] last_count page = ret (Inr (None, last_count, page))"
| "bc_scan K fd inc (i # js) last_count page =
     bnd (call (k_pread K fd 12 (ucast (i * inc)))) (\<lambda>res.
     let page = (case res of Inl _ \<Rightarrow> page | Inr b \<Rightarrow> buf_put 0 b page);
         curr = bytes_bootcounter page in
     if bc_magic curr \<noteq> BOOTCOUNT_MAGIC \<and> bc_magic curr \<noteq> 0xFFFFFFFF then ret (Inl (-2))
     else if bc_magic curr = 0xFFFFFFFF then ret (Inr (Some i, last_count, page))
     else bc_scan K fd inc js (bc_count curr) page)"

definition mtd_resetbc :: "'k kern \<Rightarrow> string \<Rightarrow> ('k, int) prog" where
  "mtd_resetbc K mtd =
     bnd (mtd_check_open K mtd) (\<lambda>fd.
     bnd (call (k_getinfo K fd)) (\<lambda>info.
     case info of None \<Rightarrow> bnd (call (k_close K fd)) (\<lambda>_. ret (-1)) | Some mtd_info \<Rightarrow>
     let inc = offset_increment mtd_info;
         num_bc = info_size mtd_info div inc in
     bnd (bc_scan K fd inc (map of_nat [0..<unat num_bc]) 0 bc_page) (\<lambda>r.
     case r of Inl e \<Rightarrow> bnd (call (k_close K fd)) (\<lambda>_. ret e) | Inr (free, last_count, page) \<Rightarrow>
     if last_count = 0 then bnd (call (k_close K fd)) (\<lambda>_. ret 0) else
     bnd (case free of Some i \<Rightarrow> ret (Inr i) | None \<Rightarrow>
            bnd (call (k_erase K fd 0 (info_size mtd_info))) (\<lambda>r. ret (if r < 0 then Inl () else Inr 0))) (\<lambda>r.
     case r of Inl _ \<Rightarrow> bnd (call (k_close K fd)) (\<lambda>_. ret (-3)) | Inr i \<Rightarrow>
     bnd (store 0 (replicate (unat inc) 0xFF) page) (\<lambda>page.
     bnd (store 0 (bootcounter_bytes \<lparr>bc_magic = BOOTCOUNT_MAGIC, bc_count = 0, bc_checksum = BOOTCOUNT_MAGIC\<rparr>) page) (\<lambda>page.
     bnd (call (k_pwrite K fd (take (unat inc) page) (ucast (i * inc)))) (\<lambda>r.
     bnd (call (k_close K fd)) (\<lambda>_.
     ret (if r < 0 then -4 else 0)))))))))"

section \<open>Recovery flag\<close>

definition TPL_RECOVER_MAGIC :: u32 where "TPL_RECOVER_MAGIC = 0x89ABCDEF"
definition TPL_NO_RECOVER_MAGIC :: u32 where "TPL_NO_RECOVER_MAGIC = 0"

text \<open>The buffer is allocated with the erase size of the device that was open before.\<close>

definition mtd_tpl_recoverflag_write :: "'k kern \<Rightarrow> string \<Rightarrow> bool \<Rightarrow> ('k, int) prog" where
  "mtd_tpl_recoverflag_write K mtd recovery_active =
     bnd (gets erasesize) (\<lambda>esz.
     bnd (call (k_malloc K (of_int esz))) (\<lambda>m.
     case m of None \<Rightarrow> ret (-1) | Some args \<Rightarrow>
     bnd (mtd_check_open K mtd) (\<lambda>fd.
     if fd < 0 then bnd (call (k_close K fd)) (\<lambda>_. ret (-1)) else
     bnd (gets erasesize) (\<lambda>esz.
     bnd (call (k_pread K fd (of_int esz) 0)) (\<lambda>res.
     bnd (case res of Inl _ \<Rightarrow> ret args | Inr b \<Rightarrow> store 0 b args) (\<lambda>args.
     let magic = (if recovery_active then TPL_RECOVER_MAGIC else TPL_NO_RECOVER_MAGIC) in
     bnd (load 0 4 args) (\<lambda>args_magic.
     if magic = bytes_u32 args_magic then bnd (call (k_close K fd)) (\<lambda>_. ret 0) else
     bnd (call (k_erase K fd 0 (of_int esz))) (\<lambda>r.
     if r < 0 then bnd (call (k_close K fd)) (\<lambda>_. ret r) else
     bnd (store 0 (u32_bytes magic) args) (\<lambda>args.
     bnd (load 0 (nat esz) args) (\<lambda>b.
     bnd (call (k_pwrite K fd b 0)) (\<lambda>r.
     bnd (call (k_close K fd)) (\<lambda>_.
     ret r))))))))))))"

section \<open>The counter is reset\<close>

text \<open>The record in each slot, and the count a boot loader finds: that of the last record before the first free slot.\<close>

definition slot :: "nat \<Rightarrow> nat \<Rightarrow> bytes \<Rightarrow> bootcounter" where
  "slot inc j c = bytes_bootcounter (buf_get (j * inc) inc c)"

fun boot_count_from :: "nat \<Rightarrow> bytes \<Rightarrow> nat list \<Rightarrow> u32 \<Rightarrow> u32" where
  "boot_count_from inc c [] n = n"
| "boot_count_from inc c (j # js) n =
     (if bc_magic (slot inc j c) = BOOTCOUNT_MAGIC then boot_count_from inc c js (bc_count (slot inc j c)) else n)"

definition boot_count :: "nat \<Rightarrow> nat \<Rightarrow> bytes \<Rightarrow> u32" where
  "boot_count inc n c = boot_count_from inc c [0..<n] 0"

text \<open>A log: records up to a slot, then erased flash.\<close>

definition boot_log :: "nat \<Rightarrow> nat \<Rightarrow> nat \<Rightarrow> bytes \<Rightarrow> bool" where
  "boot_log inc n k c \<longleftrightarrow> k \<le> n \<and> (\<forall>j<k. bc_magic (slot inc j c) = BOOTCOUNT_MAGIC) \<and>
     (\<forall>j. k \<le> j \<longrightarrow> j < n \<longrightarrow> buf_get (j * inc) inc c = replicate inc 0xFF)"

lemma bytes_bootcounter_cong: "take 12 b = take 12 c \<Longrightarrow> 12 \<le> length b \<Longrightarrow> 12 \<le> length c \<Longrightarrow> bytes_bootcounter b = bytes_bootcounter c"
proof -
  assume t: "take 12 b = take 12 c" and l: "12 \<le> length b" "12 \<le> length c"
  have e: "take 4 (drop i (take 12 x)) = take 4 (drop i x)" if "i \<le> 8" for i and x :: bytes
    using that by (simp add: drop_take min_def)
  have "take 4 (drop i b) = take 4 (drop i c)" if "i \<le> 8" for i
    using e [OF that, of b] e [OF that, of c] t by simp
  from this [of 0] this [of 4] this [of 8] show ?thesis
    unfolding bytes_bootcounter_def using l by (auto intro!: bytes_u32_cong)
qed

lemma bootcounter_round: "bytes_bootcounter (bootcounter_bytes r @ x) = r"
  by (simp add: bytes_bootcounter_def bootcounter_bytes_def)

lemma slot_free:
  assumes "buf_get (j * inc) inc c = replicate inc 0xFF" "12 \<le> inc"
  shows "bc_magic (slot inc j c) = 0xFFFFFFFF"
proof -
  have "bytes_u32 (replicate inc 0xFF) = bytes_u32 (replicate 4 0xFF)"
    using assms(2) by (intro bytes_u32_cong) (simp_all add: min_def)
  also have "\<dots> = 0xFFFFFFFF" by code_simp
  finally show ?thesis by (simp add: slot_def bytes_bootcounter_def assms(1))
qed

lemma boot_count_log:
  assumes "boot_log inc n k c" "12 \<le> inc"
  shows "boot_count inc n c = (if k = 0 then 0 else bc_count (slot inc (k - 1) c))"
proof -
  have "boot_count_from inc c [a..<n] m = (if k \<le> a then m else bc_count (slot inc (k - 1) c))" if "a \<le> k" for a m
    using that
  proof (induction "n - a" arbitrary: a m)
    case 0
    then show ?case using assms(1) by (auto simp: boot_log_def)
  next
    case (Suc d)
    then have u: "[a..<n] = a # [Suc a..<n]" by (simp add: upt_conv_Cons)
    show ?case
    proof (cases "a < k")
      case True
      then have "bc_magic (slot inc a c) = BOOTCOUNT_MAGIC" using assms(1) by (simp add: boot_log_def)
      moreover have "boot_count_from inc c [Suc a..<n] x = (if k \<le> Suc a then x else bc_count (slot inc (k - 1) c))" for x
        using Suc True by simp
      ultimately show ?thesis using True unfolding u by (cases "k = Suc a") simp_all
    next
      case False
      then have a: "a = k" "a < n" using Suc by simp_all
      have "bc_magic (slot inc a c) = 0xFFFFFFFF"
        using assms a by (intro slot_free) (auto simp: boot_log_def)
      then show ?thesis unfolding u using a by (simp add: BOOTCOUNT_MAGIC_def)
    qed
  qed
  from this [of 0 0] show ?thesis by (simp add: boot_count_def)
qed

lemma log_append:
  assumes log: "boot_log inc n k c" and k: "k < n" "12 \<le> inc" "n * inc \<le> length c" and m: "bc_magic r = BOOTCOUNT_MAGIC"
  defines "c' \<equiv> buf_put (k * inc) (bootcounter_bytes r @ replicate (inc - 12) 0xFF) c"
  shows "boot_log inc n (Suc k) c'" "slot inc k c' = r"
proof -
  let ?x = "bootcounter_bytes r @ replicate (inc - 12) 0xFF"
  have x: "length ?x = inc" using k(2) by (simp add: bootcounter_bytes_def)
  have room: "j * inc + inc \<le> length c" if "j < n" for j
  proof -
    have "j * inc + inc = Suc j * inc" by simp
    also have "\<dots> \<le> n * inc" using that by (intro mult_le_mono1) simp
    finally show ?thesis using k(3) by simp
  qed
  have "buf_get (k * inc) inc c' = ?x" unfolding c'_def using room [OF k(1)] x by (intro buf_get_put_same) simp_all
  then show s: "slot inc k c' = r" by (simp add: slot_def bootcounter_round)
  have other: "buf_get (j * inc) inc c' = buf_get (j * inc) inc c" if "j \<noteq> k" "j < n" for j
  proof (cases "j < k")
    case True
    have "j * inc + inc = Suc j * inc" by simp
    also have "\<dots> \<le> k * inc" using True by (intro mult_le_mono1) simp
    finally show ?thesis unfolding c'_def using room [OF k(1)] x by (intro buf_get_put_before) simp_all
  next
    case False
    have "k * inc + inc = Suc k * inc" by simp
    also have "\<dots> \<le> j * inc" using False that by (intro mult_le_mono1) simp
    finally show ?thesis unfolding c'_def using room [OF k(1)] x by (intro buf_get_put_after) simp_all
  qed
  then have sl: "slot inc j c' = slot inc j c" if "j \<noteq> k" "j < n" for j using that by (simp add: slot_def)
  show "boot_log inc n (Suc k) c'"
    unfolding boot_log_def
  proof (intro conjI allI impI)
    show "Suc k \<le> n" using k(1) by simp
    show "bc_magic (slot inc j c') = BOOTCOUNT_MAGIC" if "j < Suc k" for j
      using that s m sl [of j] log k(1) by (cases "j = k") (auto simp: boot_log_def)
    show "buf_get (j * inc) inc c' = replicate inc 0xFF" if "Suc k \<le> j" "j < n" for j
      using that other [of j] log by (auto simp: boot_log_def)
  qed
qed

text \<open>Reads are complete, and writes are complete or fail.\<close>

definition reliable :: "'k kern \<Rightarrow> ('k \<Rightarrow> bytes) \<Rightarrow> bool" where
  "reliable K content \<longleftrightarrow>
     (\<forall>fd n off k. unat off + unat n \<le> length (content k) \<longrightarrow> fst (k_pread K fd n off k) = Inr (buf_get (unat off) (unat n) (content k))) \<and>
     (\<forall>fd b off k. 0 \<le> fst (k_pwrite K fd b off k) \<longrightarrow> fst (k_pwrite K fd b off k) = int (length b))"

lemma slot_addr:
  assumes "0 < unat inc" "a * unat inc + m \<le> n" "n < 2 ^ 31"
  shows "unat (ucast (of_nat a * inc :: u32) :: u64) = a * unat inc"
proof -
  have "a * 1 \<le> a * unat inc" using assms(1) by (intro mult_le_mono2) simp
  moreover have "(2 :: nat) ^ 31 < 2 ^ 32" by simp
  ultimately have "a < 2 ^ 32" "a * unat inc < 2 ^ 32" using assms(2,3) by - linarith+
  then show ?thesis using unat_of_nat_small [of a, where 'a = 32] by (simp add: unat_word_ariths)
qed

lemma valid_ex: "(\<And>y. valid (P y) m Q) \<Longrightarrow> valid (\<lambda>s. \<exists>y. P y s) m Q"
  by (auto simp: valid_def)

context flash_device begin

lemma scan_valid:
  assumes rel: "reliable K content" and inc: "12 \<le> unat inc" "n * unat inc \<le> length c" "length c < 2 ^ 31"
    and log: "boot_log (unat inc) n k c" and a: "a \<le> k" "length page = 2048"
  shows "valid (D v c) (bc_scan K fd inc (map of_nat [a..<n]) last_count page) (\<lambda>r s. (\<exists>page'. length page' = 2048 \<and>
    r = Inr (if k < n then Some (of_nat k) else None, if k \<le> a then last_count else bc_count (slot (unat inc) (k - 1) c), page')) \<and> D v c s)"
  using a
proof (induction "n - a" arbitrary: a last_count page)
  case 0
  then have "a = n" "k = n" using log by (auto simp: boot_log_def)
  then show ?case using 0 by (auto intro!: valid_ret)
next
  case (Suc d)
  then have u: "map of_nat [a..<n] = of_nat a # map of_nat [Suc a..<n]" and an: "a < n" by (simp_all add: upt_conv_Cons)
  let ?i = "unat inc" and ?Q = "\<lambda>r s. (\<exists>page'. length page' = 2048 \<and>
    r = Inr (if k < n then Some (of_nat k) else None, if k \<le> a then last_count else bc_count (slot (unat inc) (k - 1) c), page')) \<and> D v c s"
  have "a * ?i + ?i = Suc a * ?i" by simp
  also have "\<dots> \<le> n * ?i" using an by (intro mult_le_mono1) simp
  finally have room: "a * ?i + ?i \<le> length c" using inc(2) by simp
  have off: "unat (ucast (of_nat a * inc) :: u64) = a * ?i"
    using room inc by (intro slot_addr) simp_all
  let ?page = "buf_put 0 (buf_get (a * ?i) 12 c) page"
  have page: "length ?page = 2048" using Suc.prems(2) room inc(1) by (simp add: length_buf_put)
  have curr: "bytes_bootcounter ?page = slot ?i a c"
    unfolding slot_def using Suc.prems(2) room inc(1)
    by (intro bytes_bootcounter_cong) (simp_all add: buf_put_def buf_get_def length_buf_put)
  have step: "valid (D v c) (call (k_pread K fd 12 (ucast (of_nat a * inc)))) (\<lambda>res s. res = Inr (buf_get (a * ?i) 12 c) \<and> D v c s)"
    by (rule valid_call) (use rel room inc(1) off in \<open>auto simp: dev_def pread reliable_def\<close>)
  show ?case
  proof (cases "a < k")
    case True
    then have m: "bc_magic (slot ?i a c) = BOOTCOUNT_MAGIC" using log by (simp add: boot_log_def)
    have "valid (D v c) (bc_scan K fd inc (map of_nat [Suc a..<n]) (bc_count (slot ?i a c)) ?page) ?Q"
      using Suc.hyps(1) [of "Suc a" ?page "bc_count (slot ?i a c)"] Suc.hyps(2) True page
      by (cases "k = Suc a") simp_all
    then show ?thesis
      unfolding u bc_scan.simps Let_def
      apply (intro valid_bnd [OF step] valid_fact(1))
      apply (simp add: curr m)
      apply (simp add: BOOTCOUNT_MAGIC_def)
      done
  next
    case False
    then have a: "a = k" using Suc.prems(1) by simp
    have mg: "bc_magic (slot ?i a c) = 0xFFFFFFFF"
      using log an a room inc(1) by (intro slot_free) (auto simp: boot_log_def)
    show ?thesis
      unfolding u bc_scan.simps Let_def
      apply (intro valid_bnd [OF step] valid_fact(1))
      apply (simp only: sum.case curr mg simp_thms if_True if_False)
      apply (rule valid_ret, use page an a in auto)
      done
  qed
qed


lemma resetbc_valid:
  assumes rel: "reliable K content" and small: "offset_increment info \<le> 2048"
  defines "inc \<equiv> offset_increment info" and "n \<equiv> unat (info_size info div offset_increment info)"
  assumes log: "boot_log (unat inc) n k c"
  shows "valid (D False c) (mtd_resetbc K mtd) (\<lambda>r s. r = 0 \<longrightarrow>
    (\<exists>c' k'. boot_log (unat inc) n k' c' \<and> boot_count (unat inc) n c' = 0 \<and> content (kst s) = c'))"
proof (rule valid_dev)
  assume len: "length c < 2 ^ 31" "length c = unat (info_size info)"
  let ?i = "unat inc" and ?r = "\<lparr>bc_magic = BOOTCOUNT_MAGIC, bc_count = 0, bc_checksum = BOOTCOUNT_MAGIC\<rparr>"
  let ?new = "bootcounter_bytes ?r @ replicate (?i - 12) 0xFF"
  let ?Q = "\<lambda>(r :: int) s. r = 0 \<longrightarrow> (\<exists>c' k'. boot_log (unat inc) n k' c' \<and> boot_count (unat inc) n c' = 0 \<and> content (kst s) = c')"
  have i16: "16 \<le> ?i" unfolding inc_def offset_increment_def BC_OFFSET_INCREMENT_MIN_def by (simp add: word_less_nat_alt)
  have i2048: "?i \<le> 2048" using small by (simp add: inc_def word_le_nat_alt)
  have n: "n = length c div ?i" by (simp add: n_def inc_def len(2) unat_div)
  then have fits: "n * ?i \<le> length c" by simp
  have room: "j * ?i + ?i \<le> length c" if "j < n" for j
  proof -
    have "j * ?i + ?i = Suc j * ?i" by simp
    also have "\<dots> \<le> n * ?i" using that by (intro mult_le_mono1) simp
    finally show ?thesis using fits by simp
  qed
  have close: "valid P (bnd (call (k_close K fd)) (\<lambda>_. ret e)) ?Q" if "e \<noteq> 0" for P fd e
    by (rule valid_bnd [OF valid_call [where Q = "\<lambda>_ _. True"]]) (use that in \<open>auto intro: valid_ret\<close>)
  have wr: "valid (D v c0) (bnd (call (k_pwrite K fd ?new (ucast (of_nat j * inc)))) (\<lambda>r. bnd (call (k_close K fd)) (\<lambda>_.
      ret (if r < 0 then -4 else 0)))) ?Q" if "boot_log ?i n j c0" "j < n" "length c0 = length c" for v c0 fd j
  proof -
    have off: "unat (ucast (of_nat j * inc) :: u64) = j * ?i" using room [OF that(2)] len(1) i16 by (intro slot_addr) simp_all
    have new: "length ?new = ?i" using i16 by (simp add: bootcounter_bytes_def)
    let ?c = "buf_put (j * ?i) ?new c0"
    have log': "boot_log ?i n (Suc j) ?c" "slot ?i j ?c = ?r"
      using log_append [OF that(1,2), of ?r] i16 fits that(3) by simp_all
    have zero: "boot_count ?i n ?c = 0" using boot_count_log [OF log'(1)] i16 log'(2) by simp
    have free: "buf_get (j * ?i) ?i c0 = replicate ?i 0xFF" using that by (simp add: boot_log_def)
    show ?thesis
      apply (rule valid_bnd [OF valid_call [where Q = "\<lambda>r s. 0 \<le> r \<longrightarrow> content (kst s) = ?c"]])
      subgoal premises p for s
      proof
        have c0: "content (kst s) = c0" using p by (simp add: dev_def)
        assume "0 \<le> fst (k_pwrite K fd ?new (ucast (of_nat j * inc)) (kst s))"
        then have "fst (k_pwrite K fd ?new (ucast (of_nat j * inc)) (kst s)) = int (length ?new)"
          using rel unfolding reliable_def by blast
        from pwrite [OF this] free c0
        show "content (kst (s\<lparr>kst := snd (k_pwrite K fd ?new (ucast (of_nat j * inc)) (kst s))\<rparr>)) = ?c"
          unfolding off new by simp
      qed
      apply (rule valid_bnd [OF valid_call [where Q = "\<lambda>_ s. 0 \<le> r \<longrightarrow> content (kst s) = ?c" for r]], simp add: close_fd)
      apply (rule valid_ret)
      using log'(1) zero by auto
  qed
  have st: "store 0 (replicate ?i 0xFF) page = ret (buf_put 0 (replicate ?i 0xFF) page)"
    "store 0 (bootcounter_bytes ?r) (buf_put 0 (replicate ?i 0xFF) page) =
       ret (buf_put 0 (bootcounter_bytes ?r) (buf_put 0 (replicate ?i 0xFF) page))"
    "take ?i (buf_put 0 (bootcounter_bytes ?r) (buf_put 0 (replicate ?i 0xFF) page)) = ?new"
    if "length page = 2048" for page
    using that i16 i2048 by (auto simp: store_def buf_put_def bootcounter_bytes_def min_def)
  have last: "(if k \<le> 0 then 0 else bc_count (slot ?i (k - 1) c)) = boot_count ?i n c"
    using boot_count_log [OF log] i16 by (simp add: inc_def)
  have n': "unat (info_size info div inc) = n" by (simp add: n_def inc_def)
  have scan: "valid (D v c) (bc_scan K fd inc (map of_nat [0..<unat (info_size info div inc)]) 0 bc_page) (\<lambda>r s. (\<exists>page. length page = 2048 \<and>
          r = Inr (if k < n then Some (of_nat k) else None, boot_count ?i n c, page)) \<and> D v c s)" for v fd
    using scan_valid [OF rel _ fits len(1) log [folded inc_def], of 0 bc_page v fd 0] i16
    unfolding last n' by (simp add: bc_page_def)
  show "valid (D False c) (mtd_resetbc K mtd) ?Q"
    unfolding mtd_resetbc_def Let_def
    apply (rule valid_bnd [OF dev_check_open])
    apply (rule valid_bnd [OF dev_getinfo], rule valid_fact(1), rule valid_option, rule close, simp)
    subgoal premises p for fd info' i
    proof -
      have i: "i = info" using p by simp
      show ?thesis
        unfolding i inc_def [symmetric]
        apply (rule valid_bnd [OF scan], rule valid_fact(1), elim exE conjE)
        apply (simp only: sum.case prod.case)
        apply (rule valid_if)
        subgoal
          apply (rule valid_bnd [OF dev_calls(3)], rule valid_ret)
          using log by (auto simp: dev_def inc_def)
        apply (rule valid_bnd [where R = "\<lambda>r s. \<forall>j. r = Inr j \<longrightarrow> (\<exists>m c0 v. j = of_nat m \<and> boot_log ?i n m c0 \<and> m < n \<and> length c0 = length c \<and> D v c0 s)"])
        subgoal premises q for r page
        proof (rule valid_option)
          assume "(if k < n then Some (of_nat k) else None :: u32 option) = None"
          have pos: "0 < n" using q by (cases n) (auto simp: boot_count_def)
          have free: "boot_log ?i n 0 (memset 0 0xFF (length c) c)"
          proof -
            have "buf_get (j * ?i) ?i (memset 0 0xFF (length c) c) = replicate ?i 0xFF" if "j < n" for j
            proof -
              have "?i \<le> length c - j * ?i" using room [OF that] by linarith
              then show ?thesis by (simp add: memset_def buf_put_def buf_get_def min_def)
            qed
            then show ?thesis by (simp add: boot_log_def)
          qed
          have k: "length (memset 0 0xFF (length c) c) = length c" by (simp add: length_memset)
          have er: "valid (D (0 \<le> fd) c) (call (k_erase K fd 0 (info_size info)))
              (\<lambda>r s. 0 \<le> r \<longrightarrow> D (0 \<le> fd) (memset 0 0xFF (length c) c) s)"
            by (rule valid_call) (use erase len(2) in \<open>fastforce simp: dev_def\<close>)
          show "valid (D (0 \<le> fd) c) (bnd (call (k_erase K fd 0 (info_size info))) (\<lambda>r. ret (if r < 0 then Inl () else Inr 0)))
              (\<lambda>r s. \<forall>j. r = Inr j \<longrightarrow> (\<exists>m c0 v. j = of_nat m \<and> boot_log ?i n m c0 \<and> m < n \<and> length c0 = length c \<and> D v c0 s))"
            apply (rule valid_bnd [OF er], rule valid_ret)
            subgoal for r s
              using free pos k by (intro allI impI exI [of _ 0] exI [of _ "memset 0 0xFF (length c) c"] exI [of _ "0 \<le> fd"]) (simp split: if_splits)
            done
        next
          fix x
          assume "(if k < n then Some (of_nat k) else None :: u32 option) = Some x"
          then have "x = of_nat k" "k < n" by (auto split: if_splits)
          then show "valid (D (0 \<le> fd) c) (ret (Inr x))
              (\<lambda>r s. \<forall>j. r = Inr j \<longrightarrow> (\<exists>m c0 v. j = of_nat m \<and> boot_log ?i n m c0 \<and> m < n \<and> length c0 = length c \<and> D v c0 s))"
            using log [folded inc_def] by (intro valid_ret) blast
        qed
        subgoal premises q for r page j
        proof (rule valid_sum)
          show "valid (\<lambda>s. \<forall>i. j = Inr i \<longrightarrow> (\<exists>m c0 v. i = of_nat m \<and> boot_log ?i n m c0 \<and> m < n \<and> length c0 = length c \<and> D v c0 s))
            (bnd (call (k_close K fd)) (\<lambda>_. ret (-3))) ?Q" by (rule close) simp
        next
          fix i
          assume j: "j = Inr i"
          show "valid (\<lambda>s. \<forall>i. j = Inr i \<longrightarrow> (\<exists>m c0 v. i = of_nat m \<and> boot_log ?i n m c0 \<and> m < n \<and> length c0 = length c \<and> D v c0 s))
            (bnd (store 0 (replicate ?i 0xFF) page) (\<lambda>page. bnd (store 0 (bootcounter_bytes ?r) page) (\<lambda>page.
             bnd (call (k_pwrite K fd (take ?i page) (ucast (i * inc)))) (\<lambda>r. bnd (call (k_close K fd)) (\<lambda>_. ret (if r < 0 then -4 else 0)))))) ?Q"
            apply (rule valid_pre [where P = "\<lambda>s. \<exists>m c0 v. i = of_nat m \<and> boot_log ?i n m c0 \<and> m < n \<and> length c0 = length c \<and> D v c0 s"])
             apply (intro valid_ex valid_fact(1))
            subgoal for m c0 v
              using wr [of m c0 v fd] q by (simp add: st)
            using j by simp
        qed
        done
    qed
    done
qed

end


text \<open>
  C34. Resetting the boot counter: on a device with a log of boot counts, erased behind the last one, \<open>mtd_resetbc\<close>, when it
  reports success, leaves such a log, in which a boot loader finds the count 0; the log is full or not.
\<close>

theorem resetbc_zero:
  assumes "flash_device K info content bad" "reliable K content" "offset_increment info \<le> 2048"
    and "inc = unat (offset_increment info)" "n = unat (info_size info div offset_increment info)"
    and "boot_log inc n k (content (kst s))" "mtd_resetbc K mtd s = Some (Done 0, t)"
  shows "boot_count inc n (content (kst t)) = 0 \<and> (\<exists>k'. boot_log inc n k' (content (kst t)))"
  using validD [OF flash_device.resetbc_valid [OF assms(1,2,3)], of k "content (kst s)" s mtd 0 t] assms(4-)
  by (auto simp: dev_def)

definition bc_sample :: bytes where
  "bc_sample = bootcounter_bytes \<lparr>bc_magic = BOOTCOUNT_MAGIC, bc_count = 1, bc_checksum = BOOTCOUNT_MAGIC + 1\<rparr> @ replicate 4 0xFF @
     bootcounter_bytes \<lparr>bc_magic = BOOTCOUNT_MAGIC, bc_count = 2, bc_checksum = BOOTCOUNT_MAGIC + 2\<rparr> @ replicate 100 0xFF"

lemma sim_reliable: "reliable (sim_kern bad) sim_content"
  by (auto simp: reliable_def sim_program_def)

lemma bc_sample_log: "boot_log 16 8 2 bc_sample" "boot_count 16 8 bc_sample = 2" "length bc_sample = 128"
  "bytes_bootcounter (buf_put 0 (buf_get 0 12 bc_sample) bc_page) = \<lparr>bc_magic = BOOTCOUNT_MAGIC, bc_count = 1, bc_checksum = BOOTCOUNT_MAGIC + 1\<rparr>"
  "bytes_bootcounter (buf_put 0 (buf_get 16 12 bc_sample) bc_page) = \<lparr>bc_magic = BOOTCOUNT_MAGIC, bc_count = 2, bc_checksum = BOOTCOUNT_MAGIC + 2\<rparr>"
  "buf_get 32 12 bc_sample = replicate 12 0xFF"
proof -
  have j: "j < 2 \<Longrightarrow> j = 0 \<or> j = 1" "2 \<le> j \<Longrightarrow> j < 8 \<Longrightarrow> j \<in> {2, 3, 4, 5, 6, 7}" for j :: nat by auto
  have "bc_magic (slot 16 0 bc_sample) = BOOTCOUNT_MAGIC" "bc_magic (slot 16 1 bc_sample) = BOOTCOUNT_MAGIC" by code_simp+
  moreover have "\<forall>j\<in>{2, 3, 4, 5, 6, 7}. buf_get (j * 16) 16 bc_sample = replicate 16 0xFF" by code_simp
  ultimately show "boot_log 16 8 2 bc_sample" unfolding boot_log_def using j by (intro conjI allI impI) (simp, blast, blast)
qed (code_simp | simp add: buf_get_def)+

lemma bc_sample_scan:
  assumes "sim_content (kst s) = bc_sample"
  shows "\<exists>page. length page = 2048 \<and> bc_scan (sim_kern bad) 3 16 (map of_nat [0..<8]) 0 bc_page s = Some (Done (Inr (Some 2, 2, page)), s)"
proof -
  have u: "map of_nat [0..<8] = [0, 1, 2, 3, 4, 5, 6, 7 :: u32]" by (simp add: upt_rec)
  let ?p = "buf_put 0 (replicate 12 0xFF) bc_page"
  have l: "length bc_page = 2048" "length (buf_get 0 12 bc_sample) = 12" "length (buf_get 16 12 bc_sample) = 12"
    by (simp_all add: bc_page_def bc_sample_log(3))
  have p: "bytes_bootcounter ?p = \<lparr>bc_magic = 0xFFFFFFFF, bc_count = 0xFFFFFFFF, bc_checksum = 0xFFFFFFFF\<rparr>" by code_simp
  have pl: "length ?p = 2048" by (simp add: length_buf_put l)
  have q: "buf_put 0 y (buf_put 0 x bc_page) = buf_put 0 y bc_page" if "length x = 12" "length y = 12" for x y
    using that l by (intro buf_put_put_same) simp_all
  show ?thesis
    unfolding u by (simp add: bnd_call assms Let_def bc_sample_log l p pl q ret_def BOOTCOUNT_MAGIC_def)
qed

theorem resetbc_zero_witness:
  "\<exists>t. mtd_resetbc (sim_kern (\<lambda>_. False)) ''firmware'' (sim_state bc_sample []) = Some (Done 0, t) \<and>
    boot_count 16 8 bc_sample = 2 \<and> boot_count 16 8 (sim_content (kst t)) = 0"
proof -
  let ?s = "sim_state bc_sample []" and ?K = "sim_kern (\<lambda>_. False)"
  let ?t = "?s\<lparr>mtdsize := 128, erasesize := 32, mtdtype := 4\<rparr>"
  have c: "sim_content (kst ?s) = bc_sample" using bc_sample_log(3) by (simp add: sim_state_def sim_content_def)
  have i: "offset_increment sim_info = 16" "info_size sim_info div 16 = 8" by (simp_all add: offset_increment_def sim_info_def BC_OFFSET_INCREMENT_MIN_def)
  obtain page where page: "length page = 2048" "bc_scan ?K 3 16 (map of_nat [0..<8]) 0 bc_page ?t = Some (Done (Inr (Some 2, 2, page)), ?t)"
    using bc_sample_scan [of ?t] c by auto
  have pw: "\<not> fst (k_pwrite ?K 3 b (off :: u64) k) < 0" if "unat off + length b \<le> 128" for b off k
    using that by (simp add: sim_program_def)
  have bb: "length (bootcounter_bytes r) = 12" for r by (simp add: bootcounter_bytes_def)
  have "\<exists>t. mtd_resetbc ?K ''firmware'' ?s = Some (Done 0, t)"
    unfolding mtd_resetbc_def
    apply (simp add: bnd_Done [OF sim_check_open] bnd_call i del: sim_calls(11))
    apply (simp add: bnd_Done [of "bc_scan ?K 3 16 (map of_nat [0..<8]) 0 bc_page" ?t, OF page(2)] store_def length_buf_put page(1)
        bb bnd_call pw ret_def del: sim_calls(11))
    done
  then obtain t where t: "mtd_resetbc ?K ''firmware'' ?s = Some (Done 0, t)" by blast
  have l: "boot_log 16 8 2 (sim_content (kst ?s))" using bc_sample_log(1) c by simp
  have p: "offset_increment sim_info \<le> 2048" "16 = unat (offset_increment sim_info)"
    "8 = unat (info_size sim_info div offset_increment sim_info)" by (simp_all add: i)
  from resetbc_zero [OF sim.flash_device_axioms sim_reliable p l t] t bc_sample_log(2) show ?thesis by blast
qed


section \<open>The flag is set\<close>

context flash_device begin

lemma recoverflag_valid:
  assumes rel: "reliable K content" and E: "4 \<le> E" "E \<le> length c"
  shows "valid (D False c) (mtd_tpl_recoverflag_write K mtd active) (\<lambda>r s. 0 \<le> r \<longrightarrow>
    content (kst s) = buf_put 0 (u32_bytes (if active then TPL_RECOVER_MAGIC else TPL_NO_RECOVER_MAGIC)) c)"
    (is "valid _ _ ?Q")
proof (rule valid_dev)
  assume len: "length c < 2 ^ 31"
  let ?m = "if active then TPL_RECOVER_MAGIC else TPL_NO_RECOVER_MAGIC" and ?b = "buf_get 0 E c"
  have neg: "valid P (bnd (call (k_close K fd)) (\<lambda>_. ret r)) ?Q" if "r < 0" for P fd r
    by (rule valid_bnd [OF valid_call [where Q = "\<lambda>_ _. True"]]) (use that in \<open>auto intro: valid_ret\<close>)
  have fin: "valid (\<lambda>s. 0 \<le> r \<longrightarrow> content (kst s) = buf_put 0 (u32_bytes ?m) c) (bnd (call (k_close K fd)) (\<lambda>_. ret r)) ?Q" for fd r
    by (rule valid_bnd [OF valid_call [where Q = "\<lambda>_ s. 0 \<le> r \<longrightarrow> content (kst s) = buf_put 0 (u32_bytes ?m) c"]])
      (auto intro: valid_ret simp: close_fd)
  have b: "length ?b = E" "take 4 ?b = take 4 c" using E by (simp_all add: buf_get_def min_def)
  have esz0: "sint (info_erasesize info) = int E" "unat (of_int (sint (info_erasesize info)) :: u64) = E"
  proof -
    show "sint (info_erasesize info) = int E"
      using signed_small [of E] E(2) len by (simp add: sint_uint)
    then show "unat (of_int (sint (info_erasesize info)) :: u64) = E" by (intro erasesize_nat) simp
  qed
  show "valid (D False c) (mtd_tpl_recoverflag_write K mtd active) ?Q"
    unfolding mtd_tpl_recoverflag_write_def Let_def
    apply (rule valid_bnd [OF valid_gets [where Q = "\<lambda>_. D False c"]], simp)
    apply (rule valid_bnd [OF dev_malloc], rule valid_fact(1), rule valid_option)
     apply (rule valid_ret, simp)
    apply (rule valid_bnd [OF dev_check_open], rule valid_if, rule neg, simp)
    subgoal premises p for _ _ args fd
    proof -
      have "0 \<le> fd" using p by simp
      then have t: "(0 \<le> fd) = True" by simp
      show ?thesis
        unfolding t
        apply (rule valid_bnd [OF valid_gets [where Q = "\<lambda>e s. e = sint (info_erasesize info) \<and> D True c s"]])
         apply (simp add: dev_def)
        apply (rule valid_fact(1))
        subgoal premises e for esz
        proof -
          have esz: "esz = int E" "unat (of_int esz :: u64) = E" unfolding e by (rule esz0)+
          have esz32: "unat (of_int esz :: u32) = E" unfolding esz(1) by simp
          have rd: "valid (D True c) (call (k_pread K fd (of_int esz) 0)) (\<lambda>res s. res = Inr ?b \<and> D True c s)"
            by (rule valid_call) (use rel E esz in \<open>auto simp: dev_def pread reliable_def\<close>)
          let ?new = "u32_bytes ?m @ drop 4 ?b"
          have new: "length ?new = E" using b E by simp
          have put: "buf_put 0 ?new (memset 0 0xFF E c) = buf_put 0 (u32_bytes ?m) c"
          proof -
            have d: "drop E c = drop (E - 4) (drop 4 c)" using E by simp
            show ?thesis using E b by (simp add: buf_put_def memset_def buf_get_def drop_take d del: drop_drop)
          qed
          show ?thesis
            apply (rule valid_bnd [OF rd], rule valid_fact(1), simp only: sum.case)
            apply (rule valid_bnd [OF valid_store [where Q = "\<lambda>a s. take E a = ?b \<and> E \<le> length a \<and> D True c s"]])
             apply (use b in \<open>simp add: buf_put_def\<close>)
            apply (rule valid_fact(1), rule valid_fact(1))
            apply (rule valid_bnd [OF valid_load [where Q = "\<lambda>a s. a = take 4 c \<and> D True c s"]])
            subgoal for res a s using b E by (auto simp: buf_get_def dest!: arg_cong [of "take E a" _ "take 4"])
            apply (rule valid_fact(1), rule valid_if)
            subgoal
              apply (rule valid_bnd [OF dev_calls(3)], rule valid_ret)
              using E by (simp add: dev_def u32_bytes_bytes_u32 buf_put_def)
            apply (rule valid_bnd [OF valid_call [where Q = "\<lambda>r s. 0 \<le> r \<longrightarrow> D True (memset 0 0xFF E c) s"]])
             apply (use erase [of fd 0 "of_int esz"] in \<open>auto simp: dev_def esz32\<close>)[1]
            apply (rule valid_if, rule neg, simp)
            subgoal premises q for res a m r
            proof -
              have a: "take E a = ?b" "E \<le> length a" using q by blast+
              have "take E (buf_put 0 (u32_bytes ?m) a) = ?new"
                unfolding a(1) [symmetric] using E a(2) by (simp add: buf_put_def drop_take min_def)
              then have ld: "buf_get 0 (nat esz) (buf_put 0 (u32_bytes ?m) a) = ?new" by (simp add: buf_get_def esz(1))
              have pw: "valid (D True (memset 0 0xFF E c)) (call (k_pwrite K fd ?new 0))
                  (\<lambda>r s. 0 \<le> r \<longrightarrow> content (kst s) = buf_put 0 (u32_bytes ?m) c)"
              proof (rule valid_call, intro impI)
                fix s
                assume s: "D True (memset 0 0xFF E c) s" "0 \<le> fst (k_pwrite K fd ?new 0 (kst s))"
                then have w: "fst (k_pwrite K fd ?new 0 (kst s)) = int (length ?new)" using rel unfolding reliable_def by blast
                from s(1) have "buf_get (unat (0 :: u64)) (length ?new) (content (kst s)) = replicate (length ?new) 0xFF"
                  unfolding new using E by (simp add: dev_def memset_def buf_put_def buf_get_def)
                from pwrite [OF w this] s(1) put
                show "content (kst (s\<lparr>kst := snd (k_pwrite K fd ?new 0 (kst s))\<rparr>)) = buf_put 0 (u32_bytes ?m) c"
                  by (simp add: dev_def)
              qed
              show ?thesis
                apply (rule valid_pre [where P = "D True (memset 0 0xFF E c)"])
                 apply (rule valid_bnd [OF valid_store [where Q = "\<lambda>x s. x = buf_put 0 (u32_bytes ?m) a \<and> D True (memset 0 0xFF E c) s"]], simp)
                 apply (rule valid_fact(1))
                 apply (rule valid_bnd [OF valid_load [where Q = "\<lambda>x s. x = ?new \<and> D True (memset 0 0xFF E c) s"]])
                  apply (simp add: ld)
                 apply (rule valid_fact(1), simp only:)
                 apply (rule valid_bnd [OF pw fin])
                using q by auto
            qed
            done
        qed
        done
    qed
    done
qed

end

text \<open>
  C35. Setting or clearing the recovery flag of a TP-Link boot loader: when it reports success, the first four bytes of the
  partition are the flag, and no other byte has changed.
\<close>

theorem recoverflag_written:
  assumes "flash_device K info content bad" "reliable K content" "4 \<le> unat (info_erasesize info)"
    and "unat (info_erasesize info) \<le> length (content (kst s))"
    and "mtd_tpl_recoverflag_write K mtd active s = Some (Done r, t)" "0 \<le> r"
  shows "content (kst t) = buf_put 0 (u32_bytes (if active then TPL_RECOVER_MAGIC else TPL_NO_RECOVER_MAGIC)) (content (kst s))"
  using validD [OF flash_device.recoverflag_valid [OF assms(1-4)] _ assms(5)] assms(6) by (simp add: dev_def)

theorem recoverflag_written_witness:
  "\<exists>r t. mtd_tpl_recoverflag_write (sim_kern (\<lambda>_. False)) ''firmware'' True
      ((sim_state (replicate 128 0x11) [])\<lparr>erasesize := 32\<rparr>) = Some (Done r, t) \<and>
    sim_content (kst t) = [0xEF, 0xCD, 0xAB, 0x89] @ replicate 124 0x11"
proof -
  let ?s = "(sim_state (replicate 128 0x11) [])\<lparr>erasesize := 32\<rparr>" and ?K = "sim_kern (\<lambda>_. False)"
  have c: "sim_content (kst ?s) = replicate 128 0x11" by (simp add: sim_state_def sim_content_def)
  have pw: "0 \<le> fst (k_pwrite ?K 3 b (off :: u64) k)" if "unat off + length b \<le> 128" for b off k
    using that by (simp add: sim_program_def)
  have m: "bytes_u32 (replicate 4 0x11) = 0x11111111" by code_simp
  have "\<exists>r t. mtd_tpl_recoverflag_write ?K ''firmware'' True ?s = Some (Done r, t) \<and> 0 \<le> r"
    unfolding mtd_tpl_recoverflag_write_def
    by (simp add: bnd_Done [OF sim_check_open] bnd_call c store_def load_def length_buf_put buf_get_def buf_put_def m
        TPL_RECOVER_MAGIC_def ret_def min_def pw del: sim_calls(11))
  then obtain r t where t: "mtd_tpl_recoverflag_write ?K ''firmware'' True ?s = Some (Done r, t)" "0 \<le> r" by blast
  have E: "4 \<le> unat (info_erasesize sim_info)" "unat (info_erasesize sim_info) \<le> length (sim_content (kst ?s))" by (simp_all add: sim_info_def)
  have "buf_put 0 (u32_bytes TPL_RECOVER_MAGIC) (replicate 128 0x11) = [0xEF, 0xCD, 0xAB, 0x89] @ replicate 124 0x11" by code_simp
  with recoverflag_written [OF sim.flash_device_axioms sim_reliable E t] t c show ?thesis by auto
qed

end
