(* ===== verification/Util_Write.thy ===== *)
theory Util_Write
  imports Util_Jffs2_Write Util_Boards
begin

text \<open>
  The commands of the mtd tool (\<open>mtd.c\<close>): checking an image, unlocking, erasing, dumping, verifying and
  writing devices, and \<open>main\<close>. Functions that only some targets link are members of \<open>target\<close>, which the
  build file fixes; the code for RedBoot tables, which is compiled on request only, is left out here.
\<close>

section \<open>Targets\<close>

record 'k target =
  target_brcm :: bool
  t_trx_fixup :: "(int \<Rightarrow> string \<Rightarrow> ('k, int) prog) option"
  t_trx_check :: "(int \<Rightarrow> string \<Rightarrow> bytes \<Rightarrow> int \<Rightarrow> ('k, int \<times> bytes \<times> int) prog) option"
  t_fixtrx :: "(string \<Rightarrow> u64 \<Rightarrow> u64 \<Rightarrow> ('k, int) prog) option"
  t_fixseama :: "(string \<Rightarrow> u64 \<Rightarrow> u64 \<Rightarrow> ('k, int) prog) option"
  t_fixwrg :: "(string \<Rightarrow> u64 \<Rightarrow> u64 \<Rightarrow> ('k, int) prog) option"
  t_fixwrgg :: "(string \<Rightarrow> u64 \<Rightarrow> u64 \<Rightarrow> ('k, int) prog) option"
  t_resetbc :: "(string \<Rightarrow> ('k, int) prog) option"
  t_recoverflag :: "(string \<Rightarrow> bool \<Rightarrow> ('k, int) prog) option"

definition no_target :: "'k target" where
  "no_target = \<lparr>target_brcm = False, t_trx_fixup = None, t_trx_check = None, t_fixtrx = None, t_fixseama = None,
     t_fixwrg = None, t_fixwrgg = None, t_resetbc = None, t_recoverflag = None\<rparr>"

definition ath79 :: "'k kern \<Rightarrow> 'k target" where
  "ath79 K = no_target\<lparr>t_fixseama := Some (mtd_fixseama K), t_fixwrgg := Some (mtd_fixwrgg K)\<rparr>"

definition bcm47xx :: "'k kern \<Rightarrow> 'k target" where
  "bcm47xx K = no_target\<lparr>target_brcm := True, t_trx_fixup := Some (trx_fixup K), t_trx_check := Some (trx_check K),
     t_fixtrx := Some (mtd_fixtrx K)\<rparr>"

definition bcm53xx :: "'k kern \<Rightarrow> 'k target" where
  "bcm53xx K = (bcm47xx K)\<lparr>t_fixseama := Some (mtd_fixseama K)\<rparr>"

definition ramips :: "'k kern \<Rightarrow> 'k target" where
  "ramips K = no_target\<lparr>t_fixseama := Some (mtd_fixseama K), t_fixwrg := Some (mtd_fixwrg K),
     t_resetbc := Some (mtd_resetbc K), t_recoverflag := Some (mtd_tpl_recoverflag_write K)\<rparr>"

section \<open>The image\<close>

definition EINTR :: int where "EINTR = 4"
definition EAGAIN :: int where "EAGAIN = 11"
definition EFAULT :: int where "EFAULT = 14"

text \<open>A read into the global buffer at its fill level.\<close>

definition read_image :: "'k kern \<Rightarrow> int \<Rightarrow> int \<Rightarrow> ('k, int + nat) prog" where
  "read_image K imagefd n =
     bnd (gets mtd_buf) (\<lambda>m.
     case m of None \<Rightarrow> ret (Inl EFAULT) | Some buf \<Rightarrow>
     bnd (call (k_read K imagefd (of_int n))) (\<lambda>res.
     case res of Inl e \<Rightarrow> ret (Inl e) | Inr b \<Rightarrow>
     bnd (gets buflen) (\<lambda>len.
     bnd (store (nat len) b buf) (\<lambda>buf.
     bnd (puts (\<lambda>s. s\<lparr>mtd_buf := Some buf, buflen := len + int (length b)\<rparr>)) (\<lambda>_.
     ret (Inr (length b)))))))"

definition load_image :: "nat \<Rightarrow> nat \<Rightarrow> ('k, bytes) prog" where
  "load_image off n = bnd (gets mtd_buf) (\<lambda>m. case m of None \<Rightarrow> fault | Some buf \<Rightarrow> load off n buf)"

partial_function (option) read_magic :: "'k kern \<Rightarrow> int \<Rightarrow> 'k mtd_state \<Rightarrow> (unit outcome \<times> 'k mtd_state) option" where
  "read_magic K imagefd s =
     bnd (gets buflen) (\<lambda>len.
     if len < 4 then
       bnd (read_image K imagefd (4 - len)) (\<lambda>r.
       case r of Inl _ \<Rightarrow> ret () | Inr n \<Rightarrow> if n = 0 then ret () else read_magic K imagefd)
     else ret ()) s"

definition image_check :: "'k kern \<Rightarrow> 'k target \<Rightarrow> int \<Rightarrow> string \<Rightarrow> ('k, int) prog" where
  "image_check K T imagefd mtd =
     bnd (read_magic K imagefd) (\<lambda>_.
     bnd (gets buflen) (\<lambda>len.
     if len < 4 then ret 0 else
     bnd (load_image 0 4) (\<lambda>magic.
     bnd (puts (\<lambda>s. s\<lparr>imageformat :=
       (if be32 magic = 0x48445230 then MTD_IMAGE_FORMAT_TRX
        else if be32 magic = SEAMA_MAGIC then MTD_IMAGE_FORMAT_SEAMA
        else if bytes_u32 magic = WRG_MAGIC then MTD_IMAGE_FORMAT_WRG
        else if bytes_u32 magic = WRGG03_MAGIC then MTD_IMAGE_FORMAT_WRGG03
        else imageformat s)\<rparr>)) (\<lambda>_.
     bnd (gets imageformat) (\<lambda>f.
     case f of
       MTD_IMAGE_FORMAT_TRX \<Rightarrow>
         (case t_trx_check T of None \<Rightarrow> ret 1 | Some check \<Rightarrow>
          bnd (gets mtd_buf) (\<lambda>m.
          case m of None \<Rightarrow> fault | Some buf \<Rightarrow>
          bnd (check imagefd mtd buf len) (\<lambda>(r, buf, len).
          bnd (puts (\<lambda>s. s\<lparr>mtd_buf := Some buf, buflen := len\<rparr>)) (\<lambda>_.
          ret r))))
     | MTD_IMAGE_FORMAT_UNKNOWN \<Rightarrow> ret (if target_brcm T \<and> mtd = ''firmware'' then 0 else 1)
     | _ \<Rightarrow> ret 1)))))"

section \<open>Checking, unlocking and erasing\<close>

text \<open>A list of devices is a string with colons.\<close>

fun split_colon :: "string \<Rightarrow> string list" where
  "split_colon [] = [[]]"
| "split_colon (c # s) = (if c = CHR '':'' then [] # split_colon s else (c # hd (split_colon s)) # tl (split_colon s))"

fun mtd_check_devs :: "'k kern \<Rightarrow> string list \<Rightarrow> ('k, int) prog" where
  "mtd_check_devs K [] = ret 1"
| "mtd_check_devs K (mtd # devs) =
     bnd (mtd_check_open K mtd) (\<lambda>fd.
     if fd < 0 then ret 0 else
     bnd (gets mtd_buf) (\<lambda>m.
     bnd (if m = None then
            bnd (gets erasesize) (\<lambda>esz.
            bnd (call (k_malloc K (of_int esz))) (\<lambda>b.
            puts (\<lambda>s. s\<lparr>mtd_buf := b\<rparr>)))
          else ret ()) (\<lambda>_.
     bnd (call (k_close K fd)) (\<lambda>_.
     mtd_check_devs K devs))))"

definition mtd_check :: "'k kern \<Rightarrow> string \<Rightarrow> ('k, int) prog" where
  "mtd_check K mtd = mtd_check_devs K (split_colon mtd)"

fun mtd_unlock_devs :: "'k kern \<Rightarrow> string list \<Rightarrow> ('k, int) prog" where
  "mtd_unlock_devs K [] = ret 0"
| "mtd_unlock_devs K (mtd # devs) =
     bnd (mtd_check_open K mtd) (\<lambda>fd.
     if fd < 0 then exit1 else
     bnd (gets mtdsize) (\<lambda>msz.
     bnd (call (k_unlock K fd 0 (of_int msz))) (\<lambda>_.
     bnd (call (k_close K fd)) (\<lambda>_.
     mtd_unlock_devs K devs))))"

definition mtd_unlock :: "'k kern \<Rightarrow> string \<Rightarrow> ('k, int) prog" where
  "mtd_unlock K mtd = mtd_unlock_devs K (split_colon mtd)"

partial_function (option) erase_blocks ::
  "'k kern \<Rightarrow> int \<Rightarrow> u32 \<Rightarrow> u32 \<Rightarrow> 'k mtd_state \<Rightarrow> (unit outcome \<times> 'k mtd_state) option" where
  "erase_blocks K fd len start s =
     bnd (gets mtdsize) (\<lambda>msz.
     if \<not> start < of_int msz then ret () else
     bnd (mtd_block_is_bad K fd (sint start)) (\<lambda>bad.
     bnd (if bad \<noteq> 0 then ret () else
          bnd (call (k_unlock K fd start len)) (\<lambda>_.
          bnd (call (k_erase K fd start len)) (\<lambda>_.
          ret ()))) (\<lambda>_.
     bnd (gets erasesize) (\<lambda>esz.
     erase_blocks K fd len (start + of_int esz))))) s"

definition mtd_erase :: "'k kern \<Rightarrow> string \<Rightarrow> ('k, int) prog" where
  "mtd_erase K mtd =
     bnd (mtd_check_open K mtd) (\<lambda>fd.
     if fd < 0 then exit1 else
     bnd (gets erasesize) (\<lambda>esz.
     bnd (erase_blocks K fd (of_int esz) 0) (\<lambda>_.
     bnd (call (k_close K fd)) (\<lambda>_.
     ret 0))))"

section \<open>Dumping and verifying\<close>

partial_function (option) dump_blocks ::
  "'k kern \<Rightarrow> int \<Rightarrow> bytes \<Rightarrow> int \<Rightarrow> int \<Rightarrow> 'k mtd_state \<Rightarrow> (int outcome \<times> 'k mtd_state) option" where
  "dump_blocks K fd buf count offset s =
     bnd (gets erasesize) (\<lambda>esz.
     let len = (if count > esz then esz else count) in
     bnd (call (k_read K fd (of_int len))) (\<lambda>res.
     case res of
       Inl e \<Rightarrow> if e \<noteq> EINTR then ret (-1) else if count > 0 then dump_blocks K fd buf count offset else ret 0
     | Inr b \<Rightarrow>
       bnd (store 0 b buf) (\<lambda>buf.
       if b = [] \<or> int (length b) \<noteq> len then ret 0 else
       bnd (mtd_block_is_bad K fd offset) (\<lambda>bad.
       let count = (if bad \<noteq> 0 then count else count - len) in
       bnd (if bad \<noteq> 0 then ret () else bnd (call (k_write K 1 b)) (\<lambda>_. ret ())) (\<lambda>_.
       if count > 0 then dump_blocks K fd buf count (offset + len) else ret 0))))) s"

definition mtd_dump :: "'k kern \<Rightarrow> string \<Rightarrow> int \<Rightarrow> int \<Rightarrow> ('k, int) prog" where
  "mtd_dump K mtd part_offset count =
     bnd (mtd_check_open K mtd) (\<lambda>fd.
     if fd < 0 then ret (-1) else
     bnd (gets mtdsize) (\<lambda>msz.
     let count = (if count = 0 then msz else count) in
     bnd (if part_offset \<noteq> 0 then call (k_lseek_set K fd part_offset) else ret ()) (\<lambda>_.
     bnd (gets erasesize) (\<lambda>esz.
     bnd (call (k_malloc K (of_int esz))) (\<lambda>m.
     case m of None \<Rightarrow> ret (-1) | Some buf \<Rightarrow>
     bnd (dump_blocks K fd buf count 0) (\<lambda>r.
     bnd (call (k_close K fd)) (\<lambda>_.
     ret r)))))))"

text \<open>The MD5 of \<open>libubox\<close>, which is not part of this tree, as parameters: the digest of a file, and a context.\<close>

record ('k, 'c) ubox_md5 =
  md5sum :: "string \<Rightarrow> 'k \<Rightarrow> bytes option \<times> 'k"
  md5_begin :: 'c
  md5_hash :: "bytes \<Rightarrow> 'c \<Rightarrow> 'c"
  md5_end :: "'c \<Rightarrow> bytes"

partial_function (option) verify_data ::
  "'k kern \<Rightarrow> ('k, 'c) ubox_md5 \<Rightarrow> int \<Rightarrow> int \<Rightarrow> 'c \<Rightarrow> 'k mtd_state \<Rightarrow> ((int + 'c) outcome \<times> 'k mtd_state) option" where
  "verify_data K U fd count ctx s =
     bnd (call (k_read K fd (of_int (if count > 256 then 256 else count)))) (\<lambda>res.
     case res of
       Inl e \<Rightarrow> if e \<noteq> EINTR then ret (Inl (-1)) else if count > 0 then verify_data K U fd count ctx else ret (Inr ctx)
     | Inr b \<Rightarrow>
       if b = [] then ret (Inr ctx) else
       let ctx = md5_hash U b ctx; count = count - int (length b) in
       if count > 0 then verify_data K U fd count ctx else ret (Inr ctx)) s"

fun memcmp_bytes :: "bytes \<Rightarrow> bytes \<Rightarrow> int" where
  "memcmp_bytes (x # a) (y # b) = (if x = y then memcmp_bytes a b else uint x - uint y)"
| "memcmp_bytes a b = 0"

definition mtd_verify :: "'k kern \<Rightarrow> ('k, 'c) ubox_md5 \<Rightarrow> string \<Rightarrow> string \<Rightarrow> ('k, int) prog" where
  "mtd_verify K U mtd file_name =
     bnd (call (k_stat K file_name)) (\<lambda>st.
     case st of None \<Rightarrow> ret (-1) | Some st \<Rightarrow>
     bnd (call (md5sum U file_name)) (\<lambda>f_md5.
     case f_md5 of None \<Rightarrow> ret (-1) | Some f_md5 \<Rightarrow>
     bnd (mtd_check_open K mtd) (\<lambda>fd.
     if fd < 0 then ret (-1) else
     bnd (verify_data K U fd (uint (st_size st)) (md5_begin U)) (\<lambda>r.
     bnd (call (k_close K fd)) (\<lambda>_.
     case r of Inl e \<Rightarrow> ret e | Inr ctx \<Rightarrow>
     let m_md5 = md5_end U ctx in
     ret (memcmp_bytes f_md5 m_md5))))))"


section \<open>Writing\<close>

text \<open>
  The local variables of \<open>mtd_write\<close>: bytes written and erased, bytes of the image to be skipped, the offset in the buffer,
  whether JFFS2 data were replaced, and the bytes of bad blocks passed.
\<close>

record wr =
  wr_w :: int
  wr_e :: int
  wr_skip :: int
  wr_offset :: u32
  wr_replaced :: bool
  wr_skip_bad :: int

partial_function (option) fill_buf :: "'k kern \<Rightarrow> int \<Rightarrow> 'k mtd_state \<Rightarrow> (unit outcome \<times> 'k mtd_state) option" where
  "fill_buf K imagefd s =
     bnd (gets buflen) (\<lambda>len. bnd (gets erasesize) (\<lambda>esz.
     if len < esz then
       bnd (read_image K imagefd (esz - len)) (\<lambda>r.
       case r of
         Inl e \<Rightarrow> if e = EINTR \<or> e = EAGAIN then fill_buf K imagefd else ret ()
       | Inr n \<Rightarrow> if n = 0 then ret () else fill_buf K imagefd)
     else ret ())) s"

text \<open>The rest of the block is set to \<open>0xff\<close>.\<close>

definition pad_image :: "('k, unit) prog" where
  "pad_image =
     bnd (gets buflen) (\<lambda>len. bnd (gets erasesize) (\<lambda>esz.
     if len < esz then
       bnd (gets mtd_buf) (\<lambda>m.
       case m of None \<Rightarrow> fault | Some buf \<Rightarrow>
       bnd (store (nat len) (replicate (nat (esz - len)) 0xFF) buf) (\<lambda>buf.
       puts (\<lambda>s. s\<lparr>mtd_buf := Some buf, buflen := esz\<rparr>)))
     else ret ()))"

text \<open>The loop that erases; \<open>True\<close> in the result tells that writing resumes on the next device.\<close>

partial_function (option) erase_ahead ::
  "'k kern \<Rightarrow> int \<Rightarrow> bool \<Rightarrow> u64 \<Rightarrow> wr \<Rightarrow> 'k mtd_state \<Rightarrow> ((wr \<times> bool) outcome \<times> 'k mtd_state) option" where
  "erase_ahead K fd has_next part_offset v s =
     bnd (gets buflen) (\<lambda>len. bnd (gets erasesize) (\<lambda>esz.
     if \<not> wr_w v + len > wr_e v - wr_skip_bad v then ret (v, False) else
     bnd (mtd_block_is_bad K fd (to_int (of_int (wr_e v)))) (\<lambda>bad.
     if bad \<noteq> 0 then
       bnd (call (k_lseek_cur K fd esz)) (\<lambda>_.
       erase_ahead K fd has_next part_offset (v\<lparr>wr_skip_bad := wr_skip_bad v + esz, wr_e := wr_e v + esz\<rparr>))
     else
     bnd (mtd_erase_block K fd (to_int (of_int (wr_e v) + part_offset))) (\<lambda>r.
     if r < 0 then
       (if has_next then
          bnd (if wr_w v < wr_e v then
                 bnd (load_image (unat (wr_offset v)) (nat (wr_e v - wr_w v))) (\<lambda>b.
                 bnd (call (k_write K fd b)) (\<lambda>_.
                 ret (of_int (wr_e v - wr_w v))))
               else ret (wr_offset v)) (\<lambda>offset.
          bnd (call (k_close K fd)) (\<lambda>_.
          ret (v\<lparr>wr_offset := offset, wr_w := 0, wr_e := 0\<rparr>, True)))
        else exit1)
     else erase_ahead K fd has_next part_offset (v\<lparr>wr_e := wr_e v + esz\<rparr>))))) s"

definition replace_or_parse :: "'k kern \<Rightarrow> int \<Rightarrow> string \<Rightarrow> wr \<Rightarrow> ('k, wr option) prog" where
  "replace_or_parse K fd mtd v =
     bnd (gets jffs2file) (\<lambda>f. bnd (gets jffs2_skip_bytes) (\<lambda>skip_bytes.
     case f of None \<Rightarrow> ret None | Some f \<Rightarrow>
     if wr_w v < skip_bytes then ret None else
     bnd (load_image 0 4) (\<lambda>b.
     bnd (gets buflen) (\<lambda>len.
     if b = JFFS2_EOF then
       bnd (mtd_replace_jffs2 K mtd fd (to_int (of_int (wr_e v))) f) (\<lambda>skip.
       bnd (puts (\<lambda>s. s\<lparr>jffs2file := None, buflen := 0\<rparr>)) (\<lambda>_.
       ret (Some (v\<lparr>wr_replaced := True, wr_w := wr_w v + skip, wr_e := wr_e v + skip, wr_skip := skip - len, wr_offset := 0\<rparr>))))
     else
       bnd (gets mtd_buf) (\<lambda>m. bnd (gets jffs2dir) (\<lambda>dir.
       case m of None \<Rightarrow> fault | Some buf \<Rightarrow>
       bnd (mtd_parse_jffs2data buf dir) (\<lambda>_. ret None)))))))"

partial_function (option) write_loop ::
  "'k kern \<Rightarrow> int \<Rightarrow> int \<Rightarrow> string \<Rightarrow> bool \<Rightarrow> u64 \<Rightarrow> wr \<Rightarrow> 'k mtd_state \<Rightarrow> ((wr \<times> bool) outcome \<times> 'k mtd_state) option" where
  "write_loop K imagefd fd mtd has_next part_offset v s =
     bnd (fill_buf K imagefd) (\<lambda>_.
     bnd (gets buflen) (\<lambda>len.
     if len = 0 then ret (v, False) else
     bnd pad_image (\<lambda>_.
     bnd (gets buflen) (\<lambda>len.
     if wr_skip v > 0 then
       bnd (puts (\<lambda>s. s\<lparr>buflen := 0\<rparr>)) (\<lambda>_.
       write_loop K imagefd fd mtd has_next part_offset (v\<lparr>wr_skip := wr_skip v - len\<rparr>))
     else
     bnd (replace_or_parse K fd mtd v) (\<lambda>r.
     case r of Some v \<Rightarrow> write_loop K imagefd fd mtd has_next part_offset v | None \<Rightarrow>
     bnd (gets no_erase) (\<lambda>ne.
     bnd (if ne then ret (v, False) else erase_ahead K fd has_next part_offset v) (\<lambda>(v, resume).
     if resume then ret (v, True) else
     bnd (load_image (unat (wr_offset v)) (nat len)) (\<lambda>b.
     bnd (call (k_write K fd b)) (\<lambda>result.
     if result < len then exit1 else
     bnd (puts (\<lambda>s. s\<lparr>buflen := 0\<rparr>)) (\<lambda>_.
     write_loop K imagefd fd mtd has_next part_offset (v\<lparr>wr_w := wr_w v + len, wr_offset := 0\<rparr>))))))))))) s"

text \<open>The recovery flag is set or cleared where the target has one and a partition for it was given.\<close>

definition recovery_flag :: "'k target \<Rightarrow> bool \<Rightarrow> ('k, unit) prog" where
  "recovery_flag T active =
     bnd (gets tpl_uboot_args_part) (\<lambda>part.
     case part of None \<Rightarrow> ret () | Some part \<Rightarrow>
     (case t_recoverflag T of None \<Rightarrow> ret () | Some f \<Rightarrow>
      bnd (f part active) (\<lambda>r. if r < 0 then exit1 else ret ())))"

fun write_devs :: "'k kern \<Rightarrow> 'k target \<Rightarrow> int \<Rightarrow> u64 \<Rightarrow> string list \<Rightarrow> wr \<Rightarrow> ('k, int \<times> string \<times> wr) prog" where
  "write_devs K T imagefd part_offset [] v = exit1"
| "write_devs K T imagefd part_offset (mtd # devs) v =
     bnd (mtd_check_open K mtd) (\<lambda>fd.
     if fd < 0 then exit1 else
     bnd (if part_offset > 0 then call (k_lseek_set K fd (sint part_offset)) else ret ()) (\<lambda>_.
     bnd (recovery_flag T True) (\<lambda>_.
     bnd (write_loop K imagefd fd mtd (devs \<noteq> []) part_offset (v\<lparr>wr_w := 0, wr_e := 0\<rparr>)) (\<lambda>(v, resume).
     if resume then write_devs K T imagefd part_offset devs v else ret (fd, mtd, v)))))"

definition mtd_write :: "'k kern \<Rightarrow> 'k target \<Rightarrow> int \<Rightarrow> string \<Rightarrow> u64 \<Rightarrow> ('k, int) prog" where
  "mtd_write K T imagefd mtd part_offset =
     bnd (write_devs K T imagefd part_offset (split_colon mtd)
       \<lparr>wr_w = 0, wr_e = 0, wr_skip = 0, wr_offset = 0, wr_replaced = False, wr_skip_bad = 0\<rparr>) (\<lambda>(fd, mtd, v).
     bnd (gets imageformat) (\<lambda>f.
     bnd (if wr_replaced v then
            (case f of
               MTD_IMAGE_FORMAT_TRX \<Rightarrow> (case t_trx_fixup T of None \<Rightarrow> ret 0 | Some fixup \<Rightarrow> fixup fd mtd)
             | MTD_IMAGE_FORMAT_SEAMA \<Rightarrow> (case t_fixseama T of None \<Rightarrow> ret 0 | Some fixup \<Rightarrow> fixup mtd 0 0)
             | MTD_IMAGE_FORMAT_WRG \<Rightarrow> (case t_fixwrg T of None \<Rightarrow> ret 0 | Some fixup \<Rightarrow> fixup mtd 0 0)
             | MTD_IMAGE_FORMAT_WRGG03 \<Rightarrow> (case t_fixwrgg T of None \<Rightarrow> ret 0 | Some fixup \<Rightarrow> fixup mtd 0 0)
             | MTD_IMAGE_FORMAT_UNKNOWN \<Rightarrow> ret 0)
          else ret 0) (\<lambda>_.
     bnd (call (k_close K fd)) (\<lambda>_.
     bnd (recovery_flag T False) (\<lambda>_.
     ret 0)))))"

section \<open>The command line\<close>

text \<open>
  The options as \<open>getopt\<close> returns them, with numbers converted by \<open>strtoul\<close>; a wrong option or number ends the
  process with the usage.
\<close>

datatype mtd_opt =
  Opt_f | Opt_r | Opt_n | Opt_q
| Opt_j string
| Opt_s u64
| Opt_e string
| Opt_d string
| Opt_p u64
| Opt_l u64
| Opt_o u64
| Opt_c u64
| Opt_t string

record cmdline =
  cl_force :: bool
  cl_boot :: bool
  cl_erase :: "string list"
  cl_offset :: u64
  cl_data_size :: u64
  cl_part_offset :: u64
  cl_dump_len :: u64

definition MAX_ARGS :: nat where "MAX_ARGS = 8"

text \<open>
  The array \<open>erase\<close> ends with a null pointer. It has \<open>MAX_ARGS\<close> elements, of which the last one
  that fits is overwritten when there are more.
\<close>

fun main_opt :: "mtd_opt \<Rightarrow> cmdline \<Rightarrow> ('k, cmdline) prog" where
  "main_opt Opt_f c = ret (c\<lparr>cl_force := True\<rparr>)"
| "main_opt Opt_r c = ret (c\<lparr>cl_boot := True\<rparr>)"
| "main_opt Opt_n c = bnd (puts (\<lambda>s. s\<lparr>no_erase := True\<rparr>)) (\<lambda>_. ret c)"
| "main_opt Opt_q c = ret c"
| "main_opt (Opt_j f) c = bnd (puts (\<lambda>s. s\<lparr>jffs2file := Some f\<rparr>)) (\<lambda>_. ret c)"
| "main_opt (Opt_s n) c = bnd (puts (\<lambda>s. s\<lparr>jffs2_skip_bytes := to_int n\<rparr>)) (\<lambda>_. ret c)"
| "main_opt (Opt_e d) c =
     (let i = min (length (cl_erase c)) (MAX_ARGS - 1)
      in if i + 1 < MAX_ARGS then ret (c\<lparr>cl_erase := take i (cl_erase c) @ [d]\<rparr>) else fault)"
| "main_opt (Opt_d d) c = bnd (puts (\<lambda>s. s\<lparr>jffs2dir := d\<rparr>)) (\<lambda>_. ret c)"
| "main_opt (Opt_p n) c = ret (c\<lparr>cl_part_offset := n\<rparr>)"
| "main_opt (Opt_l n) c = ret (c\<lparr>cl_dump_len := n\<rparr>)"
| "main_opt (Opt_o n) c = ret (c\<lparr>cl_offset := n\<rparr>)"
| "main_opt (Opt_c n) c = ret (c\<lparr>cl_data_size := n\<rparr>)"
| "main_opt (Opt_t p) c = bnd (puts (\<lambda>s. s\<lparr>tpl_uboot_args_part := Some p\<rparr>)) (\<lambda>_. ret c)"

fun main_opts :: "mtd_opt list \<Rightarrow> cmdline \<Rightarrow> ('k, cmdline) prog" where
  "main_opts [] c = ret c"
| "main_opts (op # ops) c = bnd (main_opt op c) (main_opts ops)"

datatype cmd =
  CMD_ERASE
| CMD_WRITE int
| CMD_UNLOCK
| CMD_JFFS2WRITE string
| CMD_FIXTRX
| CMD_FIXSEAMA
| CMD_FIXWRG
| CMD_FIXWRGG
| CMD_VERIFY string
| CMD_DUMP
| CMD_RESETBC

text \<open>The command and the device, after the checks that are made before anything is modified.\<close>

definition main_cmd :: "'k kern \<Rightarrow> 'k target \<Rightarrow> cmdline \<Rightarrow> string list \<Rightarrow> ('k, cmd \<times> string) prog" where
  "main_cmd K T c argv =
     (case argv of
        [cmd, device] \<Rightarrow>
          if cmd = ''unlock'' then ret (CMD_UNLOCK, device)
          else if cmd = ''erase'' then ret (CMD_ERASE, device)
          else if cmd = ''resetbc'' \<and> t_resetbc T \<noteq> None then ret (CMD_RESETBC, device)
          else if cmd = ''fixtrx'' \<and> t_fixtrx T \<noteq> None then ret (CMD_FIXTRX, device)
          else if cmd = ''fixseama'' \<and> t_fixseama T \<noteq> None then ret (CMD_FIXSEAMA, device)
          else if cmd = ''fixwrg'' \<and> t_fixwrg T \<noteq> None then ret (CMD_FIXWRG, device)
          else if cmd = ''fixwrgg'' \<and> t_fixwrgg T \<noteq> None then ret (CMD_FIXWRGG, device)
          else if cmd = ''dump'' then ret (CMD_DUMP, device)
          else exit1
      | [cmd, file_name, device] \<Rightarrow>
          if cmd = ''verify'' then ret (CMD_VERIFY file_name, device)
          else if cmd = ''write'' then
            bnd (if file_name = ''-'' then ret 0 else call (k_open_rd K file_name)) (\<lambda>imagefd.
            if imagefd < 0 then exit1 else
            bnd (mtd_check K device) (\<lambda>ok.
            if ok = 0 then exit1 else
            bnd (image_check K T imagefd device) (\<lambda>ok.
            if ok = 0 \<and> \<not> cl_force c then exit1 else ret (CMD_WRITE imagefd, device))))
          else if cmd = ''jffs2write'' then
            bnd (mtd_check K device) (\<lambda>ok.
            if ok = 0 then exit1 else ret (CMD_JFFS2WRITE file_name, device))
          else exit1
      | _ \<Rightarrow> exit1)"

fun main_erase :: "'k kern \<Rightarrow> string \<Rightarrow> string list \<Rightarrow> bool \<Rightarrow> ('k, bool) prog" where
  "main_erase K device [] unlocked = ret unlocked"
| "main_erase K device (d # ds) unlocked =
     bnd (mtd_unlock K d) (\<lambda>_.
     bnd (mtd_erase K d) (\<lambda>_.
     main_erase K device ds (unlocked \<or> d = device)))"

text \<open>Rebooting at the end is not part of the model.\<close>

definition mtd_main :: "'k kern \<Rightarrow> 'k target \<Rightarrow> ('k, 'c) ubox_md5 \<Rightarrow> mtd_opt list \<Rightarrow> string list \<Rightarrow> ('k, int) prog" where
  "mtd_main K T U opts argv =
     bnd (puts (\<lambda>s. s\<lparr>buflen := 0, no_erase := False\<rparr>)) (\<lambda>_.
     bnd (main_opts opts \<lparr>cl_force = False, cl_boot = False, cl_erase = [], cl_offset = 0, cl_data_size = 0,
       cl_part_offset = 0, cl_dump_len = 0\<rparr>) (\<lambda>c.
     bnd (main_cmd K T c argv) (\<lambda>(cmd, device).
     bnd (main_erase K device (cl_erase c) False) (\<lambda>unlocked.
     bnd (gets jffs2dir) (\<lambda>dir.
     let unlock = (if unlocked then ret 0 else mtd_unlock K device);
         fix = (\<lambda>f off. case f of None \<Rightarrow> ret 0 | Some f \<Rightarrow> f device off (cl_data_size c)) in
     bnd (case cmd of
            CMD_UNLOCK \<Rightarrow> unlock
          | CMD_VERIFY file_name \<Rightarrow> mtd_verify K U device file_name
          | CMD_DUMP \<Rightarrow> mtd_dump K device (to_int (cl_offset c)) (to_int (cl_dump_len c))
          | CMD_ERASE \<Rightarrow> bnd unlock (\<lambda>_. mtd_erase K device)
          | CMD_WRITE imagefd \<Rightarrow> bnd unlock (\<lambda>_. mtd_write K T imagefd device (cl_part_offset c))
          | CMD_JFFS2WRITE file_name \<Rightarrow> bnd unlock (\<lambda>_. mtd_write_jffs2 K (t_trx_fixup T) device file_name dir)
          | CMD_FIXTRX \<Rightarrow> fix (t_fixtrx T) (cl_offset c)
          | CMD_RESETBC \<Rightarrow> (case t_resetbc T of None \<Rightarrow> ret 0 | Some f \<Rightarrow> f device)
          | CMD_FIXSEAMA \<Rightarrow> fix (t_fixseama T) 0
          | CMD_FIXWRG \<Rightarrow> fix (t_fixwrg T) 0
          | CMD_FIXWRGG \<Rightarrow> fix (t_fixwrgg T) 0) (\<lambda>_.
     ret 0))))))"

end
