(* ===== verification/Util_Write_Image.thy ===== *)
theory Util_Write_Image
  imports Util_Write
begin

text \<open>
  What writing an image leaves on the device: the image, padded to whole blocks, in the good blocks, in order; bad
  blocks and what follows are untouched. Writing returns, without an access outside of a buffer.
\<close>

section \<open>Laying out data over good blocks\<close>

text \<open>From block \<open>k\<close> to before block \<open>k'\<close>, the good blocks hold \<open>x\<close>, and everything else is as before.\<close>

definition laid :: "(nat \<Rightarrow> bool) \<Rightarrow> nat \<Rightarrow> nat \<Rightarrow> nat \<Rightarrow> bytes \<Rightarrow> bytes \<Rightarrow> bytes \<Rightarrow> bool" where
  "laid good esz k k' c c' x \<longleftrightarrow> k \<le> k' \<and> k' * esz \<le> length c \<and> length c' = length c \<and>
     take (k * esz) c' = take (k * esz) c \<and> drop (k' * esz) c' = drop (k' * esz) c \<and>
     (\<forall>j. k \<le> j \<longrightarrow> j < k' \<longrightarrow> \<not> good (j * esz) \<longrightarrow> buf_get (j * esz) esz c' = buf_get (j * esz) esz c) \<and>
     good_bytes good esz c' (k * esz) ((k' - k) * esz) = x"

lemma good_bytes_cong_range:
  "(\<And>i. a \<le> i \<Longrightarrow> i < a + n \<Longrightarrow> c ! i = c' ! i) \<Longrightarrow> good_bytes good esz c a n = good_bytes good esz c' a n"
  by (simp add: good_bytes_def)

lemma laid_refl: "k * esz \<le> length c \<Longrightarrow> laid good esz k k c c []"
  by (simp add: laid_def)

lemma buf_get_take_cong: "take n c' = take n c \<Longrightarrow> off + m \<le> n \<Longrightarrow> buf_get off m c' = buf_get off m c"
proof -
  assume t: "take n c' = take n c" and n: "off + m \<le> n"
  have "buf_get off m x = buf_get off m (take n x)" for x :: "'a list"
    using n by (simp add: buf_get_def drop_take min_def)
  then show ?thesis using t by metis
qed

lemma buf_get_drop_cong: "drop n c' = drop n c \<Longrightarrow> n \<le> off \<Longrightarrow> buf_get off m c' = buf_get off m c"
proof -
  assume t: "drop n c' = drop n c" and n: "n \<le> off"
  then have "drop (off - n) (drop n c') = drop (off - n) (drop n c)" by simp
  then show ?thesis using n by (simp add: buf_get_def)
qed

lemma laid_trans:
  assumes "laid good esz k k1 c c1 x" "laid good esz k1 k2 c1 c2 y"
  shows "laid good esz k k2 c c2 (x @ y)"
proof -
  have a: "k \<le> k1" "k1 * esz \<le> length c" "length c1 = length c" "take (k * esz) c1 = take (k * esz) c" "drop (k1 * esz) c1 = drop (k1 * esz) c"
    "\<And>j. k \<le> j \<Longrightarrow> j < k1 \<Longrightarrow> \<not> good (j * esz) \<Longrightarrow> buf_get (j * esz) esz c1 = buf_get (j * esz) esz c"
    "good_bytes good esz c1 (k * esz) ((k1 - k) * esz) = x"
    and b: "k1 \<le> k2" "k2 * esz \<le> length c1" "length c2 = length c1" "take (k1 * esz) c2 = take (k1 * esz) c1" "drop (k2 * esz) c2 = drop (k2 * esz) c1"
    "\<And>j. k1 \<le> j \<Longrightarrow> j < k2 \<Longrightarrow> \<not> good (j * esz) \<Longrightarrow> buf_get (j * esz) esz c2 = buf_get (j * esz) esz c1"
    "good_bytes good esz c2 (k1 * esz) ((k2 - k1) * esz) = y"
    using assms by (auto simp: laid_def)
  have le: "k * esz \<le> k1 * esz" "k1 * esz \<le> k2 * esz" using a(1) b(1) by (simp_all add: mult_le_mono1)
  have "take (k * esz) c2 = take (k * esz) (take (k1 * esz) c2)" using le by (simp add: min_def)
  also have "\<dots> = take (k * esz) c" using b(4) a(4) le by (simp add: min_def)
  finally have t: "take (k * esz) c2 = take (k * esz) c" .
  have "drop (k2 * esz) c1 = drop (k2 * esz - k1 * esz) (drop (k1 * esz) c1)" using le by simp
  also have "\<dots> = drop (k2 * esz) c" unfolding a(5) using le by simp
  finally have d: "drop (k2 * esz) c2 = drop (k2 * esz) c" using b(5) by simp
  have bad: "buf_get (j * esz) esz c2 = buf_get (j * esz) esz c" if j: "k \<le> j" "j < k2" "\<not> good (j * esz)" for j
  proof (cases "j < k1")
    case True
    have "j * esz + esz = Suc j * esz" by simp
    also have "\<dots> \<le> k1 * esz" using True by (intro mult_le_mono1) simp
    finally show ?thesis using buf_get_take_cong [OF b(4)] a(6) [OF j(1) True j(3)] by simp
  next
    case False
    then have "k1 * esz \<le> j * esz" by (intro mult_le_mono1) simp
    then show ?thesis using buf_get_drop_cong [OF a(5)] b(6) False j by simp
  qed
  have n: "(k2 - k) * esz = (k1 - k) * esz + (k2 - k1) * esz" using a(1) b(1) by (simp add: diff_mult_distrib le mult_le_mono1)
  have k1: "k * esz + (k1 - k) * esz = k1 * esz" using a(1) le by (simp add: diff_mult_distrib)
  have "good_bytes good esz c2 (k * esz) ((k1 - k) * esz) = x"
    unfolding a(7) [symmetric] k1
  proof (rule good_bytes_cong_range)
    fix i
    assume "i < k * esz + (k1 - k) * esz"
    then have i: "i < k1 * esz" by (simp only: k1)
    have "take (k1 * esz) c2 ! i = take (k1 * esz) c1 ! i" by (simp only: b(4))
    then show "c2 ! i = c1 ! i" using i by simp
  qed
  then have g: "good_bytes good esz c2 (k * esz) ((k2 - k) * esz) = x @ y"
    unfolding n good_bytes_add k1 b(7) by simp
  show ?thesis
    unfolding laid_def using a(1,3) b(1,2,3) t d bad g by auto
qed

lemma good_bytes_bad:
  assumes "0 < esz" "\<And>j. k \<le> j \<Longrightarrow> j < k' \<Longrightarrow> \<not> good (j * esz)" "k \<le> k'"
  shows "good_bytes good esz c (k * esz) ((k' - k) * esz) = []"
proof -
  have "\<not> good (i div esz * esz)" if "k * esz \<le> i" "i < k * esz + (k' - k) * esz" for i
  proof -
    have "k * esz + (k' - k) * esz = k' * esz" using assms(3) by (simp add: diff_mult_distrib mult_le_mono1)
    then have "k \<le> i div esz" "i div esz < k'" using that assms(1) by (simp_all add: less_eq_div_iff_mult_less_eq less_mult_imp_div_less)
    then show ?thesis by (rule assms(2))
  qed
  then show ?thesis by (auto simp: good_bytes_def filter_empty_conv)
qed

lemma laid_block:
  assumes "0 < esz" "k \<le> k'" "\<And>j. k \<le> j \<Longrightarrow> j < k' \<Longrightarrow> \<not> good (j * esz)" "good (k' * esz)" "length b = esz"
    and "Suc k' * esz \<le> length c"
  shows "laid good esz k (Suc k') c (buf_put (k' * esz) b c) b"
proof -
  let ?c = "buf_put (k' * esz) b c"
  have len: "k' * esz + length b \<le> length c" "k' * esz + esz \<le> length c" using assms(5,6) by simp_all
  have le: "k * esz \<le> k' * esz" using assms(2) by (rule mult_le_mono1)
  have n: "(Suc k' - k) * esz = (k' - k) * esz + esz" using assms(2) by (simp add: Suc_diff_le)
  have k': "k * esz + (k' - k) * esz = k' * esz" using assms(2) le by (simp add: diff_mult_distrib)
  have "good_bytes good esz ?c (k' * esz) esz = buf_get (k' * esz) esz ?c"
    using good_bytes_block(2) [of esz esz "k' * esz" good ?c] assms(1,4) len by (simp add: length_buf_put)
  also have "\<dots> = b" using len assms(5) by (intro buf_get_put_same) simp_all
  finally have g: "good_bytes good esz ?c (k * esz) ((Suc k' - k) * esz) = b"
    unfolding n good_bytes_add k' using good_bytes_bad [of esz k k' good ?c] assms(1,2,3) by simp
  have bad: "buf_get (j * esz) esz ?c = buf_get (j * esz) esz c" if "k \<le> j" "j < Suc k'" "\<not> good (j * esz)" for j
  proof -
    have "j < k'" using that assms(4) by (cases "j = k'") simp_all
    then have "Suc j * esz \<le> k' * esz" by (intro mult_le_mono1) simp
    then show ?thesis using len by (intro buf_get_put_before) simp_all
  qed
  have t: "take (k * esz) ?c = take (k * esz) c" using le len by (intro take_buf_put) simp_all
  have d: "drop (Suc k' * esz) ?c = drop (Suc k' * esz) c" using len assms(5) by (intro drop_buf_put) simp_all
  show ?thesis
    unfolding laid_def using assms(2,6) g bad t d length_buf_put [OF len(1)] by (intro conjI) simp_all
qed

section \<open>The contract of the files\<close>

text \<open>
  The device and the image are the only files: \<open>pos\<close> is the offset of the open device, 0 when it has just been opened;
  \<open>rest\<close> is the unread part of the image, descriptor \<open>fdin\<close>. A complete write to an erased range stores the data at the
  offset and moves it; a read of the image takes a part from its front, nothing only at its end. Only blocks of the
  device are bad.
\<close>

locale flash_writer = flash_device K info content bad
  for K :: "'k kern" and info and content :: "'k \<Rightarrow> bytes" and bad +
  fixes pos :: "'k \<Rightarrow> int" and rest :: "'k \<Rightarrow> bytes" and fdin :: int
  assumes same:
      "pos (snd (k_proc_mtd K k)) = pos k" "rest (snd (k_proc_mtd K k)) = rest k"
      "pos (snd (k_getinfo K fd k)) = pos k" "rest (snd (k_getinfo K fd k)) = rest k"
      "pos (snd (k_getbadblock K fd ofs k)) = pos k" "rest (snd (k_getbadblock K fd ofs k)) = rest k"
      "pos (snd (k_unlock K fd st len k)) = pos k" "rest (snd (k_unlock K fd st len k)) = rest k"
      "pos (snd (k_erase K fd st len k)) = pos k" "rest (snd (k_erase K fd st len k)) = rest k"
      "pos (snd (k_close K fd k)) = pos k" "rest (snd (k_close K fd k)) = rest k"
    and open_pos: "pos k = 0 \<Longrightarrow> pos (snd (k_open K p k)) = 0" "rest (snd (k_open K p k)) = rest k"
    and seek: "pos (snd (k_lseek_cur K fd ofs k)) = pos k + ofs" "rest (snd (k_lseek_cur K fd ofs k)) = rest k"
      "content (snd (k_lseek_cur K fd ofs k)) = content k"
    and read: "\<exists>m. fst (k_read K fdin n k) = Inr (take m (rest k)) \<and> m \<le> unat n \<and> (rest k \<noteq> [] \<longrightarrow> 0 < n \<longrightarrow> 0 < m) \<and>
      rest (snd (k_read K fdin n k)) = drop m (rest k) \<and> content (snd (k_read K fdin n k)) = content k \<and>
      pos (snd (k_read K fdin n k)) = pos k"
    and write_file: "fst (k_write K fd b k) \<le> int (length b)" "rest (snd (k_write K fd b k)) = rest k"
      "fst (k_write K fd b k) = int (length b) \<Longrightarrow> 0 \<le> pos k \<Longrightarrow>
       buf_get (nat (pos k)) (length b) (content k) = replicate (length b) 0xFF \<Longrightarrow>
       content (snd (k_write K fd b k)) = buf_put (nat (pos k)) b (content k) \<and> pos (snd (k_write K fd b k)) = pos k + int (length b)"
    and bad_inside: "bad ofs \<Longrightarrow> ofs < uint (info_size info)"

text \<open>The state with content \<open>c\<close>, the device at block \<open>k\<close>, \<open>p\<close> in the buffer, and \<open>r\<close> not read.\<close>

definition wstate :: "('k \<Rightarrow> bytes) \<Rightarrow> ('k \<Rightarrow> int) \<Rightarrow> ('k \<Rightarrow> bytes) \<Rightarrow> mtd_info_user \<Rightarrow> nat \<Rightarrow>
    nat \<Rightarrow> bytes \<Rightarrow> bytes \<Rightarrow> bytes \<Rightarrow> 'k mtd_state \<Rightarrow> bool" where
  "wstate content pos rest info esz k c p r s \<longleftrightarrow> content (kst s) = c \<and> pos (kst s) = int (k * esz) \<and> rest (kst s) = r \<and>
     erasesize s = int esz \<and> mtdtype s = uint (info_type info) \<and>
     (\<exists>b. mtd_buf s = Some b \<and> length b = esz \<and> take (length p) b = p) \<and> length p \<le> esz \<and> buflen s = int (length p) \<and>
     jffs2file s = None \<and> \<not> no_erase s \<and> tpl_uboot_args_part s = None"

context flash_writer begin

abbreviation W :: "nat \<Rightarrow> nat \<Rightarrow> bytes \<Rightarrow> bytes \<Rightarrow> bytes \<Rightarrow> 'k mtd_state \<Rightarrow> bool" where
  "W \<equiv> wstate content pos rest info"

abbreviation T :: "('k mtd_state \<Rightarrow> bool) \<Rightarrow> ('k, 'a) prog \<Rightarrow> ('a \<Rightarrow> 'k mtd_state \<Rightarrow> bool) \<Rightarrow> bool" where
  "T \<equiv> total True"

lemma W_gets: "T (W esz k c p r) (gets buflen) (\<lambda>a s. a = int (length p) \<and> W esz k c p r s)"
  "T (W esz k c p r) (gets erasesize) (\<lambda>a s. a = int esz \<and> W esz k c p r s)"
  "T (W esz k c p r) (gets no_erase) (\<lambda>a s. \<not> a \<and> W esz k c p r s)"
  "T (W esz k c p r) (gets tpl_uboot_args_part) (\<lambda>a s. a = None \<and> W esz k c p r s)"
  "T (W esz k c p r) (gets f) (\<lambda>_. W esz k c p r)"
  by (rule total_gets; simp add: wstate_def)+

lemma W_read:
  assumes "length p < esz" "esz < 2 ^ 31"
  shows "T (W esz k c p r) (read_image K fdin (int esz - int (length p)))
    (\<lambda>n s. \<exists>m. (n = Inr (length (take m r)) \<and> (r \<noteq> [] \<longrightarrow> 0 < m) \<and> length p + length (take m r) \<le> esz) \<and> W esz k c (p @ take m r) (drop m r) s)"
proof (rule totalI)
  fix s
  assume s: "W esz k c p r s"
  then obtain b where b: "mtd_buf s = Some b" "length b = esz" "take (length p) b = p" by (auto simp: wstate_def)
  define n where "n = (of_int (int esz - int (length p)) :: u64)"
  have "n = of_nat (esz - length p)" using assms(1) by (simp add: n_def of_nat_diff)
  then have u: "unat n = esz - length p" using assms by (simp only:) (intro unat_of_nat_small, simp)
  then have pos: "0 < n" using assms(1) by (simp add: word_less_nat_alt)
  have r: "rest (kst s) = r" using s by (simp add: wstate_def)
  obtain m where m: "fst (k_read K fdin n (kst s)) = Inr (take m r)" "m \<le> unat n" "r \<noteq> [] \<longrightarrow> 0 < n \<longrightarrow> 0 < m"
    "rest (snd (k_read K fdin n (kst s))) = drop m r" "content (snd (k_read K fdin n (kst s))) = content (kst s)"
    "pos (snd (k_read K fdin n (kst s))) = pos (kst s)"
    using read [of n "kst s"] r by auto
  define x where "x = take m r"
  have l: "length p + length x \<le> esz" using m(2) u assms(1) by (simp add: x_def)
  let ?b = "buf_put (length p) x b" and ?t = "\<lambda>b. s\<lparr>kst := snd (k_read K fdin n (kst s)), mtd_buf := Some b, buflen := int (length p) + int (length x)\<rparr>"
  have b': "length ?b = esz" "take (length p + length x) ?b = p @ x"
    using l b by (simp_all add: length_buf_put) (simp add: buf_put_def min_def)
  have len: "buflen s = int (length p)" using s by (simp add: wstate_def)
  have run: "read_image K fdin (int esz - int (length p)) s = Some (Done (Inr (length x)), ?t ?b)"
    unfolding read_image_def n_def [symmetric] using b(1,2) len l m(1) by (simp add: bnd_call store_def ret_def x_def [symmetric])
  have "W esz k c (p @ x) (drop m r) (?t ?b)"
    using s b' l m(4,5,6) by (simp add: wstate_def)
  with run m(3) pos l show "\<exists>t. read_image K fdin (int esz - int (length p)) s = Some (Exit, t) \<and> True \<or>
      (\<exists>a. read_image K fdin (int esz - int (length p)) s = Some (Done a, t) \<and>
        (\<exists>m. (a = Inr (length (take m r)) \<and> (r \<noteq> [] \<longrightarrow> 0 < m) \<and> length p + length (take m r) \<le> esz) \<and> W esz k c (p @ take m r) (drop m r) t))"
    unfolding x_def by blast
qed

lemma W_fill:
  assumes "0 < esz" "esz < 2 ^ 31"
  shows "T (W esz k c p r) (fill_buf K fdin)
    (\<lambda>_ s. \<exists>p' r'. (p' @ r' = p @ r \<and> (length p' = esz \<or> r' = [])) \<and> W esz k c p' r' s)"
proof (induction r arbitrary: p rule: length_induct)
  case (1 r)
  have IH: "T (W esz k c p' r') (fill_buf K fdin) (\<lambda>_ s. \<exists>p'' r''. (p'' @ r'' = p' @ r' \<and> (length p'' = esz \<or> r'' = [])) \<and> W esz k c p'' r'' s)"
    if "length r' < length r" for p' r'
    using 1 that by blast
  show ?case
    apply (rule total_cong [OF fill_buf.simps])
    apply (rule total_bnd [OF W_gets(1)], rule total_fact(1), rule total_bnd [OF W_gets(2)], rule total_fact(1))
    apply (simp only:)
    apply (rule total_if)
    subgoal
      apply (rule total_bnd [OF W_read [OF _ assms(2)]], simp)
      apply (rule total_ex, rule total_fact(1))
      apply (elim conjE, simp only: sum.case)
      apply (rule total_if)
      subgoal for _ m
        apply (rule total_ret, rule exI [of _ p], rule exI [of _ "[]"])
        by (cases r; cases m) (simp_all add: wstate_def)
      subgoal for _ m
        using IH [of "drop m r" "p @ take m r"] by (cases r; cases m) simp_all
      done
    apply (rule total_ret, rule exI [of _ p], rule exI [of _ r])
    apply (auto simp: wstate_def)
    done
qed

end

context flash_writer begin

lemma W_pad: "T (W esz k c p r) pad_image (\<lambda>_. W esz k c (p @ replicate (esz - length p) 0xFF) r)"
proof (rule totalI)
  fix s
  assume s: "W esz k c p r s"
  then obtain b where b: "mtd_buf s = Some b" "length b = esz" "take (length p) b = p" by (auto simp: wstate_def)
  have h: "length p \<le> esz" "buflen s = int (length p)" "erasesize s = int esz" using s by (simp_all add: wstate_def)
  let ?x = "replicate (esz - length p) 0xFF" and ?t = "\<lambda>b. s\<lparr>mtd_buf := Some b, buflen := int esz\<rparr>"
  show "\<exists>t. pad_image s = Some (Exit, t) \<and> True \<or> (\<exists>a. pad_image s = Some (Done a, t) \<and> W esz k c (p @ ?x) r t)"
  proof (cases "length p < esz")
    case True
    then have "pad_image s = Some (Done (), ?t (buf_put (length p) ?x b))"
      unfolding pad_image_def using b h by (simp add: store_def ret_def bnd_Done puts_def nat_diff_distrib)
    moreover have "W esz k c (p @ ?x) r (?t (buf_put (length p) ?x b))"
      using s b h by (simp add: wstate_def length_buf_put) (simp add: buf_put_def min_def)
    ultimately show ?thesis by blast
  next
    case False
    then have "pad_image s = Some (Done (), s)" unfolding pad_image_def using h by (simp add: ret_def)
    moreover have "?x = []" using False by simp
    ultimately show ?thesis using s by simp
  qed
qed

lemma W_call:
  assumes "\<And>k. content (snd (f k)) = content k" "\<And>k. pos (snd (f k)) = pos k" "\<And>k. rest (snd (f k)) = rest k"
  shows "T (W esz k c p r) (call f) (\<lambda>_. W esz k c p r)"
  by (rule total_call) (simp add: wstate_def assms)

lemma W_size: "W esz k c p r s \<Longrightarrow> int (length c) = uint (info_size info) \<and> length c < 2 ^ 31"
  using content_size(1) [of "kst s"] content_size(2) by (auto simp: wstate_def)

lemma W_is_bad: "T (W esz k c p r) (mtd_block_is_bad K fd (int ofs)) (\<lambda>b s. (b = 0) = is_good ofs \<and> W esz k c p r s)"
  unfolding mtd_block_is_bad_def
  apply (rule total_bnd [OF total_gets [where Q = "\<lambda>t s. t = uint (info_type info) \<and> W esz k c p r s"]], simp add: wstate_def)
  apply (rule total_fact(1), rule total_if)
   apply (rule total_bnd [OF total_call [where Q = "\<lambda>x s. (0 \<le> x \<longrightarrow> (0 < x) = bad (int ofs)) \<and> W esz k c p r s"]])
    apply (use getbadblock same in \<open>auto simp: wstate_def\<close>)[1]
   apply (rule total_fact(1), rule total_if, rule total_exit, simp)
   apply (rule total_ret, force)
  apply (rule total_ret, simp)
  done

lemma W_erase_block:
  assumes "k * esz < 2 ^ 31" "esz < 2 ^ 31"
  shows "T (W esz k c p r) (mtd_erase_block K fd (int (k * esz)))
     (\<lambda>x s. if x < 0 then True else Suc k * esz \<le> length c \<and> W esz k (memset (k * esz) 0xFF esz c) p r s)"
proof -
  have u: "unat (of_nat (k * esz) :: u32) = k * esz" "unat (of_nat esz :: u32) = esz" using assms by (simp_all del: of_nat_mult add: unat_of_nat_small)
  show ?thesis
    unfolding mtd_erase_block_def of_int_of_nat_eq
    apply (rule total_bnd [OF W_gets(2)], rule total_fact(1), rule total_bnd [OF W_call], (simp_all add: same unlock)[3])
    apply (rule total_bnd [OF total_call [where Q = "\<lambda>x s. 0 \<le> x \<longrightarrow> Suc k * esz \<le> length c \<and> W esz k (memset (k * esz) 0xFF esz c) p r s"]])
    subgoal for e _ s
      using erase [of fd "of_nat (k * esz)" "of_nat esz" "kst s"] u same(9,10) by (auto simp: wstate_def add.commute)
    apply (rule total_if; rule total_ret, simp)
    done
qed
end

lemma to_int_nat: "i < 2 ^ 31 \<Longrightarrow> to_int (of_nat i) = int i"
  using to_int_small [of "of_nat i"] by (simp add: unat_of_nat_small)

lemma dvd_block: "esz dvd n \<Longrightarrow> k * esz < n \<Longrightarrow> Suc k * esz \<le> (n :: nat)"
  by (auto elim!: dvdE simp: mult.commute [of esz] simp del: mult_Suc)

context flash_writer begin

lemma W_seek: "T (W esz k c p r) (call (k_lseek_cur K fd (int esz))) (\<lambda>_. W esz (Suc k) c p r)"
  by (rule total_call) (simp add: wstate_def seek)

lemma W_erase:
  assumes esz: "0 < esz" "esz < 2 ^ 31" "esz dvd length c" "length c < 2 ^ 31" and p: "length p = esz"
    and v: "wr_e v = int (k * esz)" "wr_skip_bad v = int (k * esz) - wr_w v" "k * esz \<le> length c"
  shows "T (W esz k c p r) (erase_ahead K fd False 0 v) (\<lambda>x s. \<exists>k'. (k \<le> k' \<and> (\<forall>j. k \<le> j \<longrightarrow> j < k' \<longrightarrow> \<not> is_good (j * esz)) \<and>
     is_good (k' * esz) \<and> Suc k' * esz \<le> length c \<and> x = (v\<lparr>wr_e := int (Suc k' * esz), wr_skip_bad := int (k' * esz) - wr_w v\<rparr>, False)) \<and>
     W esz k' (memset (k' * esz) 0xFF esz c) p r s)"
  using v
proof (induction "length c - k * esz" arbitrary: k v rule: less_induct)
  case less
  have ke: "k * esz < 2 ^ 31" using less.prems(3) esz(4) by simp
  have ti: "to_int (of_int (wr_e v)) = int (k * esz)" "to_int (of_int (wr_e v) + 0) = int (k * esz)"
    using to_int_nat [OF ke] less.prems(1) by (simp_all del: of_nat_mult)
  let ?v = "v\<lparr>wr_skip_bad := wr_skip_bad v + int esz, wr_e := wr_e v + int esz\<rparr>"
  let ?Q = "\<lambda>k v x s. \<exists>k'. (k \<le> k' \<and> (\<forall>j. k \<le> j \<longrightarrow> j < k' \<longrightarrow> \<not> is_good (j * esz)) \<and>
     is_good (k' * esz) \<and> Suc k' * esz \<le> length c \<and> x = (v\<lparr>wr_e := int (Suc k' * esz), wr_skip_bad := int (k' * esz) - wr_w v\<rparr>, False)) \<and>
     W esz k' (memset (k' * esz) 0xFF esz c) p r s"
  have step: "T (W esz (Suc k) c p r) (erase_ahead K fd False 0 ?v) (?Q k v)" if bad: "\<not> is_good (k * esz)"
  proof -
    have in_dev: "Suc k * esz \<le> length c" if "W esz (Suc k) c p r s" for s
    proof (rule dvd_block [OF esz(3)])
      show "k * esz < length c" using bad_inside [of "int (k * esz)"] bad W_size [OF that] by (simp del: of_nat_mult)
    qed
    show ?thesis
    proof (rule totalI)
      fix s
      assume s: "W esz (Suc k) c p r s"
      have "T (W esz (Suc k) c p r) (erase_ahead K fd False 0 ?v) (?Q (Suc k) ?v)"
        using in_dev [OF s] less.prems esz(1) by (intro less.hyps) simp_all
      then have "T (W esz (Suc k) c p r) (erase_ahead K fd False 0 ?v) (?Q k v)"
      proof (rule total_post)
        fix x s
        assume "?Q (Suc k) ?v x s"
        then obtain k' where k': "Suc k \<le> k'" "\<forall>j. Suc k \<le> j \<longrightarrow> j < k' \<longrightarrow> \<not> is_good (j * esz)" "is_good (k' * esz)" "Suc k' * esz \<le> length c"
          "x = (?v\<lparr>wr_e := int (Suc k' * esz), wr_skip_bad := int (k' * esz) - wr_w ?v\<rparr>, False)" "W esz k' (memset (k' * esz) 0xFF esz c) p r s"
          by blast
        have "\<not> is_good (j * esz)" if "k \<le> j" "j < k'" for j using k'(2) bad that by (cases "j = k") simp_all
        then show "?Q k v x s" using k' by (intro exI [of _ k']) simp
      qed
      from totalD [OF this s]
      show "\<exists>t. erase_ahead K fd False 0 ?v s = Some (Exit, t) \<and> True \<or> (\<exists>a. erase_ahead K fd False 0 ?v s = Some (Done a, t) \<and> ?Q k v a t)" .
    qed
  qed
  show ?case
    apply (rule total_cong [OF erase_ahead.simps], unfold ti)
    apply (rule total_bnd [OF W_gets(1)], rule total_fact(1), rule total_bnd [OF W_gets(2)], rule total_fact(1), rule total_if)
    subgoal using less.prems p esz(1) by simp
    subgoal for len e
      apply (rule total_bnd [OF W_is_bad], rule total_fact(1), rule total_if)
      subgoal
        apply (simp only:)
        apply (rule total_bnd [OF W_seek])
        apply (rule step, simp)
        done
      subgoal
        apply (simp only:)
        apply (rule total_bnd [OF W_erase_block [OF ke esz(2)]])
        subgoal for x
        apply (cases "x < 0")
        apply (simp, rule total_exit, simp)
        apply (simp only: if_False)
        apply (rule total_fact(1))
        apply (rule total_cong [OF erase_ahead.simps])
        apply (rule total_bnd [OF W_gets(1)], rule total_fact(1), rule total_bnd [OF W_gets(2)], rule total_fact(1), rule total_if)
        apply (rule total_ret, rule exI [of _ k])
        using less.prems apply simp
        using less.prems p apply simp
        done
      done
    done
    done
qed
end

lemma buf_put_memset: "off + length b \<le> length c \<Longrightarrow> buf_put off b (memset off x (length b) c) = buf_put off b c"
  by (simp add: buf_put_def memset_def)

lemma padded_nil [simp]: "0 < n \<Longrightarrow> padded n [] = []"
  by (simp add: padded_def)

text \<open>A block is either full, or the rest of the image is in it.\<close>

lemma padded_block:
  assumes "length p \<le> n" "p \<noteq> []" "length p = n \<or> r = []" "0 < n"
  shows "padded n (p @ r) = (p @ replicate (n - length p) 0xFF) @ padded n r"
  using assms(3)
proof
  assume "length p = n"
  then show ?thesis by (simp add: padded_def)
next
  assume "r = []"
  moreover have "(n - length p mod n) mod n = n - length p" using assms(1,2,4) by (cases "length p = n") simp_all
  ultimately show ?thesis using assms(4) by (simp add: padded_def)
qed

context flash_writer begin

lemma W_load: "T (W esz k c p r) (load_image 0 (length p)) (\<lambda>b s. b = p \<and> W esz k c p r s)"
proof (rule totalI)
  fix s
  assume s: "W esz k c p r s"
  then obtain b where b: "mtd_buf s = Some b" "length b = esz" "take (length p) b = p" "length p \<le> esz" by (auto simp: wstate_def)
  then have "load_image 0 (length p) s = Some (Done p, s)" by (simp add: load_image_def load_def ret_def buf_get_def)
  then show "\<exists>t. load_image 0 (length p) s = Some (Exit, t) \<and> True \<or> (\<exists>a. load_image 0 (length p) s = Some (Done a, t) \<and> a = p \<and> W esz k c p r t)"
    using s by blast
qed

lemma W_write:
  assumes "Suc k * esz \<le> length c" "length p = esz" "T (W esz (Suc k) (buf_put (k * esz) p c) [] r) f Q"
  shows "T (W esz k (memset (k * esz) 0xFF esz c) p r)
     (bnd (call (k_write K fd p)) (\<lambda>result. if result < int esz then exit1 else bnd (puts (\<lambda>s. s\<lparr>buflen := 0\<rparr>)) (\<lambda>_. f))) Q"
proof -
  let ?c = "memset (k * esz) 0xFF esz c"
  have e: "buf_get (k * esz) (length p) ?c = replicate (length p) 0xFF"
    using assms(1,2) by (simp add: memset_def buf_get_put_same)
  have m: "buf_put (k * esz) p ?c = buf_put (k * esz) p c"
    using buf_put_memset [of "k * esz" p c] assms(1,2) by simp
  have w: "fst (k_write K fd p (kst s)) = int esz \<Longrightarrow>
      content (snd (k_write K fd p (kst s))) = buf_put (k * esz) p c \<and> pos (snd (k_write K fd p (kst s))) = int (Suc k * esz)"
    if "W esz k ?c p r s" for s
    using write_file(3) [of fd p "kst s"] that e assms(1,2) 
    by (simp add: wstate_def nat_mult_distrib m)
  show ?thesis
    apply (rule total_bnd [OF total_call [where Q = "\<lambda>x s. \<not> x < int esz \<longrightarrow> W esz (Suc k) (buf_put (k * esz) p c) [] r (s\<lparr>buflen := 0\<rparr>)"]])
    subgoal for s
      using w [of s] write_file(1) [of fd p "kst s"] assms(2) by (auto simp: wstate_def write_file(2))
    apply (rule total_if, rule total_exit, simp)
    apply (rule total_bnd [OF total_puts assms(3)], simp)
    done
qed

lemma W_replace: "T (W esz k c p r) (replace_or_parse K fd mtd v) (\<lambda>x s. x = None \<and> W esz k c p r s)"
  unfolding replace_or_parse_def
  apply (rule total_bnd [OF total_gets [where Q = "\<lambda>f s. f = None \<and> W esz k c p r s"]], simp add: wstate_def)
  apply (rule total_fact(1), rule total_bnd [OF W_gets(5)], simp only: option.case, rule total_ret, simp)
  done

lemma W_len: "(length p \<le> esz \<Longrightarrow> T (W esz k c p r) m Q) \<Longrightarrow> T (W esz k c p r) m Q"
  by (auto simp: total_def wstate_def)

lemma W_body:
  assumes esz: "0 < esz" "esz < 2 ^ 31" "esz dvd length c" "length c < 2 ^ 31" and p: "length p = esz"
    and v: "wr_e v = int (k * esz)" "wr_skip_bad v = int (k * esz) - wr_w v" "k * esz \<le> length c" "wr_skip v = 0" "wr_offset v = 0" "\<not> wr_replaced v"
    and f: "\<And>k' c' v'. laid is_good esz k k' c c' p \<Longrightarrow> wr_e v' = int (k' * esz) \<Longrightarrow> wr_skip_bad v' = int (k' * esz) - wr_w v' \<Longrightarrow>
      wr_skip v' = 0 \<Longrightarrow> wr_offset v' = 0 \<Longrightarrow> \<not> wr_replaced v' \<Longrightarrow> T (W esz k' c' [] r) (f v') Q"
  shows "T (W esz k c p r)
    (bnd (erase_ahead K fd False 0 v) (\<lambda>(v, resume).
     if resume then ret (v, True) else
     bnd (load_image (unat (wr_offset v)) (nat (int (length p)))) (\<lambda>b.
     bnd (call (k_write K fd b)) (\<lambda>result.
     if result < int (length p) then exit1 else
     bnd (puts (\<lambda>s. s\<lparr>buflen := 0\<rparr>)) (\<lambda>_.
     f (v\<lparr>wr_w := wr_w v + int (length p), wr_offset := 0\<rparr>)))))) Q"
proof (rule total_bnd [OF W_erase [OF esz p v(1,2,3)]], rule total_ex, rule total_fact(1), elim conjE)
  fix x k'
  let ?v = "v\<lparr>wr_e := int (Suc k' * esz), wr_skip_bad := int (k' * esz) - wr_w v\<rparr>"
  assume k': "k \<le> k'" "\<forall>j\<ge>k. j < k' \<longrightarrow> \<not> is_good (j * esz)" "is_good (k' * esz)" "Suc k' * esz \<le> length c" and x: "x = (?v, False)"
  have "laid is_good esz k (Suc k') c (buf_put (k' * esz) p c) p"
    using k' esz(1) p by (intro laid_block) auto
  then have g: "T (W esz (Suc k') (buf_put (k' * esz) p c) [] r) (f (?v\<lparr>wr_w := wr_w v + int esz, wr_offset := 0\<rparr>)) Q"
    by (rule f) (use v in \<open>simp_all add: algebra_simps\<close>)
  have o: "unat (wr_offset ?v) = 0" "nat (int (length p)) = length p" using v(5) by simp_all
  show "T (W esz k' (memset (k' * esz) 0xFF esz c) p r) (case x of (v, resume) \<Rightarrow>
     if resume then ret (v, True) else
     bnd (load_image (unat (wr_offset v)) (nat (int (length p)))) (\<lambda>b.
     bnd (call (k_write K fd b)) (\<lambda>result.
     if result < int (length p) then exit1 else
     bnd (puts (\<lambda>s. s\<lparr>buflen := 0\<rparr>)) (\<lambda>_.
     f (v\<lparr>wr_w := wr_w v + int (length p), wr_offset := 0\<rparr>))))) Q"
    unfolding x prod.case if_False o
    by (rule total_bnd [OF W_load], rule total_fact(1), simp only:, unfold p,
      rule W_write [OF k'(4) p], use g in simp)
qed

lemma W_loop:
  assumes esz: "0 < esz" "esz < 2 ^ 31" "esz dvd length c" "length c < 2 ^ 31"
    and v: "wr_e v = int (k * esz)" "wr_skip_bad v = int (k * esz) - wr_w v" "k * esz \<le> length c" "wr_skip v = 0" "wr_offset v = 0" "\<not> wr_replaced v"
  shows "T (W esz k c p r) (write_loop K fdin fd mtd False 0 v) (\<lambda>x s. \<exists>k' c'. (\<exists>v'. x = (v', False) \<and> \<not> wr_replaced v') \<and>
     laid is_good esz k k' c c' (padded esz (p @ r)) \<and> W esz k' c' [] [] s)"
  using esz(3,4) v
proof (induction "length (p @ r)" arbitrary: p r k c v rule: less_induct)
  case less
  show ?case
    apply (rule total_cong [OF write_loop.simps])
    apply (rule total_bnd [OF W_fill [OF esz(1,2)]])
    apply (intro total_ex total_fact(1))
    apply (rule total_bnd [OF W_gets(1)], rule total_fact(1), rule total_if)
    subgoal for _ p' r'
      apply (rule total_ret)
      using less.prems esz(1) by (intro exI [of _ k] exI [of _ c]) (auto intro: laid_refl)
    subgoal premises q for _ p' r'
      apply (rule W_len)
      apply (rule total_bnd [OF W_pad], rule total_bnd [OF W_gets(1)], rule total_fact(1))
      apply (simp only: less.prems)
      apply (rule total_if, simp)
      apply (rule total_bnd [OF W_replace], rule total_fact(1), simp only: option.case)
      apply (rule total_bnd [OF W_gets(3)], rule total_fact(1), simp only: if_False)
      apply (rule W_body [OF esz(1,2) less.prems(1,2) _ less.prems(3-8)])
       apply simp
      subgoal premises q' for a len x ne k' c' v'
      proof -
        have p': "p' \<noteq> []" "length p' \<le> esz" and r': "length p' = esz \<or> r' = []" "p @ r = p' @ r'"
          using q q' by auto
        have c': "k' * esz \<le> length c'" "length c' = length c" using q'(6) by (auto simp: laid_def)
        have "T (W esz k' c' [] r') (write_loop K fdin fd mtd False 0 v') (\<lambda>x s. \<exists>k'' c''. (\<exists>v'. x = (v', False) \<and> \<not> wr_replaced v') \<and>
            laid is_good esz k' k'' c' c'' (padded esz ([] @ r')) \<and> W esz k'' c'' [] [] s)"
          by (rule less.hyps) (use p' r' c' q' less.prems in auto)
        then show ?thesis
          apply (rule total_post)
          using laid_trans [OF q'(6)] padded_block [OF p'(2,1) r'(1) esz(1)] by (auto simp: r'(2)) blast
      qed
      done
    done
qed
end

section \<open>Writing one device\<close>

context flash_writer begin

text \<open>Before the device is opened, the variables for it are not set.\<close>

abbreviation W0 :: "nat \<Rightarrow> bytes \<Rightarrow> bytes \<Rightarrow> bytes \<Rightarrow> 'k mtd_state \<Rightarrow> bool" where
  "W0 esz c p r s \<equiv> W esz 0 c p r (s\<lparr>erasesize := int esz, mtdtype := uint (info_type info)\<rparr>)"

lemma W0_call:
  assumes "\<And>k. content (snd (f k)) = content k" "\<And>k. pos k = 0 \<Longrightarrow> pos (snd (f k)) = 0" "\<And>k. rest (snd (f k)) = rest k"
  shows "T (W0 esz c p r) (call f) (\<lambda>_. W0 esz c p r)"
  by (rule total_call) (simp add: wstate_def assms)

lemma W0_open: "T (W0 esz c p r) (mtd_open K mtd b) (\<lambda>_. W0 esz c p r)"
proof -
  have o: "T (W0 esz c p r) (call (k_open K x)) (\<lambda>_. W0 esz c p r)" for x
    by (rule W0_call) (simp_all add: open_path open_pos)
  have m: "T (W0 esz c p r) (call (k_proc_mtd K)) (\<lambda>_. W0 esz c p r)"
    by (rule W0_call) (simp_all add: proc_mtd same)
  show ?thesis
    unfolding mtd_open_def Let_def
    by (intro total_bnd [OF m] total_option total_if total_bnd [OF o] o total_ret)
qed

lemma W0_check_open:
  assumes "unat (info_erasesize info) = esz" "esz < 2 ^ 31"
  shows "T (W0 esz c p r) (mtd_check_open K mtd) (\<lambda>fd s. fd < 0 \<or> W esz 0 c p r s)"
proof -
  have e: "sint (info_erasesize info) = int esz"
    unfolding sint_uint uint_nat assms(1) using assms(2) signed_small by simp
  have i: "T (W0 esz c p r) (call (k_getinfo K fd)) (\<lambda>i s. (\<forall>x. i = Some x \<longrightarrow> x = info) \<and> W0 esz c p r s)" for fd
    by (rule total_call) (auto simp: wstate_def getinfo same)
  show ?thesis
    unfolding mtd_check_open_def
    apply (rule total_bnd [OF W0_open], rule total_if, rule total_ret, simp)
    apply (rule total_bnd [OF i], rule total_fact(1), rule total_option)
     apply (rule total_bnd [OF W0_call], simp_all add: close_fd same)
     apply (rule total_ret, simp)
    apply (rule total_bnd [OF total_puts [where Q = "\<lambda>_. W esz 0 c p r"]])
     apply (simp add: e wstate_def)
    apply (rule total_ret, simp)
    done
qed

lemma W_flag: "T (W esz k c p r) (recovery_flag tg b) (\<lambda>_. W esz k c p r)"
  unfolding recovery_flag_def
  by (rule total_bnd [OF W_gets(4)], rule total_fact(1), simp only: option.case, rule total_ret, simp)

lemma split_colon_one: "CHR '':'' \<notin> set name \<Longrightarrow> split_colon name = [name]"
  by (induction name) auto

lemma W_mtd_write:
  assumes "unat (info_erasesize info) = esz" "0 < esz" "esz < 2 ^ 31" "esz dvd length c" "length c < 2 ^ 31" "CHR '':'' \<notin> set name"
  shows "T (W0 esz c p r) (mtd_write K tg fdin name 0) (\<lambda>x s. x = 0 \<and>
     (\<exists>k c'. laid is_good esz 0 k c c' (padded esz (p @ r)) \<and> content (kst s) = c' \<and> rest (kst s) = []))"
proof -
  let ?v = "\<lparr>wr_w = 0, wr_e = 0, wr_skip = 0, wr_offset = 0, wr_replaced = False, wr_skip_bad = 0\<rparr>"
  have loop: "T (W esz 0 c p r) (write_loop K fdin fd name False 0 ?v) (\<lambda>x s. \<exists>k' c'. (\<exists>v'. x = (v', False) \<and> \<not> wr_replaced v') \<and>
     laid is_good esz 0 k' c c' (padded esz (p @ r)) \<and> W esz k' c' [] [] s)" for fd
    by (rule W_loop) (use assms in simp_all)
  show ?thesis
    unfolding mtd_write_def split_colon_one [OF assms(6)] write_devs.simps
    apply (rule total_bnd [where R = "\<lambda>x s. \<exists>k' c'. ((\<exists>fd v'. x = (fd, name, v') \<and> \<not> wr_replaced v') \<and>
       laid is_good esz 0 k' c c' (padded esz (p @ r))) \<and> W esz k' c' [] [] s"])
     apply (rule total_bnd [OF W0_check_open [OF assms(1,3)]], rule total_if, rule total_exit, simp)
     subgoal premises q for fd
       apply (rule total_pre [where P = "W esz 0 c p r"])
        apply (simp only: if_False less_irrefl)
        apply (rule total_bnd [OF total_ret [where Q = "\<lambda>_. W esz 0 c p r"]], simp)
        apply (rule total_bnd [OF W_flag])
        apply (simp only: wr.simps not_True_eq_False simp_thms)
        apply (rule total_bnd [OF loop])
        apply (intro total_ex total_fact(1))
        apply (elim conjE exE, simp only: prod.case if_False)
        apply (rule total_ret, blast)
       using q apply blast
       done
    apply (intro total_ex total_fact(1))
    apply (elim conjE exE, simp only: prod.case if_False)
    apply (rule total_bnd [OF W_gets(5)], rule total_bnd [OF total_ret [where Q = "\<lambda>_ s. W esz k' c' [] [] s" for k' c']], assumption)
    apply (rule total_bnd [OF W_call], simp_all add: close_fd same)
    apply (rule total_bnd [OF W_flag], rule total_ret)
    apply (auto simp: wstate_def)
    done
qed
end

interpretation simw: flash_writer "sim_kern (\<lambda>off. bad off \<and> off < 128)" sim_info sim_content "\<lambda>off. bad off \<and> off < 128" sim_pos sim_in 0 for bad
proof
  fix fd b k
  let ?K = "sim_kern (\<lambda>off. bad off \<and> off < 128)"
  assume w: "fst (k_write ?K fd b k) = int (length b)" "0 \<le> sim_pos k" "buf_get (nat (sim_pos k)) (length b) (sim_content k) = replicate (length b) 0xFF"
  show "sim_content (snd (k_write ?K fd b k)) = buf_put (nat (sim_pos k)) b (sim_content k) \<and>
      sim_pos (snd (k_write ?K fd b k)) = sim_pos k + int (length b)"
    using w by (auto simp: sim_kern_def sim_program_def and_erased length_buf_put sim_content_def Let_def split: if_splits)
next
  fix n k
  show "\<exists>m. fst (k_read (sim_kern (\<lambda>off. bad off \<and> off < 128)) 0 n k) = Inr (take m (sim_in k)) \<and> m \<le> unat n \<and>
      (sim_in k \<noteq> [] \<longrightarrow> 0 < n \<longrightarrow> 0 < m) \<and> sim_in (snd (k_read (sim_kern (\<lambda>off. bad off \<and> off < 128)) 0 n k)) = drop m (sim_in k) \<and>
      sim_content (snd (k_read (sim_kern (\<lambda>off. bad off \<and> off < 128)) 0 n k)) = sim_content k \<and>
      sim_pos (snd (k_read (sim_kern (\<lambda>off. bad off \<and> off < 128)) 0 n k)) = sim_pos k"
    by (intro exI [of _ "unat n"]) (auto simp: sim_kern_def sim_content_def unat_gt_0)
qed (auto simp: sim_kern_def sim_program_def sim_content_def sim_info_def Let_def split: if_splits)

text \<open>
  C7. Writing an image to one device returns, without an access outside of the buffer. When it returns 0, the whole
  image has been read, and the device holds it, padded with \<open>0xff\<close> to a whole block, in its good blocks from
  the first one on, in order; the contents of bad blocks and of all that follows are as before.
\<close>

theorem mtd_write_lays_image:
  assumes "flash_writer K info content bad pos rest imagefd" "unat (info_erasesize info) = esz" "0 < esz" "esz < 2 ^ 31"
    and "esz dvd length (content (kst s))" "pos (kst s) = 0" "mtd_buf s = Some b" "length b = esz" "take (length p) b = p" "length p \<le> esz"
    and "buflen s = int (length p)" "jffs2file s = None" "\<not> no_erase s" "tpl_uboot_args_part s = None" "CHR '':'' \<notin> set name"
  shows "\<exists>t. mtd_write K tg imagefd name 0 s = Some (Exit, t) \<or>
    mtd_write K tg imagefd name 0 s = Some (Done 0, t) \<and> rest (kst t) = [] \<and>
    (\<exists>k. laid (\<lambda>i. \<not> (uint (info_type info) = MTD_NANDFLASH \<and> bad (int i))) esz 0 k (content (kst s)) (content (kst t))
       (padded esz (p @ rest (kst s))))"
proof -
  have "flash_device K info content bad" using assms(1) by (rule flash_writer.axioms)
  from flash_device.content_size [OF this] have c: "length (content (kst s)) < 2 ^ 31"
    by (metis of_nat_less_numeral_power_cancel_iff)
  have "wstate content pos rest info esz 0 (content (kst s)) p (rest (kst s)) (s\<lparr>erasesize := int esz, mtdtype := uint (info_type info)\<rparr>)"
    using assms by (simp add: wstate_def)
  from totalD [OF flash_writer.W_mtd_write [OF assms(1-5) c assms(15), of p "rest (kst s)"] this]
  show ?thesis by blast
qed

text \<open>Block 0 is bad; an image of three bytes, one of which is in the buffer already, goes to block 1.\<close>

definition write_state :: "int \<Rightarrow> bytes \<Rightarrow> bytes \<Rightarrow> bytes \<Rightarrow> int \<Rightarrow> sim mtd_state" where
  "write_state q d img b n = (sim_state d img)\<lparr>kst := \<lparr>sim_data = d, sim_pos = q, sim_in = img\<rparr>,
     mtdsize := 128, erasesize := 32, mtdtype := 4, mtd_buf := Some b, buflen := n\<rparr>"

lemma sim_write_steps:
  fixes d :: bytes
  assumes "length d = 128"
  defines "K \<equiv> sim_kern (\<lambda>off. off = 0 \<and> off < 128)" and "b1 \<equiv> [1, 2, 3] @ replicate 29 0" and "b2 \<equiv> [1, 2, 3] @ replicate 29 0xFF"
  shows "read_image K 0 31 (write_state q d [2, 3] (1 # replicate 31 0) 1) = Some (Done (Inr 2), write_state q d [] b1 3)"
    "read_image K 0 29 (write_state q d [] b1 3) = Some (Done (Inr 0), write_state q d [] b1 3)"
    "read_image K 0 32 (write_state q d [] b2 0) = Some (Done (Inr 0), write_state q d [] b2 0)"
    "pad_image (write_state q d [] b1 3) = Some (Done (), write_state q d [] b2 32)"
    "load_image 0 32 (write_state q d [] b2 32) = Some (Done b2, write_state q d [] b2 32)"
    "mtd_block_is_bad K 3 0 (write_state q d [] b2 32) = Some (Done 1, write_state q d [] b2 32)"
    "mtd_block_is_bad K 3 32 (write_state q d [] b2 32) = Some (Done 0, write_state q d [] b2 32)"
    "mtd_erase_block K 3 32 (write_state q d [] b2 32) = Some (Done 0, write_state q (memset 32 0xFF 32 d) [] b2 32)"
    "replace_or_parse K 3 ''firmware'' v (write_state q d [] b2 32) = Some (Done None, write_state q d [] b2 32)"
    "bnd (call (k_lseek_cur K 3 32)) f (write_state q d [] b2 32) = f () (write_state (q + 32) d [] b2 32)"
  using assms(1) by (simp_all add: K_def b1_def b2_def write_state_def sim_state_def read_image_def bnd_call store_def ret_def buf_put_def
      pad_image_def load_image_def load_def buf_get_def mtd_block_is_bad_def MTD_NANDFLASH_def mtd_erase_block_def replace_or_parse_def
      sim_content_def puts_def)

lemma write_state_simps [simp]:
  "buflen (write_state q d img b n) = n" "erasesize (write_state q d img b n) = 32" "no_erase (write_state q d img b n) = False"
  "tpl_uboot_args_part (write_state q d img b n) = None" "imageformat (write_state q d img b n) = MTD_IMAGE_FORMAT_UNKNOWN"
  "write_state q d img b n\<lparr>buflen := m\<rparr> = write_state q d img b m"
  "write_state q d img b n\<lparr>mtdsize := 128, erasesize := 32, mtdtype := 4\<rparr> = write_state q d img b n"
  "kst (write_state q d img b n) = \<lparr>sim_data = d, sim_pos = q, sim_in = img\<rparr>"
  by (simp_all add: write_state_def sim_state_def)

lemma sim_write_run:
  fixes d :: bytes
  assumes "length d = 128"
  defines "K \<equiv> sim_kern (\<lambda>off. off = 0 \<and> off < 128)"
  shows "\<exists>t. mtd_write K no_target 0 ''firmware'' 0 (write_state 0 d [2, 3] (1 # replicate 31 0) 1) = Some (Done 0, t)"
proof -
  define b1 b2 where b: "b1 = [1, 2, 3] @ replicate 29 (0 :: u8)" "b2 = [1, 2, 3] @ replicate 29 (0xFF :: u8)"
  note S = sim_write_steps [OF assms(1), folded K_def b]
  let ?s = "write_state 0 d [2, 3] (1 # replicate 31 0) 1" and ?m = "memset 32 0xFF 32 d"
  have m: "length ?m = 128" using assms(1) by (simp add: length_memset)
  note S' = sim_write_steps [OF m, folded K_def b]
  have f1: "fill_buf K 0 ?s = Some (Done (), write_state 0 d [] b1 3)"
    by (subst fill_buf.simps, simp add: bnd_Done [of "read_image K 0 31", OF S(1)],
        subst fill_buf.simps, simp add: bnd_Done [of "read_image K 0 29", OF S(2)] ret_def)
  have f2: "fill_buf K 0 (write_state q x [] b2 0) = Some (Done (), write_state q x [] b2 0)" if "length x = 128" for q x
    by (subst fill_buf.simps, simp add: bnd_Done [of "read_image K 0 32", OF sim_write_steps(3) [OF that, folded K_def b]] ret_def)
  let ?v = "\<lparr>wr_w = 0, wr_e = 0, wr_skip = 0, wr_offset = 0, wr_replaced = False, wr_skip_bad = 0\<rparr>"
  have i: "to_int 0 = 0" "to_int 32 = 32" by (simp_all add: to_int_def)
  have e: "erase_ahead K 3 False 0 ?v (write_state 0 d [] b2 32) =
      Some (Done (?v\<lparr>wr_e := 64, wr_skip_bad := 32\<rparr>, False), write_state 32 ?m [] b2 32)"
    apply (subst erase_ahead.simps, simp add: i bnd_Done [of "mtd_block_is_bad K 3 0", OF S(6)] S(10))
    apply (subst erase_ahead.simps, simp add: i bnd_Done [of "mtd_block_is_bad K 3 32", OF S(7)] bnd_Done [of "mtd_erase_block K 3 32", OF S(8)])
    apply (subst erase_ahead.simps, simp add: ret_def)
    done
  have w: "bnd (call (k_write K 3 b2)) f (write_state 32 ?m [] b2 32) = f 32 (write_state 64 (buf_put 32 b2 ?m) [] b2 32)" for f
  proof -
    have "buf_get 32 32 ?m = replicate 32 0xFF" using m assms(1) by (simp add: memset_def buf_get_put_same)
    then have "map2 (AND) (buf_get 32 32 (sim_content \<lparr>sim_data = ?m, sim_pos = 32, sim_in = []\<rparr>)) b2 = b2"
      using m and_erased [of b2] by (simp add: sim_content_def b(2))
    then show ?thesis using m by (simp add: bnd_call K_def sim_program_def sim_content_def write_state_def sim_state_def b(2))
  qed
  have n: "length (buf_put 32 b2 ?m) = 128" using m by (simp add: length_buf_put b(2))
  have l: "write_loop K 0 3 ''firmware'' False 0 ?v ?s =
     Some (Done (?v\<lparr>wr_w := 32, wr_e := 64, wr_skip_bad := 32\<rparr>, False), write_state 64 (buf_put 32 b2 ?m) [] b2 0)"
    apply (subst write_loop.simps, simp add: bnd_Done [of "fill_buf K 0", OF f1] bnd_Done [of "pad_image", OF S(4)]
        bnd_Done [of "replace_or_parse K 3 ''firmware'' ?v", OF S(9)] bnd_Done [of "erase_ahead K 3 False 0 ?v", OF e]
        bnd_Done [of "load_image 0 32", OF S'(5)] w)
    apply (subst write_loop.simps, simp add: bnd_Done [of "fill_buf K 0", OF f2 [OF n]] ret_def)
    done
  have flag: "recovery_flag no_target x (write_state q d' img b n) = Some (Done (), write_state q d' img b n)" for x q d' img b n
    by (simp add: recovery_flag_def ret_def)
  have sp: "split_colon ''firmware'' = [''firmware'']" by code_simp
  have o: "bnd (mtd_check_open K ''firmware'') f ?s = f 3 ?s" for f
    unfolding K_def by (simp add: bnd_Done [OF sim_check_open])
  have "write_devs K no_target 0 0 [''firmware''] ?v ?s = Some (Done (3, ''firmware'', ?v\<lparr>wr_w := 32, wr_e := 64, wr_skip_bad := 32\<rparr>),
      write_state 64 (buf_put 32 b2 ?m) [] b2 0)"
    by (simp add: o bnd_Done [of "recovery_flag no_target True", OF flag] bnd_Done [of "write_loop K 0 3 ''firmware'' False 0 ?v", OF l] ret_def)
  note d = bnd_Done [of "write_devs K no_target 0 0 [''firmware''] ?v", OF this]
  have c: "bnd (call (k_close K 3)) f s = f () s" for f s by (simp add: K_def bnd_call)
  show ?thesis
    unfolding mtd_write_def sp d by (simp add: c ret_def bnd_Done [of "recovery_flag no_target False", OF flag])
qed

theorem mtd_write_lays_image_witness:
  "\<exists>t k. mtd_write (sim_kern (\<lambda>off. off = 0 \<and> off < 128)) no_target 0 ''firmware'' 0
      (write_state 0 (replicate 128 0x11) [2, 3] (1 # replicate 31 0) 1) = Some (Done 0, t) \<and> sim_in (kst t) = [] \<and>
    laid (\<lambda>i. \<not> int i = 0) 32 0 k (replicate 128 0x11) (sim_content (kst t)) ([1, 2, 3] @ replicate 29 0xFF)"
proof -
  let ?K = "sim_kern (\<lambda>off. off = 0 \<and> off < 128)" and ?s = "write_state 0 (replicate 128 0x11) [2, 3] (1 # replicate 31 0) 1"
  have c: "sim_content (kst ?s) = replicate 128 0x11" by (simp add: sim_content_def)
  have g: "(\<lambda>i. \<not> (uint (info_type sim_info) = MTD_NANDFLASH \<and> (int i = 0 \<and> int i < 128))) = (\<lambda>i. \<not> int i = 0)"
    by (auto simp: sim_info_def MTD_NANDFLASH_def)
  have p: "padded 32 ([1] @ sim_in (kst ?s)) = [1, 2, 3] @ replicate 29 0xFF" by (simp add: padded_def)
  obtain t where t: "mtd_write ?K no_target 0 ''firmware'' 0 ?s = Some (Done 0, t)" using sim_write_run [of "replicate 128 0x11"] by auto
  have "\<exists>t. mtd_write ?K no_target 0 ''firmware'' 0 ?s = Some (Exit, t) \<or>
     mtd_write ?K no_target 0 ''firmware'' 0 ?s = Some (Done 0, t) \<and> sim_in (kst t) = [] \<and>
     (\<exists>k. laid (\<lambda>i. \<not> (uint (info_type sim_info) = MTD_NANDFLASH \<and> (int i = 0 \<and> int i < 128))) 32 0 k
       (sim_content (kst ?s)) (sim_content (kst t)) (padded 32 ([1] @ sim_in (kst ?s))))"
    by (rule mtd_write_lays_image [OF simw.flash_writer_axioms])
      (simp_all add: c, simp_all add: sim_info_def write_state_def sim_state_def, simp_all)
  then show ?thesis unfolding g p c t by auto
qed

end
