(* ===== verification/Util_Commands.thy ===== *)
theory Util_Commands
  imports Util_Write_Image
begin

text \<open>
  Verifying a device against a file, and the options of the command line.
\<close>

section \<open>Verifying\<close>

text \<open>
  A read returns a part of the device at the offset \<open>pos\<close> and moves it, nothing only at the end; a failed read does not
  move it. Descriptor 0 is the standard input.
\<close>

locale flash_reader = flash_device K info content bad
  for K :: "'k kern" and info and content :: "'k \<Rightarrow> bytes" and bad +
  fixes pos :: "'k \<Rightarrow> int"
  assumes pos_same: "pos (snd (k_proc_mtd K k)) = pos k" "pos (snd (k_getinfo K fd k)) = pos k" "pos (snd (k_close K fd k)) = pos k"
      "pos k = 0 \<Longrightarrow> pos (snd (k_open K p k)) = 0"
    and stat_same: "content (snd (k_stat K name k)) = content k" "pos (snd (k_stat K name k)) = pos k"
    and open_fd: "fst (k_open K p k) \<noteq> 0"
    and read_dev: "fd \<noteq> 0 \<Longrightarrow> fst (k_read K fd n k) = Inr b \<Longrightarrow> b = buf_get (nat (pos k)) (length b) (content k) \<and> length b \<le> unat n \<and>
       (b = [] \<longrightarrow> 0 < n \<longrightarrow> length (content k) \<le> nat (pos k)) \<and> pos (snd (k_read K fd n k)) = pos k + int (length b)"
      "fd \<noteq> 0 \<Longrightarrow> fst (k_read K fd n k) = Inl e \<Longrightarrow> pos (snd (k_read K fd n k)) = pos k"
      "content (snd (k_read K fd n k)) = content k"

text \<open>Reads fail with another error than that they were interrupted.\<close>

definition reads_fail :: "'k kern \<Rightarrow> bool" where
  "reads_fail K \<longleftrightarrow> (\<exists>fd n k e. fst (k_read K fd n k) = Inl e \<and> e \<noteq> EINTR)"

definition calls_fail :: "'k kern \<Rightarrow> ('k, 'c) ubox_md5 \<Rightarrow> string \<Rightarrow> bool" where
  "calls_fail K U name \<longleftrightarrow> reads_fail K \<or> (\<exists>k. fst (k_stat K name k) = None) \<or> (\<exists>k. fst (md5sum U name k) = None) \<or>
     (\<exists>p k. fst (k_open K p k) < 0) \<or> (\<exists>fd k. fst (k_getinfo K fd k) = None)"

text \<open>MD5 of pieces handed over one by one is that of the whole.\<close>

definition streams :: "('k, 'c) ubox_md5 \<Rightarrow> bool" where
  "streams U \<longleftrightarrow> (\<forall>x y c. md5_hash U y (md5_hash U x c) = md5_hash U (x @ y) c) \<and> (\<forall>c. md5_hash U [] c = c)"

lemma buf_get_split: "length b \<le> n \<Longrightarrow> b = buf_get q (length b) c \<Longrightarrow> buf_get q n c = b @ buf_get (q + length b) (n - length b) c"
proof -
  assume a: "length b \<le> n" "b = buf_get q (length b) c"
  have "buf_get q n c = take (length b) (drop q c) @ take (n - length b) (drop (length b) (drop q c))"
    using a(1) by (metis buf_get_def le_add_diff_inverse take_add)
  also have "take (length b) (drop q c) = b" using a(2) by (simp add: buf_get_def)
  finally show ?thesis by (simp add: buf_get_def add.commute)
qed

context flash_reader begin

lemma verify_data_result:
  assumes U: "streams U" and "verify_data K' U' fd count ctx s = Some y"
  shows "K' = K \<longrightarrow> U' = U \<longrightarrow> fd \<noteq> 0 \<longrightarrow> (\<forall>n a t. y = (Done a, t) \<longrightarrow> count = int n \<longrightarrow> n < 2 ^ 64 \<longrightarrow> 0 \<le> pos (kst s) \<longrightarrow> (case a of
     Inl e \<Rightarrow> e \<noteq> 0 \<and> reads_fail K
   | Inr ctx' \<Rightarrow> ctx' = md5_hash U (buf_get (nat (pos (kst s))) n (content (kst s))) ctx))"
proof (rule verify_data.raw_induct [OF _ assms(2)], goal_cases)
  case (1 f K' U' fd count ctx s y)
  show ?case
  proof (intro impI allI)
    fix n a t
    assume e0: "fd \<noteq> 0" and e: "K' = K" "U' = U" "y = (Done a, t)" "count = int n" "n < 2 ^ 64" "0 \<le> pos (kst s)"
    define w :: u64 where "w = of_int (if count > 256 then 256 else count)"
    let ?r = "fst (k_read K fd w (kst s))" and ?s = "s\<lparr>kst := snd (k_read K fd w (kst s))\<rparr>"
    let ?Q = "case a of Inl e \<Rightarrow> e \<noteq> 0 \<and> reads_fail K
      | Inr ctx' \<Rightarrow> ctx' = md5_hash U (buf_get (nat (pos (kst s))) n (content (kst s))) ctx"
    note run = 1(2) [unfolded e(1,2) bnd_call w_def [symmetric]]
    have nil: "md5_hash U [] c = c" for c using U by (simp add: streams_def)
    show ?Q
    proof (cases ?r)
      case (Inl x)
      have same: "pos (kst ?s) = pos (kst s)" "content (kst ?s) = content (kst s)" using read_dev(2) [OF e0 Inl] read_dev(3) by simp_all
      consider "x \<noteq> EINTR" | "x = EINTR" "0 < n" | "x = EINTR" "n = 0" by blast
      then show ?thesis
      proof cases
        case 1
        then have "reads_fail K" using Inl by (auto simp: reads_fail_def)
        then show ?thesis using run Inl 1 by (auto simp: ret_def e(3))
      next
        case 2
        with run Inl have "f K U fd count ctx ?s = Some y" by (simp add: e(4))
        from 1(1) [OF this] show ?thesis using e e0 same by (auto split: sum.splits)
      next
        case 3
        then show ?thesis using run Inl by (auto simp: ret_def e(3,4) nil buf_get_def)
      qed
    next
      case (Inr b)
      let ?q = "nat (pos (kst s))"
      have b: "b = buf_get ?q (length b) (content (kst s))" "length b \<le> unat w"
        "b = [] \<longrightarrow> 0 < w \<longrightarrow> length (content (kst s)) \<le> ?q" "pos (kst ?s) = pos (kst s) + int (length b)"
        "content (kst ?s) = content (kst s)"
        using read_dev(1) [OF e0 Inr] read_dev(3) by simp_all
      have w: "unat w = min 256 n" unfolding w_def e(4) using e(5) by (auto simp: unat_of_nat_small min_def)
      show ?thesis
      proof (cases "b = []")
        case True
        then have "buf_get ?q n (content (kst s)) = []" using b(3) w by (cases n) (auto simp: buf_get_def word_less_nat_alt)
        then show ?thesis using run Inr True by (auto simp: ret_def e(3) nil)
      next
        case False
        have le: "length b \<le> n" using b(2) w by simp
        note split = buf_get_split [OF le b(1)]
        show ?thesis
        proof (cases "length b < n")
          case True
          with run Inr False have r: "f K U fd (count - int (length b)) (md5_hash U b ctx) ?s = Some y" by (simp add: e(4) Let_def)
          have n': "count - int (length b) = int (n - length b)" "n - length b < 2 ^ 64" using le e(4,5) by simp_all
          have q: "nat (pos (kst ?s)) = ?q + length b" "0 \<le> pos (kst ?s)" using e(6) b(4) by simp_all
          have h: "md5_hash U (buf_get (?q + length b) (n - length b) (content (kst s))) (md5_hash U b ctx) =
              md5_hash U (buf_get ?q n (content (kst s))) ctx"
            using U unfolding split streams_def by blast
          have "case a of Inl e \<Rightarrow> e \<noteq> 0 \<and> reads_fail K
              | Inr ctx' \<Rightarrow> ctx' = md5_hash U (buf_get (nat (pos (kst ?s))) (n - length b) (content (kst ?s))) (md5_hash U b ctx)"
            using 1(1) [OF r] e0 e(1,2,3) n' q(2) by blast
          then show ?thesis unfolding q(1) b(5) h .
        next
          case False
          then have "a = Inr (md5_hash U b ctx)" using run Inr \<open>b \<noteq> []\<close> by (simp add: ret_def e(3,4) Let_def)
          moreover have "buf_get ?q n (content (kst s)) = b" using False le b(1) by simp
          ultimately show ?thesis by simp
        qed
      qed
    qed
  qed
qed

abbreviation V :: "bytes \<Rightarrow> 'k mtd_state \<Rightarrow> bool" where
  "V c s \<equiv> content (kst s) = c \<and> pos (kst s) = 0"

lemma V_check_open: "valid (V c) (mtd_check_open K mtd) (\<lambda>fd s. (fd \<noteq> 0 \<and> (fd < 0 \<longrightarrow> calls_fail K U name)) \<and> V c s)"
proof -
  have o: "valid (V c) (call (k_open K x)) (\<lambda>fd s. (fd \<noteq> 0 \<and> (fd < 0 \<longrightarrow> calls_fail K U name)) \<and> V c s)" for x
    by (rule valid_call) (auto simp: open_path pos_same open_fd calls_fail_def)
  have m: "valid (V c) (call (k_proc_mtd K)) (\<lambda>_. V c)" by (rule valid_call) (simp add: proc_mtd pos_same)
  have g: "valid (V c) (call (k_getinfo K fd)) (\<lambda>r s. (r = None \<longrightarrow> calls_fail K U name) \<and> V c s)" for fd
    by (rule valid_call) (auto simp: getinfo pos_same calls_fail_def)
  have cl: "valid (V c) (call (k_close K fd)) (\<lambda>_. V c)" for fd by (rule valid_call) (simp add: close_fd pos_same)
  have op: "valid (V c) (mtd_open K x b) (\<lambda>fd s. (fd \<noteq> 0 \<and> (fd < 0 \<longrightarrow> calls_fail K U name)) \<and> V c s)" for x b
    unfolding mtd_open_def Let_def
    by (intro valid_bnd [OF m] valid_option valid_if valid_bnd [OF o] o valid_fact(1) valid_ret, simp)
  show ?thesis
    unfolding mtd_check_open_def
    apply (intro valid_bnd [OF op] valid_fact(1) valid_if valid_ret, simp)
    apply (intro valid_bnd [OF g] valid_fact(1) valid_option)
     apply (intro valid_bnd [OF cl] valid_ret, simp)
    apply (intro valid_bnd [OF valid_puts [where Q = "\<lambda>_. V c"]] valid_ret)
     apply simp_all
    done
qed

lemma memcmp_bytes_0: "length a = length b \<Longrightarrow> (memcmp_bytes a b = 0) = (a = b)"
  by (induction a b rule: memcmp_bytes.induct) (auto simp: word_uint_eq_iff)

lemma V_verify:
  assumes U: "streams U" and stat: "\<And>k st. fst (k_stat K name k) = Some st \<Longrightarrow> unat (st_size st) = length (file_bytes k)"
      "\<And>k. file_bytes (snd (k_stat K name k)) = file_bytes k"
    and sum: "\<And>k. content (snd (md5sum U name k)) = content k" "\<And>k. pos (snd (md5sum U name k)) = pos k"
      "\<And>k m. fst (md5sum U name k) = Some m \<Longrightarrow> m = md5_end U (md5_hash U (file_bytes k) (md5_begin U))"
    and len: "\<And>x y. length (md5_end U x) = length (md5_end U y)"
  shows "valid (\<lambda>s. V c s \<and> file_bytes (kst s) = f) (mtd_verify K U mtd name) (\<lambda>r _.
     if md5_end U (md5_hash U f (md5_begin U)) = md5_end U (md5_hash U (buf_get 0 (length f) c) (md5_begin U))
     then r = 0 \<or> calls_fail K U name else r \<noteq> 0)" (is "valid _ _ (\<lambda>r _. ?Q r)")
proof -
  let ?d = "md5_end U (md5_hash U f (md5_begin U))"
  have fails: "?Q (-1)" if "calls_fail K U name" using that by simp
  have cmp: "(memcmp_bytes ?d (md5_end U x) = 0) = (?d = md5_end U x)" for x
    by (rule memcmp_bytes_0) (rule len)
  have st: "valid (\<lambda>s. V c s \<and> file_bytes (kst s) = f) (call (k_stat K name)) (\<lambda>r s. (r = None \<longrightarrow> calls_fail K U name) \<and>
      (\<forall>x. r = Some x \<longrightarrow> unat (st_size x) = length f) \<and> V c s \<and> file_bytes (kst s) = f)"
    by (rule valid_call) (auto simp: stat_same calls_fail_def stat)
  have sm: "valid (\<lambda>s. V c s \<and> file_bytes (kst s) = f) (call (md5sum U name)) (\<lambda>r s. (r = None \<longrightarrow> calls_fail K U name) \<and>
      (\<forall>m. r = Some m \<longrightarrow> m = ?d) \<and> V c s)"
    by (rule valid_call) (use sum in \<open>auto simp: calls_fail_def\<close>)
  have data: "valid (V c) (verify_data K U fd (uint n) (md5_begin U)) (\<lambda>r _. case r of Inl e \<Rightarrow> e \<noteq> 0 \<and> reads_fail K
      | Inr ctx \<Rightarrow> ctx = md5_hash U (buf_get 0 (unat n) c) (md5_begin U))" if "fd \<noteq> 0" for fd and n :: u64
  proof (rule validI)
    fix s a t
    assume h: "V c s" "verify_data K U fd (uint n) (md5_begin U) s = Some (Done a, t)"
    have "unat n < 2 ^ 64" by (rule order_less_le_trans [OF unsigned_less]) simp
    moreover have "uint n = int (unat n)" by (rule uint_nat)
    moreover have "0 \<le> pos (kst s)" using h(1) by simp
    ultimately have "case a of Inl e \<Rightarrow> e \<noteq> 0 \<and> reads_fail K
      | Inr ctx \<Rightarrow> ctx = md5_hash U (buf_get (nat (pos (kst s))) (unat n) (content (kst s))) (md5_begin U)"
      using verify_data_result [OF U h(2)] that by blast
    moreover have "nat (pos (kst s)) = 0" "content (kst s) = c" using h(1) by simp_all
    ultimately show "case a of Inl e \<Rightarrow> e \<noteq> 0 \<and> reads_fail K
      | Inr ctx \<Rightarrow> ctx = md5_hash U (buf_get 0 (unat n) c) (md5_begin U)" by (simp only:)
  qed
  show ?thesis
    unfolding mtd_verify_def Let_def
    apply (intro valid_bnd [OF st] valid_fact(1) valid_option valid_bnd [OF sm] valid_bnd [OF V_check_open [of _ _ U name]] valid_if)
    subgoal by (rule valid_ret) (use fails in simp)
    subgoal by (rule valid_ret) (use fails in simp)
    subgoal by (rule valid_ret) (use fails in simp)
    subgoal premises q for r x r' m fd
    proof -
      have e: "m = ?d" "unat (st_size x) = length f" "fd \<noteq> 0" using q by simp_all
      show ?thesis unfolding e(1)
        apply (rule valid_bnd [OF data [of fd "st_size x", unfolded e(2)]], rule e(3))
        apply (rule valid_bnd [OF valid_call [where Q = "\<lambda>_ _. case r of Inl e \<Rightarrow> e \<noteq> 0 \<and> reads_fail K
            | Inr ctx \<Rightarrow> ctx = md5_hash U (buf_get 0 (length f) c) (md5_begin U)" for r]], assumption)
        apply (rule valid_sum; rule valid_ret)
         apply (simp add: calls_fail_def)
        subgoal for a _ ctx using cmp [of ctx] by auto
        done
    qed
    done
qed
end

interpretation simr: flash_reader "sim_kern bad" sim_info sim_content bad sim_pos for bad
proof
  fix fd n k b
  assume fd: "fd \<noteq> 0" and r: "fst (k_read (sim_kern bad) fd n k) = Inr b"
  let ?c = "sim_content k" and ?q = "nat (sim_pos k)"
  have b: "b = buf_get ?q (unat n) ?c" using fd r by (simp add: Let_def)
  have "take (length (take m xs)) xs = take m xs" for m and xs :: bytes by (simp add: min_def)
  then have g: "b = buf_get ?q (length b) ?c" unfolding b buf_get_def by metis
  have e: "b = [] \<longrightarrow> 0 < n \<longrightarrow> length ?c \<le> ?q" unfolding b by (auto simp: buf_get_def word_less_nat_alt)
  have "sim_pos (snd (k_read (sim_kern bad) fd n k)) = sim_pos k + int (length b)" unfolding b using fd by (simp add: Let_def)
  moreover have "length b \<le> unat n" unfolding b by simp
  ultimately show "b = buf_get ?q (length b) ?c \<and> length b \<le> unat n \<and> (b = [] \<longrightarrow> 0 < n \<longrightarrow> length ?c \<le> ?q) \<and>
      sim_pos (snd (k_read (sim_kern bad) fd n k)) = sim_pos k + int (length b)"
    using g e by blast
qed (simp_all add: Let_def sim_content_def)

text \<open>
  C36. Verification of a device compares the digest of the file with that of as many bytes from the start of the device as
  the file has, those in bad blocks included: it returns 0 only if they are equal, and if they are, it
  returns 0 unless a system call fails.
\<close>

theorem mtd_verify_digest:
  assumes "flash_reader K info content bad pos" "streams U" "\<And>k st. fst (k_stat K name k) = Some st \<Longrightarrow> unat (st_size st) = length (file_bytes k)"
    and "\<And>k. file_bytes (snd (k_stat K name k)) = file_bytes k"
    and "\<And>k. content (snd (md5sum U name k)) = content k" "\<And>k. pos (snd (md5sum U name k)) = pos k"
    and "\<And>k m. fst (md5sum U name k) = Some m \<Longrightarrow> m = md5_end U (md5_hash U (file_bytes k) (md5_begin U))"
    and "\<And>x y. length (md5_end U x) = length (md5_end U y)"
    and "pos (kst s) = 0" "f = file_bytes (kst s)" "mtd_verify K U mtd name s = Some (Done r, t)"
  shows "if md5_end U (md5_hash U f (md5_begin U)) = md5_end U (md5_hash U (take (length f) (content (kst s))) (md5_begin U))
    then r = 0 \<or> calls_fail K U name else r \<noteq> 0"
proof -
  have "valid (\<lambda>s'. (content (kst s') = content (kst s) \<and> pos (kst s') = 0) \<and> file_bytes (kst s') = f) (mtd_verify K U mtd name) (\<lambda>r _.
     if md5_end U (md5_hash U f (md5_begin U)) = md5_end U (md5_hash U (buf_get 0 (length f) (content (kst s))) (md5_begin U))
     then r = 0 \<or> calls_fail K U name else r \<noteq> 0)"
    by (rule flash_reader.V_verify [where K = K and info = info and content = content and bad = bad and pos = pos and U = U and
      file_bytes = file_bytes and name = name, OF assms(1-8)])
  from validD [OF this _ assms(11)] assms(9,10) show ?thesis by (simp add: buf_get_def)
qed

text \<open>A file has less than \<open>2 ^ 64\<close> bytes.\<close>

definition sim_file :: "sim \<Rightarrow> bytes" where
  "sim_file k = take (length (sim_in k) mod 2 ^ 64) (sim_in k)"

definition sim_md5 :: "(sim, bytes) ubox_md5" where
  "sim_md5 = \<lparr>md5sum = (\<lambda>f k. (Some (md5 (sim_file k)), k)), md5_begin = [], md5_hash = (\<lambda>b c. c @ b), md5_end = md5\<rparr>"

lemma sim_verify:
  defines "s \<equiv> sim_state (replicate 128 0x11) (replicate 2 0x11)"
  shows "mtd_verify (sim_kern (\<lambda>_. False)) sim_md5 ''firmware'' ''image'' s =
    Some (Done (memcmp_bytes (md5 (replicate 2 0x11)) (md5 (replicate 2 0x11))), s\<lparr>mtdsize := 128, erasesize := 32, mtdtype := 4, kst := (kst s)\<lparr>sim_pos := 2\<rparr>\<rparr>)"
proof -
  let ?t = "s\<lparr>mtdsize := 128, erasesize := 32, mtdtype := 4\<rparr>" and ?K = "sim_kern (\<lambda>_. False)" and ?x = "replicate 2 0x11 :: bytes"
  have k: "kst s = \<lparr>sim_data = replicate 128 0x11, sim_pos = 0, sim_in = ?x\<rparr>" by (simp add: s_def sim_state_def)
  have u: "s\<lparr>kst := \<lparr>sim_data = replicate 128 0x11, sim_pos = 0, sim_in = ?x\<rparr>\<rparr> = s" by (simp add: s_def sim_state_def)
  have v: "verify_data ?K sim_md5 3 2 [] ?t = Some (Done (Inr ?x), ?t\<lparr>kst := (kst s)\<lparr>sim_pos := 2\<rparr>\<rparr>)"
    by (subst verify_data.simps) (simp add: bnd_call k sim_md5_def ret_def buf_get_def Let_def sim_content_def)
  have st: "bnd (call (k_stat ?K name)) g s = g (Some \<lparr>st_mode = 0x81A4, st_size = 2, st_atime = 1, st_mtime = 2, st_ctime = 3\<rparr>) s" for g name
    by (simp add: bnd_call k u)
  have sm: "bnd (call (md5sum sim_md5 name)) g s = g (Some (md5 ?x)) s" for g name
    by (simp add: bnd_call k u sim_md5_def sim_file_def)
  have e: "md5_begin sim_md5 = []" "md5_end sim_md5 = md5" by (simp_all add: sim_md5_def)
  show ?thesis
    unfolding mtd_verify_def st sm option.case bnd_Done [OF sim_check_open]
    by (simp add: e bnd_Done [of "verify_data ?K sim_md5 3 2 []" ?t, OF v] bnd_call ret_def)
qed

lemma sim_calls_fail: "\<not> calls_fail (sim_kern bad) sim_md5 name"
  by (auto simp: calls_fail_def reads_fail_def sim_md5_def Let_def split: if_splits)

theorem mtd_verify_digest_witness:
  "\<exists>t. mtd_verify (sim_kern (\<lambda>_. False)) sim_md5 ''firmware'' ''image'' (sim_state (replicate 128 0x11) (replicate 2 0x11)) = Some (Done 0, t)"
proof -
  let ?K = "sim_kern (\<lambda>_. False)" and ?s = "sim_state (replicate 128 0x11) (replicate 2 0x11)"
  have st: "streams sim_md5" by (simp add: streams_def sim_md5_def)
  have f: "fst (k_stat ?K ''image'' k) = Some x \<Longrightarrow> unat (st_size x) = length (sim_file k)" for k x
    by (auto simp: sim_file_def unat_of_nat min_def)
  have fs: "sim_file (snd (k_stat ?K ''image'' k)) = sim_file k" for k by simp
  have m: "sim_content (snd (md5sum sim_md5 ''image'' k)) = sim_content k" "sim_pos (snd (md5sum sim_md5 ''image'' k)) = sim_pos k"
    "fst (md5sum sim_md5 ''image'' k) = Some m \<Longrightarrow> m = md5_end sim_md5 (md5_hash sim_md5 (sim_file k) (md5_begin sim_md5))" for k m
    by (simp_all add: sim_md5_def)
  have l: "length (md5_end sim_md5 x) = length (md5_end sim_md5 y)" for x y by (simp add: sim_md5_def md5_def split: prod.split)
  have p: "sim_pos (kst ?s) = 0" "replicate 2 0x11 = sim_file (kst ?s)" "take (length (replicate 2 0x11)) (sim_content (kst ?s)) = replicate 2 0x11"
    by (simp_all add: sim_state_def sim_file_def sim_content_def)
  note v = mtd_verify_digest [OF simr.flash_reader_axioms st f fs m l p(1,2) sim_verify]
  have "memcmp_bytes (md5 (replicate 2 0x11)) (md5 (replicate 2 0x11)) = 0"
    using v sim_calls_fail unfolding p(3) by simp
  then show ?thesis using sim_verify by auto
qed

section \<open>Devices to erase first\<close>

lemma main_opts_append:
  "length (cl_erase c) + length ds < MAX_ARGS \<Longrightarrow> main_opts (map Opt_e ds) c s = Some (Done (c\<lparr>cl_erase := cl_erase c @ ds\<rparr>), s)"
  by (induction ds arbitrary: c) (simp_all add: ret_def bnd_Done [where m = "main_opt x c" for x c] Let_def)

lemma main_opts_full:
  "length (cl_erase c) < MAX_ARGS \<Longrightarrow> MAX_ARGS \<le> length (cl_erase c) + length ds \<Longrightarrow> main_opts (map Opt_e ds) c s = Some (Fault, s)"
proof (induction ds arbitrary: c)
  case (Cons d ds)
  show ?case
  proof (cases "length (cl_erase c) + 1 < MAX_ARGS")
    case True
    then show ?thesis using Cons.IH [of "c\<lparr>cl_erase := cl_erase c @ [d]\<rparr>"] Cons.prems by (simp add: ret_def Let_def)
  next
    case False
    then show ?thesis using Cons.prems by (simp add: Let_def min_def fault_def MAX_ARGS_def)
  qed
qed simp

text \<open>
  C37. The devices given with \<open>-e\<close> are erased in their order when there are up to seven; the eighth one makes the
  tool write the end mark behind its array.
\<close>

theorem erase_options:
  "main_opts (map Opt_e ds) \<lparr>cl_force = f, cl_boot = b, cl_erase = [], cl_offset = off, cl_data_size = n, cl_part_offset = p, cl_dump_len = l\<rparr> s =
     Some (if length ds < MAX_ARGS
       then Done \<lparr>cl_force = f, cl_boot = b, cl_erase = ds, cl_offset = off, cl_data_size = n, cl_part_offset = p, cl_dump_len = l\<rparr>
       else Fault, s)"
  by (auto simp: main_opts_append MAX_ARGS_def intro!: main_opts_full)

end
