(* ===== verification/Util_Imagetag.thy ===== *)
theory Util_Imagetag
  imports Util_Fix
begin

text \<open>
  The check and the repair of Broadcom image tags (\<open>imagetag.c\<close>), which take the place of \<open>trx.c\<close> on one target.
  Fields of a tag are given by their offsets; lengths in it are decimal numbers as text.
\<close>

section \<open>The code\<close>

definition CRC_START :: u32 where "CRC_START = 0xFFFFFFFF"
definition IMAGE_LEN :: nat where "IMAGE_LEN = 10"

definition off_total_length :: nat where "off_total_length = 62"
definition off_cfe_length :: nat where "off_cfe_length = 84"
definition off_root_length :: nat where "off_root_length = 106"
definition off_kernel_length :: nat where "off_kernel_length = 128"
definition off_fskernel_crc :: nat where "off_fskernel_crc = 196"
definition off_image_crc :: nat where "off_image_crc = 216"
definition off_rootfs_crc :: nat where "off_rootfs_crc = 220"
definition off_kernel_crc :: nat where "off_kernel_crc = 224"
definition off_header_crc :: nat where "off_header_crc = 236"
definition sizeof_bcm_tag :: nat where "sizeof_bcm_tag = 256"

text \<open>
  \<open>strtoul\<close> with base 10: white space, a sign, and digits; the largest number when the value is larger. \<open>strncpy\<close> stops at a
  null byte and fills up with null bytes.
\<close>

definition is_space :: "u8 \<Rightarrow> bool" where
  "is_space b \<longleftrightarrow> b = 0x20 \<or> 9 \<le> b \<and> b \<le> 13"

fun digits :: "nat \<Rightarrow> bytes \<Rightarrow> nat" where
  "digits acc [] = acc"
| "digits acc (b # bs) = (if 0x30 \<le> b \<and> b \<le> 0x39 then digits (10 * acc + unat (b - 0x30)) bs else acc)"

definition strtoul10 :: "bytes \<Rightarrow> u64" where
  "strtoul10 s =
     (let s = dropWhile is_space s;
          neg = (s \<noteq> [] \<and> hd s = 0x2D);
          s = (if s \<noteq> [] \<and> (hd s = 0x2D \<or> hd s = 0x2B) then tl s else s);
          n = digits 0 s in
      if n \<ge> 2 ^ 64 then - 1 else if neg then - of_nat n else of_nat n)"

definition c_string :: "bytes \<Rightarrow> bytes" where
  "c_string b = takeWhile (\<lambda>x. x \<noteq> 0) b"

definition strncpy :: "nat \<Rightarrow> bytes \<Rightarrow> bytes" where
  "strncpy n b = (let s = take n (c_string b) in s @ replicate (n - length s) 0)"

definition strntoul :: "'k kern \<Rightarrow> bytes \<Rightarrow> nat \<Rightarrow> ('k, u32) prog" where
  "strntoul K str len =
     bnd (call (k_malloc K (of_nat len + 1))) (\<lambda>newstr.
     ret (if newstr = None then 0 else ucast (strtoul10 (c_string (strncpy len str)))))"

text \<open>A failed read has the result -1 and leaves the checksum as it is.\<close>

partial_function (option) compute_crc32 ::
  "'k kern \<Rightarrow> u32 \<Rightarrow> u64 \<Rightarrow> u64 \<Rightarrow> int \<Rightarrow> 'k mtd_state \<Rightarrow> (u32 outcome \<times> 'k mtd_state) option" where
  "compute_crc32 K crc offset compute_len fd s =
     (if fd \<noteq> 0 \<and> compute_len \<ge> 1024 then
        bnd (call (k_pread K fd 1024 offset)) (\<lambda>res.
        case res of
          Inl _ \<Rightarrow> compute_crc32 K crc (offset - 1) (compute_len + 1) fd
        | Inr b \<Rightarrow> compute_crc32 K (crc32 crc b (int (length b))) (offset + of_nat (length b)) (compute_len - of_nat (length b)) fd)
      else if fd \<noteq> 0 \<and> compute_len > 0 then
        bnd (call (k_pread K fd compute_len offset)) (\<lambda>res.
        case res of Inl _ \<Rightarrow> ret crc | Inr b \<Rightarrow> ret (crc32 crc b (int (length b))))
      else ret crc) s"

text \<open>The changes to the tag at \<open>tag\<close> in a buffer.\<close>

definition fix_tag :: "nat \<Rightarrow> bytes \<Rightarrow> ('k, bytes) prog" where
  "fix_tag tag buf =
     bnd (store (tag + off_root_length) [0x30, 0] buf) (\<lambda>buf.
     bnd (load (tag + off_kernel_length) IMAGE_LEN buf) (\<lambda>kernel_length.
     bnd (store (tag + off_total_length) (strncpy IMAGE_LEN kernel_length) buf) (\<lambda>buf.
     bnd (load (tag + off_kernel_crc) 4 buf) (\<lambda>kernel_crc.
     bnd (store (tag + off_image_crc) kernel_crc buf) (\<lambda>buf.
     bnd (store (tag + off_fskernel_crc) kernel_crc buf) (\<lambda>buf.
     bnd (store (tag + off_rootfs_crc) (u32_bytes CRC_START) buf) (\<lambda>buf.
     bnd (load tag off_header_crc buf) (\<lambda>h.
     store (tag + off_header_crc) (u32_bytes (crc32 CRC_START h (int off_header_crc))) buf))))))))"

definition imagetag_trx_fixup :: "'k kern \<Rightarrow> int \<Rightarrow> string \<Rightarrow> ('k, int) prog" where
  "imagetag_trx_fixup K fd name =
     bnd (call (k_getinfo K fd)) (\<lambda>info.
     case info of None \<Rightarrow> ret (-1) | Some mtdInfo \<Rightarrow>
     if info_size mtdInfo \<le> 0 then ret (-1) else
     bnd (mtd_open K name True) (\<lambda>bfd.
     bnd (call (k_mmap K bfd (ucast (info_size mtdInfo)))) (\<lambda>m.
     case m of None \<Rightarrow> bnd (call (k_close K bfd)) (\<lambda>_. ret (-1)) | Some ptr \<Rightarrow>
     bnd (load off_cfe_length IMAGE_LEN ptr) (\<lambda>cfe_length.
     bnd (strntoul K cfe_length IMAGE_LEN) (\<lambda>cfelen.
     if cfelen \<noteq> 0 then exit1 else
     bnd (compute_crc32 K CRC_START 0 (of_nat off_header_crc) fd) (\<lambda>headercrc.
     bnd (load off_header_crc 4 ptr) (\<lambda>header_crc.
     if headercrc \<noteq> bytes_u32 header_crc then exit1 else
     bnd (fix_tag 0 ptr) (\<lambda>ptr.
     bnd (call (k_msync K bfd ptr)) (\<lambda>_.
     bnd (call (k_close K bfd)) (\<lambda>_.
     ret 0))))))))))"

definition imagetag_trx_check :: "'k kern \<Rightarrow> int \<Rightarrow> string \<Rightarrow> bytes \<Rightarrow> int \<Rightarrow> ('k, int \<times> bytes \<times> int) prog" where
  "imagetag_trx_check K imagefd mtd buf len =
     (if mtd \<noteq> ''linux'' then ret (1, buf, len) else
     bnd (call (k_read K imagefd (of_nat sizeof_bcm_tag))) (\<lambda>r.
     bnd (case r of Inl _ \<Rightarrow> ret (buf, -1) | Inr b \<Rightarrow> bnd (store 0 b buf) (\<lambda>buf. ret (buf, int (length b)))) (\<lambda>(buf, len).
     if (of_int len :: u64) < of_nat sizeof_bcm_tag then ret (0, buf, len) else
     bnd (load 0 off_header_crc buf) (\<lambda>h.
     bnd (load off_header_crc 4 buf) (\<lambda>header_crc.
     if bytes_u32 header_crc \<noteq> crc32buf h then ret (0, buf, len) else
     bnd (mtd_check_open K mtd) (\<lambda>fd.
     if fd < 0 then exit1 else
     bnd (load off_total_length IMAGE_LEN buf) (\<lambda>total_length.
     bnd (strntoul K total_length IMAGE_LEN) (\<lambda>imageLen.
     bnd (gets mtdsize) (\<lambda>msz.
     bnd (call (k_close K fd)) (\<lambda>_.
     if of_int msz < imageLen then ret (0, buf, len) else ret (1, buf, len)))))))))))"

definition imagetag_fixtrx :: "'k kern \<Rightarrow> string \<Rightarrow> u64 \<Rightarrow> u64 \<Rightarrow> ('k, int) prog" where
  "imagetag_fixtrx K mtd offset data_size =
     bnd (gets erasesize) (\<lambda>esz.
     let block_offset = offset AND NOT (of_int (esz - 1));
         offset = offset - block_offset in
     bnd (mtd_check_open K mtd) (\<lambda>fd.
     if fd < 0 then exit1 else
     bnd (gets erasesize) (\<lambda>esz.
     bnd (gets mtdsize) (\<lambda>msz.
     if block_offset + of_int esz > of_int msz then exit1 else
     bnd (read_block K fd block_offset) (\<lambda>buf.
     bnd (load (unat offset + off_cfe_length) IMAGE_LEN buf) (\<lambda>cfe_length.
     bnd (strntoul K cfe_length IMAGE_LEN) (\<lambda>cfelen.
     if cfelen \<noteq> 0 then exit1 else
     bnd (compute_crc32 K CRC_START offset (of_nat off_header_crc) fd) (\<lambda>headercrc.
     bnd (load (unat offset + off_header_crc) 4 buf) (\<lambda>header_crc.
     if headercrc \<noteq> bytes_u32 header_crc then exit1 else
     bnd (load (unat offset + off_root_length) IMAGE_LEN buf) (\<lambda>root_length.
     bnd (strntoul K root_length IMAGE_LEN) (\<lambda>rootfslen.
     if rootfslen = 0 then bnd (call (k_close K fd)) (\<lambda>_. ret 0) else
     bnd (fix_tag (unat offset) buf) (\<lambda>buf.
     bnd (write_block K fd buf block_offset) (\<lambda>_.
     bnd (call (k_close K fd)) (\<lambda>_.
     ret 0))))))))))))))"

section \<open>What the repair changes\<close>

definition tag_put :: "nat \<Rightarrow> bytes \<Rightarrow> bytes" where
  "tag_put o' b =
     (let b = buf_put (o' + off_root_length) [0x30, 0] b;
          b = buf_put (o' + off_total_length) (strncpy IMAGE_LEN (buf_get (o' + off_kernel_length) IMAGE_LEN b)) b;
          k = buf_get (o' + off_kernel_crc) 4 b;
          b = buf_put (o' + off_image_crc) k b;
          b = buf_put (o' + off_fskernel_crc) k b;
          b = buf_put (o' + off_rootfs_crc) (u32_bytes CRC_START) b
      in buf_put (o' + off_header_crc) (u32_bytes (crc32 CRC_START (buf_get o' off_header_crc b) (int off_header_crc))) b)"

lemmas tag_offsets = off_total_length_def off_cfe_length_def off_root_length_def off_kernel_length_def off_fskernel_crc_def
  off_image_crc_def off_rootfs_crc_def off_kernel_crc_def off_header_crc_def IMAGE_LEN_def

lemma length_c_string: "length (c_string b) \<le> length b"
  by (simp add: c_string_def length_takeWhile_le)

lemma length_strncpy [simp]: "length (strncpy n b) = n"
  by (simp add: strncpy_def Let_def)

lemma tag_put_facts:
  assumes "o' + 240 \<le> length b"
  shows "length (tag_put o' b) = length b" "take o' (tag_put o' b) = take o' b" "drop (o' + 240) (tag_put o' b) = drop (o' + 240) b"
    "buf_get (o' + off_header_crc) 4 (tag_put o' b) = u32_bytes (crc32buf (buf_get o' off_header_crc (tag_put o' b)))"
    "buf_get (o' + off_image_crc) 4 (tag_put o' b) = buf_get (o' + off_kernel_crc) 4 b"
    "buf_get (o' + off_fskernel_crc) 4 (tag_put o' b) = buf_get (o' + off_kernel_crc) 4 b"
    "buf_get (o' + off_rootfs_crc) 4 (tag_put o' b) = u32_bytes CRC_START"
    "buf_get (o' + off_root_length) 2 (tag_put o' b) = [0x30, 0]"
    "buf_get (o' + off_total_length) 10 (tag_put o' b) = strncpy 10 (buf_get (o' + off_kernel_length) 10 b)"
    "buf_get (o' + off_kernel_length) 10 (tag_put o' b) = buf_get (o' + off_kernel_length) 10 b"
    "buf_get (o' + off_kernel_crc) 4 (tag_put o' b) = buf_get (o' + off_kernel_crc) 4 b"
  using assms
  by (simp_all add: tag_put_def Let_def tag_offsets length_buf_put buf_get_put_same buf_get_put_before buf_get_put_after
      take_buf_put drop_buf_put crc32buf_def CRC_START_def)
lemma fix_tag_Done:
  assumes "fix_tag o' b s = Some (Done b', t)"
  shows "b' = tag_put o' b \<and> t = s \<and> o' + 240 \<le> length b"
proof -
  have "o' + 240 \<le> length b"
  proof (rule ccontr)
    assume "\<not> o' + 240 \<le> length b"
    then show False using assms
      by (auto simp: fix_tag_def bnd_eq_Done store_def load_def ret_def tag_offsets fault_def length_buf_put split: if_splits)
  qed
  then show ?thesis using assms
    by (auto simp: fix_tag_def bnd_eq_Done store_def load_def ret_def tag_put_def tag_offsets length_buf_put Let_def split: if_splits)
qed

text \<open>The tag is checked against the checksum of its header when the block is the first one.\<close>

lemma and_not_le: "unat (x AND NOT y) \<le> unat (x :: u64)"
  by (simp flip: word_le_nat_alt add: word_and_le2)

lemma fix_tag_valid: "valid P (fix_tag o' b) (\<lambda>b' s. (b' = tag_put o' b \<and> o' + 240 \<le> length b) \<and> P s)"
  by (rule validI) (use fix_tag_Done in fastforce)

context flash_device begin

lemma strntoul_valid: "valid (D v c) (strntoul K f n) (\<lambda>_. D v c)"
  unfolding strntoul_def by (rule valid_bnd [OF dev_malloc], rule valid_fact(1), rule valid_ret)

lemma compute_crc32_valid: "valid (D v c) (compute_crc32 K crc offset (of_nat off_header_crc) fd) (\<lambda>_. D v c)"
proof -
  have n: "\<not> (1024 :: u64) \<le> of_nat off_header_crc" "(0 :: u64) < of_nat off_header_crc" by (simp_all add: off_header_crc_def)
  have "compute_crc32 K crc offset (of_nat off_header_crc) fd s = (if fd \<noteq> 0 then
      bnd (call (k_pread K fd (of_nat off_header_crc) offset)) (\<lambda>res. case res of Inl _ \<Rightarrow> ret crc | Inr b \<Rightarrow> ret (crc32 crc b (int (length b)))) s
      else ret crc s)" for s
    by (subst compute_crc32.simps) (use n in simp)
  moreover have "valid (D v c) (\<lambda>s. if fd \<noteq> 0 then
      bnd (call (k_pread K fd (of_nat off_header_crc) offset)) (\<lambda>res. case res of Inl _ \<Rightarrow> ret crc | Inr b \<Rightarrow> ret (crc32 crc b (int (length b)))) s
      else ret crc s) (\<lambda>_. D v c)"
    by (cases "fd = 0") (auto intro!: valid_bnd [OF dev_pread] valid_fact valid_sum valid_ret)
  ultimately show ?thesis by (simp add: valid_def)
qed

lemma imagetag_fixtrx_valid:
  fixes offset :: u64 and esz0 :: int
  defines "bo \<equiv> offset AND NOT (of_int (esz0 - 1))"
  shows "valid (\<lambda>s. erasesize s = esz0 \<and> D False c s) (imagetag_fixtrx K mtd offset n) (\<lambda>r s. r = 0 \<and>
     (D True c s \<or> unat (offset - bo) + 240 \<le> E \<and> unat bo + E \<le> length c \<and>
        D True (buf_put (unat bo) (tag_put (unat (offset - bo)) (buf_get (unat bo) E c)) c) s))"
proof -
  let ?o = "unat (offset - bo)" and ?b = "buf_get (unat bo) E c"
  have wr: "valid (D True c) (bnd (write_block K fd (tag_put ?o ?b) bo) (\<lambda>_. bnd (call (k_close K fd)) (\<lambda>_. ret 0)))
      (\<lambda>r s. r = 0 \<and> (D True c s \<or> ?o + 240 \<le> E \<and> unat bo + E \<le> length c \<and> D True (buf_put (unat bo) (tag_put ?o ?b) c) s))"
    if h: "length ?b = E" "sint (info_erasesize info) = int E" "?o + 240 \<le> E" for fd
  proof -
    have "unat bo + E \<le> length c" using h(1,3) by (simp add: min_def split: if_splits)
    then show ?thesis
      by (intro valid_bnd [OF dev_write_block] valid_bnd [OF dev_calls(3)] valid_ret) (use h tag_put_facts(1) in auto)
  qed
  show ?thesis
    unfolding imagetag_fixtrx_def
    apply (rule valid_bnd [OF valid_gets [where Q = "\<lambda>e s. e = esz0 \<and> D False c s"]], simp)
    apply (rule valid_fact(1), simp only: Let_def bo_def [symmetric])
    apply (intro valid_bnd [OF dev_check_open] valid_if valid_stop)
    apply (rule valid_pre [where P = "D True c"])
     apply (intro valid_bnd [OF valid_gets [where Q = "\<lambda>_. D True c"]] valid_if valid_stop, assumption, assumption)
     apply (intro valid_bnd [OF dev_read_block] valid_fact(1) valid_bnd [OF valid_load [where Q = "\<lambda>_. D True c"]] valid_bnd [OF strntoul_valid]
       valid_bnd [OF compute_crc32_valid] valid_if valid_stop valid_bnd [OF fix_tag_valid] valid_bnd [OF dev_calls(3)] valid_ret)
     apply (simp_all only: simp_thms)
     apply (rule wr, simp, simp, simp)
    apply simp
    done
qed
end

lemma buf_get_put_inside: "i + n \<le> length x \<Longrightarrow> off \<le> length b \<Longrightarrow> buf_get (off + i) n (buf_put off x b) = buf_get i n x"
  by (simp add: buf_get_def buf_put_def)


section \<open>A device with a tag\<close>

definition tag_info :: mtd_info_user where
  "tag_info = \<lparr>info_type = 3, info_size = 256, info_erasesize = 256, info_writesize = 1\<rparr>"

definition tag_content :: "bytes \<Rightarrow> bytes" where
  "tag_content k = take 256 (k @ replicate 256 0xFF)"

definition tag_kern :: "bytes kern" where
  "tag_kern = \<lparr>
     k_proc_mtd = (\<lambda>k. (None, k)), k_open = (\<lambda>p k. (3, k)), k_open_rd = (\<lambda>p k. (-1, k)), k_stat = (\<lambda>p k. (None, k)),
     k_close = (\<lambda>fd k. ((), k)), k_getinfo = (\<lambda>fd k. (Some tag_info, k)), k_getbadblock = (\<lambda>fd off k. (0, k)),
     k_unlock = (\<lambda>fd st len k. (0, k)),
     k_erase = (\<lambda>fd st len k. if unat st + unat len \<le> 256 then (0, memset (unat st) 0xFF (unat len) (tag_content k)) else (-1, k)),
     k_pread = (\<lambda>fd n off k. (Inr (buf_get (unat off) (unat n) (tag_content k)), k)),
     k_pwrite = (\<lambda>fd b off k. if unat off + length b \<le> 256 then (int (length b), buf_put (unat off) b (tag_content k)) else (-1, k)),
     k_read = (\<lambda>fd n k. (Inl 5, k)), k_write = (\<lambda>fd b k. (-1, k)), k_lseek_set = (\<lambda>fd off k. ((), k)),
     k_lseek_cur = (\<lambda>fd off k. ((), k)), k_mmap = (\<lambda>fd n k. (None, k)), k_msync = (\<lambda>fd b k. ((), k)),
     k_malloc = (\<lambda>n k. (Some (replicate (unat n) 0xA5), k))\<rparr>"

lemma length_tag_content [simp]: "length (tag_content k) = 256"
  by (simp add: tag_content_def)

lemma tag_content_stored: "length k = 256 \<Longrightarrow> tag_content k = k"
  by (simp add: tag_content_def)

interpretation tagged: flash_device tag_kern tag_info tag_content "\<lambda>_. False"
  by unfold_locales
    (auto simp: tag_kern_def tag_info_def length_memset length_buf_put tag_content_stored buf_get_def min_def split: if_splits)

text \<open>The root length is \<open>1111111111\<close>; all other fields but the checksum of the header are the digit 0.\<close>

definition tag_head :: bytes where
  "tag_head = replicate 106 0x30 @ replicate 10 0x31 @ replicate 120 0x30"

definition tag_state :: "bytes mtd_state" where
  "tag_state = \<lparr>kst = tag_head @ u32_bytes (crc32buf tag_head) @ replicate 16 0, mtdsize = 0, erasesize = 0, mtdtype = 0,
     mtd_buf = None, buflen = 0, imageformat = MTD_IMAGE_FORMAT_UNKNOWN, no_erase = False, jffs2file = None, jffs2dir = [],
     jffs2_skip_bytes = 0, tpl_uboot_args_part = None, last_ino = 0, last_version = 0, jffs2_buf = [], jffs2_ofs = 0,
     outfd = -1, mtdofs = 0, target_ino = 0\<rparr>"

lemma fix_tag_fits: "o' + 240 \<le> length b \<Longrightarrow> fix_tag o' b s = Some (Done (tag_put o' b), s)"
  by (simp add: fix_tag_def tag_put_def store_def load_def ret_def tag_offsets length_buf_put Let_def)

lemma tag_run:
  "imagetag_fixtrx tag_kern ''linux'' 0 0 tag_state = Some (Done 0, tag_state\<lparr>mtdsize := 256, erasesize := 256, mtdtype := 3,
     kst := tag_put 0 (kst tag_state)\<rparr>)"
proof -
  let ?k = "kst tag_state" and ?s = "tag_state\<lparr>mtdsize := 256, erasesize := 256, mtdtype := 3\<rparr>"
  have len: "length ?k = 256" by (simp add: tag_state_def tag_head_def)
  have o: "bnd (mtd_check_open tag_kern ''linux'') f tag_state = f 3 ?s" for f
    by (simp add: mtd_check_open_def mtd_open_def bnd_call tag_kern_def tag_info_def ret_def bnd_assoc)
  have g: "buf_get 84 10 ?k = replicate 10 0x30" "buf_get 106 10 ?k = replicate 10 0x31" "buf_get 236 4 ?k = u32_bytes (crc32buf tag_head)"
    "buf_get 0 236 ?k = tag_head" "buf_get 0 256 ?k = ?k"
    by (simp_all add: tag_state_def tag_head_def buf_get_def)
  have r: "replicate 10 x = [x, x, x, x, x, x, x, x, x, x]" for x :: u8 by (simp add: numeral_eq_Suc)
  have c: "c_string (strncpy 10 (replicate 10 x)) = replicate 10 x" if "x \<noteq> 0" for x
    using that by (simp add: c_string_def strncpy_def r)
  have n: "strtoul10 (replicate 10 0x30) = 0" "strtoul10 (replicate 10 0x31) = 1111111111"
    by (simp_all add: strtoul10_def r is_space_def)
  note n = n c [of "0x30", simplified] c [of "0x31", simplified]
  have rd: "read_block tag_kern 3 0 ?s = Some (Done ?k, ?s)"
    using len g(5) by (simp add: read_block_def bnd_call tag_kern_def tag_content_stored ret_def buf_put_def)
  have st: "strntoul tag_kern (replicate 10 0x30) 10 ?s = Some (Done 0, ?s)" "strntoul tag_kern (replicate 10 0x31) 10 ?s = Some (Done 1111111111, ?s)"
    unfolding strntoul_def by (simp_all add: bnd_call tag_kern_def ret_def n)
  have cr: "compute_crc32 tag_kern CRC_START 0 236 3 ?s = Some (Done (crc32buf tag_head), ?s)"
    using len g(4) by (subst compute_crc32.simps)
      (simp add: bnd_call tag_kern_def tag_content_stored ret_def crc32buf_def CRC_START_def)
  have T: "length (tag_put 0 ?k) = 256" using tag_put_facts(1) [of 0 ?k] len by simp
  have wr: "write_block tag_kern 3 (tag_put 0 ?k) 0 ?s = Some (Done (), ?s\<lparr>kst := tag_put 0 ?k\<rparr>)"
    using len T by (simp add: write_block_def mtd_erase_block_def bnd_call bnd_assoc to_int_def tag_kern_def tag_content_stored
        length_memset ret_def buf_put_def)
  have cl: "k_close tag_kern fd k = ((), k)" for fd k by (simp add: tag_kern_def)
  show ?thesis
    unfolding imagetag_fixtrx_def
    using len by (simp add: o Let_def bnd_Done [of "read_block tag_kern 3 0" ?s, OF rd] load_def tag_offsets g
        bnd_Done [of "strntoul tag_kern (replicate 10 0x30) 10" ?s, OF st(1)] bnd_Done [of "strntoul tag_kern (replicate 10 0x31) 10" ?s, OF st(2)]
        bnd_Done [of "compute_crc32 tag_kern CRC_START 0 236 3" ?s, OF cr] bytes_u32_u32_bytes [of _ "[]", simplified] ret_def
        bnd_Done [of "fix_tag 0 ?k" ?s, OF fix_tag_fits] bnd_Done [of "write_block tag_kern 3 (tag_put 0 ?k) 0" ?s, OF wr] bnd_call cl)
qed


end
