(* ===== verification/Util_Fis.thy ===== *)
theory Util_Fis
  imports Util_Fix
begin

text \<open>
  The table of RedBoot partitions (\<open>fis.c\<close>): the check of a new layout, and the update of the table, which is mapped
  into memory. A pointer to an entry is its index in the table. The static variables of the file are set only between
  \<open>fis_open\<close> and \<open>fis_close\<close>; the descriptor and the mapping are results of \<open>fis_open\<close> here.
\<close>

section \<open>The code\<close>

record fis_part =
  fp_name :: bytes
  fp_offset :: u32
  fp_loadaddr :: u32
  fp_size :: u32
  fp_length :: u32
  fp_crc :: u32

definition load_name :: "nat \<Rightarrow> bytes \<Rightarrow> ('k, bytes) prog" where
  "load_name desc b = load (256 * desc) 16 b"

definition load_flash_base :: "nat \<Rightarrow> bytes \<Rightarrow> ('k, u32) prog" where
  "load_flash_base desc b = bnd (load (256 * desc + 16) 4 b) (\<lambda>x. ret (bytes_u32 x))"

definition fis_image_desc :: "bytes \<Rightarrow> u32 \<Rightarrow> u32 \<Rightarrow> u32 \<Rightarrow> u32 \<Rightarrow> u32 \<Rightarrow> u32 \<Rightarrow> u32 \<Rightarrow> bytes" where
  "fis_image_desc name flash_base mem_base sz entry_point data_length crc_desc crc_file =
     name @ u32_bytes flash_base @ u32_bytes mem_base @ u32_bytes sz @ u32_bytes entry_point @ u32_bytes data_length @
     replicate 212 0 @ u32_bytes crc_desc @ u32_bytes crc_file"

text \<open>\<open>strncmp\<close> over 16 bytes tells that two names are the same.\<close>

definition same_name :: "bytes \<Rightarrow> bytes \<Rightarrow> bool" where
  "same_name a b \<longleftrightarrow> takeWhile (\<lambda>x. x \<noteq> 0) (take 16 a) = takeWhile (\<lambda>x. x \<noteq> 0) (take 16 b)"

definition fis_close :: "'k kern \<Rightarrow> int \<Rightarrow> ('k, unit) prog" where
  "fis_close K fd = call (k_close K fd)"

definition fis_open :: "'k kern \<Rightarrow> ('k, (int \<times> bytes) option) prog" where
  "fis_open K =
     bnd (mtd_check_open K ''FIS directory'') (\<lambda>fd.
     if fd < 0 then ret None else
     bnd (call (k_close K fd)) (\<lambda>_.
     bnd (mtd_open K ''FIS directory'' True) (\<lambda>fd.
     if fd < 0 then ret None else
     bnd (gets erasesize) (\<lambda>esz.
     bnd (call (k_mmap K fd (of_int esz))) (\<lambda>m.
     case m of None \<Rightarrow> bnd (fis_close K fd) (\<lambda>_. ret None) | Some desc \<Rightarrow> ret (Some (fd, desc)))))))"

text \<open>The entries in use are those before one with an empty or an erased name.\<close>

fun fis_found :: "bytes \<Rightarrow> fis_part list \<Rightarrow> nat \<Rightarrow> nat \<Rightarrow> nat \<Rightarrow> ('k, nat) prog" where
  "fis_found b old 0 desc found = ret found"
| "fis_found b old (Suc n) desc found =
     bnd (load_name desc b) (\<lambda>name.
     if hd name = 0 \<or> hd name = 0xFF then ret found else
     fis_found b old n (desc + 1) (if \<exists>p\<in>set old. same_name name (fp_name p) then found + 1 else found))"

definition fis_entries :: "bytes \<Rightarrow> nat" where
  "fis_entries b = (length b + 255) div 256"

definition fis_validate :: "'k kern \<Rightarrow> fis_part list \<Rightarrow> fis_part list \<Rightarrow> ('k, int) prog" where
  "fis_validate K old new =
     bnd (fis_open K) (\<lambda>d.
     case d of None \<Rightarrow> ret (-1) | Some (fd, desc) \<Rightarrow>
     bnd (if \<exists>p\<in>set (butlast new). fp_size p = 0 then ret (-1) else
          bnd (fis_found desc old (fis_entries desc) 0 0) (\<lambda>found.
          ret (if found = length old then 1 else -1))) (\<lambda>i.
     bnd (fis_close K fd) (\<lambda>_.
     ret i)))"

fun fis_scan :: "bytes \<Rightarrow> fis_part list \<Rightarrow> nat \<Rightarrow> nat \<Rightarrow> nat option \<Rightarrow> nat option \<Rightarrow> u32 \<Rightarrow> ('k, nat option \<times> nat option \<times> u32) prog" where
  "fis_scan b old 0 desc first_e last_e offset = ret (first_e, last_e, offset)"
| "fis_scan b old (Suc n) desc first_e last_e offset =
     bnd (load_name desc b) (\<lambda>name.
     if hd name = 0 \<or> hd name = 0xFF then ret (first_e, last_e, offset) else
     bnd (load_flash_base desc b) (\<lambda>base.
     let offset = (if offset < base then base else offset) in
     if \<exists>p\<in>set old. same_name name (fp_name p)
     then fis_scan b old n (desc + 1) (if first_e = None then Some desc else first_e) (Some desc) offset
     else fis_scan b old n (desc + 1) first_e last_e offset))"

fun fis_limit :: "bytes \<Rightarrow> u32 \<Rightarrow> nat \<Rightarrow> nat \<Rightarrow> u32 \<Rightarrow> ('k, u32) prog" where
  "fis_limit b last_base 0 desc offset = ret offset"
| "fis_limit b last_base (Suc n) desc offset =
     bnd (load_name desc b) (\<lambda>name.
     if hd name = 0 \<or> hd name = 0xFF then ret offset else
     bnd (load_flash_base desc b) (\<lambda>base.
     fis_limit b last_base n (desc + 1) (if base > last_base \<and> base < offset then base else offset)))"

text \<open>A length below zero is a large number as a \<open>size_t\<close>.\<close>

definition move_bytes :: "nat \<Rightarrow> nat \<Rightarrow> int \<Rightarrow> bytes \<Rightarrow> ('k, bytes) prog" where
  "move_bytes dst src n b =
     (if n < 0 then fault else bnd (load src (nat n) b) (\<lambda>x. store dst x b))"

definition fill_bytes :: "int \<Rightarrow> u8 \<Rightarrow> int \<Rightarrow> bytes \<Rightarrow> ('k, bytes) prog" where
  "fill_bytes dst x n b =
     (if n < 0 \<or> dst < 0 then fault else store (nat dst) (replicate (nat n) x) b)"

fun fis_new :: "nat \<Rightarrow> fis_part list \<Rightarrow> u32 \<Rightarrow> u32 \<Rightarrow> bytes \<Rightarrow> ('k, bytes) prog" where
  "fis_new desc [] offset sz b = ret b"
| "fis_new desc (part # new) offset sz b =
     (let psize = (if fp_size part > 0 then fp_size part else sz);
          plength = (if fp_length part > 0 then fp_length part else psize) in
      bnd (store (256 * desc) (fis_image_desc (fp_name part) offset (fp_loadaddr part) psize (fp_loadaddr part) plength 0 (fp_crc part)) b) (\<lambda>b.
      fis_new (desc + 1) new (offset + psize) (sz - psize) b))"

definition fis_remap :: "'k kern \<Rightarrow> fis_part list \<Rightarrow> fis_part list \<Rightarrow> ('k, int) prog" where
  "fis_remap K old new =
     bnd (fis_open K) (\<lambda>d.
     case d of None \<Rightarrow> ret (-1) | Some (fd, b) \<Rightarrow>
     bnd (fis_scan b old (fis_entries b) 0 None None 0) (\<lambda>(first_e, last_e, offset).
     case (first_e, last_e) of
       (Some first_e, Some last_e) \<Rightarrow>
         bnd (load_flash_base first_e b) (\<lambda>first_base.
         bnd (load_flash_base last_e b) (\<lambda>last_base.
         let (first_base, last_base) = (if first_base > last_base then (last_base, first_base) else (first_base, last_base)) in
         bnd (fis_limit b last_base (fis_entries b) 0 offset) (\<lambda>offset.
         let sz = offset - first_base;
             last_e = last_e + 1;
             desc = first_e + length new;
             end = int (length b);
             tmp = int (256 * max desc last_e) in
         bnd (if desc \<noteq> last_e then
                bnd (move_bytes (256 * desc) (256 * last_e) (end - tmp) b) (\<lambda>b.
                if desc < last_e
                then let tmp = end - int (256 * (last_e - desc)) in fill_bytes tmp 0xFF (tmp - end) b
                else ret b)
              else ret b) (\<lambda>b.
         bnd (fis_new first_e new first_base sz b) (\<lambda>b.
         bnd (call (k_msync K fd b)) (\<lambda>_.
         bnd (fis_close K fd) (\<lambda>_.
         ret 0)))))))
     | _ \<Rightarrow> fault))"

section \<open>Tables as lists of entries\<close>

definition entry_base :: "bytes \<Rightarrow> u32" where
  "entry_base e = bytes_u32 (buf_get 16 4 e)"

definition in_use :: "bytes \<Rightarrow> bool" where
  "in_use e \<longleftrightarrow> hd e \<noteq> 0 \<and> hd e \<noteq> 0xFF"

definition replaced :: "fis_part list \<Rightarrow> bytes \<Rightarrow> bool" where
  "replaced old e \<longleftrightarrow> (\<exists>p\<in>set old. same_name (take 16 e) (fp_name p))"

definition table :: "bytes list \<Rightarrow> bool" where
  "table es \<longleftrightarrow> (\<forall>e\<in>set es. length e = 256)"

definition used :: "bytes list \<Rightarrow> nat" where
  "used es = length (takeWhile in_use es)"

lemma used_facts: "used es \<le> length es" "i < used es \<Longrightarrow> in_use (es ! i)" "used es < length es \<Longrightarrow> \<not> in_use (es ! used es)"
proof -
  show "used es \<le> length es" by (simp add: used_def length_takeWhile_le)
  show "in_use (es ! i)" if "i < used es"
    using that nth_mem [of i "takeWhile in_use es"] takeWhile_nth [of i in_use es] by (auto simp: used_def dest: set_takeWhileD)
  show "\<not> in_use (es ! used es)" if "used es < length es" using nth_length_takeWhile [of in_use es] that by (simp add: used_def)
qed

lemma table_length: "table es \<Longrightarrow> length (concat es) = 256 * length es"
  by (induction es) (auto simp: table_def)

lemma table_take: "table es \<Longrightarrow> take (256 * i) (concat es) = concat (take i es)"
proof (induction es arbitrary: i)
  case (Cons e es)
  then show ?case by (cases i) (auto simp: table_def)
qed simp

lemma table_drop: "table es \<Longrightarrow> drop (256 * i) (concat es) = concat (drop i es)"
proof (induction es arbitrary: i)
  case (Cons e es)
  then show ?case by (cases i) (auto simp: table_def)
qed simp

lemma table_sub: "table es \<Longrightarrow> table (take i es)" "table es \<Longrightarrow> table (drop i es)" "table (xs @ ys) = (table xs \<and> table ys)"
  by (auto simp: table_def dest: in_set_takeD in_set_dropD)

lemma table_get: "table es \<Longrightarrow> i < length es \<Longrightarrow> off + n \<le> 256 \<Longrightarrow> buf_get (256 * i + off) n (concat es) = buf_get off n (es ! i)"
proof -
  assume t: "table es" and i: "i < length es" and n: "off + n \<le> 256"
  have "drop (256 * i + off) (concat es) = drop off (drop (256 * i) (concat es))" by (simp add: add.commute)
  also have "\<dots> = drop off (es ! i @ concat (drop (Suc i) es))" using i by (simp add: table_drop [OF t] flip: Cons_nth_drop_Suc)
  finally show ?thesis using t i n by (simp add: buf_get_def table_def)
qed

lemma table_entries: "table es \<Longrightarrow> fis_entries (concat es) = length es"
  by (simp add: fis_entries_def table_length)

lemma table_put:
  assumes "table es" "table xs" "i + length xs \<le> length es"
  shows "buf_put (256 * i) (concat xs) (concat es) = concat (take i es @ xs @ drop (i + length xs) es)"
proof -
  have "256 * i + length (concat xs) = 256 * (i + length xs)" by (simp add: table_length [OF assms(2)])
  then show ?thesis unfolding buf_put_def table_take [OF assms(1)] by (simp only: table_drop [OF assms(1)] concat_append)
qed

section \<open>The scans\<close>

lemma load_name_table: "table es \<Longrightarrow> i < length es \<Longrightarrow> bnd (load_name i (concat es)) f s = f (take 16 (es ! i)) s"
proof -
  assume t: "table es" and i: "i < length es"
  have "256 * i + 16 \<le> 256 * length es" using i by linarith
  moreover have "buf_get (256 * i) 16 (concat es) = take 16 (es ! i)"
    using table_get [OF t i, of 0 16] by (simp add: buf_get_def [of 0])
  ultimately show ?thesis by (simp add: load_name_def load_def table_length [OF t])
qed

lemma load_base_table: "table es \<Longrightarrow> i < length es \<Longrightarrow> bnd (load_flash_base i (concat es)) f s = f (entry_base (es ! i)) s"
proof -
  assume t: "table es" and i: "i < length es"
  have "256 * i + 20 \<le> 256 * length es" using i by linarith
  moreover have "buf_get (256 * i + 16) 4 (concat es) = buf_get 16 4 (es ! i)"
    using table_get [OF t i, of 16 4] by simp
  ultimately show ?thesis by (simp add: load_flash_base_def load_def table_length [OF t] entry_base_def)
qed

lemma hd_name: "table es \<Longrightarrow> i < length es \<Longrightarrow> hd (take 16 (es ! i)) = hd (es ! i)"
  by (simp add: table_def hd_conv_nth)

lemma fis_scan_table:
  assumes t: "table es" and "i \<le> used es" "i + n = length es"
  shows "fis_scan (concat es) old n i f l off s = Some (Done
     (if f = None then (case filter (\<lambda>j. replaced old (es ! j)) [i..<used es] of [] \<Rightarrow> None | j # _ \<Rightarrow> Some j) else f,
      if filter (\<lambda>j. replaced old (es ! j)) [i..<used es] = [] then l else Some (last (filter (\<lambda>j. replaced old (es ! j)) [i..<used es])),
      fold max (map (\<lambda>j. entry_base (es ! j)) [i..<used es]) off), s)"
  using assms(2,3)
proof (induction n arbitrary: i f l off)
  case 0
  then show ?case using used_facts(1) [of es] by (auto simp: ret_def)
next
  case (Suc n)
  then have i: "i < length es" by simp
  show ?case
  proof (cases "i = used es")
    case True
    then show ?thesis using used_facts(3) [of es] i by (auto simp: load_name_table [OF t] hd_name [OF t] in_use_def ret_def)
  next
    case False
    then have u: "i < used es" using Suc.prems by simp
    have "hd (es ! i) \<noteq> 0" "hd (es ! i) \<noteq> 0xFF" using used_facts(2) [OF u] by (simp_all add: in_use_def)
    moreover have "(if off < entry_base (es ! i) then entry_base (es ! i) else off) = max (entry_base (es ! i)) off" by (auto simp: max_def)
    ultimately show ?thesis using Suc.IH [of "Suc i"] Suc.prems u
      by (simp add: load_name_table [OF t i] load_base_table [OF t i] hd_name [OF t i] upt_conv_Cons replaced_def Let_def)
  qed
qed

lemma fis_found_table:
  assumes t: "table es" and "i \<le> used es" "i + n = length es"
  shows "fis_found (concat es) old n i k s = Some (Done (k + length (filter (\<lambda>j. replaced old (es ! j)) [i..<used es])), s)"
  using assms(2,3)
proof (induction n arbitrary: i k)
  case 0
  then show ?case using used_facts(1) [of es] by (auto simp: ret_def)
next
  case (Suc n)
  then have i: "i < length es" by simp
  show ?case
  proof (cases "i = used es")
    case True
    then show ?thesis using used_facts(3) [of es] i by (auto simp: load_name_table [OF t] hd_name [OF t] in_use_def ret_def)
  next
    case False
    then have u: "i < used es" using Suc.prems by simp
    have "hd (es ! i) \<noteq> 0" "hd (es ! i) \<noteq> 0xFF" using used_facts(2) [OF u] by (simp_all add: in_use_def)
    then show ?thesis using Suc.IH [of "Suc i"] Suc.prems u
      by (simp add: load_name_table [OF t i] hd_name [OF t i] upt_conv_Cons replaced_def)
  qed
qed

text \<open>The check counts the entries with one of the names, however often each of these occurs.\<close>

lemma fis_validate_table:
  assumes "table es" "fis_open K s = Some (Done (Some (fd, concat es)), s1)"
  shows "fis_validate K old new s = Some (Done
    (if (\<forall>p\<in>set (butlast new). fp_size p \<noteq> 0) \<and> length (filter (\<lambda>j. replaced old (es ! j)) [0..<used es]) = length old then 1 else -1),
     s1\<lparr>kst := snd (k_close K fd (kst s1))\<rparr>)"
proof -
  let ?n = "length (filter (\<lambda>j. replaced old (es ! j)) [0..<used es])"
  have f: "fis_found (concat es) old (length es) 0 0 s1 = Some (Done ?n, s1)"
    using fis_found_table [OF assms(1), of 0 "length es" old 0 s1] by simp
  show ?thesis
    unfolding fis_validate_def bnd_Done [of "fis_open K" s, OF assms(2)] option.case prod.case table_entries [OF assms(1)]
    by (simp add: bnd_assoc bnd_Done [of "fis_found (concat es) old (length es) 0 0" s1, OF f] fis_close_def bnd_call ret_def)
qed

lemma fis_limit_table:
  assumes t: "table es" and "i \<le> used es" "i + n = length es"
  shows "fis_limit (concat es) lb n i off s = Some (Done
     (fold (\<lambda>x off. if lb < x \<and> x < off then x else off) (map (\<lambda>j. entry_base (es ! j)) [i..<used es]) off), s)"
  using assms(2,3)
proof (induction n arbitrary: i off)
  case 0
  then show ?case using used_facts(1) [of es] by (auto simp: ret_def)
next
  case (Suc n)
  then have i: "i < length es" by simp
  show ?case
  proof (cases "i = used es")
    case True
    then show ?thesis using used_facts(3) [of es] i by (auto simp: load_name_table [OF t] hd_name [OF t] in_use_def ret_def)
  next
    case False
    then have u: "i < used es" using Suc.prems by simp
    have "hd (es ! i) \<noteq> 0" "hd (es ! i) \<noteq> 0xFF" using used_facts(2) [OF u] by (simp_all add: in_use_def)
    then show ?thesis using Suc.IH [of "Suc i"] Suc.prems u
      by (simp add: load_name_table [OF t i] load_base_table [OF t i] hd_name [OF t i] upt_conv_Cons)
  qed
qed

section \<open>The new entries\<close>

text \<open>
  Entry \<open>j\<close> of a layout that begins at \<open>base\<close> and has \<open>space\<close> bytes: the partitions follow one another, and one without a
  size takes what is left.
\<close>

definition new_size :: "fis_part list \<Rightarrow> u32 \<Rightarrow> nat \<Rightarrow> u32" where
  "new_size new space j = (if fp_size (new ! j) > 0 then fp_size (new ! j) else space - sum_list (map fp_size (take j new)))"

definition new_entry :: "fis_part list \<Rightarrow> u32 \<Rightarrow> u32 \<Rightarrow> nat \<Rightarrow> bytes" where
  "new_entry new base space j = fis_image_desc (fp_name (new ! j)) (base + sum_list (map fp_size (take j new)))
     (fp_loadaddr (new ! j)) (new_size new space j) (fp_loadaddr (new ! j))
     (if fp_length (new ! j) > 0 then fp_length (new ! j) else new_size new space j) 0 (fp_crc (new ! j))"

fun new_descs :: "fis_part list \<Rightarrow> u32 \<Rightarrow> u32 \<Rightarrow> bytes list" where
  "new_descs [] base space = []"
| "new_descs (p # new) base space =
     (let psize = (if fp_size p > 0 then fp_size p else space);
          plength = (if fp_length p > 0 then fp_length p else psize)
      in fis_image_desc (fp_name p) base (fp_loadaddr p) psize (fp_loadaddr p) plength 0 (fp_crc p) #
         new_descs new (base + psize) (space - psize))"

lemma length_new_descs [simp]: "length (new_descs new base space) = length new"
  by (induction new arbitrary: base space) (simp_all add: Let_def)

lemma table_new_descs: "\<forall>p\<in>set new. length (fp_name p) = 16 \<Longrightarrow> table (new_descs new base space)"
  by (induction new arbitrary: base space) (simp_all add: Let_def table_def fis_image_desc_def)

lemma new_descs_nth:
  assumes "\<forall>p\<in>set (butlast new). fp_size p \<noteq> 0" "j < length new"
  shows "new_descs new base space ! j = new_entry new base space j"
  using assms
proof (induction new arbitrary: base space j)
  case (Cons p new)
  show ?case
  proof (cases j)
    case 0
    then show ?thesis by (simp add: new_entry_def new_size_def Let_def)
  next
    case (Suc i)
    then have i: "i < length new" and ne: "new \<noteq> []" using Cons.prems(2) by auto
    have p: "0 < fp_size p" using Cons.prems(1) ne by (simp add: word_greater_zero_iff)
    have n: "\<forall>q\<in>set (butlast new). fp_size q \<noteq> 0" using Cons.prems(1) ne by simp
    show ?thesis using Cons.IH [OF n i, of "base + fp_size p" "space - fp_size p"] p
      by (simp add: Suc new_entry_def new_size_def Let_def algebra_simps)
  qed
qed simp

lemma new_descs_map:
  "\<forall>p\<in>set (butlast new). fp_size p \<noteq> 0 \<Longrightarrow> new_descs new base space = map (new_entry new base space) [0..<length new]"
  by (rule nth_equalityI) (simp_all add: new_descs_nth)

lemma fis_new_table:
  assumes "table es" "\<forall>p\<in>set new. length (fp_name p) = 16" "d + length new \<le> length es"
  shows "fis_new d new base space (concat es) s =
    Some (Done (concat (take d es @ new_descs new base space @ drop (d + length new) es)), s)"
  using assms
proof (induction new arbitrary: d base space es)
  case Nil
  then show ?case by (simp add: ret_def flip: concat_append)
next
  case (Cons p new)
  let ?size = "if fp_size p > 0 then fp_size p else space"
  let ?x = "fis_image_desc (fp_name p) base (fp_loadaddr p) ?size (fp_loadaddr p) (if fp_length p > 0 then fp_length p else ?size) 0 (fp_crc p)"
  have x: "length ?x = 256" using Cons.prems(2) by (simp add: fis_image_desc_def)
  have d: "d < length es" using Cons.prems(3) by simp
  let ?es = "take d es @ [?x] @ drop (d + 1) es"
  have t: "table ?es" using table_sub(1,2) [OF Cons.prems(1)] x by (auto simp: table_def)
  have put: "buf_put (256 * d) ?x (concat es) = concat ?es"
    using table_put [OF Cons.prems(1), of "[?x]" d] x d by (simp add: table_def)
  have st: "store (256 * d) ?x (concat es) s = Some (Done (concat ?es), s)"
    unfolding store_def put [symmetric] using d x by (simp add: table_length [OF Cons.prems(1)] ret_def)
  have IH: "fis_new (d + 1) new (base + ?size) (space - ?size) (concat ?es) s =
      Some (Done (concat (take (d + 1) ?es @ new_descs new (base + ?size) (space - ?size) @ drop (d + 1 + length new) ?es)), s)"
    by (rule Cons.IH [OF t]) (use Cons.prems(2,3) in simp_all)
  have "take (d + 1) ?es = take d es @ [?x]" "drop (d + 1 + length new) ?es = drop (d + length (p # new)) es"
    using d by (simp_all add: ac_simps)
  then show ?case unfolding fis_new.simps Let_def bnd_Done [of "store (256 * d) ?x (concat es)" s, OF st] IH by (simp add: Let_def)
qed

lemma move_table:
  assumes "table es" "l \<le> d" "d \<le> length es"
  shows "move_bytes (256 * d) (256 * l) (int (length (concat es)) - int (256 * d)) (concat es) s =
    Some (Done (concat (take d es @ take (length es - d) (drop l es))), s)"
proof -
  let ?n = "256 * (length es - d)"
  have n: "int (length (concat es)) - int (256 * d) = int ?n" using assms(3) by (simp add: table_length [OF assms(1)] of_nat_diff)
  have g: "buf_get (256 * l) ?n (concat es) = concat (take (length es - d) (drop l es))"
    unfolding buf_get_def table_drop [OF assms(1)] by (rule table_take [OF table_sub(2) [OF assms(1)]])
  have "256 * l + ?n \<le> length (concat es)" using assms(2,3) by (simp add: table_length [OF assms(1)])
  moreover have "256 * d + length (concat (take (length es - d) (drop l es))) \<le> length (concat es)"
    using assms(2,3) by (simp add: table_length [OF table_sub(1) [OF table_sub(2) [OF assms(1)]]] table_length [OF assms(1)])
  moreover have "buf_put (256 * d) (concat (take (length es - d) (drop l es))) (concat es) = concat (take d es @ take (length es - d) (drop l es))"
    using table_put [OF assms(1) table_sub(1) [OF table_sub(2) [OF assms(1)]], of d "length es - d" l] assms(2,3) by simp
  ultimately show ?thesis unfolding move_bytes_def n by (simp add: load_def store_def g ret_def del: of_nat_mult)
qed

section \<open>The update\<close>

lemma fold_limit: "fold (\<lambda>x off. if lb < x \<and> x < off then x else off) xs off = Min (insert (off :: u32) {x \<in> set xs. lb < x})"
proof (induction xs arbitrary: off)
  case (Cons x xs)
  have fin: "finite {y \<in> set xs. lb < y}" by simp
  have e: "{y \<in> set (x # xs). lb < y} = (if lb < x then insert x {y \<in> set xs. lb < y} else {y \<in> set xs. lb < y})" by auto
  show ?case
  proof (cases "lb < x \<and> x < off")
    case True
    have "Min (insert off (insert x {y \<in> set xs. lb < y})) = min off (Min (insert x {y \<in> set xs. lb < y}))" using fin by (intro Min_insert) simp_all
    also have "\<dots> = Min (insert x {y \<in> set xs. lb < y})" using True fin Min_le [of "insert x {y \<in> set xs. lb < y}" x] by (auto simp: min_def)
    finally show ?thesis using True Cons.IH e by simp
  next
    case False
    then show ?thesis
    proof (cases "lb < x")
      case True
      with False have "off \<le> x" by simp
      have "Min (insert off (insert x {y \<in> set xs. lb < y})) = Min (insert x (insert off {y \<in> set xs. lb < y}))" by (simp add: insert_commute)
      also have "\<dots> = min x (Min (insert off {y \<in> set xs. lb < y}))" using fin by (intro Min_insert) simp_all
      also have "\<dots> = Min (insert off {y \<in> set xs. lb < y})"
      proof (rule min_absorb2)
        have "Min (insert off {y \<in> set xs. lb < y}) \<le> off" using fin by (intro Min_le) simp_all
        then show "Min (insert off {y \<in> set xs. lb < y}) \<le> x" using \<open>off \<le> x\<close> by (rule order_trans)
      qed
      finally show ?thesis using True False Cons.IH e by simp
    next
      case False
      then show ?thesis using Cons.IH e by simp
    qed
  qed
qed simp

lemma used_bases: "map (\<lambda>j. entry_base (es ! j)) [0..<used es] = map entry_base (take (used es) es)"
  using used_facts(1) [of es] by (intro nth_equalityI) simp_all

lemma fis_remap_scan:
  assumes t: "table es" and op: "fis_open K s = Some (Done (Some (fd, concat es)), s1)"
    and "ms = filter (\<lambda>j. replaced old (es ! j)) [0..<used es]" "ms \<noteq> []"
    and "bases = map entry_base (take (used es) es)" "lo = min (entry_base (es ! hd ms)) (entry_base (es ! last ms))"
      "hi = max (entry_base (es ! hd ms)) (entry_base (es ! last ms))" "limit = Min (insert (fold max bases 0) {x \<in> set bases. hi < x})"
    and d: "d = hd ms + length new" and l: "l = last ms + 1"
  shows "fis_remap K old new s =
     bnd (if d \<noteq> l then
            bnd (move_bytes (256 * d) (256 * l) (int (length (concat es)) - int (256 * max d l)) (concat es)) (\<lambda>b.
            if d < l
            then let tmp = int (length (concat es)) - int (256 * (l - d)) in fill_bytes tmp 0xFF (tmp - int (length (concat es))) b
            else ret b)
          else ret (concat es)) (\<lambda>b.
     bnd (fis_new (hd ms) new lo (limit - lo) b) (\<lambda>b.
     bnd (call (k_msync K fd b)) (\<lambda>_.
     bnd (fis_close K fd) (\<lambda>_.
     ret 0)))) s1"
proof -
  let ?i = "hd ms" and ?j = "last ms"
  have "set ms \<subseteq> {..<used es}" unfolding assms(3) by auto
  then have ij: "?i < length es" "?j < length es" using used_facts(1) [of es] assms(4) by (force dest: hd_in_set last_in_set)+
  have h: "(case ms of [] \<Rightarrow> None | j # _ \<Rightarrow> Some j) = Some ?i" using assms(4) by (cases ms) simp_all
  have scan: "fis_scan (concat es) old (length es) 0 None None 0 s1 = Some (Done (Some ?i, Some ?j, fold max bases 0), s1)"
    using fis_scan_table [OF t, of 0 "length es" old None None 0 s1] assms(4) h unfolding used_bases assms(3) [symmetric] assms(5) by simp
  have lim: "fis_limit (concat es) hi (length es) 0 off s1 = Some (Done (Min (insert off {x \<in> set bases. hi < x})), s1)" for off
    using fis_limit_table [OF t, of 0 "length es" hi off s1] unfolding used_bases assms(5) [symmetric] fold_limit by simp
  have sw: "(if entry_base (es ! ?i) > entry_base (es ! ?j) then (entry_base (es ! ?j), entry_base (es ! ?i)) else (entry_base (es ! ?i), entry_base (es ! ?j))) = (lo, hi)"
    unfolding assms(6,7) by (auto simp: min_def max_def)
  show ?thesis
    unfolding fis_remap_def bnd_Done [of "fis_open K" s, OF op] option.case prod.case table_entries [OF t]
      bnd_Done [of "fis_scan (concat es) old (length es) 0 None None 0" s1, OF scan]
      load_base_table [OF t ij(1)] load_base_table [OF t ij(2)] sw Let_def [of "(lo, hi)"]
      bnd_Done [of "fis_limit (concat es) hi (length es) 0 (fold max bases 0)" s1, OF lim]
    by (simp only: Let_def prod.case d l assms(8))
qed

text \<open>
  C39. Updating the RedBoot table: if the new partitions need at least as many entries as those from the first to the last one replaced, and
  there is room, the table has the entries before the first one replaced, the new ones, and those behind the last one
  replaced, as many as fit. The new partitions follow one another from the lowest address of the two; one without
  a size ends at the lowest partition above the highest of the two, or else at the highest one.
\<close>

theorem fis_remap_table:
  assumes "table es" "fis_open K s = Some (Done (Some (fd, concat es)), s1)"
    and "ms = filter (\<lambda>j. replaced old (es ! j)) [0..<used es]" "ms \<noteq> []"
    and "bases = map entry_base (take (used es) es)" "lo = min (entry_base (es ! hd ms)) (entry_base (es ! last ms))"
      "hi = max (entry_base (es ! hd ms)) (entry_base (es ! last ms))" "limit = Min (insert (fold max bases 0) {x \<in> set bases. hi < x})"
    and "d = hd ms + length new" "last ms + 1 \<le> d" "d \<le> length es"
    and "\<forall>p\<in>set new. length (fp_name p) = 16" "\<forall>p\<in>set (butlast new). fp_size p \<noteq> 0"
    and "b = concat (take (hd ms) es @ map (new_entry new lo (limit - lo)) [0..<length new] @ take (length es - d) (drop (last ms + 1) es))"
  shows "fis_remap K old new s = Some (Done 0, s1\<lparr>kst := snd (k_close K fd (snd (k_msync K fd b (kst s1))))\<rparr>)"
proof -
  let ?l = "last ms + 1" and ?t = "take (length es - d) (drop (last ms + 1) es)"
  note run = fis_remap_scan [OF assms(1-8) assms(9) refl]
  have mv: "bnd (if d \<noteq> ?l then
            bnd (move_bytes (256 * d) (256 * ?l) (int (length (concat es)) - int (256 * max d ?l)) (concat es)) (\<lambda>b.
            if d < ?l then let tmp = int (length (concat es)) - int (256 * (?l - d)) in fill_bytes tmp 0xFF (tmp - int (length (concat es))) b
            else ret b)
          else ret (concat es)) g s1 = g (concat (take d es @ ?t)) s1" for g
  proof (cases "d = ?l")
    case True
    have "take d es @ ?t = es" by (simp add: True)
    then show ?thesis using True by simp
  next
    case False
    have "max d ?l = d" using assms(10) by simp
    then show ?thesis using False assms(10) bnd_Done [of "move_bytes (256 * d) (256 * ?l) (int (length (concat es)) - int (256 * d)) (concat es)" s1,
        OF move_table [OF assms(1,10,11)]] by (simp add: bnd_assoc)
  qed
  have len: "length (take d es @ ?t) = length es" using assms(10,11) by simp
  have t: "table (take d es @ ?t)" using table_sub(1) [OF assms(1)] table_sub(1) [OF table_sub(2) [OF assms(1)]] by (simp only: table_sub(3) simp_thms)
  have "take (hd ms) (take d es @ ?t) = take (hd ms) es" "drop d (take d es @ ?t) = ?t" using assms(9,11) by (simp_all add: min_def)
  then have nw: "fis_new (hd ms) new lo (limit - lo) (concat (take d es @ ?t)) s1 = Some (Done b, s1)"
    using fis_new_table [OF t assms(12), of "hd ms" lo "limit - lo" s1] assms(9,11) len
    unfolding new_descs_map [OF assms(13)] assms(14) by simp
  show ?thesis
    unfolding run mv bnd_Done [of "fis_new (hd ms) new lo (limit - lo) (concat (take d es @ ?t))" s1, OF nw]
    by (simp add: bnd_call fis_close_def ret_def)
qed

text \<open>
  C40. If they need fewer entries, the tool writes behind the table: the rest of it is to be filled with
  \<open>0xff\<close>, but the difference for the length is taken in the wrong order.
\<close>

theorem fis_remap_shrink:
  assumes "table es" "fis_open K s = Some (Done (Some (fd, concat es)), s1)"
    and "ms = filter (\<lambda>j. replaced old (es ! j)) [0..<used es]" "ms \<noteq> []" "hd ms + length new \<le> last ms"
  shows "fis_remap K old new s = Some (Fault, s1)"
proof -
  let ?d = "hd ms + length new" and ?l = "last ms + 1"
  have "set ms \<subseteq> {..<used es}" unfolding assms(3) by auto
  then have l: "?l \<le> length es" using used_facts(1) [of es] assms(4) by (force dest: last_in_set)
  note run = fis_remap_scan [OF assms(1-4) refl refl refl refl refl refl]
  have mv: "\<exists>b. move_bytes (256 * ?d) (256 * ?l) (int (length (concat es)) - int (256 * ?l)) (concat es) s1 = Some (Done b, s1)"
    using l assms(5) by (simp add: move_bytes_def load_def store_def table_length [OF assms(1)] ret_def)
  then obtain b where b: "move_bytes (256 * ?d) (256 * ?l) (int (length (concat es)) - int (256 * ?l)) (concat es) s1 = Some (Done b, s1)" by blast
  have m: "max ?d ?l = ?l" "?d \<noteq> ?l" "?d < ?l" using assms(5) by simp_all
  have f: "bnd (fill_bytes x 0xFF (int y - int (256 * (?l - ?d)) - int y) b) g s1 = Some (Fault, s1)" for x y g
    using m(3) by (simp add: fill_bytes_def fault_def)
  show ?thesis
    unfolding run m(1) Let_def if_P [OF m(2)] if_P [OF m(3)] bnd_assoc
      bnd_Done [of "move_bytes (256 * ?d) (256 * ?l) (int (length (concat es)) - int (256 * ?l)) (concat es)" s1, OF b] by (rule f)
qed

section \<open>A table of three partitions\<close>

definition sample_name :: "u8 \<Rightarrow> bytes" where
  "sample_name n = n # replicate 15 0"

definition sample_entry :: "u8 \<Rightarrow> u32 \<Rightarrow> bytes" where
  "sample_entry n base = fis_image_desc (sample_name n) base 0 0x1000 0 0x1000 0 0"

definition sample_part :: "u8 \<Rightarrow> u32 \<Rightarrow> fis_part" where
  "sample_part n sz = \<lparr>fp_name = sample_name n, fp_offset = 0, fp_loadaddr = 0, fp_size = sz, fp_length = 0, fp_crc = 0\<rparr>"

definition sample_table :: "bytes list" where
  "sample_table = [sample_entry 1 0x1000, sample_entry 2 0x2000, sample_entry 3 0x8000, replicate 256 0xFF]"

definition fis_kern :: "sim kern" where
  "fis_kern = (sim_kern (\<lambda>_. False))\<lparr>k_getinfo := (\<lambda>fd k. (Some (sim_info\<lparr>info_erasesize := 1024\<rparr>), k)),
     k_mmap := (\<lambda>fd n k. (Some (concat sample_table), k))\<rparr>"

lemma sample_entry_facts [simp]:
  "length (sample_entry n base) = 256" "take 16 (sample_entry n base) = sample_name n" "hd (sample_entry n base) = n"
  "entry_base (sample_entry n base) = base"
proof -
  show "length (sample_entry n base) = 256" "take 16 (sample_entry n base) = sample_name n" "hd (sample_entry n base) = n"
    by (simp_all add: sample_entry_def fis_image_desc_def sample_name_def)
  have "buf_get 16 4 (sample_entry n base) = u32_bytes base @ []"
    by (simp add: sample_entry_def fis_image_desc_def sample_name_def buf_get_def)
  then show "entry_base (sample_entry n base) = base" unfolding entry_base_def by (simp only: bytes_u32_u32_bytes)
qed

lemma same_sample_name [simp]: "n \<noteq> 0 \<Longrightarrow> m \<noteq> 0 \<Longrightarrow> same_name (sample_name n) (sample_name m) = (n = m)"
  by (simp add: same_name_def sample_name_def)

lemma sample_table_facts:
  "table sample_table" "used sample_table = 3" "length sample_table = 4" "fis_entries (concat sample_table) = 4"
  by (simp_all add: table_def used_def sample_table_def in_use_def fis_entries_def)

lemma sample_open:
  "fis_open fis_kern s = Some (Done (Some (3, concat sample_table)), s\<lparr>mtdsize := 128, erasesize := 1024, mtdtype := 4\<rparr>)"
  by (simp add: fis_open_def mtd_check_open_def mtd_open_def bnd_call bnd_assoc fis_kern_def sim_info_def ret_def call_def
      dev_line_def scan_mtd_def Let_def split: option.split)

theorem fis_remap_table_witness:
  "\<exists>t. fis_remap fis_kern [sample_part 2 0] [sample_part 4 0x1000, sample_part 5 0] (sim_state [] []) = Some (Done 0, t) \<and>
     sim_data (kst t) = concat [sample_entry 1 0x1000, new_entry [sample_part 4 0x1000, sample_part 5 0] 0x2000 0x6000 0,
       new_entry [sample_part 4 0x1000, sample_part 5 0] 0x2000 0x6000 1, sample_entry 3 0x8000]"
proof -
  let ?old = "[sample_part 2 0]" and ?new = "[sample_part 4 0x1000, sample_part 5 0]"
  have ms: "filter (\<lambda>j. replaced ?old (sample_table ! j)) [0..<used sample_table] = [1]"
    unfolding sample_table_facts(2) by (simp add: upt_rec replaced_def sample_table_def sample_part_def)
  have bases: "map entry_base (take (used sample_table) sample_table) = [0x1000, 0x2000, 0x8000]"
    unfolding sample_table_facts(2) by (simp add: sample_table_def)
  have m: "fold max [0x1000, 0x2000, 0x8000 :: u32] 0 = 0x8000" by (simp add: max_def)
  have "{x \<in> set [0x1000, 0x2000, 0x8000 :: u32]. 0x2000 < x} = {0x8000}" by auto
  then have lim: "Min (insert (fold max [0x1000, 0x2000, 0x8000 :: u32] 0) {x \<in> set [0x1000, 0x2000, 0x8000]. 0x2000 < x}) = 0x8000"
    unfolding m by simp
  have e: "entry_base (sample_table ! Suc 0) = 0x2000" by (simp add: sample_table_def)
  let ?b = "concat [sample_entry 1 0x1000, new_entry ?new 0x2000 0x6000 0, new_entry ?new 0x2000 0x6000 1, sample_entry 3 0x8000]"
  have names: "\<forall>p\<in>set ?new. length (fp_name p) = 16" "\<forall>p\<in>set (butlast ?new). fp_size p \<noteq> 0"
    by (simp_all add: sample_part_def sample_name_def)
  have b: "?b = concat (take (hd [1]) sample_table @ map (new_entry ?new 0x2000 (0x8000 - 0x2000)) [0..<length ?new] @
      take (length sample_table - 3) (drop (last [1] + 1) sample_table))"
    by (simp add: sample_table_def upt_rec)
  have "fis_remap fis_kern ?old ?new (sim_state [] []) = Some (Done 0, (sim_state [] [])\<lparr>mtdsize := 128, erasesize := 1024, mtdtype := 4,
      kst := snd (k_close fis_kern 3 (snd (k_msync fis_kern 3 ?b (kst ((sim_state [] [])\<lparr>mtdsize := 128, erasesize := 1024, mtdtype := 4\<rparr>)))))\<rparr>)"
    by (rule fis_remap_table [OF sample_table_facts(1) sample_open ms [symmetric] _ bases [symmetric] _ _ lim [symmetric] _ _ _ names b])
      (simp_all add: e sample_table_facts)
  then show ?thesis by (simp add: fis_kern_def)
qed

theorem fis_remap_shrink_witness:
  "\<exists>t. fis_remap fis_kern [sample_part 1 0, sample_part 2 0] [sample_part 4 0] (sim_state [] []) = Some (Fault, t)"
proof -
  let ?old = "[sample_part 1 0, sample_part 2 0]"
  have ms: "filter (\<lambda>j. replaced ?old (sample_table ! j)) [0..<used sample_table] = [0, 1]"
    unfolding sample_table_facts(2) by (simp add: upt_rec replaced_def sample_table_def sample_part_def)
  have "fis_remap fis_kern ?old [sample_part 4 0] (sim_state [] []) =
      Some (Fault, (sim_state [] [])\<lparr>mtdsize := 128, erasesize := 1024, mtdtype := 4\<rparr>)"
    by (rule fis_remap_shrink [OF sample_table_facts(1) sample_open ms [symmetric]]) simp_all
  then show ?thesis by blast
qed

end
